(* ===== verification/FV_Prelude.thy ===== *)
theory FV_Prelude
  imports Complex_Main "HOL-Library.List_Lexorder"
begin

text \<open>
  What the components share: Python text as a list of code points with the string operations
  the scripts use (\<^verbatim>\<open>strip\<close>, \<^verbatim>\<open>splitlines\<close>, \<^verbatim>\<open>split\<close>,
  \<^verbatim>\<open>startswith\<close>, \<^verbatim>\<open>in\<close>, \<^verbatim>\<open>re.fullmatch\<close> on a character class), results with an
  error, and the list idioms \<^verbatim>\<open>dict.fromkeys\<close> and \<^verbatim>\<open>enumerate\<close>.
\<close>

named_theorems text_ops \<open>definitions of the string operations\<close>
named_theorems res_elims \<open>inversion of the result combinators\<close>

subsection \<open>Results\<close>

text \<open>A Python call that may raise: \<open>Inl\<close> carries what it raises, \<open>Inr\<close> what it returns.\<close>

fun rbind :: "'e + 'a \<Rightarrow> ('a \<Rightarrow> 'e + 'b) \<Rightarrow> 'e + 'b" where
  "rbind (Inl e) f = Inl e"
| "rbind (Inr a) f = f a"

lemma rbind_cong [fundef_cong]:
  "m = n \<Longrightarrow> (\<And>a. n = Inr a \<Longrightarrow> f a = g a) \<Longrightarrow> rbind m f = rbind n g"
  by (cases n) auto

definition require_that :: "bool \<Rightarrow> 'e \<Rightarrow> 'e + unit" where
  "require_that b e = (if b then Inr () else Inl e)"

fun traverse :: "('a \<Rightarrow> 'e + 'b) \<Rightarrow> 'a list \<Rightarrow> 'e + 'b list" where
  "traverse f [] = Inr []"
| "traverse f (x # xs) = rbind (f x) (\<lambda>y. rbind (traverse f xs) (\<lambda>ys. Inr (y # ys)))"

text \<open>Running the checks of a validator in source order; the first that raises wins.\<close>

fun gather :: "('e + 'd list) list \<Rightarrow> 'e + 'd list" where
  "gather [] = Inr []"
| "gather (c # cs) = rbind c (\<lambda>ds. rbind (gather cs) (\<lambda>es. Inr (ds @ es)))"

lemma rbind_Inr_iff [simp]: "rbind m f = Inr b \<longleftrightarrow> (\<exists>a. m = Inr a \<and> f a = Inr b)"
  by (cases m) auto

lemma rbind_Inl_iff: "rbind m f = Inl e \<longleftrightarrow> m = Inl e \<or> (\<exists>a. m = Inr a \<and> f a = Inl e)"
  by (cases m) auto

lemma require_that_Inr [simp]: "require_that b e = Inr u \<longleftrightarrow> b"
  by (simp add: require_that_def)

lemma require_that_True [simp]: "require_that True e = Inr ()"
  by (simp add: require_that_def)

lemma require_that_False [simp]: "require_that False e = Inl e"
  by (simp add: require_that_def)

lemma rbind_assoc: "rbind (rbind m f) g = rbind m (\<lambda>a. rbind (f a) g)"
  by (cases m) auto

lemma traverse_Inr_length: "traverse f xs = Inr ys \<Longrightarrow> length ys = length xs"
  by (induction xs arbitrary: ys) auto

lemma traverse_Inr_iff:
  "traverse f xs = Inr ys \<longleftrightarrow> list_all2 (\<lambda>x y. f x = Inr y) xs ys"
proof (induction xs arbitrary: ys)
  case Nil
  then show ?case by auto
next
  case (Cons x xs)
  then show ?case by (cases ys) auto
qed

lemma gather_Inr_Nil_iff: "gather cs = Inr [] \<longleftrightarrow> (\<forall>c \<in> set cs. c = Inr [])"
  by (induction cs) auto

lemma gather_append:
  "gather (xs @ ys) = rbind (gather xs) (\<lambda>a. rbind (gather ys) (\<lambda>b. Inr (a @ b)))"
  by (induction xs) (auto simp: rbind_assoc, (cases "gather ys"; simp))

subsection \<open>Text\<close>

type_synonym codepoint = int
type_synonym pystr = "codepoint list"

text \<open>A literal of the source, as the code points it holds.\<close>

definition str :: "string \<Rightarrow> pystr" where
  "str s = map of_char s"

lemma str_eq_iff [simp]: "str s = str t \<longleftrightarrow> s = t"
  unfolding str_def by (rule inj_map_eq_map) (rule inj_of_char)

lemma str_Nil_iff [simp]: "str s = [] \<longleftrightarrow> s = []" "[] = str s \<longleftrightarrow> s = []"
  by (auto simp: str_def)

lemma length_str [simp]: "length (str s) = length s"
  by (simp add: str_def)

lemma str_append: "str (s @ t) = str s @ str t"
  by (simp add: str_def)

definition starts_with :: "pystr \<Rightarrow> pystr \<Rightarrow> bool" where
  [text_ops]: "starts_with s p \<longleftrightarrow> take (length p) s = p"

definition ends_with :: "pystr \<Rightarrow> pystr \<Rightarrow> bool" where
  [text_ops]: "ends_with s q \<longleftrightarrow> length q \<le> length s \<and> drop (length s - length q) s = q"

fun contains :: "pystr \<Rightarrow> pystr \<Rightarrow> bool" where
  "contains p [] \<longleftrightarrow> p = []"
| "contains p (c # cs) \<longleftrightarrow> starts_with (c # cs) p \<or> contains p cs"

lemma starts_with_iff: "starts_with s p \<longleftrightarrow> (\<exists>r. s = p @ r)"
  unfolding starts_with_def by (metis append_eq_conv_conj append_take_drop_id)

lemma starts_with_append [simp]: "starts_with (p @ r) p"
  by (auto simp: starts_with_iff)

lemma ends_with_iff: "ends_with s q \<longleftrightarrow> (\<exists>r. s = r @ q)"
proof
  assume "ends_with s q"
  then have "s = take (length s - length q) s @ q"
    unfolding ends_with_def by (metis append_take_drop_id)
  then show "\<exists>r. s = r @ q" by blast
next
  assume "\<exists>r. s = r @ q"
  then show "ends_with s q" by (auto simp: ends_with_def)
qed

lemma contains_iff: "contains p s \<longleftrightarrow> (\<exists>a b. s = a @ p @ b)"
proof (induction s)
  case Nil
  then show ?case by simp
next
  case (Cons c cs)
  show ?case
  proof
    assume "contains p (c # cs)"
    then consider r where "c # cs = p @ r" | a b where "cs = a @ p @ b"
      using Cons by (auto simp: starts_with_iff)
    then show "\<exists>a b. c # cs = a @ p @ b"
      by cases (metis append_Nil, metis append_Cons)
  next
    assume "\<exists>a b. c # cs = a @ p @ b"
    then obtain a b where ab: "c # cs = a @ p @ b" by blast
    show "contains p (c # cs)"
    proof (cases a)
      case Nil
      with ab have "starts_with (c # cs) p" by (auto simp: starts_with_iff)
      then show ?thesis by simp
    next
      case (Cons x a')
      with ab have "cs = a' @ p @ b" by simp
      then show ?thesis using Cons.IH by auto
    qed
  qed
qed

text \<open>\<^verbatim>\<open>str.isspace\<close> on one code point, and \<^verbatim>\<open>str.strip\<close>.\<close>

definition py_space :: "codepoint \<Rightarrow> bool" where
  [text_ops]: "py_space c \<longleftrightarrow> (9 \<le> c \<and> c \<le> 13) \<or> (28 \<le> c \<and> c \<le> 32) \<or> c = 133 \<or> c = 160 \<or> c = 5760 \<or>
     (8192 \<le> c \<and> c \<le> 8202) \<or> c = 8232 \<or> c = 8233 \<or> c = 8239 \<or> c = 8287 \<or> c = 12288"

definition lstrip :: "pystr \<Rightarrow> pystr" where
  "lstrip s = dropWhile py_space s"

definition rstrip :: "pystr \<Rightarrow> pystr" where
  "rstrip s = rev (dropWhile py_space (rev s))"

definition strip :: "pystr \<Rightarrow> pystr" where
  "strip s = rstrip (lstrip s)"

definition blank :: "pystr \<Rightarrow> bool" where
  "blank s \<longleftrightarrow> strip s = []"

lemma strip_Nil [simp]: "strip [] = []"
  by (simp add: strip_def lstrip_def rstrip_def)

lemma blank_Nil [simp]: "blank []"
  by (simp add: blank_def)

lemma strip_id:
  assumes "s = [] \<or> \<not> py_space (hd s) \<and> \<not> py_space (last s)"
  shows "strip s = s"
proof (cases s)
  case Nil
  then show ?thesis by (simp add: strip_def lstrip_def rstrip_def)
next
  case (Cons c cs)
  with assms have hd: "\<not> py_space c" and lst: "\<not> py_space (last s)" by auto
  from hd Cons have l: "lstrip s = s" by (simp add: lstrip_def)
  from lst Cons have "dropWhile py_space (rev s) = rev s"
    by (metis dropWhile_eq_self_iff hd_rev)
  then show ?thesis by (simp add: strip_def l rstrip_def)
qed

lemma dropWhile_hd_not: "dropWhile P xs \<noteq> [] \<Longrightarrow> \<not> P (hd (dropWhile P xs))"
  by (rule hd_dropWhile) (auto simp: dropWhile_eq_Nil_conv)

lemma last_rstrip: "rstrip s \<noteq> [] \<Longrightarrow> \<not> py_space (last (rstrip s))"
  unfolding rstrip_def using dropWhile_hd_not [of py_space "rev s"] by (simp add: last_rev)

lemma rstrip_prefix: "\<exists>r. s = rstrip s @ r"
proof -
  have "rev s = takeWhile py_space (rev s) @ dropWhile py_space (rev s)" by simp
  then have "s = rev (dropWhile py_space (rev s)) @ rev (takeWhile py_space (rev s))"
    by (metis rev_append rev_rev_ident)
  then show ?thesis unfolding rstrip_def by blast
qed

lemma hd_strip: "strip s \<noteq> [] \<Longrightarrow> \<not> py_space (hd (strip s))"
proof -
  assume ne: "strip s \<noteq> []"
  obtain r where r: "lstrip s = rstrip (lstrip s) @ r" using rstrip_prefix by blast
  from ne r have "hd (strip s) = hd (lstrip s)" and "lstrip s \<noteq> []"
    unfolding strip_def by (metis hd_append2, auto)
  then show ?thesis unfolding lstrip_def by (metis dropWhile_hd_not)
qed

lemma last_strip: "strip s \<noteq> [] \<Longrightarrow> \<not> py_space (last (strip s))"
  unfolding strip_def by (rule last_rstrip)

lemma strip_strip [simp]: "strip (strip s) = strip s"
  by (rule strip_id) (use hd_strip last_strip in blast)

lemma set_strip: "set (strip s) \<subseteq> set s"
  unfolding strip_def rstrip_def lstrip_def
  by (auto dest!: set_dropWhileD)

lemma length_strip: "length (strip s) \<le> length s"
  unfolding strip_def rstrip_def lstrip_def
  using length_dropWhile_le [of py_space "rev (dropWhile py_space s)"] length_dropWhile_le [of py_space s]
  by simp

text \<open>\<^verbatim>\<open>str.splitlines\<close>: every terminator Python honours, CR LF as one.\<close>

definition line_break :: "codepoint \<Rightarrow> bool" where
  [text_ops]: "line_break c \<longleftrightarrow> (10 \<le> c \<and> c \<le> 13) \<or> (28 \<le> c \<and> c \<le> 30) \<or> c = 133 \<or> c = 8232 \<or> c = 8233"

fun splitlines_from :: "pystr \<Rightarrow> pystr \<Rightarrow> pystr list" where
  "splitlines_from acc [] = (if acc = [] then [] else [rev acc])"
| "splitlines_from acc (c # cs) =
     (if c = 13 \<and> take 1 cs = [10] then rev acc # splitlines_from [] (drop 1 cs)
      else if line_break c then rev acc # splitlines_from [] cs
      else splitlines_from (c # acc) cs)"

definition splitlines :: "pystr \<Rightarrow> pystr list" where
  "splitlines s = splitlines_from [] s"

text \<open>\<^verbatim>\<open>str.split()\<close>\<close>

fun py_words :: "pystr \<Rightarrow> pystr \<Rightarrow> pystr list" where
  "py_words acc [] = (if acc = [] then [] else [rev acc])"
| "py_words acc (c # cs) =
     (if py_space c then (if acc = [] then py_words [] cs else rev acc # py_words [] cs)
      else py_words (c # acc) cs)"

text \<open>\<^verbatim>\<open>str.split(sep)\<close> for a one-character separator.\<close>

fun split_on :: "codepoint \<Rightarrow> pystr \<Rightarrow> pystr list" where
  "split_on sep [] = [[]]"
| "split_on sep (c # cs) =
     (if c = sep then [] # split_on sep cs
      else case split_on sep cs of [] \<Rightarrow> [[c]] | w # ws \<Rightarrow> (c # w) # ws)"

lemma split_on_ne [simp]: "split_on sep s \<noteq> []"
  by (induction s) (auto split: list.splits)

fun join :: "pystr \<Rightarrow> pystr list \<Rightarrow> pystr" where
  "join sep [] = []"
| "join sep [w] = w"
| "join sep (w # ws) = w @ sep @ join sep ws"

lemma join_Cons: "ws \<noteq> [] \<Longrightarrow> join sep (w # ws) = w @ sep @ join sep ws"
  by (cases ws) auto

lemma join_split_on [simp]: "join [sep] (split_on sep s) = s"
proof (induction s)
  case Nil
  then show ?case by simp
next
  case (Cons c cs)
  obtain w ws where w: "split_on sep cs = w # ws" by (meson neq_Nil_conv split_on_ne)
  show ?case
  proof (cases "c = sep")
    case True
    then show ?thesis using Cons by (simp add: join_Cons)
  next
    case False
    with Cons w show ?thesis by (cases ws) auto
  qed
qed

lemma split_on_no_sep: "w \<in> set (split_on sep s) \<Longrightarrow> sep \<notin> set w"
proof (induction s arbitrary: w)
  case (Cons c cs)
  then show ?case by (force split: if_splits list.splits)
qed simp

lemma split_on_clean [simp]: "sep \<notin> set w \<Longrightarrow> split_on sep w = [w]"
  by (induction w) auto

lemma split_on_append_sep: "split_on sep (w @ sep # s) = split_on sep w @ split_on sep s"
proof (induction w)
  case Nil
  then show ?case by simp
next
  case (Cons c cs)
  then show ?case by (cases "split_on sep cs") (auto split: list.splits)
qed

text \<open>\<^verbatim>\<open>re.fullmatch\<close> of \<^verbatim>\<open>[A-Za-z0-9][A-Za-z0-9...]*\<close>, the id grammars of the scripts.\<close>

definition ascii_alnum :: "codepoint \<Rightarrow> bool" where
  [text_ops]: "ascii_alnum c \<longleftrightarrow> (48 \<le> c \<and> c \<le> 57) \<or> (65 \<le> c \<and> c \<le> 90) \<or> (97 \<le> c \<and> c \<le> 122)"

definition id_match :: "pystr \<Rightarrow> pystr \<Rightarrow> bool" where
  [text_ops]: "id_match extra s \<longleftrightarrow> (case s of [] \<Rightarrow> False
     | c # cs \<Rightarrow> ascii_alnum c \<and> list_all (\<lambda>d. ascii_alnum d \<or> List.member extra d) cs)"

definition hex_digit :: "codepoint \<Rightarrow> bool" where
  [text_ops]: "hex_digit c \<longleftrightarrow> (48 \<le> c \<and> c \<le> 57) \<or> (97 \<le> c \<and> c \<le> 102)"

definition hex64 :: "pystr \<Rightarrow> bool" where
  [text_ops]: "hex64 s \<longleftrightarrow> length s = 64 \<and> list_all hex_digit s"

lemma id_match_Nil [simp]: "\<not> id_match extra []"
  by (simp add: id_match_def)

lemma join_append:
  "xs \<noteq> [] \<Longrightarrow> ys \<noteq> [] \<Longrightarrow> join sep (xs @ ys) = join sep xs @ sep @ join sep ys"
proof (induction xs)
  case (Cons w xs)
  then show ?case by (cases "xs = []") (simp_all add: join_Cons)
qed simp

text \<open>The characters of \<^verbatim>\<open>\w\<close>; which of those above 127 are is a parameter.\<close>

definition word_char :: "(codepoint \<Rightarrow> bool) \<Rightarrow> codepoint \<Rightarrow> bool" where
  "word_char w c \<longleftrightarrow> ascii_alnum c \<or> c = 95 \<or> 127 < c \<and> w c"

definition word_first :: "(codepoint \<Rightarrow> bool) \<Rightarrow> pystr \<Rightarrow> bool" where
  "word_first w s \<longleftrightarrow> s \<noteq> [] \<and> word_char w (hd s)"

text \<open>\<^verbatim>\<open>str(i)\<close> of an integer; the fuel is a bound on the number of digits.\<close>

fun digits_of :: "nat \<Rightarrow> int \<Rightarrow> pystr" where
  "digits_of 0 i = []"
| "digits_of (Suc k) i = (if i < 10 then [48 + i] else digits_of k (i div 10) @ [48 + i mod 10])"

definition decimal :: "int \<Rightarrow> pystr" where
  "decimal i = (if i < 0 then 45 # digits_of (Suc (nat (- i))) (- i) else digits_of (Suc (nat i)) i)"

subsection \<open>List idioms\<close>

text \<open>\<^verbatim>\<open>list(dict.fromkeys(xs))\<close>: the first occurrence of each element, in order.\<close>

fun dedupe_from :: "'a list \<Rightarrow> 'a list \<Rightarrow> 'a list" where
  "dedupe_from seen [] = []"
| "dedupe_from seen (x # xs) =
     (if x \<in> set seen then dedupe_from seen xs else x # dedupe_from (x # seen) xs)"

definition dedupe :: "'a list \<Rightarrow> 'a list" where
  "dedupe xs = dedupe_from [] xs"

lemma set_dedupe_from: "set (dedupe_from seen xs) = set xs - set seen"
  by (induction xs arbitrary: seen) auto

lemma set_dedupe [simp]: "set (dedupe xs) = set xs"
  by (simp add: dedupe_def set_dedupe_from)

lemma distinct_dedupe_from: "distinct (dedupe_from seen xs)"
  by (induction xs arbitrary: seen) (auto simp: set_dedupe_from)

lemma distinct_dedupe [simp]: "distinct (dedupe xs)"
  by (simp add: dedupe_def distinct_dedupe_from)

lemma dedupe_from_distinct:
  "distinct xs \<Longrightarrow> set xs \<inter> set seen = {} \<Longrightarrow> dedupe_from seen xs = xs"
  by (induction xs arbitrary: seen) auto

lemma dedupe_distinct: "distinct xs \<Longrightarrow> dedupe xs = xs"
  by (simp add: dedupe_def dedupe_from_distinct)

text \<open>\<^verbatim>\<open>sorted(set(xs))\<close>.\<close>

definition sorted_set :: "'a::linorder list \<Rightarrow> 'a list" where
  "sorted_set xs = sort (remdups xs)"

lemma set_sorted_set [simp]: "set (sorted_set xs) = set xs"
  by (simp add: sorted_set_def)

lemma sorted_set_strict [simp]: "sorted (sorted_set xs)" "distinct (sorted_set xs)"
  by (simp_all add: sorted_set_def)

lemma sorted_set_cong: "set xs = set ys \<Longrightarrow> sorted_set xs = sorted_set ys"
  by (metis set_sorted_set sorted_distinct_set_unique sorted_set_strict)

lemma sorted_set_Nil_iff [simp]: "sorted_set xs = [] \<longleftrightarrow> xs = []"
  by (metis set_empty set_sorted_set)

text \<open>\<^verbatim>\<open>sorted({x for x in xs if xs.count(x) > 1})\<close>.\<close>

definition repeated :: "'a::linorder list \<Rightarrow> 'a list" where
  "repeated xs = sorted_set (filter (\<lambda>x. 1 < length (filter (\<lambda>y. y = x) xs)) xs)"

lemma repeated_Nil_iff: "repeated xs = [] \<longleftrightarrow> distinct xs"
proof
  assume none: "repeated xs = []"
  show "distinct xs"
  proof (rule ccontr)
    assume "\<not> distinct xs"
    then obtain us vs ws y where "xs = us @ [y] @ vs @ [y] @ ws" using not_distinct_decomp by blast
    then have "y \<in> set xs" "1 < length (filter (\<lambda>x. x = y) xs)" by simp_all
    with none show False by (simp add: repeated_def filter_empty_conv)
  qed
next
  have once: "length (filter (\<lambda>y. y = x) ys) \<le> 1" if "distinct ys" for x and ys :: "'a list"
    using that
  proof (induction ys)
    case (Cons y ys)
    then show ?case by (cases "y = x") (auto simp: filter_empty_conv)
  qed simp
  assume "distinct xs"
  then show "repeated xs = []" using once by (simp add: repeated_def filter_empty_conv not_less)
qed

lemma takeWhile_until: "x \<notin> set n \<Longrightarrow> takeWhile (\<lambda>c. c \<noteq> x) (n @ x # r) = n"
  by (induction n) auto

lemma list_all2_partner: "list_all2 P xs ys \<Longrightarrow> x \<in> set xs \<Longrightarrow> \<exists>y \<in> set ys. P x y"
  by (induction rule: list_all2_induct) auto

subsection \<open>Texts of lines\<close>

lemma str_Nil: "str [] = []"
  by (simp add: str_def)

abbreviation one_line :: "pystr \<Rightarrow> bool" where
  "one_line s \<equiv> list_all (\<lambda>c. \<not> line_break c) s"

lemma line_break_space: "line_break c \<Longrightarrow> py_space c"
  unfolding line_break_def py_space_def by presburger

lemma line_break_10 [simp]: "line_break 10" "line_break 13"
  by (simp_all add: line_break_def)

lemma splitlines_first_line:
  "one_line l \<Longrightarrow> splitlines_from acc (l @ 10 # s) = (rev acc @ l) # splitlines s"
proof (induction l arbitrary: acc)
  case (Cons c l)
  then have "c \<noteq> 13" by auto
  with Cons show ?case by simp
qed (simp add: splitlines_def)

lemma splitlines_from_last: "one_line l \<Longrightarrow> splitlines_from acc l = (if acc = [] \<and> l = [] then [] else [rev acc @ l])"
proof (induction l arbitrary: acc)
  case (Cons c l)
  then have "c \<noteq> 13" by auto
  with Cons show ?case by simp
qed simp

lemma splitlines_line: "one_line l \<Longrightarrow> splitlines (l @ 10 # s) = l # splitlines s"
  using splitlines_first_line [of l "[]" s] by (simp add: splitlines_def)

lemma splitlines_one_line: "one_line l \<Longrightarrow> l \<noteq> [] \<Longrightarrow> splitlines l = [l]"
  by (simp add: splitlines_def splitlines_from_last)

lemma splitlines_lines: "l \<in> set (splitlines_from acc s) \<Longrightarrow> one_line (rev acc) \<Longrightarrow> one_line l"
proof (induction acc s rule: splitlines_from.induct)
  case (2 acc c cs)
  then show ?case by (auto split: if_splits)
qed (auto split: if_splits)

lemma splitlines_clean: "l \<in> set (splitlines s) \<Longrightarrow> one_line l"
  using splitlines_lines [of l "[]" s] by (simp add: splitlines_def)

lemma splitlines_join:
  "list_all one_line ls \<Longrightarrow> one_line l \<Longrightarrow> l \<noteq> [] \<Longrightarrow> splitlines (join [10] (ls @ [l])) = ls @ [l]"
proof (induction ls)
  case (Cons k ls)
  then have "splitlines (join [10] (k # ls @ [l])) = splitlines (k @ 10 # join [10] (ls @ [l]))"
    by (simp add: join_Cons)
  with Cons show ?case by (simp add: splitlines_line)
qed (simp add: splitlines_one_line)

end
