(* ===== verification/Utf8.thy ===== *)
theory Utf8
  imports FV_Prelude
begin

text \<open>
  \<^verbatim>\<open>str.encode("utf-8")\<close>, which the snapshot order (\<^verbatim>\<open>fv_project.order_inputs\<close>),
  the snapshot bytes and the canonical v4 encoding rest on. The encoding of a code point is
  never a prefix of another one's, and it orders as the code points do; so the byte-wise
  order of encoded text is the code-point order, and encoding is injective.
\<close>

definition code_ok :: "codepoint \<Rightarrow> bool" where
  "code_ok c \<longleftrightarrow> 0 \<le> c \<and> c < 1114112"

definition surrogate :: "codepoint \<Rightarrow> bool" where
  "surrogate c \<longleftrightarrow> 55296 \<le> c \<and> c \<le> 57343"

definition utf8_code :: "codepoint \<Rightarrow> int list" where
  "utf8_code c =
     (if c < 128 then [c]
      else if c < 2048 then [192 + c div 64, 128 + c mod 64]
      else if c < 65536 then [224 + c div 4096, 128 + c div 64 mod 64, 128 + c mod 64]
      else [240 + c div 262144, 128 + c div 4096 mod 64, 128 + c div 64 mod 64, 128 + c mod 64])"

definition utf8 :: "pystr \<Rightarrow> int list" where
  "utf8 s = concat (map utf8_code s)"

lemma utf8_Nil [simp]: "utf8 [] = []"
  by (simp add: utf8_def)

lemma utf8_Cons: "utf8 (c # s) = utf8_code c @ utf8 s"
  by (simp add: utf8_def)

lemma utf8_append: "utf8 (s @ t) = utf8 s @ utf8 t"
  by (simp add: utf8_def)

lemma utf8_code_ne [simp]: "utf8_code c \<noteq> []"
  by (simp add: utf8_code_def)

lemma utf8_Nil_iff [simp]: "utf8 s = [] \<longleftrightarrow> s = []"
  by (cases s) (auto simp: utf8_Cons)

lemma utf8_ascii: "list_all (\<lambda>c. c < 128) s \<Longrightarrow> utf8 s = s"
  by (induction s) (auto simp: utf8_Cons utf8_code_def)

text \<open>Two byte lists that part at a position where the left one is smaller.\<close>

fun parts_below :: "int list \<Rightarrow> int list \<Rightarrow> bool" where
  "parts_below (a # as) (b # bs) \<longleftrightarrow> a < b \<or> (a = b \<and> parts_below as bs)"
| "parts_below _ _ \<longleftrightarrow> False"

lemma parts_below_append: "parts_below as bs \<Longrightarrow> parts_below (as @ xs) (bs @ ys)"
  by (induction as bs rule: parts_below.induct) auto

lemma append_less_cancel: "(xs :: int list) @ ys < xs @ zs \<longleftrightarrow> ys < zs"
  by (induction xs) auto

lemma parts_below_less: "parts_below as bs \<Longrightarrow> as < bs"
  by (induction as bs rule: parts_below.induct) auto

lemma div_mod_less:
  fixes c d :: int
  assumes "c < d" "c div 64 = d div 64"
  shows "c mod 64 < d mod 64"
  using assms by (metis add_less_cancel_left mult_div_mod_eq)

lemma utf8_code_mono:
  assumes "0 \<le> c" "c < d" "d < 1114112"
  shows "parts_below (utf8_code c) (utf8_code d)"
proof -
  have "c div 64 \<le> d div 64" "c div 4096 \<le> d div 4096" "c div 262144 \<le> d div 262144"
    using assms(2) by (auto intro: zdiv_mono1)
  then have m1: "c div 64 < d div 64 \<or> c div 64 = d div 64"
    and m2: "c div 4096 < d div 4096 \<or> c div 4096 = d div 4096"
    and m3: "c div 262144 < d div 262144 \<or> c div 262144 = d div 262144"
    by (simp_all only: order_le_less)
  have q: "x div 4096 = x div 64 div 64" "x div 262144 = x div 64 div 64 div 64" for x :: int
    by (simp_all add: div_mult2_eq [symmetric])
  have s1: "c div 64 = d div 64 \<Longrightarrow> c mod 64 < d mod 64"
    using assms(2) by (rule div_mod_less)
  have s2: "c div 4096 = d div 4096 \<Longrightarrow> c div 64 \<noteq> d div 64 \<Longrightarrow> c div 64 mod 64 < d div 64 mod 64"
    using m1 m2 div_mod_less [of "c div 64" "d div 64"] \<open>c div 64 \<le> d div 64\<close>
    by (simp only: q order_le_less) blast
  have s3: "c div 262144 = d div 262144 \<Longrightarrow> c div 4096 \<noteq> d div 4096 \<Longrightarrow>
      c div 4096 mod 64 < d div 4096 mod 64"
    using m2 div_mod_less [of "c div 4096" "d div 4096"] \<open>c div 4096 \<le> d div 4096\<close>
    by (simp only: q order_le_less) blast
  have e2: "c div 64 = d div 64 \<Longrightarrow> c div 4096 = d div 4096"
    and e3: "c div 4096 = d div 4096 \<Longrightarrow> c div 262144 = d div 262144"
    by (simp_all only: q)
  have e4: "c div 64 = d div 64 \<Longrightarrow> c div 64 mod 64 = d div 64 mod 64"
    and e5: "c div 4096 = d div 4096 \<Longrightarrow> c div 4096 mod 64 = d div 4096 mod 64"
    by (simp_all only:)
  note cancel = parts_below.simps add_less_cancel_left add_left_cancel
  consider "d < 128" | "c < 128" "128 \<le> d" | "128 \<le> c" "d < 2048" | "128 \<le> c" "c < 2048" "2048 \<le> d"
    | "2048 \<le> c" "d < 65536" | "2048 \<le> c" "c < 65536" "65536 \<le> d" | "65536 \<le> c"
    using assms by linarith
  then show ?thesis
  proof cases
    case 1 then show ?thesis using assms by (simp add: utf8_code_def)
  next
    case 2
    have "0 \<le> d div 64" "0 \<le> d div 4096" "0 \<le> d div 262144" using 2 by simp_all
    then show ?thesis using 2 assms by (simp add: utf8_code_def)
  next
    case 3
    then have c: "utf8_code c = [192 + c div 64, 128 + c mod 64]"
      and d: "utf8_code d = [192 + d div 64, 128 + d mod 64]"
      using assms by (simp_all add: utf8_code_def)
    show ?thesis unfolding c d cancel using m1 s1 by blast
  next
    case 4
    have "c div 64 < 32" "0 \<le> d div 4096" "0 \<le> d div 262144" using 4 by simp_all
    then show ?thesis using 4 assms by (simp add: utf8_code_def)
  next
    case 5
    then have c: "utf8_code c = [224 + c div 4096, 128 + c div 64 mod 64, 128 + c mod 64]"
      and d: "utf8_code d = [224 + d div 4096, 128 + d div 64 mod 64, 128 + d mod 64]"
      using assms by (simp_all add: utf8_code_def)
    show ?thesis unfolding c d cancel using m2 s1 s2 e4 by blast
  next
    case 6
    have "c div 4096 < 16" "0 \<le> d div 262144" using 6 by simp_all
    then show ?thesis using 6 assms by (simp add: utf8_code_def)
  next
    case 7
    then have c: "utf8_code c =
        [240 + c div 262144, 128 + c div 4096 mod 64, 128 + c div 64 mod 64, 128 + c mod 64]"
      and d: "utf8_code d =
        [240 + d div 262144, 128 + d div 4096 mod 64, 128 + d div 64 mod 64, 128 + d mod 64]"
      using assms by (simp_all add: utf8_code_def)
    show ?thesis unfolding c d cancel using m3 s1 s2 s3 e4 e5 by blast
  qed
qed

lemma list_all_code_ok_Cons: "list_all code_ok (c # s) \<longleftrightarrow> 0 \<le> c \<and> c < 1114112 \<and> list_all code_ok s"
  by (simp add: code_ok_def)

text \<open>Byte order is code-point order.\<close>

lemma utf8_less:
  assumes "list_all code_ok s" "list_all code_ok t" "s < t"
  shows "utf8 s < utf8 t"
  using assms
proof (induction s arbitrary: t)
  case Nil
  then have "t \<noteq> []" by auto
  then have "utf8 t \<noteq> []" by simp
  then show ?case by (cases "utf8 t") auto
next
  case (Cons c s)
  obtain d t' where t: "t = d # t'" using Cons.prems(3) by (cases t) auto
  show ?case
  proof (cases "c = d")
    case True
    with Cons t have "utf8 s < utf8 t'" by auto
    with True t show ?thesis by (simp add: utf8_Cons append_less_cancel)
  next
    case False
    with Cons.prems(3) t have "c < d" by auto
    with Cons.prems t have "parts_below (utf8_code c) (utf8_code d)"
      by (intro utf8_code_mono) (auto simp: code_ok_def)
    then show ?thesis using t by (simp add: utf8_Cons parts_below_append parts_below_less)
  qed
qed

lemma utf8_less_iff:
  assumes "list_all code_ok s" "list_all code_ok t"
  shows "utf8 s < utf8 t \<longleftrightarrow> s < t"
  using utf8_less [OF assms] utf8_less [OF assms(2,1)] by (metis less_asym linorder_neqE)

lemma utf8_inj:
  assumes "list_all code_ok s" "list_all code_ok t" "utf8 s = utf8 t"
  shows "s = t"
  using assms utf8_less by (metis less_irrefl linorder_neqE)

lemma utf8_le_iff:
  assumes "list_all code_ok s" "list_all code_ok t"
  shows "utf8 s \<le> utf8 t \<longleftrightarrow> s \<le> t"
  using utf8_less_iff [OF assms(2,1)] by (metis not_less)

text \<open>A byte below 128 in an encoding is the code point itself.\<close>

lemma shifted_nonneg: "0 \<le> (x::int) \<Longrightarrow> 128 \<le> k \<Longrightarrow> 128 \<le> k + x"
  by simp

lemma utf8_code_high: "128 \<le> c \<Longrightarrow> list_all (\<lambda>b. 128 \<le> b) (utf8_code c)"
  unfolding utf8_code_def
  by (simp add: shifted_nonneg pos_imp_zdiv_nonneg_iff del: add_le_cancel_left)

lemma utf8_ascii_byte: "b < 128 \<Longrightarrow> b \<in> set (utf8 s) \<Longrightarrow> b \<in> set s"
proof (induction s)
  case (Cons c s)
  have "b \<in> set (utf8_code c) \<Longrightarrow> b = c"
  proof (cases "c < 128")
    case True
    then show "b \<in> set (utf8_code c) \<Longrightarrow> b = c" by (simp add: utf8_code_def)
  next
    case False
    then have "list_all (\<lambda>b. 128 \<le> b) (utf8_code c)" by (intro utf8_code_high) simp
    then show "b \<in> set (utf8_code c) \<Longrightarrow> b = c" using Cons.prems(1) by (auto simp: list_all_iff)
  qed
  with Cons show ?case by (auto simp: utf8_Cons)
qed simp

text \<open>\<^verbatim>\<open>sorted(names, key=utf8)\<close> is plain sorting.\<close>

lemma insort_key_agrees:
  "(\<And>y. y \<in> set ys \<Longrightarrow> f x \<le> f y \<longleftrightarrow> x \<le> y) \<Longrightarrow> insort_key f x ys = insort x ys"
  by (induction ys) auto

lemma sort_key_utf8:
  "list_all (list_all code_ok) xs \<Longrightarrow> sort_key utf8 xs = sort xs"
proof (induction xs)
  case (Cons x xs)
  have "insort_key utf8 x (sort xs) = insort x (sort xs)"
    by (rule insort_key_agrees) (use Cons.prems in \<open>auto simp: list_all_iff utf8_le_iff\<close>)
  with Cons show ?case by simp
qed simp

end
