(* ===== verification/Input_Policy.thy ===== *)
theory Input_Policy
  imports Utf8
begin

text \<open>
  The verified-input policy of \<^verbatim>\<open>scripts/fv_project.py\<close>: the parser of
  \<^verbatim>\<open>.fv/verified-inputs.txt\<close>, its renderer, path matching and selection, beside the
  producer's own parser in \<^verbatim>\<open>tools/evidence-run.ts\<close>, which must read every policy
  text the same way. An error carries the line number and the offending text the message
  quotes.
\<close>

subsection \<open>Data\<close>

datatype policy_mode = Exclude | Include

datatype policy_error =
    AmbiguousTerminator nat codepoint
  | ByteOrderMark nat
  | ControlCharacter nat codepoint
  | LateDirective nat
  | UnknownMode nat pystr
  | WholeProject nat policy_mode
  | AbsoluteEntry nat pystr
  | EntryEscapes nat pystr
  | IncludeNamesNoPath
  | NotExclusionMode policy_mode

record input_policy =
  mode :: policy_mode
  prefixes :: "pystr list"
  structural :: "pystr list"

definition default_exclusions :: "pystr list" where
  "default_exclusions = map str
     [''.fv/evidence/'', ''.fv/verify/'', ''.fv/panels/'', ''.fv/changes/'', ''.fv/attacks/'',
      ''.fv/code-adversarial/'', ''.fv/history/'', ''.fv/.migrate-staging/'', ''.colosseum/'']"

definition verified_inputs_relative :: pystr where
  "verified_inputs_relative = str ''.fv/verified-inputs.txt''"

definition ambiguous_line_chars :: "codepoint list" where
  "ambiguous_line_chars = [11, 12, 28, 29, 30, 133, 8232, 8233]"

definition bom_char :: codepoint where
  "bom_char = 65279"

text \<open>The dataclass constructor with its \<^verbatim>\<open>__post_init__\<close>; the mode is one of the two
  constructors, so the unknown-mode rejection is left to the parser.\<close>

definition make_policy :: "policy_mode \<Rightarrow> pystr list \<Rightarrow> pystr list \<Rightarrow> policy_error + input_policy" where
  "make_policy m ps st =
     (if m = Include \<and> ps = [] then Inl IncludeNamesNoPath
      else Inr \<lparr>mode = m, prefixes = ps, structural = st\<rparr>)"

subsection \<open>Paths\<close>

text \<open>\<^verbatim>\<open>PurePosixPath(s).parts\<close> without the root: empty and dot components are dropped.\<close>

definition slash :: codepoint where
  "slash = 47"

definition components :: "pystr \<Rightarrow> pystr list" where
  "components s = filter (\<lambda>w. w \<noteq> [] \<and> w \<noteq> str ''.'') (split_on slash s)"

definition is_absolute :: "pystr \<Rightarrow> bool" where
  "is_absolute s \<longleftrightarrow> starts_with s (str ''/'')"

lemma dotdot_in_components [simp]:
  "str ''..'' \<in> set (components s) \<longleftrightarrow> str ''..'' \<in> set (split_on slash s)"
  by (auto simp: components_def)

subsection \<open>Parsing\<close>

definition is_control :: "codepoint \<Rightarrow> bool" where
  "is_control c \<longleftrightarrow> c \<le> 31 \<or> (127 \<le> c \<and> c \<le> 159)"

fun reject_ambiguous_characters :: "nat \<Rightarrow> pystr \<Rightarrow> policy_error + unit" where
  "reject_ambiguous_characters n [] = Inr ()"
| "reject_ambiguous_characters n (c # cs) =
     (if c = 10 then reject_ambiguous_characters (Suc n) cs
      else if c = 13 \<and> take 1 cs = [10] then reject_ambiguous_characters n cs
      else if c \<in> set ambiguous_line_chars \<or> c = 13 then Inl (AmbiguousTerminator n c)
      else if c = bom_char then Inl (ByteOrderMark n)
      else if is_control c then Inl (ControlCharacter n c)
      else reject_ambiguous_characters n cs)"

definition ascii_lower :: "codepoint \<Rightarrow> codepoint" where
  "ascii_lower c = (if 65 \<le> c \<and> c \<le> 90 then c + 32 else c)"

text \<open>\<^verbatim>\<open>str.lower\<close> is compared with \<^verbatim>\<open>"mode:"\<close> only, and no code point outside ASCII
  lowers to one of its letters, so the ASCII part of it decides.\<close>

definition directive_value :: "pystr \<Rightarrow> pystr option" where
  "directive_value line =
     (if map ascii_lower (take 5 line) \<noteq> str ''mode:'' then None else Some (strip (drop 5 line)))"

definition mode_name :: "policy_mode \<Rightarrow> pystr" where
  "mode_name m = (case m of Exclude \<Rightarrow> str ''exclude'' | Include \<Rightarrow> str ''include'')"

definition mode_of :: "pystr \<Rightarrow> policy_mode option" where
  "mode_of v = (if v = str ''exclude'' then Some Exclude
     else if v = str ''include'' then Some Include else None)"

definition mode_directive :: "policy_mode \<Rightarrow> pystr" where
  "mode_directive m = str ''mode: '' @ mode_name m"

type_synonym parse_state = "policy_mode option \<times> pystr list"

abbreviation declared_mode :: "policy_mode option \<Rightarrow> policy_mode" where
  "declared_mode m \<equiv> (case m of None \<Rightarrow> Exclude | Some md \<Rightarrow> md)"

text \<open>One pass of the loop over the stripped lines: skip, directive, or path entry.\<close>

definition parse_entry :: "nat \<Rightarrow> pystr \<Rightarrow> parse_state \<Rightarrow> policy_error + parse_state" where
  "parse_entry n line st = (case st of (m, ps) \<Rightarrow>
     if line = [] \<or> starts_with line (str ''#'') then Inr st
     else case directive_value line of
       Some v \<Rightarrow>
         if m \<noteq> None \<or> ps \<noteq> [] then Inl (LateDirective n)
         else (case mode_of v of None \<Rightarrow> Inl (UnknownMode n v) | Some md \<Rightarrow> Inr (Some md, ps))
     | None \<Rightarrow>
        (let md = declared_mode m;
             e = (if starts_with line (str ''./'') then drop 2 line else line)
         in if e = [] \<or> e = str ''.'' \<or> e = str ''/'' then Inl (WholeProject n md)
            else if is_absolute e then Inl (AbsoluteEntry n e)
            else if str ''..'' \<in> set (components e) then Inl (EntryEscapes n e)
            else Inr (Some md, if e \<in> set ps then ps else ps @ [e])))"

fun parse_lines :: "nat \<Rightarrow> pystr list \<Rightarrow> parse_state \<Rightarrow> policy_error + parse_state" where
  "parse_lines n [] st = Inr st"
| "parse_lines n (raw # ls) st = rbind (parse_entry n (strip raw) st) (parse_lines (Suc n) ls)"

definition parse_policy :: "pystr \<Rightarrow> policy_error + input_policy" where
  "parse_policy s =
     rbind (reject_ambiguous_characters 1 s) (\<lambda>_.
     rbind (parse_lines 1 (splitlines s) (None, [])) (\<lambda>(m, ps).
     make_policy (declared_mode m) ps default_exclusions))"

definition parse_exclusions :: "pystr \<Rightarrow> policy_error + pystr list" where
  "parse_exclusions s = rbind (parse_policy s) (\<lambda>p.
     if mode p \<noteq> Exclude then Inl (NotExclusionMode (mode p)) else Inr (prefixes p))"

definition render_policy :: "pystr \<Rightarrow> input_policy \<Rightarrow> pystr" where
  "render_policy header p =
     (if header \<noteq> [] \<and> \<not> ends_with header [10] then header @ [10] else header) @
     mode_directive (mode p) @ [10] @ concat (map (\<lambda>e. e @ [10]) (prefixes p))"

subsection \<open>The producer's parser\<close>

text \<open>\<^verbatim>\<open>parseInputPolicy\<close> of the producer, in TypeScript: the same scan, then a split at
  \<^verbatim>\<open>/\r?\n/\<close>, which keeps an empty last line, and a loop over the pieces. Its character
  tests look at UTF-16 code units, all of whose tested values are code points of their own.\<close>

fun ts_split_lines :: "pystr \<Rightarrow> pystr \<Rightarrow> pystr list" where
  "ts_split_lines acc [] = [rev acc]"
| "ts_split_lines acc (c # cs) =
     (if c = 13 \<and> take 1 cs = [10] then rev acc # ts_split_lines [] (drop 1 cs)
      else if c = 10 then rev acc # ts_split_lines [] cs
      else ts_split_lines (c # acc) cs)"

fun ts_scan :: "nat \<Rightarrow> pystr \<Rightarrow> policy_error + unit" where
  "ts_scan n [] = Inr ()"
| "ts_scan n (c # cs) =
     (if c = 10 then ts_scan (n + 1) cs
      else if c = 13 \<and> take 1 cs = [10] then ts_scan n cs
      else if c = 13 \<or> c \<in> set ambiguous_line_chars then Inl (AmbiguousTerminator n c)
      else if c = bom_char then Inl (ByteOrderMark n)
      else if is_control c then Inl (ControlCharacter n c)
      else ts_scan n cs)"

definition ts_entry :: "nat \<Rightarrow> pystr \<Rightarrow> parse_state \<Rightarrow> policy_error + parse_state" where
  "ts_entry index raw st = (case st of (m, ps) \<Rightarrow>
     let line = strip raw in
     if length line = 0 \<or> starts_with line (str ''#'') then Inr (m, ps)
     else if map ascii_lower (take 5 line) = str ''mode:'' then
       (let v = strip (drop 5 line) in
        if m \<noteq> None \<or> 0 < length ps then Inl (LateDirective (index + 1))
        else if v = str ''exclude'' then Inr (Some Exclude, ps)
        else if v = str ''include'' then Inr (Some Include, ps)
        else Inl (UnknownMode (index + 1) v))
     else
       (let md = (case m of None \<Rightarrow> Exclude | Some md \<Rightarrow> md);
            e = (if starts_with line (str ''./'') then drop 2 line else line)
        in if length e = 0 \<or> e = str ''.'' \<or> e = str ''/'' then Inl (WholeProject (index + 1) md)
           else if is_absolute e then Inl (AbsoluteEntry (index + 1) e)
           else if str ''..'' \<in> set (split_on slash e) then Inl (EntryEscapes (index + 1) e)
           else Inr (Some md, if e \<in> set ps then ps else ps @ [e])))"

fun ts_loop :: "nat \<Rightarrow> pystr list \<Rightarrow> parse_state \<Rightarrow> policy_error + parse_state" where
  "ts_loop index [] st = Inr st"
| "ts_loop index (raw # ls) st = rbind (ts_entry index raw st) (ts_loop (index + 1) ls)"

definition ts_parse_policy :: "pystr \<Rightarrow> policy_error + input_policy" where
  "ts_parse_policy s =
     rbind (ts_scan 1 s) (\<lambda>_.
     rbind (ts_loop 0 (ts_split_lines [] s) (None, [])) (\<lambda>(m, ps).
     if m = Some Include \<and> length ps = 0 then Inl IncludeNamesNoPath
     else Inr \<lparr>mode = (case m of None \<Rightarrow> Exclude | Some md \<Rightarrow> md), prefixes = ps,
               structural = default_exclusions\<rparr>))"

subsection \<open>Selection\<close>

fun matches_prefixes :: "pystr \<Rightarrow> pystr list \<Rightarrow> bool" where
  "matches_prefixes r [] \<longleftrightarrow> False"
| "matches_prefixes r (p # ps) \<longleftrightarrow>
     (if ends_with p (str ''/'') then starts_with r p else r = p \<or> starts_with r (p @ str ''/''))
     \<or> matches_prefixes r ps"

definition selectors :: "input_policy \<Rightarrow> pystr list" where
  "selectors p =
     (if mode p \<noteq> Include then []
      else if verified_inputs_relative \<in> set (prefixes p) then prefixes p
      else prefixes p @ [verified_inputs_relative])"

definition exclusions :: "input_policy \<Rightarrow> pystr list" where
  "exclusions p =
     (if mode p = Exclude
      then foldl (\<lambda>acc e. if e \<in> set acc then acc else acc @ [e]) (structural p) (prefixes p)
      else structural p)"

definition selects :: "input_policy \<Rightarrow> pystr \<Rightarrow> bool" where
  "selects p r \<longleftrightarrow>
     (if matches_prefixes r (structural p) then False
      else if mode p = Include then matches_prefixes r (selectors p)
      else \<not> matches_prefixes r (prefixes p))"

subsection \<open>Producer and gate\<close>


lemma ts_scan_eq: "ts_scan n s = reject_ambiguous_characters n s"
  by (induction n s rule: ts_scan.induct) auto

lemma ts_entry_eq: "ts_entry i raw st = parse_entry (Suc i) (strip raw) st"
  by (cases st) (simp add: ts_entry_def parse_entry_def directive_value_def mode_of_def Let_def)

lemma ts_loop_eq: "ts_loop i ls st = parse_lines (Suc i) ls st"
  by (induction i ls st rule: ts_loop.induct) (auto simp: ts_entry_eq intro: rbind_cong)

lemma parse_entry_blank [simp]: "parse_entry n [] st = Inr st"
  by (cases st) (simp add: parse_entry_def)

lemma parse_lines_blank_tail: "parse_lines n (ls @ [[]]) st = parse_lines n ls st"
  by (induction n ls st rule: parse_lines.induct) (auto intro: rbind_cong)

lemma line_break_rejected:
  "line_break c \<Longrightarrow> c \<noteq> 10 \<Longrightarrow> c \<in> set ambiguous_line_chars \<or> c = 13"
  by (auto simp: line_break_def ambiguous_line_chars_def)

lemma ts_split_lines_eq:
  "reject_ambiguous_characters n s = Inr u \<Longrightarrow>
   ts_split_lines acc s = splitlines_from acc s \<or> ts_split_lines acc s = splitlines_from acc s @ [[]]"
proof (induction acc s arbitrary: n rule: splitlines_from.induct)
  case (1 acc)
  then show ?case by simp
next
  case (2 acc c cs)
  consider (crlf) "c = 13" "take 1 cs = [10]" | (lf) "c = 10"
    | (plain) "c \<noteq> 10" "\<not> (c = 13 \<and> take 1 cs = [10])" by blast
  then show ?case
  proof cases
    case crlf
    then obtain r where cs: "cs = 10 # r" by (cases cs) auto
    with crlf "2.prems" have "reject_ambiguous_characters (Suc n) r = Inr u" by simp
    then show ?thesis using "2.IH"(1) crlf cs by fastforce
  next
    case lf
    with "2.prems" have "reject_ambiguous_characters (Suc n) cs = Inr u" by simp
    then show ?thesis using "2.IH"(2) lf by (fastforce simp: line_break_def)
  next
    case plain
    with "2.prems" have nb: "\<not> line_break c" and r: "reject_ambiguous_characters n cs = Inr u"
      by (auto split: if_splits dest: line_break_rejected)
    with "2.IH"(3) [OF plain(2) nb r] plain show ?thesis by auto
  qed
qed

text \<open>C13. Producer and gate read one policy. The TypeScript parser of the evidence producer, with
  its own line splitting, line numbers and directive handling, returns on every input text what
  the Python parser of the gate returns: the same mode and entries, or the same refusal.\<close>

theorem producer_gate_agree: "ts_parse_policy s = parse_policy s"
proof (cases "reject_ambiguous_characters 1 s")
  case (Inl e)
  then show ?thesis by (simp add: ts_parse_policy_def parse_policy_def ts_scan_eq)
next
  case (Inr u)
  have "ts_loop 0 (ts_split_lines [] s) st = parse_lines 1 (splitlines s) st" for st
    using ts_split_lines_eq [OF Inr, of "[]"]
    by (auto simp: ts_loop_eq splitlines_def parse_lines_blank_tail)
  then show ?thesis
    by (auto simp: ts_parse_policy_def parse_policy_def ts_scan_eq Inr make_policy_def
        split: option.splits intro!: rbind_cong)
qed

subsection \<open>Matching by components\<close>

lemma str_slash: "str ''/'' = [slash]"
  by (simp add: str_def slash_def)

text \<open>A bare entry matches exactly the paths whose leading components are the entry's.\<close>

lemma bare_entry_components:
  "r = p \<or> starts_with r (p @ str ''/'') \<longleftrightarrow>
   (\<exists>rest. split_on slash r = split_on slash p @ rest)"
proof
  assume "r = p \<or> starts_with r (p @ str ''/'')"
  then show "\<exists>rest. split_on slash r = split_on slash p @ rest"
    by (auto simp: starts_with_iff str_slash split_on_append_sep)
next
  assume "\<exists>rest. split_on slash r = split_on slash p @ rest"
  then obtain rest where rest: "split_on slash r = split_on slash p @ rest" by blast
  have "r = join [slash] (split_on slash p @ rest)" by (metis join_split_on rest)
  then show "r = p \<or> starts_with r (p @ str ''/'')"
    by (cases "rest = []") (auto simp: join_append starts_with_iff str_slash)
qed

lemma slash_entry_components:
  "starts_with r (p @ str ''/'') \<longleftrightarrow>
   (\<exists>rest. rest \<noteq> [] \<and> split_on slash r = split_on slash p @ rest)"
proof
  assume "starts_with r (p @ str ''/'')"
  then show "\<exists>rest. rest \<noteq> [] \<and> split_on slash r = split_on slash p @ rest"
    by (auto simp: starts_with_iff str_slash split_on_append_sep)
next
  assume "\<exists>rest. rest \<noteq> [] \<and> split_on slash r = split_on slash p @ rest"
  then obtain rest where rest: "rest \<noteq> []" "split_on slash r = split_on slash p @ rest" by blast
  have "r = join [slash] (split_on slash p @ rest)" by (metis join_split_on rest(2))
  then show "starts_with r (p @ str ''/'')"
    using rest(1) by (auto simp: join_append starts_with_iff str_slash)
qed

definition entry_covers :: "pystr list \<Rightarrow> bool \<Rightarrow> pystr list \<Rightarrow> bool" where
  "entry_covers e below r \<longleftrightarrow> take (length e) r = e \<and> (below \<longrightarrow> length e < length r)"

lemma entry_covers_iff:
  "entry_covers e below r \<longleftrightarrow> (\<exists>rest. (below \<longrightarrow> rest \<noteq> []) \<and> r = e @ rest)"
  unfolding entry_covers_def
  by (metis append_Nil2 append_eq_conv_conj append_take_drop_id length_append
      length_greater_0_conv less_add_same_cancel1)

lemma matches_prefixes_components:
  "matches_prefixes r ps \<longleftrightarrow>
   (\<exists>p \<in> set ps. if ends_with p (str ''/'')
      then entry_covers (split_on slash (butlast p)) True (split_on slash r)
      else entry_covers (split_on slash p) False (split_on slash r))"
proof (induction ps)
  case (Cons p ps)
  have "ends_with p (str ''/'') \<Longrightarrow> p = butlast p @ str ''/''"
    by (auto simp: ends_with_iff str_slash)
  then have "ends_with p (str ''/'') \<Longrightarrow> starts_with r p \<longleftrightarrow>
      entry_covers (split_on slash (butlast p)) True (split_on slash r)"
    using slash_entry_components [of r "butlast p"] by (auto simp: entry_covers_iff)
  with Cons bare_entry_components [of r p] show ?case
    by (auto simp: entry_covers_iff)
qed simp

text \<open>Prefixes match whole path components. An entry covers a path when the entry's
  components lead the path's, strictly when the entry ends with a slash; an entry never covers a
  path that merely shares a textual prefix with it.\<close>

theorem prefixes_match_components:
  "matches_prefixes r ps \<longleftrightarrow>
   (\<exists>p \<in> set ps. if ends_with p (str ''/'')
      then entry_covers (split_on slash (butlast p)) True (split_on slash r)
      else entry_covers (split_on slash p) False (split_on slash r))"
  by (rule matches_prefixes_components)

lemma matches_prefixes_append:
  "matches_prefixes r (ps @ qs) \<longleftrightarrow> matches_prefixes r ps \<or> matches_prefixes r qs"
  by (induction ps) auto

lemma matches_prefixes_set: "set ps = set qs \<Longrightarrow> matches_prefixes r ps \<longleftrightarrow> matches_prefixes r qs"
  by (simp add: matches_prefixes_components)

lemma set_merge_new:
  "set (foldl (\<lambda>acc e. if e \<in> set acc then acc else acc @ [e]) a b) = set a \<union> set b"
  by (induction b arbitrary: a) auto

text \<open>Under \<^verbatim>\<open>mode: exclude\<close> the two views of a policy agree: a path is a verified input
  exactly when it matches none of the prefixes that \<^verbatim>\<open>InputPolicy.exclusions\<close> reports.\<close>

theorem selects_exclude_view:
  "mode p = Exclude \<Longrightarrow> selects p r \<longleftrightarrow> \<not> matches_prefixes r (exclusions p)"
proof -
  assume m: "mode p = Exclude"
  then have "set (exclusions p) = set (structural p @ prefixes p)"
    by (simp add: exclusions_def set_merge_new)
  then have "matches_prefixes r (exclusions p) \<longleftrightarrow> matches_prefixes r (structural p @ prefixes p)"
    by (rule matches_prefixes_set)
  with m show ?thesis by (auto simp: selects_def matches_prefixes_append)
qed

theorem selects_exclude_view_witness:
  "selects \<lparr>mode = Exclude, prefixes = [str ''build/''], structural = default_exclusions\<rparr> (str ''src/a'') \<longleftrightarrow>
   \<not> matches_prefixes (str ''src/a'')
     (exclusions \<lparr>mode = Exclude, prefixes = [str ''build/''], structural = default_exclusions\<rparr>)"
  by (rule selects_exclude_view) simp

lemma matches_self: "r \<in> set ps \<Longrightarrow> \<not> ends_with r (str ''/'') \<Longrightarrow> matches_prefixes r ps"
  by (induction ps) auto

lemma policy_file_not_structural: "\<not> matches_prefixes verified_inputs_relative default_exclusions"
  by (simp add: verified_inputs_relative_def default_exclusions_def ends_with_def starts_with_def str_def)

text \<open>An allowlist binds the policy file. Under \<^verbatim>\<open>mode: include\<close> the file that declares the
  policy is itself a verified input, whatever the allowlist names, so that narrowing the scope
  changes the snapshot.\<close>

theorem include_binds_policy:
  assumes "mode p = Include" "structural p = default_exclusions"
  shows "selects p verified_inputs_relative"
proof -
  have "verified_inputs_relative \<in> set (selectors p)" using assms by (simp add: selectors_def)
  moreover have "\<not> ends_with verified_inputs_relative (str ''/'')"
    by (simp add: verified_inputs_relative_def ends_with_def str_def)
  ultimately have "matches_prefixes verified_inputs_relative (selectors p)" by (rule matches_self)
  then show ?thesis using assms policy_file_not_structural by (simp add: selects_def)
qed


theorem include_binds_policy_witness:
  "selects \<lparr>mode = Include, prefixes = [str ''src/''], structural = default_exclusions\<rparr>
     verified_inputs_relative"
  by (rule include_binds_policy) simp_all

subsection \<open>Rendering and reading back\<close>


definition plain_char :: "codepoint \<Rightarrow> bool" where
  "plain_char c \<longleftrightarrow> \<not> is_control c \<and> c \<noteq> bom_char \<and> c \<notin> set ambiguous_line_chars"

lemma plain_char_no_break: "plain_char c \<Longrightarrow> \<not> line_break c"
  by (auto simp: plain_char_def line_break_def is_control_def ambiguous_line_chars_def)

lemma plain_char_not_lf: "plain_char c \<Longrightarrow> c \<noteq> 10 \<and> c \<noteq> 13"
  by (auto simp: plain_char_def is_control_def)

definition lf_lines :: "pystr list \<Rightarrow> pystr" where
  "lf_lines ls = concat (map (\<lambda>l. l @ [10]) ls)"

lemma lf_lines_simps [simp]:
  "lf_lines [] = []" "lf_lines (l # ls) = l @ 10 # lf_lines ls"
  by (simp_all add: lf_lines_def)

lemma splitlines_from_line:
  "list_all plain_char l \<Longrightarrow>
   splitlines_from acc (l @ 10 # r) = (rev acc @ l) # splitlines_from [] r"
proof (induction l arbitrary: acc)
  case Nil
  then show ?case by (simp add: line_break_def)
next
  case (Cons c l)
  then show ?case using plain_char_no_break [of c] plain_char_not_lf [of c] by simp
qed

lemma splitlines_lf_lines:
  "list_all (list_all plain_char) ls \<Longrightarrow> splitlines (lf_lines ls) = ls"
  unfolding splitlines_def by (induction ls) (auto simp: splitlines_from_line)

lemma reject_line:
  "list_all plain_char l \<Longrightarrow>
   reject_ambiguous_characters n (l @ 10 # r) = reject_ambiguous_characters (Suc n) r"
proof (induction l)
  case (Cons c l)
  then show ?case using plain_char_not_lf [of c] by (simp add: plain_char_def)
qed simp

lemma reject_lf_lines:
  "list_all (list_all plain_char) ls \<Longrightarrow> reject_ambiguous_characters n (lf_lines ls) = Inr ()"
  by (induction ls arbitrary: n) (auto simp: reject_line)

lemma reject_ok_chars:
  "reject_ambiguous_characters n s = Inr u \<Longrightarrow> c \<in> set s \<Longrightarrow> plain_char c \<or> c = 10 \<or> c = 13"
  by (induction n s rule: reject_ambiguous_characters.induct)
    (auto simp: plain_char_def split: if_splits)

lemma splitlines_from_chars:
  "l \<in> set (splitlines_from acc s) \<Longrightarrow> c \<in> set l \<Longrightarrow> c \<in> set acc \<or> (c \<in> set s \<and> \<not> line_break c)"
proof (induction acc s rule: splitlines_from.induct)
  case (2 acc d cs)
  then show ?case by (fastforce dest: in_set_dropD split: if_splits)
qed (auto split: if_splits)

lemma accepted_line_chars:
  assumes "reject_ambiguous_characters n s = Inr u" "l \<in> set (splitlines s)"
  shows "list_all plain_char l"
proof -
  have "plain_char c" if "c \<in> set l" for c
  proof -
    have "c \<in> set s" "\<not> line_break c"
      using splitlines_from_chars [of l "[]" s c] assms(2) that by (auto simp: splitlines_def)
    moreover from this(1) have "plain_char c \<or> c = 10 \<or> c = 13" by (rule reject_ok_chars [OF assms(1)])
    ultimately show ?thesis by (auto simp: line_break_def)
  qed
  then show ?thesis by (simp add: list_all_iff)
qed

text \<open>What the parser lets through as an entry, and what rendering needs of one.\<close>

definition entry_ok :: "pystr \<Rightarrow> bool" where
  "entry_ok e \<longleftrightarrow> e \<noteq> [] \<and> e \<noteq> str ''.'' \<and> e \<noteq> str ''/'' \<and> \<not> is_absolute e \<and>
     str ''..'' \<notin> set (components e) \<and> list_all plain_char e"

definition renders_as_entry :: "pystr \<Rightarrow> bool" where
  "renders_as_entry e \<longleftrightarrow> strip e = e \<and> \<not> starts_with e (str ''#'') \<and> \<not> starts_with e (str ''./'') \<and>
     directive_value e = None"

lemma parse_entry_invariant:
  assumes "parse_entry n line (m, ps) = Inr (m', ps')" "list_all plain_char line"
    "list_all entry_ok ps" "distinct ps"
  shows "list_all entry_ok ps' \<and> distinct ps'"
proof -
  have "list_all plain_char (drop 2 line)"
    using assms(2) by (auto simp: list_all_iff dest: in_set_dropD)
  then show ?thesis using assms
    by (auto simp: parse_entry_def entry_ok_def Let_def list_all_iff split: if_splits option.splits)
qed

lemma parse_lines_invariant:
  "parse_lines n ls (m, ps) = Inr (m', ps') \<Longrightarrow> list_all (list_all plain_char) ls \<Longrightarrow>
   list_all entry_ok ps \<Longrightarrow> distinct ps \<Longrightarrow> list_all entry_ok ps' \<and> distinct ps'"
proof (induction ls arbitrary: n m ps)
  case (Cons raw ls)
  from Cons.prems(1) obtain m1 ps1 where
    step: "parse_entry n (strip raw) (m, ps) = Inr (m1, ps1)" and
    rest: "parse_lines (Suc n) ls (m1, ps1) = Inr (m', ps')" by auto
  have "list_all plain_char (strip raw)"
    using Cons.prems(2) set_strip [of raw] by (auto simp: list_all_iff)
  then have "list_all entry_ok ps1 \<and> distinct ps1"
    using parse_entry_invariant [OF step] Cons.prems(3,4) by simp
  then show ?case using Cons.IH [OF rest] Cons.prems(2) by simp
qed simp

lemma parse_entries_back:
  "list_all entry_ok es \<Longrightarrow> list_all renders_as_entry es \<Longrightarrow> distinct (ps @ es) \<Longrightarrow>
   parse_lines n es (Some m, ps) = Inr (Some m, ps @ es)"
proof (induction es arbitrary: n ps)
  case (Cons e es)
  then have "parse_entry n (strip e) (Some m, ps) = Inr (Some m, ps @ [e])"
    by (auto simp: parse_entry_def entry_ok_def renders_as_entry_def Let_def)
  with Cons show ?case by auto
qed simp

text \<open>Each line adds at most one entry, at the end. So when reading a list of entries back gives the
  list, each line has added the entry that stands on it.\<close>

lemma parse_entry_grows:
  "parse_entry n line (m, ps) = Inr (m', ps') \<Longrightarrow> \<exists>qs. ps' = ps @ qs \<and> length qs \<le> 1"
  by (auto simp: parse_entry_def Let_def split: if_splits option.splits)

lemma parse_lines_grows:
  "parse_lines n ls (m, ps) = Inr (m', ps') \<Longrightarrow> \<exists>qs. ps' = ps @ qs \<and> length qs \<le> length ls"
proof (induction ls arbitrary: n m ps)
  case (Cons raw ls)
  from Cons.prems obtain m1 ps1 where
    step: "parse_entry n (strip raw) (m, ps) = Inr (m1, ps1)" and
    rest: "parse_lines (Suc n) ls (m1, ps1) = Inr (m', ps')" by auto
  obtain qs where "ps1 = ps @ qs" "length qs \<le> 1" using parse_entry_grows [OF step] by blast
  moreover obtain rs where "ps' = ps1 @ rs" "length rs \<le> length ls" using Cons.IH [OF rest] by blast
  ultimately show ?case by (intro exI [of _ "qs @ rs"]) simp
qed simp

lemma parse_entry_adds_itself:
  assumes "parse_entry n (strip e) (Some m, ps) = Inr (m', ps @ [e])"
  shows "renders_as_entry e \<and> m' = Some m"
proof -
  have "drop 2 (strip e) \<noteq> e" if "starts_with (strip e) (str ''./'')"
  proof
    assume "drop 2 (strip e) = e"
    then have "length e = length (strip e) - 2" by (metis length_drop)
    moreover have "length (strip e) \<le> length e" by (rule length_strip)
    moreover have "2 \<le> length (strip e)"
      using that by (auto simp: starts_with_def str_def dest: arg_cong [of _ _ length])
    ultimately show False by linarith
  qed
  then show ?thesis using assms
    by (auto simp: parse_entry_def renders_as_entry_def Let_def split: if_splits option.splits)
qed

lemma parse_entries_only_back:
  "parse_lines n es (Some m, ps) = Inr (m', ps @ es) \<Longrightarrow> list_all renders_as_entry es"
proof (induction es arbitrary: n m ps)
  case (Cons e es)
  from Cons.prems obtain m1 ps1 where
    step: "parse_entry n (strip e) (Some m, ps) = Inr (m1, ps1)" and
    rest: "parse_lines (Suc n) es (m1, ps1) = Inr (m', ps @ e # es)" by auto
  obtain qs where qs: "ps1 = ps @ qs" "length qs \<le> 1" using parse_entry_grows [OF step] by blast
  moreover obtain rs where rs: "ps @ e # es = ps1 @ rs" "length rs \<le> length es"
    using parse_lines_grows [OF rest] by blast
  ultimately have "qs = [e]" by (cases qs) auto
  then have ps1: "ps1 = ps @ [e]" using qs by simp
  then have e: "renders_as_entry e" "m1 = Some m" using parse_entry_adds_itself step by blast+
  then show ?case using Cons.IH [of "Suc n" m "ps @ [e]"] rest ps1 by simp
qed simp

lemma mode_directive_reads:
  "parse_entry n (strip (mode_directive m)) (None, []) = Inr (Some m, [])"
  by (cases m)
    (simp_all add: mode_directive_def mode_name_def mode_of_def parse_entry_def directive_value_def
      ascii_lower_def starts_with_def str_def strip_def lstrip_def rstrip_def py_space_def)

lemma mode_directive_plain: "list_all plain_char (mode_directive m)"
  by (cases m)
    (simp_all add: mode_directive_def mode_name_def str_def plain_char_def is_control_def bom_char_def
      ambiguous_line_chars_def)

definition comment_line :: "pystr \<Rightarrow> bool" where
  "comment_line l \<longleftrightarrow> list_all plain_char l \<and> (strip l = [] \<or> starts_with (strip l) (str ''#''))"

lemma parse_lines_comments:
  "list_all comment_line hs \<Longrightarrow> parse_lines n (hs @ ls) st = parse_lines (n + length hs) ls st"
proof (induction hs arbitrary: n)
  case (Cons h hs)
  then have "parse_entry n (strip h) st = Inr st"
    by (cases st) (auto simp: comment_line_def parse_entry_def)
  with Cons show ?case by simp
qed simp

lemma parse_policy_entries:
  assumes "parse_policy s = Inr p"
  shows "list_all entry_ok (prefixes p)" "distinct (prefixes p)" "structural p = default_exclusions"
    "mode p = Include \<Longrightarrow> prefixes p \<noteq> []"
proof -
  from assms obtain u m ps where
    rej: "reject_ambiguous_characters 1 s = Inr u" and
    ls: "parse_lines 1 (splitlines s) (None, []) = Inr (m, ps)" and
    mk: "make_policy (declared_mode m) ps default_exclusions = Inr p"
    by (auto simp: parse_policy_def)
  have "list_all (list_all plain_char) (splitlines s)"
    using accepted_line_chars [OF rej] by (simp add: list_all_iff)
  then have "list_all entry_ok ps \<and> distinct ps" using parse_lines_invariant [OF ls] by simp
  moreover have "prefixes p = ps" "structural p = default_exclusions" "mode p = Include \<longrightarrow> ps \<noteq> []"
    using mk by (auto simp: make_policy_def split: if_splits)
  ultimately show "list_all entry_ok (prefixes p)" "distinct (prefixes p)"
    "structural p = default_exclusions" "mode p = Include \<Longrightarrow> prefixes p \<noteq> []"
    by auto
qed

lemma render_as_lines:
  "render_policy (lf_lines hs) p = lf_lines (hs @ mode_directive (mode p) # prefixes p)"
proof -
  have "hs \<noteq> [] \<Longrightarrow> ends_with (lf_lines hs) [10]"
    by (induction hs rule: rev_induct) (auto simp: lf_lines_def ends_with_iff)
  moreover have "lf_lines hs \<noteq> [] \<Longrightarrow> hs \<noteq> []" by auto
  ultimately show ?thesis by (auto simp: render_policy_def lf_lines_def)
qed

lemma rendered_lines_read:
  assumes "parse_policy s = Inr p" "list_all comment_line hs"
  shows "parse_policy (render_policy (lf_lines hs) p) =
    rbind (parse_lines (Suc (1 + length hs)) (prefixes p) (Some (mode p), []))
      (\<lambda>(m, ps). make_policy (declared_mode m) ps default_exclusions)"
proof -
  let ?ls = "hs @ mode_directive (mode p) # prefixes p"
  have plain: "list_all (list_all plain_char) ?ls"
    using parse_policy_entries(1) [OF assms(1)] assms(2) mode_directive_plain
    by (auto simp: list_all_iff entry_ok_def comment_line_def)
  have "parse_lines 1 ?ls (None, []) = parse_lines (Suc (1 + length hs)) (prefixes p) (Some (mode p), [])"
    by (simp add: parse_lines_comments [OF assms(2)] mode_directive_reads)
  then show ?thesis
    by (simp add: parse_policy_def render_as_lines reject_lf_lines [OF plain] splitlines_lf_lines [OF plain])
qed

text \<open>C40. A policy read from a file is what its rendering under a preserved header of comment
  lines reads back as, exactly when each of its entries survives as a line: it has no white
  space at either end, and starts neither with a hash sign, nor with a dot-slash, nor with the
  mode directive. The parser strips a line before it drops one leading dot-slash, so a file can
  declare entries that do not: the lines ././a, ./#a and ./mode:a.\<close>

theorem render_parse_roundtrip:
  assumes "parse_policy s = Inr p" "list_all comment_line hs"
  shows "parse_policy (render_policy (lf_lines hs) p) = Inr p \<longleftrightarrow> list_all renders_as_entry (prefixes p)"
proof
  note facts = parse_policy_entries [OF assms(1)]
  assume "list_all renders_as_entry (prefixes p)"
  then have "parse_lines n (prefixes p) (Some (mode p), []) = Inr (Some (mode p), prefixes p)" for n
    using parse_entries_back [of "prefixes p" "[]"] facts(1,2) by simp
  moreover have "make_policy (mode p) (prefixes p) default_exclusions = Inr p"
    using facts(3,4) by (auto simp: make_policy_def)
  ultimately show "parse_policy (render_policy (lf_lines hs) p) = Inr p"
    by (simp add: rendered_lines_read [OF assms])
next
  assume "parse_policy (render_policy (lf_lines hs) p) = Inr p"
  then obtain n m where "parse_lines n (prefixes p) (Some (mode p), []) = Inr (m, prefixes p)"
    by (auto simp: rendered_lines_read [OF assms] make_policy_def split: if_splits)
  then show "list_all renders_as_entry (prefixes p)"
    using parse_entries_only_back [of _ "prefixes p" _ "[]"] by simp
qed

lemma sample_policy_text:
  "parse_policy (str ''mode: include'' @ [10] @ str ''src/'' @ [13, 10] @ str ''Cargo.toml'' @ [10]) =
   Inr \<lparr>mode = Include, prefixes = [str ''src/'', str ''Cargo.toml''], structural = default_exclusions\<rparr>"
  by code_simp

lemma sample_slash_text:
  "parse_policy (str ''././a'' @ [10]) =
   Inr \<lparr>mode = Exclude, prefixes = [str ''./a''], structural = default_exclusions\<rparr>"
  by code_simp

theorem render_parse_roundtrip_witness:
  "parse_policy (render_policy (lf_lines [str ''# scope'']) \<lparr>mode = Include,
     prefixes = [str ''src/'', str ''Cargo.toml''], structural = default_exclusions\<rparr>) =
   Inr \<lparr>mode = Include, prefixes = [str ''src/'', str ''Cargo.toml''], structural = default_exclusions\<rparr> \<and>
   parse_policy (render_policy (lf_lines [str ''# scope'']) \<lparr>mode = Exclude,
     prefixes = [str ''./a''], structural = default_exclusions\<rparr>) \<noteq>
   Inr \<lparr>mode = Exclude, prefixes = [str ''./a''], structural = default_exclusions\<rparr>"
proof
  have c: "list_all comment_line [str ''# scope'']" by code_simp
  show "parse_policy (render_policy (lf_lines [str ''# scope'']) \<lparr>mode = Include,
     prefixes = [str ''src/'', str ''Cargo.toml''], structural = default_exclusions\<rparr>) =
   Inr \<lparr>mode = Include, prefixes = [str ''src/'', str ''Cargo.toml''], structural = default_exclusions\<rparr>"
    by (subst render_parse_roundtrip [OF sample_policy_text c]) code_simp
  show "parse_policy (render_policy (lf_lines [str ''# scope'']) \<lparr>mode = Exclude,
     prefixes = [str ''./a''], structural = default_exclusions\<rparr>) \<noteq>
   Inr \<lparr>mode = Exclude, prefixes = [str ''./a''], structural = default_exclusions\<rparr>"
    by (subst render_parse_roundtrip [OF sample_slash_text c]) code_simp
qed

text \<open>The round trip the renderer documents does not hold of every parsed policy: the entry
  that strips to a path with a leading dot-slash is rendered as that path, and read back as
  another.\<close>

theorem dot_slash_roundtrip_fails:
  "\<exists>s p. parse_policy s = Inr p \<and> parse_policy (render_policy [] p) \<noteq> Inr p"
proof -
  have "parse_policy (render_policy []
      \<lparr>mode = Exclude, prefixes = [str ''./a''], structural = default_exclusions\<rparr>) \<noteq>
    Inr \<lparr>mode = Exclude, prefixes = [str ''./a''], structural = default_exclusions\<rparr>" by code_simp
  with sample_slash_text show ?thesis by blast
qed


end
