(* ===== verification/Py_Json.thy ===== *)
theory Py_Json
  imports FV_Prelude
begin

text \<open>
  The values \<^verbatim>\<open>json.loads\<close> returns, with the Python operations the gates apply to
  them: \<^verbatim>\<open>dict.get\<close>, \<^verbatim>\<open>in\<close>, \<^verbatim>\<open>isinstance\<close>, truth value, and \<^verbatim>\<open>==\<close>, which
  crosses the numeric types (\<^verbatim>\<open>True == 1 == 1.0\<close>) and ignores the order of a dict. A
  finite float is the rational it denotes; NaN and the infinities are not represented.
  Python dictionaries that the code builds are association lists in insertion order
  (locale \<open>py_dict\<close>).
\<close>

datatype json =
    JNull
  | JBool bool
  | JInt int
  | JReal rat
  | JStr pystr
  | JArr "json list"
  | JObj "(pystr \<times> json) list"

type_synonym fields = "(pystr \<times> json) list"

text \<open>What a builtin raises when the code hands it a value of the wrong kind.\<close>

datatype py_exn = TypeError | KeyError | ValueError | OSError | AttributeError | OverflowError

subsection \<open>Dictionaries in insertion order\<close>

type_synonym ('k, 'v) dict = "('k \<times> 'v) list"

text \<open>\<^verbatim>\<open>d[k] = v\<close>: an existing key keeps its position, a new one goes last.\<close>

fun dset :: "('k, 'v) dict \<Rightarrow> 'k \<Rightarrow> 'v \<Rightarrow> ('k, 'v) dict" where
  "dset [] k v = [(k, v)]"
| "dset ((a, b) # d) k v = (if a = k then (a, v) # d else (a, b) # dset d k v)"

text \<open>\<^verbatim>\<open>d.setdefault(k, v)\<close>, the dictionary afterwards.\<close>

definition dsetdefault :: "('k, 'v) dict \<Rightarrow> 'k \<Rightarrow> 'v \<Rightarrow> ('k, 'v) dict" where
  "dsetdefault d k v = (case map_of d k of None \<Rightarrow> d @ [(k, v)] | Some _ \<Rightarrow> d)"

locale py_dict =
  fixes look :: "'d \<Rightarrow> 'k \<Rightarrow> 'v option"
    and store :: "'d \<Rightarrow> 'k \<Rightarrow> 'v \<Rightarrow> 'd"
  assumes look_store: "look (store d k v) = (look d)(k \<mapsto> v)"
begin

lemma look_store_same: "look (store d k v) k = Some v"
  by (simp add: look_store)

lemma look_store_other: "j \<noteq> k \<Longrightarrow> look (store d k v) j = look d j"
  by (simp add: look_store)

text \<open>Filing a list of keyed values in turn: the last value of a key stands.\<close>

lemma look_foldl_store:
  "look (foldl (\<lambda>d x. store d (key x) (val x)) d xs) =
     look d ++ map_of (rev (map (\<lambda>x. (key x, val x)) xs))"
proof (induction xs arbitrary: d)
  case Nil
  then show ?case by simp
next
  case (Cons x xs)
  show ?case
    by (simp add: Cons look_store)
      (simp add: fun_eq_iff map_add_def split: option.splits)
qed

lemma dom_foldl_store:
  "dom (look (foldl (\<lambda>d x. store d (key x) (val x)) d xs)) = dom (look d) \<union> key ` set xs"
  by (auto simp: look_foldl_store dom_map_of_conv_image_fst image_image)

end

lemma map_of_dset: "map_of (dset d k v) = (map_of d)(k \<mapsto> v)"
  by (induction d k v rule: dset.induct) (auto simp: fun_eq_iff)

interpretation alist: py_dict map_of dset
  by unfold_locales (rule map_of_dset)

lemma map_of_dsetdefault:
  "map_of (dsetdefault d k v) = (if k \<in> dom (map_of d) then map_of d else (map_of d)(k \<mapsto> v))"
  by (auto simp: dsetdefault_def map_add_def fun_eq_iff split: option.splits)

lemma keys_dset: "map fst (dset d k v) = (if k \<in> fst ` set d then map fst d else map fst d @ [k])"
  by (induction d k v rule: dset.induct) auto

lemma distinct_keys_dset: "distinct (map fst d) \<Longrightarrow> distinct (map fst (dset d k v))"
  by (auto simp: keys_dset)

subsection \<open>Reading a JSON object\<close>

text \<open>\<^verbatim>\<open>obj.get(name)\<close>, \<^verbatim>\<open>name in obj\<close>.\<close>

definition jget :: "fields \<Rightarrow> string \<Rightarrow> json" where
  "jget fs k = (case map_of fs (str k) of None \<Rightarrow> JNull | Some v \<Rightarrow> v)"

definition jhas :: "fields \<Rightarrow> string \<Rightarrow> bool" where
  "jhas fs k \<longleftrightarrow> map_of fs (str k) \<noteq> None"

text \<open>\<^verbatim>\<open>x.get(name) if isinstance(x, dict) else None\<close>.\<close>

fun jsub :: "json \<Rightarrow> string \<Rightarrow> json" where
  "jsub (JObj fs) k = jget fs k"
| "jsub _ k = JNull"

lemma jget_Nil [simp]: "jget [] k = JNull"
  by (simp add: jget_def)

lemma jget_Cons [simp]:
  "jget ((n, v) # fs) k = (if n = str k then v else jget fs k)"
  by (simp add: jget_def)

lemma jhas_Nil [simp]: "\<not> jhas [] k"
  by (simp add: jhas_def)

lemma jhas_Cons [simp]: "jhas ((n, v) # fs) k \<longleftrightarrow> n = str k \<or> jhas fs k"
  by (simp add: jhas_def)

lemma jhas_if_jget: "jget fs k \<noteq> JNull \<Longrightarrow> jhas fs k"
  by (auto simp: jget_def jhas_def split: option.splits)

text \<open>\<^verbatim>\<open>isinstance(v, str) and v\<close>, \<^verbatim>\<open>isinstance(v, str) and v.strip()\<close>,
  \<^verbatim>\<open>isinstance(v, int)\<close> (a bool is an int).\<close>

fun nonempty_str :: "json \<Rightarrow> bool" where
  "nonempty_str (JStr s) \<longleftrightarrow> s \<noteq> []"
| "nonempty_str _ \<longleftrightarrow> False"

fun nonblank_str :: "json \<Rightarrow> bool" where
  "nonblank_str (JStr s) \<longleftrightarrow> \<not> blank s"
| "nonblank_str _ \<longleftrightarrow> False"

fun py_int :: "json \<Rightarrow> bool" where
  "py_int (JInt _) \<longleftrightarrow> True"
| "py_int (JBool _) \<longleftrightarrow> True"
| "py_int _ \<longleftrightarrow> False"

fun as_str :: "json \<Rightarrow> pystr option" where
  "as_str (JStr s) = Some s"
| "as_str _ = None"

fun as_arr :: "json \<Rightarrow> json list option" where
  "as_arr (JArr xs) = Some xs"
| "as_arr _ = None"

fun as_obj :: "json \<Rightarrow> fields option" where
  "as_obj (JObj fs) = Some fs"
| "as_obj _ = None"

fun truthy :: "json \<Rightarrow> bool" where
  "truthy JNull \<longleftrightarrow> False"
| "truthy (JBool b) \<longleftrightarrow> b"
| "truthy (JInt i) \<longleftrightarrow> i \<noteq> 0"
| "truthy (JReal r) \<longleftrightarrow> r \<noteq> 0"
| "truthy (JStr s) \<longleftrightarrow> s \<noteq> []"
| "truthy (JArr xs) \<longleftrightarrow> xs \<noteq> []"
| "truthy (JObj fs) \<longleftrightarrow> fs \<noteq> []"

lemma as_str_Some [simp]: "as_str v = Some s \<longleftrightarrow> v = JStr s"
  by (cases v) auto

lemma as_arr_Some [simp]: "as_arr v = Some xs \<longleftrightarrow> v = JArr xs"
  by (cases v) auto

lemma as_obj_Some [simp]: "as_obj v = Some fs \<longleftrightarrow> v = JObj fs"
  by (cases v) auto

lemma nonempty_str_iff: "nonempty_str v \<longleftrightarrow> (\<exists>s. v = JStr s \<and> s \<noteq> [])"
  by (cases v) auto

lemma nonblank_str_iff: "nonblank_str v \<longleftrightarrow> (\<exists>s. v = JStr s \<and> \<not> blank s)"
  by (cases v) auto

lemma nonblank_nonempty: "nonblank_str v \<Longrightarrow> nonempty_str v"
  by (cases v) auto

text \<open>Iterating over a value: a string gives its characters, an object its keys.\<close>

definition iter_items :: "json \<Rightarrow> py_exn + json list" where
  "iter_items v = (case v of
       JArr xs \<Rightarrow> Inr xs
     | JStr s \<Rightarrow> Inr (map (\<lambda>c. JStr [c]) s)
     | JObj fs \<Rightarrow> Inr (map (JStr \<circ> fst) fs)
     | _ \<Rightarrow> Inl TypeError)"

text \<open>Documents as the source writes them down.\<close>

definition jtext :: "string \<Rightarrow> json" where "jtext s = JStr (str s)"

definition obj :: "(string \<times> json) list \<Rightarrow> json" where
  "obj kvs = JObj (map (\<lambda>(k, v). (str k, v)) kvs)"

subsection \<open>Equality and hashing\<close>

fun number_of :: "json \<Rightarrow> rat option" where
  "number_of (JBool b) = Some (if b then 1 else 0)"
| "number_of (JInt i) = Some (of_int i)"
| "number_of (JReal r) = Some r"
| "number_of _ = None"

fun py_eq :: "json \<Rightarrow> json \<Rightarrow> bool"
  and py_eq_items :: "json list \<Rightarrow> json list \<Rightarrow> bool"
  and py_eq_fields :: "fields \<Rightarrow> fields \<Rightarrow> bool" where
  "py_eq v w \<longleftrightarrow> (case v of
       JNull \<Rightarrow> w = JNull
     | JStr s \<Rightarrow> w = JStr s
     | JArr xs \<Rightarrow> (case w of JArr ys \<Rightarrow> py_eq_items xs ys | _ \<Rightarrow> False)
     | JObj fs \<Rightarrow> (case w of JObj gs \<Rightarrow> length fs = length gs \<and> py_eq_fields fs gs | _ \<Rightarrow> False)
     | _ \<Rightarrow> number_of v = number_of w)"
| "py_eq_items [] ys \<longleftrightarrow> ys = []"
| "py_eq_items (x # xs) ys \<longleftrightarrow> (case ys of [] \<Rightarrow> False | y # zs \<Rightarrow> py_eq x y \<and> py_eq_items xs zs)"
| "py_eq_fields [] gs \<longleftrightarrow> True"
| "py_eq_fields ((k, v) # fs) gs \<longleftrightarrow>
     (case map_of gs k of None \<Rightarrow> False | Some w \<Rightarrow> py_eq v w \<and> py_eq_fields fs gs)"

declare py_eq.simps [simp del]

lemma py_eq_str [simp]:
  "py_eq v (JStr s) \<longleftrightarrow> v = JStr s"
  "py_eq (JStr s) v \<longleftrightarrow> v = JStr s"
  by (auto simp: py_eq.simps split: json.splits)

lemma py_eq_null [simp]:
  "py_eq v JNull \<longleftrightarrow> v = JNull"
  "py_eq JNull v \<longleftrightarrow> v = JNull"
  by (auto simp: py_eq.simps split: json.splits)

lemma py_eq_arr_Nil [simp]: "py_eq v (JArr []) \<longleftrightarrow> v = JArr []"
  by (cases v) (auto simp: py_eq.simps elim: py_eq_items.elims)

lemma py_eq_items_strs: "py_eq_items xs (map JStr ss) \<longleftrightarrow> xs = map JStr ss"
proof (induction xs arbitrary: ss)
  case (Cons x xs)
  then show ?case by (cases ss) auto
qed auto

lemma py_eq_strs: "py_eq v (JArr (map JStr ss)) \<longleftrightarrow> v = JArr (map JStr ss)"
  by (cases v) (auto simp: py_eq.simps py_eq_items_strs)

text \<open>Only scalars can be looked up in a set of strings; a list or dict raises.\<close>

fun hashable :: "json \<Rightarrow> bool" where
  "hashable (JArr _) \<longleftrightarrow> False"
| "hashable (JObj _) \<longleftrightarrow> False"
| "hashable _ \<longleftrightarrow> True"

definition in_names :: "json \<Rightarrow> pystr list \<Rightarrow> py_exn + bool" where
  "in_names v names =
     (if hashable v then Inr (case v of JStr s \<Rightarrow> s \<in> set names | _ \<Rightarrow> False) else Inl TypeError)"

lemma in_names_str [simp]: "in_names (JStr s) names = Inr (s \<in> set names)"
  by (simp add: in_names_def)

lemma in_names_True_iff: "in_names v names = Inr True \<longleftrightarrow> (\<exists>s. v = JStr s \<and> s \<in> set names)"
  by (cases v) (auto simp: in_names_def)

text \<open>\<^verbatim>\<open>v in ("", [], {})\<close>.\<close>

definition empty_value :: "json \<Rightarrow> bool" where
  "empty_value v \<longleftrightarrow> v = JStr [] \<or> v = JArr [] \<or> v = JObj []"

subsection \<open>Well-formed values\<close>

text \<open>What \<^verbatim>\<open>json.loads\<close> guarantees: an object never holds a key twice.\<close>

fun wf_json :: "json \<Rightarrow> bool" where
  "wf_json (JArr xs) \<longleftrightarrow> list_all wf_json xs"
| "wf_json (JObj fs) \<longleftrightarrow> distinct (map fst fs) \<and> list_all (\<lambda>(_, v). wf_json v) fs"
| "wf_json _ \<longleftrightarrow> True"

lemma py_eq_fields_refl:
  assumes "distinct (map fst gs)" "set fs \<subseteq> set gs" "\<And>k v. (k, v) \<in> set fs \<Longrightarrow> py_eq v v"
  shows "py_eq_fields fs gs"
  using assms(2,3)
proof (induction fs)
  case (Cons kv fs)
  obtain k v where kv: "kv = (k, v)" by force
  with Cons.prems assms(1) have "map_of gs k = Some v" by (auto intro: map_of_is_SomeI)
  with Cons kv show ?case by auto
qed simp

lemma py_eq_refl: "wf_json v \<Longrightarrow> py_eq v v"
proof (induction v rule: wf_json.induct)
  case (1 xs)
  have "list_all wf_json ys \<Longrightarrow> set ys \<subseteq> set xs \<Longrightarrow> py_eq_items ys ys" for ys
    using "1.IH" by (induction ys) auto
  with "1.prems" show ?case by (simp add: py_eq.simps)
next
  case (2 fs)
  have "py_eq_fields fs fs"
    using "2.prems" "2.IH" by (intro py_eq_fields_refl) (auto simp: list_all_iff)
  then show ?case by (simp add: py_eq.simps)
qed (auto simp: py_eq.simps)

subsection \<open>Processes\<close>

text \<open>\<^verbatim>\<open>subprocess.CompletedProcess\<close>, with its output as text.\<close>

record process_result =
  status_code :: int
  stdout :: pystr
  stderr :: pystr

end
