(* ===== verification/Project.thy ===== *)
theory Project
  imports Input_Policy Py_Json
begin

text \<open>
  Project resolution and the verified-input snapshot of \<^verbatim>\<open>scripts/fv_project.py\<close>: lexical
  path normalisation, the declared target, the selected candidates in UTF-8 order and the
  bytes the snapshot hashes. The file system, git's listing and SHA-256 are parameters; a
  path is the list of its \<^verbatim>\<open>pathlib\<close> parts, the root first.
\<close>

subsection \<open>Data\<close>

datatype project_error =
    DispatchUnreadable
  | DispatchNotObject
  | RouteNotObject
  | TargetNotString
  | TargetEmpty
  | TargetTilde pystr
  | TargetEscapes pystr
  | TargetSymlink pystr
  | TargetDirectory pystr
  | TargetMissing pystr
  | PathEscapes pystr
  | NoHomeDirectory
  | GitFailed
  | InputEscapes pystr
  | InputSymlink pystr
  | InputNotRegular pystr
  | InputUnreadable pystr
  | PolicyUnreadable
  | PolicyRejected policy_error

text \<open>\<^verbatim>\<open>.fv/dispatch.json\<close> as the resolver finds it.\<close>

datatype dispatch_file = NoDispatch | BadDispatch | Dispatch json

text \<open>\<^verbatim>\<open>.fv/verified-inputs.txt\<close>: absent, not strict UTF-8, or text.\<close>

datatype policy_file = NoPolicy | BadPolicy | PolicyText pystr

text \<open>What \<^verbatim>\<open>lstat\<close> and the read say of one candidate.\<close>

datatype node = Absent | Symlink | Directory | Special | Regular "int list" | Unreadable

type_synonym parts = "pystr list"

record target_fs =
  is_symlink :: "parts \<Rightarrow> bool"
  realpath :: "parts \<Rightarrow> parts"
  is_dir :: "parts \<Rightarrow> bool"
  is_file :: "parts \<Rightarrow> bool"

subsection \<open>Paths\<close>

definition path_anchor :: "pystr \<Rightarrow> pystr" where
  "path_anchor s =
     (if starts_with s (str ''//'') \<and> \<not> starts_with s (str ''///'') then str ''//'' else str ''/'')"

definition path_parts :: "pystr \<Rightarrow> parts" where
  "path_parts s = (if is_absolute s then [path_anchor s] else []) @ components s"

text \<open>The loop of \<^verbatim>\<open>_normalize\<close>; the accumulator is the \<^verbatim>\<open>parts\<close> list reversed.\<close>

fun normalize_from :: "pystr \<Rightarrow> parts \<Rightarrow> parts \<Rightarrow> parts" where
  "normalize_from anchor acc [] = rev acc"
| "normalize_from anchor acc (p # ps) =
     (if p = str ''.'' then normalize_from anchor acc ps
      else if p = str ''..'' \<and> acc \<noteq> [] \<and> hd acc \<noteq> str ''..'' \<and> hd acc \<noteq> anchor
        then normalize_from anchor (tl acc) ps
      else normalize_from anchor (p # acc) ps)"

definition parts_anchor :: "parts \<Rightarrow> pystr" where
  "parts_anchor ps = (case ps of [] \<Rightarrow> [] | p # _ \<Rightarrow> if p = str ''/'' \<or> p = str ''//'' then p else [])"

definition normalize_path :: "parts \<Rightarrow> parts" where
  "normalize_path ps =
     (let ns = normalize_from (parts_anchor ps) [] ps in if ns \<noteq> [] then ns else ps)"

text \<open>\<^verbatim>\<open>candidate == root or root in candidate.parents\<close>.\<close>

definition contained :: "parts \<Rightarrow> parts \<Rightarrow> bool" where
  "contained base candidate \<longleftrightarrow> take (length base) candidate = base"

text \<open>\<^verbatim>\<open>root / raw\<close>, which is \<^verbatim>\<open>raw\<close> when \<^verbatim>\<open>raw\<close> is absolute.\<close>

definition under :: "parts \<Rightarrow> parts \<Rightarrow> parts" where
  "under base ps = (if ps \<noteq> [] \<and> (hd ps = str ''/'' \<or> hd ps = str ''//'') then ps else base @ ps)"

abbreviation candidate_parts :: "parts \<Rightarrow> pystr \<Rightarrow> parts" where
  "candidate_parts base s \<equiv> under base (path_parts s)"

text \<open>\<^verbatim>\<open>Path(s).expanduser()\<close>; the home directory of a \<^verbatim>\<open>~user\<close> component is the
  operating system's answer, which starts with a tilde when there is none.\<close>

definition expanduser :: "(pystr \<Rightarrow> pystr) \<Rightarrow> pystr \<Rightarrow> project_error + parts" where
  "expanduser home s =
     (let ps = path_parts s
      in if ps \<noteq> [] \<and> starts_with (hd ps) (str ''~'')
         then (if starts_with (home (hd ps)) (str ''~'') then Inl NoHomeDirectory
               else Inr (path_parts (home (hd ps)) @ tl ps))
         else Inr ps)"

definition posix :: "parts \<Rightarrow> pystr" where
  "posix ps = (if ps = [] then str ''.'' else join (str ''/'') ps)"

definition repo_relative :: "(pystr \<Rightarrow> pystr) \<Rightarrow> parts \<Rightarrow> pystr \<Rightarrow> project_error + pystr" where
  "repo_relative home base path = rbind (expanduser home path) (\<lambda>candidate.
     let resolved = normalize_path (under base candidate)
     in if \<not> contained base resolved then Inl (PathEscapes path)
        else Inr (posix (drop (length base) resolved)))"

subsection \<open>The canonical target\<close>

definition dispatch_route :: "dispatch_file \<Rightarrow> project_error + fields" where
  "dispatch_route d = (case d of
       NoDispatch \<Rightarrow> Inr []
     | BadDispatch \<Rightarrow> Inl DispatchUnreadable
     | Dispatch config \<Rightarrow> (case config of
          JObj fs \<Rightarrow> (case map_of fs (str ''omp_native'') of
              None \<Rightarrow> Inr []
            | Some (JObj route) \<Rightarrow> Inr route
            | Some _ \<Rightarrow> Inl RouteNotObject)
        | _ \<Rightarrow> Inl DispatchNotObject))"

definition declared_target_spec :: "dispatch_file \<Rightarrow> project_error + pystr option" where
  "declared_target_spec d = rbind (dispatch_route d) (\<lambda>route.
     let declared = jget route ''target_spec'' in
     case declared of
       JStr s \<Rightarrow> if \<not> blank s then Inr (Some s) else Inr None
     | JNull \<Rightarrow> Inr None
     | _ \<Rightarrow> Inl TargetNotString)"

definition default_target_spec :: pystr where
  "default_target_spec = str ''.fv/intent.md''"

definition resolve_target :: "target_fs \<Rightarrow> parts \<Rightarrow> dispatch_file \<Rightarrow> pystr option \<Rightarrow> project_error + parts" where
  "resolve_target fs base d target_spec =
     rbind (case target_spec of Some s \<Rightarrow> Inr (Some s) | None \<Rightarrow> declared_target_spec d) (\<lambda>found.
     let spec = (case found of None \<Rightarrow> default_target_spec | Some s \<Rightarrow> s);
         raw = path_parts spec;
         resolved = normalize_path (candidate_parts base spec);
         actual = realpath fs resolved
     in if blank spec then Inl TargetEmpty
        else if raw \<noteq> [] \<and> starts_with (hd raw) (str ''~'') then Inl (TargetTilde spec)
        else if \<not> contained base resolved then Inl (TargetEscapes spec)
        else if is_symlink fs resolved then Inl (TargetSymlink spec)
        else if \<not> contained (realpath fs base) actual then Inl (TargetEscapes spec)
        else if is_dir fs resolved then Inl (TargetDirectory spec)
        else if \<not> is_file fs resolved then Inl (TargetMissing spec)
        else Inr actual)"

text \<open>The producer's \<^verbatim>\<open>declaredTargetSpec\<close>, in TypeScript, where an array is an object too
  and \<^verbatim>\<open>String.trim\<close> strips what ECMAScript calls white space.\<close>

definition js_space :: "codepoint \<Rightarrow> bool" where
  "js_space c \<longleftrightarrow> (9 \<le> c \<and> c \<le> 13) \<or> c = 32 \<or> c = 160 \<or> c = 5760 \<or> (8192 \<le> c \<and> c \<le> 8202) \<or>
     c = 8232 \<or> c = 8233 \<or> c = 8239 \<or> c = 8287 \<or> c = 12288 \<or> c = 65279"

fun js_object_fields :: "json \<Rightarrow> fields option" where
  "js_object_fields (JObj fs) = Some fs"
| "js_object_fields (JArr _) = Some []"
| "js_object_fields _ = None"

definition ts_declared_target_spec :: "dispatch_file \<Rightarrow> project_error + pystr option" where
  "ts_declared_target_spec d = (case d of
       NoDispatch \<Rightarrow> Inr None
     | BadDispatch \<Rightarrow> Inl DispatchUnreadable
     | Dispatch parsed \<Rightarrow> (case js_object_fields parsed of
          None \<Rightarrow> Inl DispatchNotObject
        | Some fs \<Rightarrow> (case map_of fs (str ''omp_native'') of
            None \<Rightarrow> Inr None
          | Some route \<Rightarrow> (case js_object_fields route of
              None \<Rightarrow> Inl RouteNotObject
            | Some r \<Rightarrow> (case jget r ''target_spec'' of
                JNull \<Rightarrow> Inr None
              | JStr s \<Rightarrow> Inr (if list_all js_space s then None else Some s)
              | _ \<Rightarrow> Inl TargetNotString)))))"

subsection \<open>The snapshot\<close>

definition load_policy :: "policy_file \<Rightarrow> project_error + input_policy" where
  "load_policy f = (case f of
       NoPolicy \<Rightarrow> Inr \<lparr>mode = Exclude, prefixes = [], structural = default_exclusions\<rparr>
     | BadPolicy \<Rightarrow> Inl PolicyUnreadable
     | PolicyText s \<Rightarrow> (case parse_policy s of Inl e \<Rightarrow> Inl (PolicyRejected e) | Inr p \<Rightarrow> Inr p))"

definition load_exclusions :: "policy_file \<Rightarrow> project_error + pystr list" where
  "load_exclusions f = rbind (load_policy f) (\<lambda>p. Inr (exclusions p))"

text \<open>\<open>None\<close> is a git failure or output that is not UTF-8; else git's NUL-terminated names.\<close>

definition candidate_paths :: "pystr option \<Rightarrow> project_error + pystr list" where
  "candidate_paths listing = (case listing of
       None \<Rightarrow> Inl GitFailed
     | Some names \<Rightarrow> Inr (dedupe (filter (\<lambda>n. n \<noteq> []) (split_on 0 names))))"

definition order_inputs :: "pystr list \<Rightarrow> pystr list" where
  "order_inputs paths = sort_key utf8 paths"

fun hash_inputs :: "(int list \<Rightarrow> pystr) \<Rightarrow> parts \<Rightarrow> (pystr \<Rightarrow> node) \<Rightarrow> pystr list \<Rightarrow>
    project_error + (pystr \<times> pystr) list" where
  "hash_inputs sha base tree [] = Inr []"
| "hash_inputs sha base tree (r # rs) =
     (if \<not> contained base (normalize_path (candidate_parts base r)) then Inl (InputEscapes r)
      else case tree r of
        Absent \<Rightarrow> hash_inputs sha base tree rs
      | Symlink \<Rightarrow> Inl (InputSymlink r)
      | Directory \<Rightarrow> hash_inputs sha base tree rs
      | Special \<Rightarrow> Inl (InputNotRegular r)
      | Unreadable \<Rightarrow> Inl (InputUnreadable r)
      | Regular bytes \<Rightarrow> rbind (hash_inputs sha base tree rs) (\<lambda>es. Inr ((r, sha bytes) # es)))"

definition snapshot_entries :: "(int list \<Rightarrow> pystr) \<Rightarrow> parts \<Rightarrow> (pystr \<Rightarrow> node) \<Rightarrow> pystr option \<Rightarrow>
    input_policy \<Rightarrow> project_error + (pystr \<times> pystr) list" where
  "snapshot_entries sha base tree listing p =
     rbind (candidate_paths listing) (\<lambda>names.
     hash_inputs sha base tree (order_inputs (filter (selects p) names)))"

definition snapshot_bytes :: "(pystr \<times> pystr) list \<Rightarrow> int list" where
  "snapshot_bytes es = concat (map (\<lambda>(r, h). utf8 r @ [0] @ h @ [10]) es)"

definition content_snapshot :: "(int list \<Rightarrow> pystr) \<Rightarrow> parts \<Rightarrow> (pystr \<Rightarrow> node) \<Rightarrow> pystr option \<Rightarrow>
    input_policy \<Rightarrow> project_error + pystr" where
  "content_snapshot sha base tree listing p =
     rbind (snapshot_entries sha base tree listing p) (\<lambda>es.
     Inr (str ''sha256:'' @ sha (snapshot_bytes es)))"

fun is_content_snapshot :: "json \<Rightarrow> bool" where
  "is_content_snapshot (JStr s) \<longleftrightarrow> starts_with s (str ''sha256:'') \<and> hex64 (drop 7 s)"
| "is_content_snapshot _ \<longleftrightarrow> False"



subsection \<open>Paths never climb\<close>

text \<open>The accumulator of the normalisation: plain parts, above a run of \<^verbatim>\<open>..\<close> that could
  not be resolved, above the root.\<close>

definition climbing :: "pystr \<Rightarrow> parts \<Rightarrow> bool" where
  "climbing anchor acc \<longleftrightarrow> (\<exists>k ns. acc = ns @ replicate k (str ''..'') @ [anchor] \<and>
     str ''..'' \<notin> set ns \<and> anchor \<notin> set ns)"

lemma climbing_push:
  assumes "climbing anchor acc" "p \<noteq> anchor"
    "\<not> (p = str ''..'' \<and> acc \<noteq> [] \<and> hd acc \<noteq> str ''..'' \<and> hd acc \<noteq> anchor)"
  shows "climbing anchor (p # acc)"
proof -
  obtain k ns where acc: "acc = ns @ replicate k (str ''..'') @ [anchor]"
    and ns: "str ''..'' \<notin> set ns" "anchor \<notin> set ns"
    using assms(1) by (auto simp: climbing_def)
  show ?thesis
  proof (cases "p = str ''..''")
    case True
    then have "ns = []" using assms(3) acc ns by (cases ns) auto
    then have "p # acc = [] @ replicate (Suc k) (str ''..'') @ [anchor]" using acc True by simp
    then show ?thesis unfolding climbing_def by fastforce
  next
    case False
    then have "p # acc = (p # ns) @ replicate k (str ''..'') @ [anchor]" using acc by simp
    then show ?thesis unfolding climbing_def using ns False assms(2) by (metis set_ConsD)
  qed
qed

lemma climbing_pop:
  assumes "climbing anchor acc" "hd acc \<noteq> str ''..''" "hd acc \<noteq> anchor"
  shows "climbing anchor (tl acc)"
proof -
  obtain k ns where acc: "acc = ns @ replicate k (str ''..'') @ [anchor]"
    and ns: "str ''..'' \<notin> set ns" "anchor \<notin> set ns"
    using assms(1) by (auto simp: climbing_def)
  have "ns \<noteq> []" using assms(2,3) acc by (cases k) auto
  then have "tl acc = tl ns @ replicate k (str ''..'') @ [anchor]" using acc by simp
  then show ?thesis unfolding climbing_def using ns by (metis list.set_sel(2) tl_Nil)
qed

lemma normalize_from_climbing:
  "climbing anchor acc \<Longrightarrow> anchor \<notin> set ps \<Longrightarrow> \<exists>acc'. normalize_from anchor acc ps = rev acc' \<and> climbing anchor acc'"
proof (induction anchor acc ps rule: normalize_from.induct)
  case (1 anchor acc)
  then show ?case by auto
next
  case (2 anchor acc p ps)
  then show ?case using climbing_push [of anchor acc p] climbing_pop [of anchor acc] by auto
qed

lemma anchor_not_dots [simp]: "path_anchor s \<noteq> str ''..''" "path_anchor s \<noteq> str ''.''"
  by (simp_all add: path_anchor_def)

lemma components_no_slash: "w \<in> set (components s) \<Longrightarrow> slash \<notin> set w"
  by (auto simp: components_def dest: split_on_no_sep)

text \<open>A resolved project root: the anchor, then at least one real directory name.\<close>

definition resolved_root :: "parts \<Rightarrow> bool" where
  "resolved_root base \<longleftrightarrow> (\<exists>d ds. base = str ''/'' # d # ds \<and>
     str ''..'' \<notin> set (d # ds) \<and> (\<forall>w \<in> set (d # ds). slash \<notin> set w \<and> w \<noteq> str ''.''))"

lemma slash_text_notin: "\<forall>w \<in> set ws. slash \<notin> set w \<Longrightarrow> str ''/'' \<notin> set ws"
  by (auto simp: str_def slash_def)

lemma normalize_absolute:
  assumes "\<forall>w \<in> set ws. slash \<notin> set w"
  shows "\<exists>k ns. normalize_path (str ''/'' # ws) = str ''/'' # replicate k (str ''..'') @ ns \<and>
     str ''..'' \<notin> set ns"
proof -
  have "climbing (str ''/'') [str ''/'']" unfolding climbing_def by (rule exI [of _ 0]) auto
  then obtain acc where acc: "normalize_from (str ''/'') [str ''/''] ws = rev acc" "climbing (str ''/'') acc"
    using normalize_from_climbing slash_text_notin [OF assms] by blast
  then obtain k ns where "acc = ns @ replicate k (str ''..'') @ [str ''/'']" "str ''..'' \<notin> set ns"
    by (auto simp: climbing_def)
  with acc(1) have "normalize_path (str ''/'' # ws) = str ''/'' # replicate k (str ''..'') @ rev ns"
    by (simp add: normalize_path_def parts_anchor_def)
  with \<open>str ''..'' \<notin> set ns\<close> show ?thesis by (metis set_rev)
qed

lemma contained_no_climb:
  assumes "resolved_root base" "\<forall>w \<in> set ws. slash \<notin> set w"
    "contained base (normalize_path (str ''/'' # ws))"
  shows "str ''..'' \<notin> set (normalize_path (str ''/'' # ws))"
proof -
  obtain d ds where base: "base = str ''/'' # d # ds" and d: "d \<noteq> str ''..''"
    using assms(1) by (auto simp: resolved_root_def)
  obtain k ns where n: "normalize_path (str ''/'' # ws) = str ''/'' # replicate k (str ''..'') @ ns"
    "str ''..'' \<notin> set ns" using normalize_absolute [OF assms(2)] by blast
  have "k = 0"
  proof (rule ccontr)
    assume "k \<noteq> 0"
    then obtain j where "k = Suc j" by (cases k) auto
    with n(1) assms(3) base have "d = str ''..''" by (auto simp: contained_def)
    with d show False by simp
  qed
  with n show ?thesis by simp
qed


text \<open>The parts of a path: at most one root, then names without a slash.\<close>

definition path_shaped :: "parts \<Rightarrow> bool" where
  "path_shaped ps \<longleftrightarrow> (\<exists>a ws. ps = a @ ws \<and> (a = [] \<or> a = [str ''/''] \<or> a = [str ''//'']) \<and>
     (\<forall>w \<in> set ws. slash \<notin> set w))"

lemma path_parts_shaped: "path_shaped (path_parts s)"
  unfolding path_shaped_def path_parts_def
  by (rule exI [of _ "if is_absolute s then [path_anchor s] else []"])
    (use components_no_slash in \<open>auto simp: path_anchor_def\<close>)

lemma expanduser_shaped:
  assumes "expanduser home s = Inr ps"
  shows "path_shaped ps"
proof (cases "path_parts s \<noteq> [] \<and> starts_with (hd (path_parts s)) (str ''~'')")
  case True
  then have ps: "ps = path_parts (home (hd (path_parts s))) @ tl (path_parts s)"
    using assms by (auto simp: expanduser_def Let_def split: if_splits)
  have "\<not> is_absolute s" using True by (auto simp: path_parts_def path_anchor_def starts_with_def str_def split: if_splits)
  then have "\<forall>w \<in> set (tl (path_parts s)). slash \<notin> set w"
    using components_no_slash [of _ s] by (cases "components s") (auto simp: path_parts_def)
  with path_parts_shaped [of "home (hd (path_parts s))"] show ?thesis
    unfolding ps path_shaped_def by (metis UnE append.assoc set_append)
next
  case False
  then have "ps = path_parts s" using assms by (auto simp: expanduser_def Let_def)
  then show ?thesis by (simp add: path_parts_shaped)
qed

lemma double_root_not_contained:
  assumes "resolved_root base" "\<forall>w \<in> set ws. slash \<notin> set w"
  shows "\<not> contained base (normalize_path (str ''//'' # ws))"
proof -
  have "climbing (str ''//'') [str ''//'']" unfolding climbing_def by (rule exI [of _ 0]) auto
  moreover have "str ''//'' \<notin> set ws" using assms(2) by (auto simp: str_def slash_def)
  ultimately obtain acc where "normalize_from (str ''//'') [str ''//''] ws = rev acc"
    "climbing (str ''//'') acc" using normalize_from_climbing by blast
  then have "normalize_path (str ''//'' # ws) \<noteq> [] \<and> hd (normalize_path (str ''//'' # ws)) = str ''//''"
    by (auto simp: normalize_path_def parts_anchor_def climbing_def)
  then show ?thesis using assms(1) by (cases "normalize_path (str ''//'' # ws)") (auto simp: contained_def resolved_root_def)
qed

lemma candidate_shape:
  assumes "resolved_root base" "path_shaped ps" "contained base (normalize_path (under base ps))"
  shows "str ''..'' \<notin> set (normalize_path (under base ps))"
proof -
  obtain d ds where base: "base = str ''/'' # d # ds" and
    dirs: "\<forall>w \<in> set (d # ds). slash \<notin> set w"
    using assms(1) by (auto simp: resolved_root_def)
  obtain a ws where ps: "ps = a @ ws" "a = [] \<or> a = [str ''/''] \<or> a = [str ''//'']"
    and ws: "\<forall>w \<in> set ws. slash \<notin> set w" using assms(2) by (auto simp: path_shaped_def)
  from ps(2) consider "a = []" | "a = [str ''/'']" | "a = [str ''//'']" by blast
  then show ?thesis
  proof cases
    case 1
    have "ws = [] \<or> hd ws \<noteq> str ''/'' \<and> hd ws \<noteq> str ''//''"
      using ws by (cases ws) (auto simp: str_def slash_def)
    then have "under base ps = str ''/'' # (d # ds @ ws)" using 1 ps(1) base by (auto simp: under_def)
    with contained_no_climb [OF assms(1), of "d # ds @ ws"] dirs ws assms(3) show ?thesis by auto
  next
    case 2
    then have "under base ps = str ''/'' # ws" using ps(1) by (simp add: under_def)
    with contained_no_climb [OF assms(1) ws] assms(3) show ?thesis by simp
  next
    case 3
    then have "under base ps = str ''//'' # ws" using ps(1) by (simp add: under_def)
    with double_root_not_contained [OF assms(1) ws] assms(3) show ?thesis by simp
  qed
qed

lemma contained_drop: "contained base ps \<Longrightarrow> ps = base @ drop (length base) ps"
  unfolding contained_def by (metis append_take_drop_id)

lemma resolve_target_inside:
  assumes "resolve_target fs base d t = Inr tgt" "resolved_root base"
  shows "contained (realpath fs base) tgt"
    "\<exists>resolved. tgt = realpath fs resolved \<and> contained base resolved \<and> str ''..'' \<notin> set resolved \<and>
       is_file fs resolved \<and> \<not> is_symlink fs resolved"
proof -
  from assms(1) obtain found where
    "contained base (normalize_path (candidate_parts base found))"
    "tgt = realpath fs (normalize_path (candidate_parts base found))"
    "is_file fs (normalize_path (candidate_parts base found))"
    "\<not> is_symlink fs (normalize_path (candidate_parts base found))"
    "contained (realpath fs base) tgt"
    by (auto simp: resolve_target_def Let_def split: if_splits)
  with candidate_shape [OF assms(2) path_parts_shaped] show "contained (realpath fs base) tgt"
    "\<exists>resolved. tgt = realpath fs resolved \<and> contained base resolved \<and> str ''..'' \<notin> set resolved \<and>
       is_file fs resolved \<and> \<not> is_symlink fs resolved"
    by blast+
qed

text \<open>C14. A resolved target is inside the project. Whatever the dispatch file or the caller names,
  an accepted target lies, symbolic links resolved, below the resolved root; it was reached
  through a path below the root with no parent step left in it, at which there is a file and
  not itself a symbolic link. A directory on the way may be a link, as long as what the whole
  path resolves to is below the resolved root; the sample has one.\<close>

theorem target_stays_inside:
  assumes "resolve_target fs base d t = Inr tgt" "resolved_root base"
  shows "contained (realpath fs base) tgt \<and>
    (\<exists>resolved. tgt = realpath fs resolved \<and> contained base resolved \<and> str ''..'' \<notin> set resolved \<and>
       is_file fs resolved \<and> \<not> is_symlink fs resolved)"
  using resolve_target_inside [OF assms] by blast

definition sample_fs :: target_fs where
  "sample_fs = \<lparr>is_symlink = (\<lambda>p. p = map str [''/'', ''srv'', ''p'', ''docs'']),
     realpath = (\<lambda>p. if take 4 p = map str [''/'', ''srv'', ''p'', ''docs'']
       then map str [''/'', ''srv'', ''p'', ''text''] @ drop 4 p else p),
     is_dir = (\<lambda>_. False),
     is_file = (\<lambda>p. p = map str [''/'', ''srv'', ''p'', ''docs'', ''spec.md''])\<rparr>"

theorem target_stays_inside_witness:
  "contained (realpath sample_fs (map str [''/'', ''srv'', ''p'']))
     (map str [''/'', ''srv'', ''p'', ''text'', ''spec.md'']) \<and>
    (\<exists>resolved. map str [''/'', ''srv'', ''p'', ''text'', ''spec.md''] = realpath sample_fs resolved \<and>
       contained (map str [''/'', ''srv'', ''p'']) resolved \<and> str ''..'' \<notin> set resolved \<and>
       is_file sample_fs resolved \<and> \<not> is_symlink sample_fs resolved)"
proof (rule target_stays_inside)
  show "resolve_target sample_fs (map str [''/'', ''srv'', ''p'']) NoDispatch
      (Some (str ''docs/../docs/./spec.md'')) = Inr (map str [''/'', ''srv'', ''p'', ''text'', ''spec.md''])"
    by code_simp
  show "resolved_root (map str [''/'', ''srv'', ''p''])"
    by (auto simp: resolved_root_def str_def slash_def)
qed

lemma repo_relative_inside:
  assumes "repo_relative home base path = Inr rel" "resolved_root base"
  shows "\<exists>ps ws. expanduser home path = Inr ps \<and> rel = posix ws \<and> str ''..'' \<notin> set ws \<and>
    normalize_path (under base ps) = base @ ws"
proof -
  from assms(1) obtain ps where ps: "expanduser home path = Inr ps" and
    c: "contained base (normalize_path (under base ps))" and
    rel: "rel = posix (drop (length base) (normalize_path (under base ps)))"
    by (auto simp: repo_relative_def Let_def split: if_splits)
  from candidate_shape [OF assms(2) expanduser_shaped [OF ps] c]
  have "str ''..'' \<notin> set (drop (length base) (normalize_path (under base ps)))"
    by (meson in_set_dropD)
  with ps rel contained_drop [OF c] show ?thesis by blast
qed

text \<open>C39. A repository-relative name denotes the path it was made from: it has no parent step,
  and joined to the root it is the normalised path.\<close>

theorem repo_relative_denotes:
  assumes "repo_relative home base path = Inr rel" "resolved_root base"
  shows "\<exists>ps ws. expanduser home path = Inr ps \<and> rel = posix ws \<and> str ''..'' \<notin> set ws \<and>
    normalize_path (under base ps) = base @ ws"
  by (rule repo_relative_inside [OF assms])

theorem repo_relative_denotes_witness:
  "\<exists>ps ws. expanduser (\<lambda>_. str ''/p/u'') (str ''~/../b//c'') = Inr ps \<and> str ''b/c'' = posix ws \<and>
    str ''..'' \<notin> set ws \<and> normalize_path (under (map str [''/'', ''p'']) ps) = map str [''/'', ''p''] @ ws"
proof (rule repo_relative_denotes)
  show "repo_relative (\<lambda>_. str ''/p/u'') (map str [''/'', ''p'']) (str ''~/../b//c'') = Inr (str ''b/c'')"
    by code_simp
  show "resolved_root (map str [''/'', ''p''])" by (auto simp: resolved_root_def str_def slash_def)
qed

subsection \<open>The declared target on both sides\<close>

lemma blank_iff: "blank s \<longleftrightarrow> list_all py_space s"
  by (auto simp: blank_def strip_def rstrip_def lstrip_def dropWhile_eq_Nil_conv list_all_iff
      dest: set_dropWhileD)
    (metis (no_types, lifting) UnE set_append set_dropWhileD set_takeWhileD takeWhile_dropWhile_id)

fun no_array_route :: "dispatch_file \<Rightarrow> bool" where
  "no_array_route (Dispatch (JArr _)) \<longleftrightarrow> False"
| "no_array_route (Dispatch (JObj fs)) \<longleftrightarrow>
     (case map_of fs (str ''omp_native'') of Some (JArr _) \<Rightarrow> False
      | Some (JObj r) \<Rightarrow> (case jget r ''target_spec'' of
           JStr s \<Rightarrow> list_all (\<lambda>c. py_space c \<longleftrightarrow> js_space c) s | _ \<Rightarrow> True)
      | _ \<Rightarrow> True)"
| "no_array_route _ \<longleftrightarrow> True"

lemma list_all_same: "list_all (\<lambda>c. P c \<longleftrightarrow> Q c) s \<Longrightarrow> list_all P s \<longleftrightarrow> list_all Q s"
  by (auto simp: list_all_iff)

text \<open>Producer and gate name one target: where the dispatch file holds objects at the two
  levels the target is looked up in and the declared string has no character on which Python and
  ECMAScript disagree about white space, the two readers return the same target or refusal.\<close>

theorem declared_target_agree:
  "no_array_route d \<Longrightarrow> ts_declared_target_spec d = declared_target_spec d"
proof (cases d)
  case (Dispatch j)
  assume ok: "no_array_route d"
  show ?thesis
  proof (cases j)
    case (JObj fs)
    show ?thesis
    proof (cases "map_of fs (str ''omp_native'')")
      case (Some v)
      with ok Dispatch JObj show ?thesis
        by (cases v) (auto simp: ts_declared_target_spec_def declared_target_spec_def dispatch_route_def
            Let_def blank_iff dest: list_all_same split: json.splits)
    qed (auto simp: Dispatch JObj ts_declared_target_spec_def declared_target_spec_def dispatch_route_def)
  qed (use ok Dispatch in \<open>auto simp: ts_declared_target_spec_def declared_target_spec_def dispatch_route_def\<close>)
qed (auto simp: ts_declared_target_spec_def declared_target_spec_def dispatch_route_def)

definition sample_dispatch :: dispatch_file where
  "sample_dispatch = Dispatch (JObj [(str ''omp_native'', JObj [(str ''target_spec'', JStr (str ''docs/spec.md''))])])"

theorem declared_target_agree_witness:
  "ts_declared_target_spec sample_dispatch = declared_target_spec sample_dispatch"
  by (rule declared_target_agree) code_simp

subsection \<open>What the snapshot depends on\<close>

text \<open>
  The interface the snapshot has to a policy: which names are verified inputs and which are
  generated output. The one law is that output is never an input; the lemmas are what the
  snapshot makes of it.
\<close>

locale verified_inputs =
  fixes is_input :: "pystr \<Rightarrow> bool"
    and generated :: "pystr \<Rightarrow> bool"
  assumes generated_not_input: "generated r \<Longrightarrow> \<not> is_input r"
begin

lemma inputs_without_generated: "filter is_input (filter (\<lambda>r. \<not> generated r) rs) = filter is_input rs"
  using generated_not_input by (induction rs) auto

lemma inputs_agree:
  assumes "{r \<in> set xs. \<not> generated r} = {r \<in> set ys. \<not> generated r}"
  shows "set (filter is_input xs) = set (filter is_input ys)"
  using assms generated_not_input by auto

lemma input_not_generated: "r \<in> set (filter is_input rs) \<Longrightarrow> \<not> generated r"
  using generated_not_input by auto

end

interpretation policy: verified_inputs "selects p" "\<lambda>r. matches_prefixes r (structural p)" for p
  by unfold_locales (simp add: selects_def)

lemma set_order_inputs [simp]: "set (order_inputs rs) = set rs"
  by (simp add: order_inputs_def)

lemma order_inputs_set:
  assumes "set xs = set ys" "distinct xs" "distinct ys" "list_all (list_all code_ok) xs"
  shows "order_inputs xs = order_inputs ys"
proof -
  have "list_all (list_all code_ok) ys" using assms(1,4) by (simp add: list_all_iff)
  then have "order_inputs xs = sort xs" "order_inputs ys = sort ys"
    using assms(4) by (simp_all add: order_inputs_def sort_key_utf8)
  moreover have "sort xs = sort ys"
    using assms(1,2,3) by (intro sorted_distinct_set_unique) simp_all
  ultimately show ?thesis by simp
qed

lemma hash_inputs_cong:
  "(\<And>r. r \<in> set rs \<Longrightarrow> tree r = tree' r) \<Longrightarrow> hash_inputs sha base tree rs = hash_inputs sha base tree' rs"
  by (induction rs) (auto split: node.splits)

lemma candidate_paths_code_ok:
  assumes "list_all code_ok names" "candidate_paths (Some names) = Inr rs"
  shows "list_all (list_all code_ok) rs" "distinct rs" "\<forall>r \<in> set rs. r \<noteq> [] \<and> 0 \<notin> set r"
proof -
  have sub: "w \<in> set (split_on 0 names) \<Longrightarrow> set w \<subseteq> set names" for w
  proof (induction names arbitrary: w)
    case Nil
    then show ?case by simp
  next
    case (Cons c cs)
    then show ?case by (cases "split_on 0 cs") (fastforce split: if_splits)+
  qed
  have rs: "rs = dedupe (filter (\<lambda>n. n \<noteq> []) (split_on 0 names))"
    using assms(2) by (simp add: candidate_paths_def)
  show "list_all (list_all code_ok) rs" using assms(1) sub unfolding rs list_all_iff by fastforce
  show "distinct rs" by (simp add: rs)
  show "\<forall>r \<in> set rs. r \<noteq> [] \<and> 0 \<notin> set r" using split_on_no_sep by (auto simp: rs)
qed

text \<open>Names git lists that are not generated output.\<close>

definition listed_inputs :: "input_policy \<Rightarrow> pystr \<Rightarrow> pystr set" where
  "listed_inputs p names =
     {r \<in> set (split_on 0 names). r \<noteq> [] \<and> \<not> matches_prefixes r (structural p)}"

text \<open>The content snapshot ignores generated output. Two listings of the repository that name the
  same files outside the structural exclusions, in any order and with any repetition, and two
  work trees that agree outside them, have one snapshot: writing evidence, panels, change
  records or history never invalidates the evidence being written.\<close>

theorem snapshot_ignores_generated:
  assumes "list_all code_ok names" "list_all code_ok names'"
    "listed_inputs p names = listed_inputs p names'"
    "\<forall>r. \<not> matches_prefixes r (structural p) \<longrightarrow> tree r = tree' r"
  shows "content_snapshot sha base tree (Some names) p = content_snapshot sha base tree' (Some names') p"
proof -
  obtain rs rs' where rs: "candidate_paths (Some names) = Inr rs" "candidate_paths (Some names') = Inr rs'"
    by (simp add: candidate_paths_def)
  have sets: "set rs = {r \<in> set (split_on 0 names). r \<noteq> []}"
    "set rs' = {r \<in> set (split_on 0 names'). r \<noteq> []}"
    using rs by (auto simp: candidate_paths_def)
  have "set (filter (selects p) rs) = set (filter (selects p) rs')"
    by (rule policy.inputs_agree) (use assms(3) in \<open>auto simp: sets listed_inputs_def\<close>)
  then have "order_inputs (filter (selects p) rs) = order_inputs (filter (selects p) rs')"
    using candidate_paths_code_ok [OF assms(1) rs(1)] candidate_paths_code_ok [OF assms(2) rs(2)]
    by (intro order_inputs_set) (auto simp: list_all_iff)
  moreover have "hash_inputs sha base tree (order_inputs (filter (selects p) rs)) =
      hash_inputs sha base tree' (order_inputs (filter (selects p) rs))"
  proof (rule hash_inputs_cong)
    fix r assume "r \<in> set (order_inputs (filter (selects p) rs))"
    then have "r \<in> set (filter (selects p) rs)" by simp
    then show "tree r = tree' r" using assms(4) policy.input_not_generated by blast
  qed
  ultimately show ?thesis by (simp add: content_snapshot_def snapshot_entries_def rs)
qed

definition sample_policy :: input_policy where
  "sample_policy = \<lparr>mode = Exclude, prefixes = [], structural = default_exclusions\<rparr>"

definition sample_names :: pystr where "sample_names = str ''a.py'' @ 0 # str ''.fv/evidence/run.json''"

theorem snapshot_ignores_generated_witness:
  "content_snapshot (\<lambda>_. replicate 64 48) [str ''p''] (\<lambda>_. Regular [1]) (Some sample_names)
     sample_policy =
   content_snapshot (\<lambda>_. replicate 64 48) [str ''p'']
     (\<lambda>r. if matches_prefixes r (structural sample_policy) then Symlink else Regular [1])
     (Some (str ''.fv/panels/notes.md'' @ 0 # str ''a.py'')) sample_policy"
proof (rule snapshot_ignores_generated)
  show "list_all code_ok sample_names" "list_all code_ok (str ''.fv/panels/notes.md'' @ 0 # str ''a.py'')"
    by code_simp+
  show "listed_inputs sample_policy sample_names =
      listed_inputs sample_policy (str ''.fv/panels/notes.md'' @ 0 # str ''a.py'')"
    by code_simp
qed simp

subsection \<open>The hashed bytes determine the entries\<close>

definition entry_wf :: "pystr \<times> pystr \<Rightarrow> bool" where
  "entry_wf e \<longleftrightarrow> list_all code_ok (fst e) \<and> 0 \<notin> set (fst e) \<and> length (snd e) = 64"

lemma snapshot_bytes_Cons:
  "snapshot_bytes (e # es) = utf8 (fst e) @ 0 # snd e @ 10 # snapshot_bytes es"
  by (simp add: snapshot_bytes_def split: prod.splits)

lemma append_eq_same_head:
  assumes "xs @ z # as = ys @ z # bs" "z \<notin> set xs" "z \<notin> set ys"
  shows "xs = ys \<and> as = bs"
  using assms
proof (induction xs arbitrary: ys)
  case Nil
  then show ?case by (cases ys) auto
next
  case (Cons x xs)
  then show ?case by (cases ys) auto
qed

lemma snapshot_bytes_inj:
  "list_all entry_wf es \<Longrightarrow> list_all entry_wf fs \<Longrightarrow> snapshot_bytes es = snapshot_bytes fs \<Longrightarrow> es = fs"
proof (induction es arbitrary: fs)
  case Nil
  then show ?case by (cases fs) (auto simp: snapshot_bytes_Cons snapshot_bytes_def split: prod.splits)
next
  case (Cons e es)
  then obtain f fs' where fs: "fs = f # fs'"
    by (cases fs) (auto simp: snapshot_bytes_def split: prod.splits)
  from Cons.prems fs have we: "entry_wf e" and wf: "entry_wf f" by auto
  have nz: "0 \<notin> set (utf8 (fst e))" "0 \<notin> set (utf8 (fst f))"
    using we wf utf8_ascii_byte [of 0] by (auto simp: entry_wf_def)
  have "utf8 (fst e) @ 0 # snd e @ 10 # snapshot_bytes es = utf8 (fst f) @ 0 # snd f @ 10 # snapshot_bytes fs'"
    using Cons.prems(3) fs by (simp add: snapshot_bytes_Cons)
  then have u: "utf8 (fst e) = utf8 (fst f)" and
    r: "snd e @ 10 # snapshot_bytes es = snd f @ 10 # snapshot_bytes fs'"
    using append_eq_same_head [OF _ nz] by simp_all
  have "fst e = fst f" using u we wf by (auto simp: entry_wf_def intro: utf8_inj)
  moreover have "snd e = snd f" "snapshot_bytes es = snapshot_bytes fs'"
    using r we wf by (auto simp: entry_wf_def)
  ultimately show ?case using Cons fs by (auto simp: prod_eq_iff)
qed

lemma hash_inputs_wf:
  "hash_inputs sha base tree rs = Inr es \<Longrightarrow> \<forall>b. length (sha b) = 64 \<Longrightarrow>
   \<forall>r \<in> set rs. list_all code_ok r \<and> 0 \<notin> set r \<Longrightarrow> list_all entry_wf es"
  by (induction rs arbitrary: es) (auto simp: entry_wf_def split: if_splits node.splits)

lemma snapshot_entries_wf:
  assumes "snapshot_entries sha base tree (Some names) p = Inr es" "\<forall>b. length (sha b) = 64"
    "list_all code_ok names"
  shows "list_all entry_wf es"
proof -
  obtain rs where rs: "candidate_paths (Some names) = Inr rs" by (simp add: candidate_paths_def)
  with assms(1) have "hash_inputs sha base tree (order_inputs (filter (selects p) rs)) = Inr es"
    by (simp add: snapshot_entries_def)
  then show ?thesis using assms(2) candidate_paths_code_ok [OF assms(3) rs]
    by (intro hash_inputs_wf) (auto simp: list_all_iff)
qed

text \<open>C12. The snapshot identifies its inputs. When the digest has 64 characters and does not
  collide on the two byte strings hashed, equal snapshots come from equal lists of path and
  content digest, for any roots, work trees and policies: the framing by NUL and newline is
  injective, and no renaming, addition, removal or edit of an input keeps the snapshot.\<close>

theorem snapshot_identifies_entries:
  assumes "\<forall>b. length (sha b) = 64"
    "\<forall>a b. sha a = sha b \<longrightarrow> a \<in> H \<longrightarrow> b \<in> H \<longrightarrow> a = b"
    "list_all code_ok names" "list_all code_ok names'"
    "snapshot_entries sha base tree (Some names) p = Inr es"
    "snapshot_entries sha base' tree' (Some names') p' = Inr es'"
    "snapshot_bytes es \<in> H" "snapshot_bytes es' \<in> H"
    "content_snapshot sha base tree (Some names) p = content_snapshot sha base' tree' (Some names') p'"
  shows "es = es'"
proof -
  have "sha (snapshot_bytes es) = sha (snapshot_bytes es')"
    using assms(5,6,9) by (simp add: content_snapshot_def)
  then have "snapshot_bytes es = snapshot_bytes es'" using assms(2,7,8) by blast
  then show ?thesis
    using snapshot_bytes_inj snapshot_entries_wf assms(1,3,4,5,6) by blast
qed

theorem snapshot_identifies_entries_witness:
  "[(str ''a'', replicate 64 48), (str ''b'', replicate 64 (48::int))] =
   [(str ''a'', replicate 64 48), (str ''b'', replicate 64 48)]"
  by (rule snapshot_identifies_entries
      [where sha = "\<lambda>_. replicate 64 48" and base = "[str ''p'']" and base' = "[str ''q'']" and
        tree = "\<lambda>_. Regular [1]" and
        tree' = "\<lambda>r. if r = str ''.fv/evidence/run.json'' then Symlink else Regular [1]" and
        names = "str ''b'' @ 0 # str ''a''" and
        names' = "str ''a'' @ 0 # str ''.fv/evidence/run.json'' @ 0 # str ''b''" and
        p = sample_policy and p' = sample_policy and
        H = "{snapshot_bytes [(str ''a'', replicate 64 48), (str ''b'', replicate 64 48)]}"])
    (simp, simp, code_simp+)

end
