(* ===== verification/Gate_Records.thy ===== *)
theory Gate_Records
  imports Project
begin

text \<open>
  The record validator of \<^verbatim>\<open>scripts/check_evidence_records.py\<close> (Gate B): what one
  evidence record must hold, down to the executions of a cohort and the bytes of the
  artifacts they cite. A defect of the Python list is a constructor carrying what the message
  quotes; an uncaught exception is \<open>Inl\<close>. The repository tree, the digest and the decoders are
  the fields of \<open>env\<close>.
\<close>

subsection \<open>Vocabulary\<close>

definition evidence_classes :: "pystr list" where
  "evidence_classes = map str
     [''code-enforced'', ''proof-discharged'', ''bounded-checked'', ''test-witnessed'',
      ''conformance-tested'', ''externally-assumed'', ''unverified'']"

definition assumed_classes :: "pystr list" where
  "assumed_classes = map str [''externally-assumed'', ''unverified'']"

definition results :: "pystr list" where
  "results = map str [''PASS'', ''FAIL'', ''INCOMPLETE'']"

datatype obligation_kind = Invariant | Witness | SystemClaim

fun kind_name :: "obligation_kind \<Rightarrow> pystr" where
  "kind_name Invariant = str ''invariant''"
| "kind_name Witness = str ''witness''"
| "kind_name SystemClaim = str ''system_claim''"

fun compatible_classes :: "obligation_kind \<Rightarrow> pystr list" where
  "compatible_classes Invariant = map str
     [''code-enforced'', ''proof-discharged'', ''bounded-checked'', ''conformance-tested'',
      ''externally-assumed'', ''unverified'']"
| "compatible_classes Witness = map str
     [''test-witnessed'', ''conformance-tested'', ''externally-assumed'', ''unverified'']"
| "compatible_classes SystemClaim = evidence_classes"

definition canonical_trailer :: pystr where
  "canonical_trailer = str ''--- fv-evidence: exit=0 ---''"

text \<open>The marker regexes are alternations of literals; \<^verbatim>\<open>re.search\<close> finds one of them.\<close>

definition pass_markers :: "pystr \<Rightarrow> pystr list option" where
  "pass_markers cls = map_of
     [(str ''code-enforced'', [canonical_trailer]),
      (str ''proof-discharged'', [str ''VERIFICATION:- SUCCESSFUL'',
         str ''Build completed successfully'', canonical_trailer]),
      (str ''bounded-checked'', [str ''[ok]'', str ''VERIFICATION:- SUCCESSFUL'',
         str ''No violation found'']),
      (str ''test-witnessed'', [str ''test result: ok.'', str ''[ok]'', str ''[violation]'',
         str ''Invariant violated'', str ''violation found'']),
      (str ''conformance-tested'', [str ''CONFORMANCE: PASS'', str ''CONFORMANCE_TESTED: PASS'',
         str ''test result: ok.'', canonical_trailer]),
      (str ''externally-assumed'', [canonical_trailer]),
      (str ''unverified'', [canonical_trailer])] cls"

definition obligation_id :: "pystr \<Rightarrow> bool" where
  "obligation_id = id_match (str ''._:-'')"

definition producer_claim_id :: "pystr \<Rightarrow> bool" where
  "producer_claim_id = id_match (str ''._-'')"

definition evidence_tool_id :: "pystr \<Rightarrow> bool" where
  "evidence_tool_id = id_match (str ''._:+/-'')"

definition profile_id :: "pystr \<Rightarrow> bool" where
  "profile_id = id_match (str ''._+/-'')"

definition producer_profile :: pystr where
  "producer_profile = str ''producer-trusted-execution''"

definition producer_artifact :: "pystr \<Rightarrow> pystr \<Rightarrow> pystr" where
  "producer_artifact claim_id run_id =
     str ''.fv/evidence/raw/'' @ claim_id @ str ''-'' @ run_id @ str ''.log''"

definition top_fields :: "string list" where
  "top_fields = [''claim_id'', ''required'', ''evidence_class'', ''result'', ''scope'',
     ''bindings'', ''waiver'']"

definition binding_fields :: "string list" where
  "binding_fields = [''source_snapshot'', ''intent_hash'', ''obligation_manifest_hash'',
     ''profile'', ''required_targets'', ''environment_policy'', ''toolchain_digests'',
     ''command'', ''configuration'', ''seeds'', ''raw_output_hash'',
     ''parser_schema_version'', ''run_id'']"

definition v3_binding_fields :: "string list" where
  "v3_binding_fields = [''intent_path'', ''executions'']"

definition nullable :: "string list" where
  "nullable = [''seeds'', ''waiver'']"

definition execution_fields :: "string list" where
  "execution_fields = [''tool'', ''evidence_class'', ''command'', ''cwd'',
     ''toolchain_digests'', ''raw_output_path'', ''raw_output_hash'', ''result'', ''run_id'']"

definition waiver_fields :: "string list" where
  "waiver_fields = [''id'', ''approver'', ''scope'']"

text \<open>A value of the wrong kind is \<open>Malformed\<close> with the name of the field that holds it.\<close>

datatype defect =
    MissingField string
  | MissingBinding string
  | EmptyBinding string
  | Malformed string json
  | WaiverUnattributable "string list"
  | NoExecutableIdentity
  | DirtySnapshot pystr
  | Stale string json
  | IncompatibleClass json obligation_kind
  | NotProducerProfile json
  | RepeatedTargets "pystr list"
  | TargetsMismatch "pystr list" "pystr list"
  | PathEscapesRoot string json
  | ArtifactUnresolvable json
  | ArtifactHashMismatch json pystr
  | BadTrailer
  | MarkerAbsent json
  | Duplicate string pystr
  | ResultBeneathPass json
  | NotProducerArtifact pystr pystr
  | NotDerived string
  | UncoveredTools "pystr list"
  | SharedArtifact pystr "pystr list"
  | InExecution nat defect

type_synonym defects = "py_exn + defect list"

record env =
  inside_root :: "pystr \<Rightarrow> py_exn + bool"
  read_file :: "pystr \<Rightarrow> py_exn + int list option"
  sha256 :: "int list \<Rightarrow> pystr"
  decode_text :: "int list \<Rightarrow> pystr"
  json_loads :: "pystr \<Rightarrow> json option"

text \<open>\<open>report_if b d\<close> is the idiom \<^verbatim>\<open>if b: defects.append(d)\<close>.\<close>

definition report_if :: "bool \<Rightarrow> defect \<Rightarrow> defects" where
  "report_if b d = Inr (if b then [d] else [])"

definition report_unless_in :: "json \<Rightarrow> pystr list \<Rightarrow> defect \<Rightarrow> defects" where
  "report_unless_in v names d = rbind (in_names v names) (\<lambda>ok. Inr (if ok then [] else [d]))"

subsection \<open>Artifacts\<close>

definition valid_toolchain :: "json \<Rightarrow> bool" where
  "valid_toolchain v = (case v of
       JObj t \<Rightarrow> nonempty_str (jget t ''executable'') \<and>
         (case jget t ''sha256'' of JStr h \<Rightarrow> hex64 h | _ \<Rightarrow> False) \<and>
         as_str (jget t ''version'') \<noteq> None \<and> py_int (jget t ''version_exit_code'')
     | _ \<Rightarrow> False)"

text \<open>The first argument of the result is a defect when there is one.\<close>

definition contained_path_defect :: "env \<Rightarrow> json \<Rightarrow> string \<Rightarrow> defects" where
  "contained_path_defect env v field = (case v of
       JStr s \<Rightarrow>
         if blank s then Inr [Malformed field v]
         else if is_absolute s \<or> str ''..'' \<in> set (components s) then Inr [PathEscapesRoot field v]
         else rbind (inside_root env s) (\<lambda>ok. Inr (if ok then [] else [PathEscapesRoot field v]))
     | _ \<Rightarrow> Inr [Malformed field v])"

definition read_artifact :: "env \<Rightarrow> json \<Rightarrow> json \<Rightarrow> py_exn + (defect list \<times> pystr option)" where
  "read_artifact env relative expected = (case relative of
       JStr s \<Rightarrow>
         if blank s then Inr ([ArtifactUnresolvable relative], None)
         else rbind (inside_root env s) (\<lambda>ok.
           if is_absolute s \<or> \<not> ok then Inr ([ArtifactUnresolvable relative], None)
           else rbind (read_file env s) (\<lambda>file. case file of
               None \<Rightarrow> Inr ([ArtifactUnresolvable relative], None)
             | Some raw \<Rightarrow>
                 if expected \<noteq> JStr (sha256 env raw)
                 then Inr ([ArtifactHashMismatch expected (sha256 env raw)], None)
                 else Inr ([], Some (decode_text env raw))))
     | _ \<Rightarrow> Inr ([ArtifactUnresolvable relative], None))"

text \<open>\<^verbatim>\<open>\d\<close> on text is the Unicode category Nd: runs of ten from these zeros, and the
  fifty mathematical digits.\<close>

definition digit_zeros :: "codepoint list" where
  "digit_zeros = [48, 1632, 1776, 1984, 2406, 2534, 2662, 2790, 2918, 3046, 3174, 3302, 3430, 3558,
     3664, 3792, 3872, 4160, 4240, 6112, 6160, 6470, 6608, 6784, 6800, 6992, 7088, 7232, 7248, 42528,
     43216, 43264, 43472, 43504, 43600, 44016, 65296, 66720, 68912, 69734, 69872, 69942, 70096, 70384,
     70736, 70864, 71248, 71360, 71472, 71904, 72016, 72784, 73040, 73120, 92768, 92864, 93008, 123200,
     123632, 125264, 130032]"

definition unicode_digit :: "codepoint \<Rightarrow> bool" where
  "unicode_digit c \<longleftrightarrow> list_ex (\<lambda>z. z \<le> c \<and> c \<le> z + 9) digit_zeros \<or> (120782 \<le> c \<and> c \<le> 120831)"

definition trailer_line :: "pystr \<Rightarrow> bool" where
  "trailer_line l \<longleftrightarrow> (let pre = str ''--- fv-evidence: exit=''; post = str '' ---'';
        mid = take (length l - length pre - length post) (drop (length pre) l)
     in l = pre @ mid @ post \<and> mid \<noteq> [] \<and> list_all unicode_digit mid)"

definition pass_artifact_defects :: "pystr \<Rightarrow> json \<Rightarrow> json \<Rightarrow> defect list" where
  "pass_artifact_defects artifact cls pass_marker =
     (let ls = splitlines artifact in
      if filter trailer_line ls \<noteq> [canonical_trailer] \<or> ls = [] \<or> last ls \<noteq> canonical_trailer
      then [BadTrailer]
      else if nonempty_str pass_marker
      then (if contains (the (as_str pass_marker)) artifact then [] else [MarkerAbsent cls])
      else (case (case cls of JStr c \<Rightarrow> pass_markers c | _ \<Rightarrow> None) of
          None \<Rightarrow> [Malformed ''evidence_class'' cls]
        | Some marker \<Rightarrow> if list_ex (\<lambda>lit. contains lit artifact) marker then [] else [MarkerAbsent cls]))"

definition raw_artifact_defects :: "env \<Rightarrow> fields \<Rightarrow> fields \<Rightarrow> defects" where
  "raw_artifact_defects env rec bindings =
     rbind (read_artifact env (jget bindings ''raw_output_path'') (jget bindings ''raw_output_hash''))
       (\<lambda>(ds, content). case content of
           None \<Rightarrow> Inr ds
         | Some t \<Rightarrow> Inr (pass_artifact_defects t (jget rec ''evidence_class'')
                      (jsub (jget bindings ''configuration'') ''pass_marker'')))"

subsection \<open>Cohorts\<close>

record cohort =
  cohort_claim :: pystr
  record_pass :: bool
  producer :: bool
  cohort_kind :: "obligation_kind option"
  seen_tools :: "pystr list"
  seen_paths :: "(pystr, nat) dict"

definition tool_step :: "json \<Rightarrow> cohort \<Rightarrow> defect list \<times> cohort" where
  "tool_step tool c = (case tool of
       JStr t \<Rightarrow>
         if \<not> evidence_tool_id t then ([Malformed ''tool'' tool], c)
         else if t \<in> set (seen_tools c) then ([Duplicate ''tool'' t], c)
         else ([], c\<lparr>seen_tools := seen_tools c @ [t]\<rparr>)
     | _ \<Rightarrow> ([Malformed ''tool'' tool], c))"

definition class_defects :: "obligation_kind option \<Rightarrow> json \<Rightarrow> defects" where
  "class_defects kind cls = rbind (in_names cls evidence_classes) (\<lambda>known.
     if \<not> known then Inr [Malformed ''evidence_class'' cls]
     else case kind of
         None \<Rightarrow> Inr []
       | Some k \<Rightarrow> report_unless_in cls (compatible_classes k) (IncompatibleClass cls k))"

definition command_ok :: "json \<Rightarrow> bool" where
  "command_ok v = (case v of JArr parts \<Rightarrow> parts \<noteq> [] \<and> list_all nonempty_str parts | _ \<Rightarrow> False)"

definition result_defects :: "bool \<Rightarrow> json \<Rightarrow> defects" where
  "result_defects beneath_pass v = rbind (in_names v results) (\<lambda>known.
     if \<not> known then Inr [Malformed ''result'' v]
     else if beneath_pass \<and> v \<noteq> JStr (str ''PASS'') then Inr [ResultBeneathPass v]
     else Inr [])"

definition path_step :: "nat \<Rightarrow> json \<Rightarrow> json \<Rightarrow> cohort \<Rightarrow> defect list \<times> cohort" where
  "path_step index raw run_id c = (case raw of
       JStr p \<Rightarrow>
         if p = [] then ([], c)
         else
           (let seen = dsetdefault (seen_paths c) p index;
                first = the (map_of seen p);
                dup = (if first \<noteq> index then [Duplicate ''raw_output_path'' p] else []);
                named = (case run_id of
                    JStr r \<Rightarrow> if producer c \<and> p \<noteq> producer_artifact (cohort_claim c) r
                      then [NotProducerArtifact p (producer_artifact (cohort_claim c) r)] else []
                  | _ \<Rightarrow> [])
            in (dup @ named, c\<lparr>seen_paths := seen\<rparr>))
     | _ \<Rightarrow> ([], c))"

definition execution_defects :: "env \<Rightarrow> nat \<Rightarrow> json \<Rightarrow> cohort \<Rightarrow> py_exn + (defect list \<times> cohort)" where
  "execution_defects env index execution c0 = (case execution of
       JObj e \<Rightarrow>
         (let missing = filter (\<lambda>f. \<not> jhas e f) execution_fields in
          if missing \<noteq> [] then Inr (map MissingField missing, c0)
          else
            (let (tool_ds, c1) = tool_step (jget e ''tool'') c0;
                 (path_ds, c2) = path_step index (jget e ''raw_output_path'') (jget e ''run_id'') c1;
                 marker = jget e ''pass_marker''
             in rbind (gather
                  [Inr tool_ds,
                   class_defects (cohort_kind c0) (jget e ''evidence_class''),
                   report_if (\<not> command_ok (jget e ''command'')) (Malformed ''command'' (jget e ''command'')),
                   contained_path_defect env (jget e ''cwd'') ''cwd'',
                   report_if (\<not> valid_toolchain (jget e ''toolchain_digests'')) NoExecutableIdentity,
                   result_defects (record_pass c0) (jget e ''result''),
                   report_if (\<not> nonblank_str (jget e ''run_id'')) (Malformed ''run_id'' (jget e ''run_id'')),
                   Inr path_ds,
                   report_if (jhas e ''pass_marker'' \<and> \<not> nonempty_str marker) (Malformed ''pass_marker'' marker)])
                (\<lambda>ds. if ds \<noteq> [] then Inr (ds, c2)
                  else rbind (read_artifact env (jget e ''raw_output_path'') (jget e ''raw_output_hash''))
                    (\<lambda>(ads, content). Inr (ads @
                       (case content of
                          Some t \<Rightarrow> if jget e ''result'' = JStr (str ''PASS'')
                            then pass_artifact_defects t (jget e ''evidence_class'') marker else []
                        | None \<Rightarrow> []), c2)))))
     | _ \<Rightarrow> Inr ([Malformed ''execution'' execution], c0))"

fun cohort_loop :: "env \<Rightarrow> nat \<Rightarrow> json list \<Rightarrow> cohort \<Rightarrow> defects" where
  "cohort_loop env index [] c = Inr []"
| "cohort_loop env index (x # xs) c =
     rbind (execution_defects env index x c) (\<lambda>(ds, c').
     rbind (cohort_loop env (Suc index) xs c') (\<lambda>es.
     Inr (map (InExecution index) ds @ es)))"

text \<open>The legacy bindings derived from the first execution; \<^verbatim>\<open>primary\<close> is an object by then.\<close>

definition derived_command :: "env \<Rightarrow> json \<Rightarrow> json" where
  "derived_command env v = (case v of
       JStr s \<Rightarrow> (case json_loads env s of None \<Rightarrow> JNull | Some j \<Rightarrow> j) | _ \<Rightarrow> v)"

definition derivation_defects :: "env \<Rightarrow> fields \<Rightarrow> json \<Rightarrow> defect list" where
  "derivation_defects env bindings primary =
     (if \<not> py_eq (jget bindings ''raw_output_path'') (jsub primary ''raw_output_path'') \<or>
         \<not> py_eq (jget bindings ''raw_output_hash'') (jsub primary ''raw_output_hash'')
      then [NotDerived ''raw_output''] else []) @
     (if \<not> py_eq (derived_command env (jget bindings ''command'')) (jsub primary ''command'')
      then [NotDerived ''command''] else []) @
     (if \<not> py_eq (jsub (jget bindings ''configuration'') ''cwd'') (jsub primary ''cwd'')
      then [NotDerived ''configuration.cwd''] else []) @
     (if \<not> py_eq (jsub (jget bindings ''configuration'') ''pass_marker'') (jsub primary ''pass_marker'')
      then [NotDerived ''configuration.pass_marker''] else [])"

definition cohort_defects :: "env \<Rightarrow> fields \<Rightarrow> fields \<Rightarrow> obligation_kind option \<Rightarrow> defects" where
  "cohort_defects env rec bindings kind = (case jget bindings ''executions'' of
       JArr (x # xs) \<Rightarrow>
         rbind (cohort_loop env 0 (x # xs)
           \<lparr>cohort_claim = (case jget rec ''claim_id'' of JStr s \<Rightarrow> s | _ \<Rightarrow> []),
            record_pass = (jget rec ''result'' = JStr (str ''PASS'')),
            producer = (jget bindings ''profile'' = JStr producer_profile),
            cohort_kind = kind, seen_tools = [], seen_paths = []\<rparr>)
         (\<lambda>ds. Inr (if ds \<noteq> [] then ds else derivation_defects env bindings x))
     | v \<Rightarrow> Inr [Malformed ''executions'' v])"

text \<open>Coverage of a system claim by its passing executions.\<close>

definition passing_tools :: "json \<Rightarrow> pystr list" where
  "passing_tools executions = (case executions of
       JArr xs \<Rightarrow> List.map_filter (\<lambda>x. if jsub x ''result'' = JStr (str ''PASS'')
                                     then as_str (jsub x ''tool'') else None) xs
     | _ \<Rightarrow> [])"

definition coverage_defects :: "fields \<Rightarrow> pystr list \<Rightarrow> defect list" where
  "coverage_defects bindings required_evidence =
     (let uncovered = filter (\<lambda>t. t \<notin> set (passing_tools (jget bindings ''executions''))) required_evidence
      in if uncovered = [] then [] else [UncoveredTools uncovered])"

subsection \<open>Records\<close>

definition waiver_defects :: "json \<Rightarrow> defect list" where
  "waiver_defects w =
     (if \<not> truthy w then []
      else case w of
        JObj fs \<Rightarrow>
          (let missing = filter (\<lambda>f. \<not> nonblank_str (jget fs f)) waiver_fields
           in if missing = [] then [] else [WaiverUnattributable missing])
      | _ \<Rightarrow> [Malformed ''waiver'' w])"

definition targets_ok :: "json \<Rightarrow> bool" where
  "targets_ok v = (case v of
       JArr ts \<Rightarrow> ts \<noteq> [] \<and> list_all (\<lambda>t. case t of JStr s \<Rightarrow> obligation_id s | _ \<Rightarrow> False) ts
     | _ \<Rightarrow> False)"

definition profile_ok :: "json \<Rightarrow> bool" where
  "profile_ok v = (case v of JStr p \<Rightarrow> profile_id p | _ \<Rightarrow> False)"

definition asserted_fields :: "bool \<Rightarrow> string list" where
  "asserted_fields schema_v3 =
     [''intent_hash'', ''obligation_manifest_hash'', ''environment_policy'',
      ''parser_schema_version'', ''run_id''] @ (if schema_v3 then [''intent_path''] else [])"

definition asserted_field_defects :: "fields \<Rightarrow> bool \<Rightarrow> defect list" where
  "asserted_field_defects bindings schema_v3 =
     (if \<not> profile_ok (jget bindings ''profile'') then [Malformed ''profile'' (jget bindings ''profile'')] else []) @
     (if \<not> targets_ok (jget bindings ''required_targets'')
      then [Malformed ''required_targets'' (jget bindings ''required_targets'')] else []) @
     map (\<lambda>f. Malformed f (jget bindings f))
       (filter (\<lambda>f. \<not> nonblank_str (jget bindings f)) (asserted_fields schema_v3))"

definition dirty_snapshot_defects :: "fields \<Rightarrow> fields \<Rightarrow> defect list" where
  "dirty_snapshot_defects rec bindings = (case jget bindings ''source_snapshot'' of
       JStr s \<Rightarrow> if jget rec ''result'' = JStr (str ''PASS'') \<and> ends_with s (str ''+dirty'')
         then [DirtySnapshot s] else []
     | _ \<Rightarrow> [])"

text \<open>An expectation is absent, or text; the Python tests its truth, so empty text is absent.\<close>

definition expected :: "pystr option \<Rightarrow> pystr option" where
  "expected e = (case e of Some (c # cs) \<Rightarrow> Some (c # cs) | _ \<Rightarrow> None)"

definition manifest_binding_defects :: "fields \<Rightarrow> pystr option \<Rightarrow> defect list" where
  "manifest_binding_defects bindings expect_manifest = (case expected expect_manifest of
       None \<Rightarrow> []
     | Some m \<Rightarrow> if jget bindings ''obligation_manifest_hash'' = JStr m then []
         else [Stale ''obligation_manifest_hash'' (jget bindings ''obligation_manifest_hash'')])"

text \<open>The declared targets are text by the shape check that runs before; a set of anything else
  would raise.\<close>

definition v3_producer_defects :: "fields \<Rightarrow> pystr list option \<Rightarrow> defects" where
  "v3_producer_defects bindings expect_required_targets =
     rbind (report_if (jget bindings ''profile'' \<noteq> JStr producer_profile)
              (NotProducerProfile (jget bindings ''profile''))) (\<lambda>ds.
     case (expect_required_targets, jget bindings ''required_targets'') of
       (Some want, JArr declared) \<Rightarrow>
         if \<not> list_all (\<lambda>v. as_str v \<noteq> None) declared then Inl TypeError
         else
           (let names = map (\<lambda>v. the (as_str v)) declared;
                missing = sorted_set (filter (\<lambda>w. w \<notin> set names) want);
                unexpected = sorted_set (filter (\<lambda>n. n \<notin> set want) names)
            in Inr (ds @
                 (if length (remdups names) \<noteq> length names then [RepeatedTargets names] else []) @
                 (if missing \<noteq> [] \<or> unexpected \<noteq> [] then [TargetsMismatch missing unexpected] else [])))
     | _ \<Rightarrow> Inr ds)"

definition bindings_v3 :: "fields \<Rightarrow> bool" where
  "bindings_v3 bindings \<longleftrightarrow>
     jget bindings ''parser_schema_version'' = JStr (str ''fv-evidence-run/v3'') \<or> jhas bindings ''executions''"

definition is_schema_v3 :: "json \<Rightarrow> bool" where
  "is_schema_v3 v = (case jsub v ''bindings'' of JObj b \<Rightarrow> bindings_v3 b | _ \<Rightarrow> False)"

record expectations =
  expect_snapshot :: "pystr option"
  expect_intent :: "pystr option"
  expect_manifest :: "pystr option"
  snapshot_exact :: bool
  expect_intent_path :: "pystr option"
  expect_required_targets :: "pystr list option"

definition snapshot_defects :: "expectations \<Rightarrow> fields \<Rightarrow> defect list" where
  "snapshot_defects ex bindings = (case expected (expect_snapshot ex) of
       None \<Rightarrow> []
     | Some want \<Rightarrow>
        (let matched = (case jget bindings ''source_snapshot'' of
             JStr s \<Rightarrow> (if snapshot_exact ex then s = want else starts_with s want) | _ \<Rightarrow> False)
         in if matched then [] else [Stale ''source_snapshot'' (jget bindings ''source_snapshot'')]))"

definition intent_defects :: "expectations \<Rightarrow> fields \<Rightarrow> defect list" where
  "intent_defects ex bindings = (case expected (expect_intent ex) of
       None \<Rightarrow> []
     | Some want \<Rightarrow> if jget bindings ''intent_hash'' = JStr want then []
         else [Stale ''intent_hash'' (jget bindings ''intent_hash'')])"

definition intent_path_defects :: "env \<Rightarrow> expectations \<Rightarrow> fields \<Rightarrow> defects" where
  "intent_path_defects env ex bindings =
     rbind (contained_path_defect env (jget bindings ''intent_path'') ''intent_path'') (\<lambda>ds.
     if ds \<noteq> [] then Inr ds
     else Inr (case expect_intent_path ex of
         Some want \<Rightarrow> if jget bindings ''intent_path'' \<noteq> JStr want
           then [Stale ''intent_path'' (jget bindings ''intent_path'')] else []
       | None \<Rightarrow> []))"

definition binding_field_defects :: "fields \<Rightarrow> string \<Rightarrow> defect list" where
  "binding_field_defects bindings f =
     (if \<not> jhas bindings f then [MissingBinding f]
      else if empty_value (jget bindings f) \<or> (jget bindings f = JNull \<and> f \<notin> set nullable)
      then [EmptyBinding f] else [])"

text \<open>The checks up to the first early returns, on the record's own text.\<close>

definition header_defects :: "fields \<Rightarrow> defects" where
  "header_defects rec = gather
     [report_if (\<not> nonempty_str (jget rec ''claim_id'')) (Malformed ''claim_id'' (jget rec ''claim_id'')),
      report_if (\<not> (case jget rec ''required'' of JBool _ \<Rightarrow> True | _ \<Rightarrow> False))
        (Malformed ''required'' (jget rec ''required'')),
      report_unless_in (jget rec ''evidence_class'') evidence_classes
        (Malformed ''evidence_class'' (jget rec ''evidence_class'')),
      report_unless_in (jget rec ''result'') results (Malformed ''result'' (jget rec ''result'')),
      report_if (\<not> nonblank_str (jget rec ''scope'')) (Malformed ''scope'' (jget rec ''scope''))]"

definition shape_defects :: "fields \<Rightarrow> fields \<Rightarrow> defects" where
  "shape_defects rec bindings =
     rbind (header_defects rec) (\<lambda>hs. Inr (hs @
       concat (map (binding_field_defects bindings)
         (binding_fields @ (if bindings_v3 bindings then v3_binding_fields else []))) @
       (if jget bindings ''profile'' = JStr producer_profile \<and>
           \<not> valid_toolchain (jget bindings ''toolchain_digests'') then [NoExecutableIdentity] else []) @
       asserted_field_defects bindings (bindings_v3 bindings) @
       waiver_defects (jget rec ''waiver'')))"

text \<open>The checks of a well-shaped record, in source order; the record is \<^verbatim>\<open>rec\<close>, and
  \<open>env\<close> is absent for a reader without the repository tree.\<close>

definition bound_defects :: "env option \<Rightarrow> expectations \<Rightarrow> obligation_kind option \<Rightarrow> pystr list \<Rightarrow>
    fields \<Rightarrow> fields \<Rightarrow> defects" where
  "bound_defects env ex kind required_evidence rec bindings = gather
     [Inr (dirty_snapshot_defects rec bindings),
      Inr (snapshot_defects ex bindings),
      Inr (intent_defects ex bindings),
      Inr (manifest_binding_defects bindings (expect_manifest ex)),
      (case kind of None \<Rightarrow> Inr []
         | Some k \<Rightarrow> report_unless_in (jget rec ''evidence_class'') (compatible_classes k)
             (IncompatibleClass (jget rec ''evidence_class'') k)),
      (if bindings_v3 bindings then v3_producer_defects bindings (expect_required_targets ex) else Inr []),
      (case env of Some en \<Rightarrow> if bindings_v3 bindings then intent_path_defects en ex bindings else Inr []
         | None \<Rightarrow> Inr []),
      (case env of Some en \<Rightarrow> if bindings_v3 bindings then cohort_defects en rec bindings kind else Inr []
         | None \<Rightarrow> Inr []),
      (case env of Some en \<Rightarrow>
           if \<not> bindings_v3 bindings \<and> jget rec ''result'' = JStr (str ''PASS'')
           then raw_artifact_defects en rec bindings else Inr []
         | None \<Rightarrow> Inr []),
      Inr (if required_evidence \<noteq> [] \<and> jget rec ''result'' = JStr (str ''PASS'')
           then coverage_defects bindings required_evidence else [])]"

definition validate_record :: "env option \<Rightarrow> expectations \<Rightarrow> obligation_kind option \<Rightarrow> pystr list \<Rightarrow>
    json \<Rightarrow> defects" where
  "validate_record env ex kind required_evidence record = (case record of
       JObj rec \<Rightarrow>
         (let missing = filter (\<lambda>f. \<not> jhas rec f) top_fields in
          if missing \<noteq> [] then Inr (map MissingField missing)
          else case jget rec ''bindings'' of
              JObj bindings \<Rightarrow>
                rbind (shape_defects rec bindings) (\<lambda>ds.
                if ds \<noteq> [] then Inr ds else bound_defects env ex kind required_evidence rec bindings)
            | v \<Rightarrow> rbind (header_defects rec) (\<lambda>ds. Inr (ds @ [Malformed ''bindings'' v])))
     | _ \<Rightarrow> Inr [Malformed ''record'' record])"

subsection \<open>Accepted artifacts\<close>

text \<open>What the artifact of a passing execution shows: one exit-zero trailer, which ends it, and
  a marker of success.\<close>

definition certifies :: "pystr \<Rightarrow> json \<Rightarrow> json \<Rightarrow> bool" where
  "certifies t cls marker \<longleftrightarrow>
     (\<exists>body. splitlines t = body @ [canonical_trailer] \<and> (\<forall>l \<in> set body. \<not> trailer_line l)) \<and>
     (if nonempty_str marker then \<exists>m. marker = JStr m \<and> contains m t
      else \<exists>c lits. cls = JStr c \<and> pass_markers c = Some lits \<and> (\<exists>lit \<in> set lits. contains lit t))"

lemma trailer_canonical [simp]: "trailer_line canonical_trailer"
  by code_simp

lemma filter_sole_last:
  "P x \<Longrightarrow> filter P ls = [x] \<and> ls \<noteq> [] \<and> last ls = x \<longleftrightarrow>
    (\<exists>body. ls = body @ [x] \<and> (\<forall>l \<in> set body. \<not> P l))"
  by (cases ls rule: rev_cases) (auto simp: filter_empty_conv)

lemma pass_artifact_accepts: "pass_artifact_defects t cls marker = [] \<longleftrightarrow> certifies t cls marker"
proof -
  have m: "nonempty_str marker \<Longrightarrow> \<exists>m. marker = JStr m" by (auto simp: nonempty_str_iff)
  have "(if nonempty_str marker then (if contains (the (as_str marker)) t then [] else [MarkerAbsent cls])
      else case (case cls of JStr c \<Rightarrow> pass_markers c | _ \<Rightarrow> None) of
          None \<Rightarrow> [Malformed ''evidence_class'' cls]
        | Some lits \<Rightarrow> if list_ex (\<lambda>lit. contains lit t) lits then [] else [MarkerAbsent cls]) = [] \<longleftrightarrow>
    (if nonempty_str marker then \<exists>m. marker = JStr m \<and> contains m t
      else \<exists>c lits. cls = JStr c \<and> pass_markers c = Some lits \<and> (\<exists>lit \<in> set lits. contains lit t))"
    using m by (auto simp: list_ex_iff split: option.splits json.splits)
  then show ?thesis
    unfolding pass_artifact_defects_def certifies_def Let_def
    using filter_sole_last [of trailer_line canonical_trailer "splitlines t"] by auto
qed

definition artifact_text :: "env \<Rightarrow> json \<Rightarrow> json \<Rightarrow> pystr \<Rightarrow> bool" where
  "artifact_text env path hash t \<longleftrightarrow> (\<exists>p raw. path = JStr p \<and> \<not> blank p \<and> \<not> is_absolute p \<and>
     inside_root env p = Inr True \<and> read_file env p = Inr (Some raw) \<and>
     hash = JStr (sha256 env raw) \<and> t = decode_text env raw)"

lemma read_artifact_Some [simp]:
  "read_artifact env path hash = Inr (ds, Some t) \<longleftrightarrow> ds = [] \<and> artifact_text env path hash t"
proof (cases path)
  case (JStr s)
  show ?thesis
  proof (cases "inside_root env s")
    case (Inr ok)
    show ?thesis
    proof (cases "read_file env s")
      case rd: (Inr f)
      show ?thesis by (cases f) (auto simp: read_artifact_def artifact_text_def JStr Inr rd)
    qed (auto simp: read_artifact_def artifact_text_def JStr Inr)
  qed (auto simp: read_artifact_def artifact_text_def JStr)
qed (auto simp: read_artifact_def artifact_text_def)

lemma read_artifact_None: "read_artifact env path hash = Inr (ds, None) \<Longrightarrow> ds \<noteq> []"
proof (cases path)
  case (JStr s)
  assume r: "read_artifact env path hash = Inr (ds, None)"
  show ?thesis
  proof (cases "inside_root env s")
    case (Inr ok)
    show ?thesis
    proof (cases "read_file env s")
      case rd: (Inr f)
      show ?thesis using r by (cases f) (auto simp: read_artifact_def JStr Inr rd split: if_splits)
    qed (use r in \<open>auto simp: read_artifact_def JStr Inr split: if_splits\<close>)
  qed (use r in \<open>auto simp: read_artifact_def JStr split: if_splits\<close>)
qed (auto simp: read_artifact_def)

subsection \<open>Accepted executions\<close>

definition tool_of :: "json \<Rightarrow> pystr" where "tool_of x = the (as_str (jsub x ''tool''))"

definition path_of :: "json \<Rightarrow> pystr" where "path_of x = the (as_str (jsub x ''raw_output_path''))"

definition run_of :: "json \<Rightarrow> pystr" where "run_of x = the (as_str (jsub x ''run_id''))"

definition passing :: "json \<Rightarrow> bool" where
  "passing v \<longleftrightarrow> jsub v ''result'' = JStr (str ''PASS'')"

text \<open>An execution on its own: everything the gate asks of it but what it shares with the
  others of its cohort.\<close>

definition sound_execution :: "env \<Rightarrow> obligation_kind option \<Rightarrow> bool \<Rightarrow> json \<Rightarrow> bool" where
  "sound_execution env kind beneath_pass x \<longleftrightarrow>
     (\<exists>e cls t. x = JObj e \<and> (\<forall>f \<in> set execution_fields. jhas e f) \<and>
        jget e ''tool'' = JStr (tool_of x) \<and> evidence_tool_id (tool_of x) \<and>
        jget e ''evidence_class'' = JStr cls \<and> cls \<in> set evidence_classes \<and>
        (\<forall>k. kind = Some k \<longrightarrow> cls \<in> set (compatible_classes k)) \<and>
        command_ok (jget e ''command'') \<and> valid_toolchain (jget e ''toolchain_digests'') \<and>
        (\<exists>r. jget e ''result'' = JStr r \<and> r \<in> set results) \<and> (beneath_pass \<longrightarrow> passing x) \<and>
        jget e ''run_id'' = JStr (run_of x) \<and> \<not> blank (run_of x) \<and>
        jget e ''raw_output_path'' = JStr (path_of x) \<and>
        artifact_text env (JStr (path_of x)) (jget e ''raw_output_hash'') t \<and>
        (passing x \<longrightarrow> certifies t (JStr cls) (jget e ''pass_marker'')))"

lemma report_if_Nil [simp]: "report_if b d = Inr [] \<longleftrightarrow> \<not> b"
  by (simp add: report_if_def)

lemma report_unless_in_Nil [simp]:
  "report_unless_in v names d = Inr [] \<longleftrightarrow> (\<exists>s. v = JStr s \<and> s \<in> set names)"
  by (auto simp: report_unless_in_def in_names_True_iff split: if_splits)

lemma class_defects_Nil:
  "class_defects kind cls = Inr [] \<longleftrightarrow> (\<exists>s. cls = JStr s \<and> s \<in> set evidence_classes \<and>
     (\<forall>k. kind = Some k \<longrightarrow> s \<in> set (compatible_classes k)))"
  by (cases kind) (auto simp: class_defects_def in_names_True_iff split: if_splits)

lemma result_defects_Nil:
  "result_defects b v = Inr [] \<longleftrightarrow> (\<exists>s. v = JStr s \<and> s \<in> set results) \<and> (b \<longrightarrow> v = JStr (str ''PASS''))"
  by (auto simp: result_defects_def in_names_True_iff split: if_splits)

lemma tool_step_Nil:
  "tool_step tool c = ([], c') \<longleftrightarrow> (\<exists>t. tool = JStr t \<and> evidence_tool_id t \<and> t \<notin> set (seen_tools c) \<and>
     c' = c\<lparr>seen_tools := seen_tools c @ [t]\<rparr>)"
  by (cases tool) (auto simp: tool_step_def)

lemma path_step_Nil:
  "p \<noteq> [] \<Longrightarrow> path_step i (JStr p) (JStr r) c = ([], c') \<longleftrightarrow>
    c' = c\<lparr>seen_paths := dsetdefault (seen_paths c) p i\<rparr> \<and>
    the (map_of (dsetdefault (seen_paths c) p i) p) = i \<and>
    (producer c \<longrightarrow> p = producer_artifact (cohort_claim c) r)"
  by (auto simp: path_step_def Let_def)

lemma first_use:
  "the (map_of (dsetdefault d p i) p) = i \<longleftrightarrow> map_of d p = None \<or> map_of d p = Some i"
  by (cases "map_of d p") (auto simp: map_of_dsetdefault)

lemma execution_accepted:
  assumes "execution_defects env i x c = Inr ([], c')"
  shows "sound_execution env (cohort_kind c) (record_pass c) x"
    "tool_of x \<notin> set (seen_tools c)"
    "map_of (seen_paths c) (path_of x) = None \<or> map_of (seen_paths c) (path_of x) = Some i"
    "producer c \<Longrightarrow> path_of x = producer_artifact (cohort_claim c) (run_of x)"
    "c' = c\<lparr>seen_tools := seen_tools c @ [tool_of x],
            seen_paths := dsetdefault (seen_paths c) (path_of x) i\<rparr>"
proof -
  obtain e where x: "x = JObj e" using assms by (cases x) (auto simp: execution_defects_def)
  obtain tds c1 where ts: "tool_step (jget e ''tool'') c = (tds, c1)" by force
  obtain pds c2 where ps: "path_step i (jget e ''raw_output_path'') (jget e ''run_id'') c1 = (pds, c2)" by force
  have miss: "filter (\<lambda>f. \<not> jhas e f) execution_fields = []"
    using assms by (auto simp: x execution_defects_def Let_def split: if_splits)
  have d: "tds = []" "pds = []"
    "class_defects (cohort_kind c) (jget e ''evidence_class'') = Inr []"
    "command_ok (jget e ''command'')" "valid_toolchain (jget e ''toolchain_digests'')"
    "result_defects (record_pass c) (jget e ''result'') = Inr []"
    "nonblank_str (jget e ''run_id'')" "c' = c2" and
    art: "\<exists>ads content. read_artifact env (jget e ''raw_output_path'') (jget e ''raw_output_hash'') =
        Inr (ads, content) \<and> ads = [] \<and> (case content of Some t \<Rightarrow>
          if jget e ''result'' = JStr (str ''PASS'')
          then pass_artifact_defects t (jget e ''evidence_class'') (jget e ''pass_marker'') else [] | None \<Rightarrow> []) = []"
    using assms miss
    by (auto simp: x execution_defects_def ts ps Let_def gather_Inr_Nil_iff [symmetric] simp del: gather.simps
        split: if_splits simp: gather_Inr_Nil_iff)
  then obtain t where t: "artifact_text env (jget e ''raw_output_path'') (jget e ''raw_output_hash'') t"
    and cert: "jget e ''result'' = JStr (str ''PASS'') \<longrightarrow>
       certifies t (jget e ''evidence_class'') (jget e ''pass_marker'')"
    using read_artifact_None by (fastforce simp: pass_artifact_accepts split: option.splits if_splits)
  then obtain p where p: "jget e ''raw_output_path'' = JStr p" "p \<noteq> []"
    by (metis artifact_text_def blank_Nil)
  obtain r where r: "jget e ''run_id'' = JStr r" "\<not> blank r" using d(7) by (auto simp: nonblank_str_iff)
  obtain tool where tool: "jget e ''tool'' = JStr tool" "evidence_tool_id tool" "tool \<notin> set (seen_tools c)"
    "c1 = c\<lparr>seen_tools := seen_tools c @ [tool]\<rparr>"
    using ts d(1) by (auto simp: tool_step_Nil)
  have sel: "tool_of x = tool" "path_of x = p" "run_of x = r"
    using tool(1) p(1) r(1) by (simp_all add: x tool_of_def path_of_def run_of_def)
  have step: "c2 = c1\<lparr>seen_paths := dsetdefault (seen_paths c1) p i\<rparr>"
    "the (map_of (dsetdefault (seen_paths c1) p i) p) = i"
    "producer c1 \<longrightarrow> p = producer_artifact (cohort_claim c1) r"
    using ps d(2) path_step_Nil [OF p(2), of i r c1 c2] by (auto simp: p(1) r(1))
  show "tool_of x \<notin> set (seen_tools c)" using tool sel by simp
  show "map_of (seen_paths c) (path_of x) = None \<or> map_of (seen_paths c) (path_of x) = Some i"
    using step(2) sel tool(4) by (simp add: first_use)
  show "producer c \<Longrightarrow> path_of x = producer_artifact (cohort_claim c) (run_of x)"
    using step(3) sel tool(4) by simp
  show "c' = c\<lparr>seen_tools := seen_tools c @ [tool_of x],
            seen_paths := dsetdefault (seen_paths c) (path_of x) i\<rparr>"
    using d(8) step(1) tool(4) sel by simp
  show "sound_execution env (cohort_kind c) (record_pass c) x"
    unfolding sound_execution_def
    using x miss tool sel d r p t cert
    by (auto simp: class_defects_Nil result_defects_Nil filter_empty_conv passing_def)
qed

subsection \<open>Accepted cohorts\<close>

lemma rbind_pair_Inr: "rbind m (\<lambda>(a, b). f a b) = Inr r \<longleftrightarrow> (\<exists>a b. m = Inr (a, b) \<and> f a b = Inr r)"
  by (cases m) auto

lemma cohort_accepted:
  assumes "cohort_loop env i xs c = Inr []" "\<forall>j \<in> ran (map_of (seen_paths c)). j < i"
  shows "list_all (sound_execution env (cohort_kind c) (record_pass c)) xs \<and>
    distinct (map tool_of xs) \<and> set (map tool_of xs) \<inter> set (seen_tools c) = {} \<and>
    distinct (map path_of xs) \<and> set (map path_of xs) \<inter> dom (map_of (seen_paths c)) = {} \<and>
    (producer c \<longrightarrow> (\<forall>x \<in> set xs. path_of x = producer_artifact (cohort_claim c) (run_of x)))"
  using assms
proof (induction env i xs c rule: cohort_loop.induct)
  case (1 env i c)
  then show ?case by simp
next
  case (2 env i x xs c)
  obtain c' where ex: "execution_defects env i x c = Inr ([], c')" and
    rest: "cohort_loop env (Suc i) xs c' = Inr []"
    using "2.prems"(1) by (auto simp: rbind_pair_Inr)
  note acc = execution_accepted [OF ex]
  have fresh: "map_of (seen_paths c) (path_of x) = None"
    using acc(3) "2.prems"(2) by (auto dest: ranI)
  then have paths: "map_of (seen_paths c') = (map_of (seen_paths c))(path_of x \<mapsto> i)"
    by (auto simp: acc(5) map_of_dsetdefault)
  then have "\<forall>j \<in> ran (map_of (seen_paths c')). j < Suc i"
    using "2.prems"(2) by (fastforce simp: ran_def less_Suc_eq split: if_splits)
  with "2.IH" [OF ex _ rest] have "list_all (sound_execution env (cohort_kind c') (record_pass c')) xs \<and>
    distinct (map tool_of xs) \<and> set (map tool_of xs) \<inter> set (seen_tools c') = {} \<and>
    distinct (map path_of xs) \<and> set (map path_of xs) \<inter> dom (map_of (seen_paths c')) = {} \<and>
    (producer c' \<longrightarrow> (\<forall>x \<in> set xs. path_of x = producer_artifact (cohort_claim c') (run_of x)))"
    by blast
  moreover have "cohort_kind c' = cohort_kind c" "record_pass c' = record_pass c" "producer c' = producer c"
    "cohort_claim c' = cohort_claim c" "seen_tools c' = seen_tools c @ [tool_of x]"
    by (simp_all add: acc(5))
  ultimately show ?case using acc(1,2,4) fresh paths by auto
qed

text \<open>A cohort as a whole: sound executions that share no tool, no run and no artifact, each of
  a producer's artifacts named after its claim and run.\<close>

definition sound_cohort :: "env \<Rightarrow> obligation_kind option \<Rightarrow> bool \<Rightarrow> bool \<Rightarrow> pystr \<Rightarrow> json list \<Rightarrow> bool" where
  "sound_cohort env kind beneath_pass produced claim xs \<longleftrightarrow>
     xs \<noteq> [] \<and> list_all (sound_execution env kind beneath_pass) xs \<and>
     distinct (map tool_of xs) \<and> distinct (map path_of xs) \<and>
     (produced \<longrightarrow> list_all (\<lambda>x. path_of x = producer_artifact claim (run_of x)) xs)"

lemma cohort_defects_Nil:
  assumes "cohort_defects env rec bindings kind = Inr []"
  shows "\<exists>x xs. jget bindings ''executions'' = JArr (x # xs) \<and>
    sound_cohort env kind (jget rec ''result'' = JStr (str ''PASS''))
      (jget bindings ''profile'' = JStr producer_profile)
      (case jget rec ''claim_id'' of JStr s \<Rightarrow> s | _ \<Rightarrow> []) (x # xs) \<and>
    derivation_defects env bindings x = []"
proof -
  from assms obtain x xs where xs: "jget bindings ''executions'' = JArr (x # xs)"
    by (auto simp: cohort_defects_def split: json.splits list.splits)
  with assms have "cohort_loop env 0 (x # xs)
      \<lparr>cohort_claim = (case jget rec ''claim_id'' of JStr s \<Rightarrow> s | _ \<Rightarrow> []),
       record_pass = (jget rec ''result'' = JStr (str ''PASS'')),
       producer = (jget bindings ''profile'' = JStr producer_profile),
       cohort_kind = kind, seen_tools = [], seen_paths = []\<rparr> = Inr []"
    and "derivation_defects env bindings x = []"
    by (auto simp: cohort_defects_def simp del: cohort_loop.simps split: if_splits)
  with cohort_accepted [OF this(1)] xs show ?thesis
    by (auto simp: sound_cohort_def list_all_iff)
qed

lemma producer_runs_distinct:
  "sound_cohort env kind b True claim xs \<Longrightarrow> distinct (map run_of xs)"
  unfolding sound_cohort_def
  by (auto simp: distinct_map inj_on_def list_all_iff)

subsection \<open>Accepted records\<close>

definition bindings_of :: "json \<Rightarrow> fields" where
  "bindings_of r = (case jsub r ''bindings'' of JObj b \<Rightarrow> b | _ \<Rightarrow> [])"

definition bound_to :: "expectations \<Rightarrow> fields \<Rightarrow> bool" where
  "bound_to ex b \<longleftrightarrow>
     (\<forall>w. expected (expect_snapshot ex) = Some w \<longrightarrow> (\<exists>s. jget b ''source_snapshot'' = JStr s \<and>
        (if snapshot_exact ex then s = w else starts_with s w))) \<and>
     (\<forall>w. expected (expect_intent ex) = Some w \<longrightarrow> jget b ''intent_hash'' = JStr w) \<and>
     (\<forall>w. expected (expect_manifest ex) = Some w \<longrightarrow> jget b ''obligation_manifest_hash'' = JStr w)"

definition attributable :: "json \<Rightarrow> bool" where
  "attributable w \<longleftrightarrow> (\<exists>fs. w = JObj fs \<and> (\<forall>f \<in> set waiver_fields. nonblank_str (jget fs f)))"

definition declares_targets :: "fields \<Rightarrow> pystr list \<Rightarrow> bool" where
  "declares_targets b want \<longleftrightarrow>
     (\<exists>names. jget b ''required_targets'' = JArr (map JStr names) \<and> distinct names \<and> set names = set want)"

definition sound_record :: "env \<Rightarrow> expectations \<Rightarrow> obligation_kind option \<Rightarrow> pystr list \<Rightarrow> json \<Rightarrow> bool" where
  "sound_record env ex kind required_evidence r \<longleftrightarrow>
     (\<exists>claim cls b. jsub r ''claim_id'' = JStr claim \<and> claim \<noteq> [] \<and> jsub r ''bindings'' = JObj b \<and>
        jsub r ''evidence_class'' = JStr cls \<and> cls \<in> set evidence_classes \<and>
        (\<forall>k. kind = Some k \<longrightarrow> cls \<in> set (compatible_classes k)) \<and>
        (\<exists>res. jsub r ''result'' = JStr res \<and> res \<in> set results) \<and>
        (\<exists>p. jget b ''profile'' = JStr p \<and> profile_id p) \<and>
        bound_to ex b \<and>
        (truthy (jsub r ''waiver'') \<longrightarrow> attributable (jsub r ''waiver'')) \<and>
        (passing r \<longrightarrow> (\<forall>s. jget b ''source_snapshot'' = JStr s \<longrightarrow> \<not> ends_with s (str ''+dirty'')) \<and>
           set required_evidence \<subseteq> set (passing_tools (jget b ''executions''))) \<and>
        (if bindings_v3 b
         then jget b ''profile'' = JStr producer_profile \<and>
           (\<forall>want. expect_required_targets ex = Some want \<longrightarrow> declares_targets b want) \<and>
           (\<exists>xs. jget b ''executions'' = JArr xs \<and> sound_cohort env kind (passing r) True claim xs)
         else passing r \<longrightarrow>
           (\<exists>t. artifact_text env (jget b ''raw_output_path'') (jget b ''raw_output_hash'') t \<and>
              certifies t (JStr cls) (jsub (jget b ''configuration'') ''pass_marker''))))"

lemma if_Nil: "(if c then [d] else []) = [] \<longleftrightarrow> \<not> c"
  by simp

lemma header_defects_Nil:
  "header_defects rec = Inr [] \<longleftrightarrow>
    (\<exists>c. jget rec ''claim_id'' = JStr c \<and> c \<noteq> []) \<and> (\<exists>q. jget rec ''required'' = JBool q) \<and>
    (\<exists>s. jget rec ''evidence_class'' = JStr s \<and> s \<in> set evidence_classes) \<and>
    (\<exists>s. jget rec ''result'' = JStr s \<and> s \<in> set results) \<and>
    (\<exists>s. jget rec ''scope'' = JStr s \<and> \<not> blank s)"
  unfolding header_defects_def gather_Inr_Nil_iff
  by (auto simp: nonempty_str_iff nonblank_str_iff split: json.splits)

lemma profile_ok_iff: "profile_ok v \<longleftrightarrow> (\<exists>p. v = JStr p \<and> profile_id p)"
  by (cases v) (auto simp: profile_ok_def)

lemma asserted_field_defects_Nil:
  "asserted_field_defects b v3 = [] \<longleftrightarrow> profile_ok (jget b ''profile'') \<and> targets_ok (jget b ''required_targets'') \<and>
     (\<forall>f \<in> set (asserted_fields v3). nonblank_str (jget b f))"
  by (auto simp: asserted_field_defects_def filter_empty_conv)

lemma waiver_defects_Nil: "waiver_defects w = [] \<longleftrightarrow> (truthy w \<longrightarrow> attributable w)"
  by (cases w) (auto simp: waiver_defects_def attributable_def filter_empty_conv Let_def split: if_splits)

lemma dirty_snapshot_Nil:
  "dirty_snapshot_defects rec b = [] \<longleftrightarrow> (jget rec ''result'' = JStr (str ''PASS'') \<longrightarrow>
     (\<forall>s. jget b ''source_snapshot'' = JStr s \<longrightarrow> \<not> ends_with s (str ''+dirty'')))"
  by (auto simp: dirty_snapshot_defects_def split: json.splits)

lemma snapshot_defects_Nil:
  "snapshot_defects ex b = [] \<longleftrightarrow> (\<forall>w. expected (expect_snapshot ex) = Some w \<longrightarrow>
     (\<exists>s. jget b ''source_snapshot'' = JStr s \<and> (if snapshot_exact ex then s = w else starts_with s w)))"
  by (cases "jget b ''source_snapshot''") (auto simp: snapshot_defects_def Let_def split: option.splits)

lemma intent_defects_Nil:
  "intent_defects ex b = [] \<longleftrightarrow> (\<forall>w. expected (expect_intent ex) = Some w \<longrightarrow> jget b ''intent_hash'' = JStr w)"
  by (auto simp: intent_defects_def split: option.splits)

lemma manifest_binding_Nil:
  "manifest_binding_defects b em = [] \<longleftrightarrow>
     (\<forall>w. expected em = Some w \<longrightarrow> jget b ''obligation_manifest_hash'' = JStr w)"
  by (auto simp: manifest_binding_defects_def split: option.splits)

lemma coverage_Nil:
  "coverage_defects b req = [] \<longleftrightarrow> set req \<subseteq> set (passing_tools (jget b ''executions''))"
  by (auto simp: coverage_defects_def Let_def filter_empty_conv)

lemma v3_producer_Nil:
  assumes "targets_ok (jget b ''required_targets'')" "v3_producer_defects b want = Inr []"
  shows "jget b ''profile'' = JStr producer_profile"
    "want = Some w \<Longrightarrow> declares_targets b w"
proof -
  obtain ts where ts: "jget b ''required_targets'' = JArr ts"
    using assms(1) by (auto simp: targets_ok_def split: json.splits)
  show "jget b ''profile'' = JStr producer_profile"
    using assms(2) ts by (cases want) (auto simp: v3_producer_defects_def report_if_def Let_def split: if_splits)
  assume w: "want = Some w"
  let ?names = "map (\<lambda>v. the (as_str v)) ts"
  have all: "list_all (\<lambda>v. as_str v \<noteq> None) ts"
    using assms(2) ts w by (auto simp: v3_producer_defects_def Let_def split: if_splits)
  then have names: "ts = map JStr ?names"
    by (induction ts) auto
  have "distinct ?names" "filter (\<lambda>x. x \<notin> set ?names) w = []"
    "filter (\<lambda>n. n \<notin> set w) ?names = []"
    using assms(2) ts w all by (auto simp: v3_producer_defects_def Let_def report_if_def split: if_splits)
  then have "distinct ?names" "set ?names = set w"
    by (simp, auto simp: filter_empty_conv)
  with ts names show "declares_targets b w" unfolding declares_targets_def by metis
qed

lemma validate_record_Nil:
  assumes "validate_record env ex kind req r = Inr []"
  shows "\<exists>rec b. r = JObj rec \<and> jget rec ''bindings'' = JObj b \<and> header_defects rec = Inr [] \<and>
    (\<forall>f \<in> set (binding_fields @ (if bindings_v3 b then v3_binding_fields else [])). binding_field_defects b f = []) \<and>
    asserted_field_defects b (bindings_v3 b) = [] \<and> waiver_defects (jget rec ''waiver'') = [] \<and>
    bound_defects env ex kind req rec b = Inr []"
proof -
  obtain rec where r: "r = JObj rec" using assms by (auto simp: validate_record_def split: json.splits)
  have "filter (\<lambda>f. \<not> jhas rec f) top_fields = []"
    using assms by (auto simp: r validate_record_def Let_def split: if_splits)
  then have m: "(case jget rec ''bindings'' of
      JObj bindings \<Rightarrow> rbind (shape_defects rec bindings) (\<lambda>ds.
          if ds \<noteq> [] then Inr ds else bound_defects env ex kind req rec bindings)
    | v \<Rightarrow> rbind (header_defects rec) (\<lambda>ds. Inr (ds @ [Malformed ''bindings'' v]))) = Inr []"
    using assms by (simp add: r validate_record_def)
  then obtain b where b: "jget rec ''bindings'' = JObj b" by (auto split: json.splits)
  with m have "shape_defects rec b = Inr []" "bound_defects env ex kind req rec b = Inr []"
    by (auto split: if_splits)
  with r b show ?thesis by (auto simp: shape_defects_def concat_eq_Nil_conv split: if_splits)
qed

lemma bound_defects_Nil:
  assumes "bound_defects env ex kind req rec b = Inr []"
  shows "dirty_snapshot_defects rec b = []" "bound_to ex b"
    "kind = Some k \<Longrightarrow> \<exists>s. jget rec ''evidence_class'' = JStr s \<and> s \<in> set (compatible_classes k)"
    "bindings_v3 b \<Longrightarrow> v3_producer_defects b (expect_required_targets ex) = Inr []"
    "env = Some en \<Longrightarrow> bindings_v3 b \<Longrightarrow> cohort_defects en rec b kind = Inr []"
    "env = Some en \<Longrightarrow> \<not> bindings_v3 b \<Longrightarrow> jget rec ''result'' = JStr (str ''PASS'') \<Longrightarrow>
       raw_artifact_defects en rec b = Inr []"
    "jget rec ''result'' = JStr (str ''PASS'') \<Longrightarrow> set req \<subseteq> set (passing_tools (jget b ''executions''))"
  using assms unfolding bound_defects_def gather_Inr_Nil_iff
  by (auto simp: bound_to_def snapshot_defects_Nil intent_defects_Nil manifest_binding_Nil coverage_Nil
      split: if_splits)

lemma raw_artifact_Nil:
  assumes "raw_artifact_defects env rec b = Inr []"
  shows "\<exists>t. artifact_text env (jget b ''raw_output_path'') (jget b ''raw_output_hash'') t \<and>
    certifies t (jget rec ''evidence_class'') (jsub (jget b ''configuration'') ''pass_marker'')"
proof -
  obtain ds content where r: "read_artifact env (jget b ''raw_output_path'') (jget b ''raw_output_hash'') =
      Inr (ds, content)"
    using assms by (auto simp: raw_artifact_defects_def rbind_pair_Inr)
  show ?thesis
  proof (cases content)
    case None
    then have "ds \<noteq> []" using r by (simp add: read_artifact_None)
    with assms r None show ?thesis by (simp add: raw_artifact_defects_def)
  next
    case (Some t)
    with assms r show ?thesis by (auto simp: raw_artifact_defects_def pass_artifact_accepts)
  qed
qed

text \<open>Every accepted record is sound.\<close>

lemma accepted_sound:
  assumes "validate_record (Some env) ex kind req r = Inr []"
  shows "sound_record env ex kind req r"
proof -
  from validate_record_Nil [OF assms] obtain rec b where
    r: "r = JObj rec" and b: "jget rec ''bindings'' = JObj b" and h: "header_defects rec = Inr []" and
    a: "asserted_field_defects b (bindings_v3 b) = []" and w: "waiver_defects (jget rec ''waiver'') = []" and
    bd: "bound_defects (Some env) ex kind req rec b = Inr []" by blast
  note bound = bound_defects_Nil [OF bd]
  obtain claim cls where claim: "jget rec ''claim_id'' = JStr claim" "claim \<noteq> []" and
    cls: "jget rec ''evidence_class'' = JStr cls" "cls \<in> set evidence_classes"
    using h by (auto simp: header_defects_Nil)
  have "if bindings_v3 b
         then jget b ''profile'' = JStr producer_profile \<and>
           (\<forall>want. expect_required_targets ex = Some want \<longrightarrow> declares_targets b want) \<and>
           (\<exists>xs. jget b ''executions'' = JArr xs \<and> sound_cohort env kind (passing r) True claim xs)
         else passing r \<longrightarrow>
           (\<exists>t. artifact_text env (jget b ''raw_output_path'') (jget b ''raw_output_hash'') t \<and>
              certifies t (JStr cls) (jsub (jget b ''configuration'') ''pass_marker''))"
  proof (cases "bindings_v3 b")
    case True
    then have p: "jget b ''profile'' = JStr producer_profile"
      and t: "\<forall>want. expect_required_targets ex = Some want \<longrightarrow> declares_targets b want"
      using bound(4) v3_producer_Nil [of b] a by (auto simp: asserted_field_defects_Nil)
    from cohort_defects_Nil [OF bound(5) [OF refl True]] p claim r True t show ?thesis
      by (auto simp: passing_def)
  next
    case False
    with raw_artifact_Nil [OF bound(6) [OF refl False]] cls r show ?thesis by (auto simp: passing_def)
  qed
  moreover have "\<exists>p. jget b ''profile'' = JStr p \<and> profile_id p"
    using a by (simp add: asserted_field_defects_Nil profile_ok_iff)
  ultimately show ?thesis
    unfolding sound_record_def
    using r b h w claim cls bound(1,2,3,7)
    by (auto simp: header_defects_Nil waiver_defects_Nil dirty_snapshot_Nil passing_def)
qed

text \<open>The repository tree only adds checks.\<close>

lemma validate_without_tree:
  assumes "validate_record (Some env) ex kind req r = Inr []"
  shows "validate_record None ex kind req r = Inr []"
proof -
  from validate_record_Nil [OF assms] obtain rec b where
    r: "r = JObj rec" "jget rec ''bindings'' = JObj b" and
    bd: "bound_defects (Some env) ex kind req rec b = Inr []" by blast
  then have "bound_defects None ex kind req rec b = Inr []"
    unfolding bound_defects_def gather_Inr_Nil_iff by auto
  with assms r show ?thesis by (auto simp: validate_record_def Let_def split: if_splits)
qed

subsection \<open>A sample record\<close>

definition sample_log :: "int list" where
  "sample_log = str ''checking'' @ [10] @ canonical_trailer @ [10]"

definition sample_env :: env where
  "sample_env = \<lparr>inside_root = (\<lambda>_. Inr True),
     read_file = (\<lambda>p. Inr (if starts_with p (str ''.fv/evidence/raw/'') then Some sample_log else None)),
     sha256 = (\<lambda>_. replicate 64 48), decode_text = id, json_loads = (\<lambda>_. None)\<rparr>"

definition sample_toolchain :: json where
  "sample_toolchain = obj [(''executable'', jtext ''/bin/kani''), (''sha256'', JStr (replicate 64 48)),
     (''version'', jtext ''1.0''), (''version_exit_code'', JInt 0)]"

definition sample_execution :: "string \<Rightarrow> string \<Rightarrow> string \<Rightarrow> json" where
  "sample_execution claim tool run = obj [(''tool'', jtext tool), (''evidence_class'', jtext ''code-enforced''),
     (''command'', JArr [jtext ''kani'', jtext tool]), (''cwd'', jtext ''.''),
     (''toolchain_digests'', sample_toolchain),
     (''raw_output_path'', JStr (producer_artifact (str claim) (str run))),
     (''raw_output_hash'', JStr (replicate 64 48)), (''result'', jtext ''PASS''), (''run_id'', jtext run)]"

definition sample_record :: "string \<Rightarrow> string list \<Rightarrow> json" where
  "sample_record claim targets = obj [(''claim_id'', jtext claim), (''required'', JBool True),
     (''evidence_class'', jtext ''code-enforced''), (''result'', jtext ''PASS''), (''scope'', jtext ''all paths''),
     (''bindings'', obj [(''source_snapshot'', jtext ''snap''), (''intent_hash'', jtext ''intent''),
        (''obligation_manifest_hash'', jtext ''manifest''), (''profile'', JStr producer_profile),
        (''required_targets'', JArr (map jtext targets)), (''environment_policy'', jtext ''host''),
        (''toolchain_digests'', sample_toolchain), (''command'', JArr [jtext ''kani'', jtext ''kani'']),
        (''configuration'', obj [(''cwd'', jtext ''.'')]), (''seeds'', JNull),
        (''raw_output_hash'', JStr (replicate 64 48)),
        (''raw_output_path'', JStr (producer_artifact (str claim) (str ''r1''))),
        (''parser_schema_version'', jtext ''fv-evidence-run/v3''), (''run_id'', jtext ''r1''),
        (''intent_path'', jtext ''.fv/intent.md''),
        (''executions'', JArr [sample_execution claim ''kani'' ''r1'', sample_execution claim ''verus'' ''r2''])]),
     (''waiver'', JNull)]"

definition sample_expectations :: "string list \<Rightarrow> expectations" where
  "sample_expectations targets = \<lparr>expect_snapshot = Some (str ''snap''), expect_intent = Some (str ''intent''),
     expect_manifest = Some (str ''manifest''), snapshot_exact = True,
     expect_intent_path = Some (str ''.fv/intent.md''), expect_required_targets = Some (map str targets)\<rparr>"

lemma sample_record_accepted:
  "validate_record (Some sample_env) (sample_expectations [''INV-1'']) (Some Invariant) [str ''verus'']
     (sample_record ''INV-1'' [''INV-1'']) = Inr []"
  by code_simp

subsection \<open>Properties of the validator\<close>

text \<open>C2. A record the gate accepts is sound. It names a claim and a known class and result, is
  bound to the snapshot, intent and manifest of this run, and any waiver says who waived what. A
  passing one is bound to no snapshot that moved and covers the required tools. A cohort record
  is the producer's, declares exactly the manifest's targets, and its executions are individually
  sound, with distinct tools and artifacts named after the claim and the run: the bytes of each
  artifact have the digest recorded, and beneath a PASS they end with the one success trailer and
  hold the marker of their class. A record without a cohort rests on one such artifact.\<close>

theorem accepted_record_sound:
  assumes "validate_record (Some env) ex kind req r = Inr []"
  shows "sound_record env ex kind req r"
  by (rule accepted_sound [OF assms])

theorem accepted_record_sound_witness:
  "sound_record sample_env (sample_expectations [''INV-1'']) (Some Invariant) [str ''verus'']
     (sample_record ''INV-1'' [''INV-1''])"
  by (rule accepted_record_sound [OF sample_record_accepted])

text \<open>C38. An artifact is accepted for a PASS exactly when it certifies one: its lines hold one
  exit trailer, the canonical exit-zero one, as the last line, and it holds the declared marker
  or, without one, a marker of the evidence class.\<close>

theorem pass_artifact_certifies:
  "pass_artifact_defects t cls marker = [] \<longleftrightarrow> certifies t cls marker"
  by (rule pass_artifact_accepts)

text \<open>A record whose evidence class is a list or an object is not reported as invalid: the
  membership test raises, in every configuration of the gate.\<close>

theorem unhashable_class_raises:
  assumes "\<forall>f \<in> set top_fields. jhas rec f" "\<not> hashable (jget rec ''evidence_class'')"
  shows "validate_record env ex kind req (JObj rec) = Inl TypeError"
proof -
  have "header_defects rec = Inl TypeError"
    using assms(2) by (simp add: header_defects_def report_if_def report_unless_in_def in_names_def)
  then show ?thesis
    using assms(1) by (auto simp: validate_record_def shape_defects_def filter_False split: json.splits)
qed

theorem unhashable_class_raises_witness:
  "validate_record None (sample_expectations []) None []
     (obj [(''claim_id'', jtext ''INV-1''), (''required'', JBool True), (''evidence_class'', JArr []),
        (''result'', jtext ''PASS''), (''scope'', jtext ''x''), (''bindings'', obj []), (''waiver'', JNull)]) =
   Inl TypeError"
  unfolding obj_def by (rule unhashable_class_raises) code_simp+

end
