(* ===== verification/Verdicts.thy ===== *)
theory Verdicts
  imports FV_Prelude
begin

text \<open>
  The G2 truth table the gates share: a run of judged rows is FAILED as soon as one row fails,
  VERIFIED when every row is covered, and INCOMPLETE otherwise (\<open>g2_rule\<close>); where no row at all
  does not count as covered the table is a \<open>g2_table\<close>. Gate B and the coverage dashboard aggregate
  rows of their own by \<open>g2_table\<close>, the pyramid runner, which always has a required layer, by
  \<open>g2_rule\<close>; a reader with fewer checks of its own is one of \<open>g2_reader\<close>.
\<close>

locale g2_rule =
  fixes judge :: "'r list \<Rightarrow> 'v"
    and fails :: "'r \<Rightarrow> bool"
    and gap :: "'r \<Rightarrow> bool"
    and failed :: "'v \<Rightarrow> bool"
    and verified :: "'v \<Rightarrow> bool"
  assumes failed_iff: "failed (judge rows) \<longleftrightarrow> (\<exists>r \<in> set rows. fails r)"
    and verified_rows: "rows \<noteq> [] \<Longrightarrow> verified (judge rows) \<longleftrightarrow> (\<forall>r \<in> set rows. \<not> fails r \<and> \<not> gap r)"
begin

lemma failed_not_verified: "failed (judge rows) \<Longrightarrow> \<not> verified (judge rows)"
  by (cases "rows = []") (auto simp: failed_iff verified_rows)

lemma failed_mono: "failed (judge rows) \<Longrightarrow> set rows \<subseteq> set rows' \<Longrightarrow> failed (judge rows')"
  by (auto simp: failed_iff)

lemma verified_subset:
  "verified (judge rows) \<Longrightarrow> set rows' \<subseteq> set rows \<Longrightarrow> rows' \<noteq> [] \<Longrightarrow> verified (judge rows')"
  by (cases "rows = []") (auto simp: verified_rows)

end

locale g2_table = g2_rule +
  assumes no_rows: "\<not> verified (judge [])"
begin

lemma verified_iff: "verified (judge rows) \<longleftrightarrow> rows \<noteq> [] \<and> (\<forall>r \<in> set rows. \<not> fails r \<and> \<not> gap r)"
  using verified_rows [of rows] no_rows by (cases "rows = []") auto

lemma same_rows:
  "set rows = set rows' \<Longrightarrow> failed (judge rows) = failed (judge rows') \<and> verified (judge rows) = verified (judge rows')"
  by (auto simp: failed_iff verified_iff)

end

text \<open>Two readers of the same run: where the strict one decides a row, so does the other.\<close>

locale g2_reader =
  strict: g2_table judge fails gap failed verified +
  view: g2_table judge' fails' gap' failed' verified'
  for judge :: "'r list \<Rightarrow> 'v" and fails gap failed verified
    and judge' :: "'s list \<Rightarrow> 'w" and fails' gap' failed' verified' +
  fixes corresponds :: "'r \<Rightarrow> 's \<Rightarrow> bool"
  assumes fails_seen: "corresponds r s \<Longrightarrow> fails r \<Longrightarrow> fails' s"
    and passes_seen: "corresponds r s \<Longrightarrow> \<not> fails r \<Longrightarrow> \<not> gap r \<Longrightarrow> \<not> fails' s \<and> \<not> gap' s"
begin

text \<open>The two lists need only hold each other's rows, in any order and with any repetition.\<close>

lemma decided_alike:
  assumes "\<And>r. r \<in> set rows \<Longrightarrow> \<exists>s \<in> set rows'. corresponds r s"
    "\<And>s. s \<in> set rows' \<Longrightarrow> \<exists>r \<in> set rows. corresponds r s"
  shows "failed (judge rows) \<Longrightarrow> failed' (judge' rows')"
    "verified (judge rows) \<Longrightarrow> verified' (judge' rows')"
proof -
  show "failed' (judge' rows')" if "failed (judge rows)"
    using that assms(1) fails_seen unfolding strict.failed_iff view.failed_iff by meson
  have ne: "rows \<noteq> [] \<Longrightarrow> rows' \<noteq> []" using assms(1) [of "hd rows"] by auto
  show "verified' (judge' rows')" if "verified (judge rows)"
    using that ne assms(2) passes_seen unfolding strict.verified_iff view.verified_iff by meson
qed

end

end
