(* ===== verification/Gate_B.thy ===== *)
theory Gate_B
  imports Gate_Records Verdicts "HOL-Library.Multiset"
begin

text \<open>
  Gate B itself, \<^verbatim>\<open>main\<close> of \<^verbatim>\<open>scripts/check_evidence_records.py\<close>: the obligation
  manifest, the set of claims a run judges, the status of each claim and the aggregated
  verdict with its exit code. The work tree enters through \<open>env\<close>, the recomputed snapshot and
  the recomputed intent binding; records and manifest are parsed documents.
\<close>

subsection \<open>The obligation manifest\<close>

datatype manifest_error =
    ManifestNotObject
  | CollectionNotArray obligation_kind
  | ItemNotObject obligation_kind nat
  | MalformedId obligation_kind nat json
  | UnusableId obligation_kind nat pystr
  | DuplicateId pystr obligation_kind
  | ListNotArray pystr string
  | MalformedEntry pystr string nat json
  | RepeatedEntry pystr string pystr
  | UndeclaredDependency pystr pystr
  | DependencyOnClaim pystr pystr

fun collection_name :: "obligation_kind \<Rightarrow> string" where
  "collection_name Invariant = ''invariants''"
| "collection_name Witness = ''witnesses''"
| "collection_name SystemClaim = ''system_claims''"

fun obligation_entries_from :: "obligation_kind \<Rightarrow> nat \<Rightarrow> json list \<Rightarrow> manifest_error + (pystr \<times> fields) list" where
  "obligation_entries_from kind index [] = Inr []"
| "obligation_entries_from kind index (item # items) = (case item of
       JObj fs \<Rightarrow> (case jget fs ''id'' of
           JStr claim \<Rightarrow>
             if \<not> obligation_id claim then Inl (MalformedId kind index (JStr claim))
             else if \<not> producer_claim_id claim then Inl (UnusableId kind index claim)
             else rbind (obligation_entries_from kind (Suc index) items) (\<lambda>es. Inr ((claim, fs) # es))
         | v \<Rightarrow> Inl (MalformedId kind index v))
     | _ \<Rightarrow> Inl (ItemNotObject kind index))"

definition obligation_entries :: "fields \<Rightarrow> obligation_kind \<Rightarrow> manifest_error + (pystr \<times> fields) list" where
  "obligation_entries manifest kind = (case map_of manifest (str (collection_name kind)) of
       None \<Rightarrow> Inr []
     | Some (JArr items) \<Rightarrow> obligation_entries_from kind 0 items
     | Some _ \<Rightarrow> Inl (CollectionNotArray kind))"

fun id_list_from :: "pystr \<Rightarrow> string \<Rightarrow> (pystr \<Rightarrow> bool) \<Rightarrow> nat \<Rightarrow> pystr list \<Rightarrow> json list \<Rightarrow>
    manifest_error + pystr list" where
  "id_list_from claim field pattern index ids [] = Inr ids"
| "id_list_from claim field pattern index ids (v # vs) = (case v of
       JStr s \<Rightarrow>
         if \<not> pattern s then Inl (MalformedEntry claim field index v)
         else if s \<in> set ids then Inl (RepeatedEntry claim field s)
         else id_list_from claim field pattern (Suc index) (ids @ [s]) vs
     | _ \<Rightarrow> Inl (MalformedEntry claim field index v))"

definition id_list :: "pystr \<Rightarrow> string \<Rightarrow> json \<Rightarrow> (pystr \<Rightarrow> bool) \<Rightarrow> manifest_error + pystr list" where
  "id_list claim field v pattern = (case v of
       JArr (x # xs) \<Rightarrow> id_list_from claim field pattern 0 [] (x # xs)
     | _ \<Rightarrow> Inl (ListNotArray claim field))"

fun check_dependencies :: "pystr \<Rightarrow> (pystr, obligation_kind) dict \<Rightarrow> pystr list \<Rightarrow> manifest_error + unit" where
  "check_dependencies claim kinds [] = Inr ()"
| "check_dependencies claim kinds (d # ds) = (case map_of kinds d of
       None \<Rightarrow> Inl (UndeclaredDependency claim d)
     | Some SystemClaim \<Rightarrow> Inl (DependencyOnClaim claim d)
     | Some _ \<Rightarrow> check_dependencies claim kinds ds)"

definition validate_system_claim :: "pystr \<Rightarrow> fields \<Rightarrow> (pystr, obligation_kind) dict \<Rightarrow>
    manifest_error + pystr list \<times> pystr list" where
  "validate_system_claim claim fs kinds =
     rbind (id_list claim ''depends_on'' (jget fs ''depends_on'') obligation_id) (\<lambda>dependencies.
     rbind (check_dependencies claim kinds dependencies) (\<lambda>_.
     rbind (id_list claim ''required_evidence'' (jget fs ''required_evidence'') evidence_tool_id) (\<lambda>evidence.
     Inr (dependencies, evidence))))"

record manifest_view =
  manifest_required :: "pystr list"
  kinds :: "(pystr, obligation_kind) dict"
  claim_evidence :: "(pystr, pystr list) dict"
  claim_depends :: "(pystr, pystr list) dict"

type_synonym declared = "pystr list \<times> (pystr, obligation_kind) dict \<times> (pystr \<times> fields) list"

fun declare_entries :: "obligation_kind \<Rightarrow> (pystr \<times> fields) list \<Rightarrow> declared \<Rightarrow> manifest_error + declared" where
  "declare_entries kind [] st = Inr st"
| "declare_entries kind ((claim, fs) # es) (required, ks, claims) =
     (if claim \<in> fst ` set ks then Inl (DuplicateId claim kind)
      else declare_entries kind es (required @ [claim], dset ks claim kind,
             if kind = SystemClaim then claims @ [(claim, fs)] else claims))"

fun declare_collections :: "fields \<Rightarrow> obligation_kind list \<Rightarrow> declared \<Rightarrow> manifest_error + declared" where
  "declare_collections manifest [] st = Inr st"
| "declare_collections manifest (k # ks) st =
     rbind (obligation_entries manifest k) (\<lambda>es.
     rbind (declare_entries k es st) (\<lambda>st'.
     declare_collections manifest ks st'))"

fun resolve_claims :: "(pystr \<times> fields) list \<Rightarrow> manifest_view \<Rightarrow> manifest_error + manifest_view" where
  "resolve_claims [] m = Inr m"
| "resolve_claims ((claim, fs) # cs) m =
     rbind (validate_system_claim claim fs (kinds m)) (\<lambda>(dependencies, evidence).
     resolve_claims cs (m\<lparr>claim_depends := dset (claim_depends m) claim dependencies,
                          claim_evidence := dset (claim_evidence m) claim evidence\<rparr>))"

definition load_manifest :: "json \<Rightarrow> manifest_error + manifest_view" where
  "load_manifest v = (case v of
       JObj manifest \<Rightarrow>
         rbind (declare_collections manifest [Invariant, Witness, SystemClaim] ([], [], []))
           (\<lambda>(required, ks, claims).
         resolve_claims claims
           \<lparr>manifest_required = required, kinds = ks, claim_evidence = [], claim_depends = []\<rparr>)
     | _ \<Rightarrow> Inl ManifestNotObject)"

subsection \<open>Records by claim, and the artifacts they cite\<close>

definition unwrap :: "json \<Rightarrow> json list" where
  "unwrap v = (let data = (case v of JObj fs \<Rightarrow> if jhas fs ''records'' then jget fs ''records'' else v | _ \<Rightarrow> v)
     in case data of JArr xs \<Rightarrow> xs | _ \<Rightarrow> [data])"

text \<open>A directory of records is the list of its documents by file name, a file a single one.\<close>

definition load_records :: "json list \<Rightarrow> json list" where
  "load_records documents = concat (map unwrap documents)"

fun index_records :: "json list \<Rightarrow> (pystr, json) dict \<times> pystr list \<Rightarrow> (pystr, json) dict \<times> pystr list" where
  "index_records [] st = st"
| "index_records (r # rs) (by_claim, duplicates) =
     (case jsub r ''claim_id'' of
        JStr claim \<Rightarrow> index_records rs (dset by_claim claim r,
          if claim \<in> fst ` set by_claim then duplicates @ [claim] else duplicates)
      | _ \<Rightarrow> index_records rs (by_claim, duplicates))"

definition cited_artifacts :: "json \<Rightarrow> pystr list" where
  "cited_artifacts v = (case jsub v ''bindings'' of
       JObj b \<Rightarrow>
         (let paths = jget b ''raw_output_path'' # (case jget b ''executions'' of
                JArr xs \<Rightarrow> map (\<lambda>x. jsub x ''raw_output_path'') (filter (\<lambda>x. as_obj x \<noteq> None) xs)
              | _ \<Rightarrow> [])
          in dedupe (filter (\<lambda>p. p \<noteq> []) (List.map_filter as_str paths)))
     | _ \<Rightarrow> [])"

definition cite :: "pystr \<Rightarrow> (pystr, pystr list) dict \<Rightarrow> pystr \<Rightarrow> (pystr, pystr list) dict" where
  "cite claim cited path =
     (let claims = (case map_of cited path of None \<Rightarrow> [] | Some cs \<Rightarrow> cs)
      in dset cited path (if claim \<in> set claims then claims else claims @ [claim]))"

definition cited_artifact_index :: "pystr list \<Rightarrow> (pystr, json) dict \<Rightarrow> (pystr, pystr list) dict" where
  "cited_artifact_index required by_claim =
     foldl (\<lambda>cited claim. foldl (cite claim) cited
       (case map_of by_claim claim of None \<Rightarrow> [] | Some r \<Rightarrow> cited_artifacts r)) [] required"

definition shared_artifact_defects :: "pystr \<Rightarrow> json \<Rightarrow> (pystr, pystr list) dict \<Rightarrow> defect list" where
  "shared_artifact_defects claim r cited =
     (if \<not> is_schema_v3 r then []
      else List.map_filter (\<lambda>path.
        let shared = sorted_set (filter (\<lambda>c. c \<noteq> claim)
              (case map_of cited path of None \<Rightarrow> [] | Some cs \<Rightarrow> cs))
        in if shared = [] then None else Some (SharedArtifact path shared)) (cited_artifacts r))"

text \<open>Where a record rests on an assumed class: the label of the source and the class.\<close>

fun assumed_executions :: "nat \<Rightarrow> json list \<Rightarrow> py_exn + (json \<times> json) list" where
  "assumed_executions index [] = Inr []"
| "assumed_executions index (x # xs) =
     rbind (case x of JObj e \<Rightarrow> in_names (jget e ''evidence_class'') assumed_classes | _ \<Rightarrow> Inr False) (\<lambda>assumed.
     rbind (assumed_executions (Suc index) xs) (\<lambda>rest.
     Inr (if assumed then (case jsub x ''tool'' of JStr t \<Rightarrow> JStr t | _ \<Rightarrow> JInt (int index),
                           jsub x ''evidence_class'') # rest else rest)))"

definition assumed_evidence :: "json \<Rightarrow> py_exn + (json \<times> json) list" where
  "assumed_evidence r =
     rbind (in_names (jsub r ''evidence_class'') assumed_classes) (\<lambda>own.
     rbind (case jsub (jsub r ''bindings'') ''executions'' of
         JArr xs \<Rightarrow> assumed_executions 0 xs | _ \<Rightarrow> Inr []) (\<lambda>es.
     Inr ((if own then [(JStr (str ''record''), jsub r ''evidence_class'')] else []) @ es)))"

subsection \<open>Judging one claim\<close>

datatype status =
    DuplicateRecord
  | MissingRecord
  | InvalidRecord "defect list"
  | FailStatus
  | IncompleteStatus
  | UnwaivedAssumption "(json \<times> json) list"
  | PassWaived
  | PassStatus

record judged =
  by_claim :: "(pystr, json) dict"
  duplicates :: "pystr list"
  cited :: "(pystr, pystr list) dict"

definition outcome :: "json \<Rightarrow> (json \<times> json) list \<Rightarrow> status" where
  "outcome r assumed =
     (if jsub r ''result'' = JStr (str ''FAIL'') then FailStatus
      else if jsub r ''result'' = JStr (str ''INCOMPLETE'') then IncompleteStatus
      else if assumed \<noteq> [] \<and> \<not> truthy (jsub r ''waiver'') then UnwaivedAssumption assumed
      else if truthy (jsub r ''waiver'') then PassWaived else PassStatus)"

text \<open>The manifest is absent when the run has none; then no claim has a kind or required tools.\<close>

definition kind_of :: "manifest_view option \<Rightarrow> pystr \<Rightarrow> obligation_kind option" where
  "kind_of m claim = (case m of None \<Rightarrow> None | Some mv \<Rightarrow> map_of (kinds mv) claim)"

definition evidence_of :: "manifest_view option \<Rightarrow> pystr \<Rightarrow> pystr list" where
  "evidence_of m claim = (case m of None \<Rightarrow> [] | Some mv \<Rightarrow>
     (case map_of (claim_evidence mv) claim of None \<Rightarrow> [] | Some ts \<Rightarrow> ts))"

definition judge_claim :: "env \<Rightarrow> expectations \<Rightarrow> manifest_view option \<Rightarrow> judged \<Rightarrow> pystr \<Rightarrow> py_exn + status" where
  "judge_claim env ex m j claim =
     (if claim \<in> set (duplicates j) then Inr DuplicateRecord
      else case map_of (by_claim j) claim of
        None \<Rightarrow> Inr MissingRecord
      | Some r \<Rightarrow>
          rbind (validate_record (Some env) ex (kind_of m claim) (evidence_of m claim) r) (\<lambda>ds.
          let defects = ds @ shared_artifact_defects claim r (cited j) in
          if defects \<noteq> [] then Inr (InvalidRecord defects)
          else rbind (assumed_evidence r) (\<lambda>assumed. Inr (outcome r assumed))))"

subsection \<open>The run\<close>

datatype gate_error =
    UnreadableInputs
  | BadManifest manifest_error
  | NamesNoClaims
  | NeitherRequireNorManifest
  | UnknownRequired "pystr list"
  | CannotBind project_error

datatype binding_mode = Recomputed | Pinned | Unbound

datatype verdict = Verified "pystr list" binding_mode "pystr list" | Failed | Incomplete

fun exit_code :: "verdict \<Rightarrow> nat" where
  "exit_code (Verified _ _ _) = 0"
| "exit_code Failed = 1"
| "exit_code Incomplete = 3"

record gate_args =
  require :: "pystr option"
  pin_snapshot :: "pystr option"
  pin_intent :: "pystr option"
  pin_manifest :: "pystr option"
  exact :: bool
  allow_unbound :: bool

text \<open>What the run reads: the documents of \<^verbatim>\<open>--records\<close>, the digest and document of
  \<^verbatim>\<open>--manifest\<close>, and what the project recomputes.\<close>

record inputs =
  documents :: "json list option"
  manifest_file :: "(pystr \<times> json) option option"
  current_snapshot :: "project_error + pystr"
  current_intent :: "project_error + pystr \<times> pystr"

record report =
  required_claims :: "pystr list"
  expansion :: "(pystr, pystr list) dict"
  binding :: binding_mode
  per_claim :: "(pystr \<times> status) list"
  verdict_of :: verdict

definition named_claims :: "pystr \<Rightarrow> pystr list" where
  "named_claims s = filter (\<lambda>w. w \<noteq> []) (map strip (split_on 44 s))"

fun expand_dependencies :: "manifest_view \<Rightarrow> pystr list \<Rightarrow> pystr list \<Rightarrow> (pystr, pystr list) dict \<Rightarrow>
    pystr list \<times> (pystr, pystr list) dict" where
  "expand_dependencies mv [] required ex = (required, ex)"
| "expand_dependencies mv (claim # cs) required ex =
     (if map_of (kinds mv) claim \<noteq> Some SystemClaim then expand_dependencies mv cs required ex
      else
        (let added = filter (\<lambda>d. d \<notin> set required)
               (case map_of (claim_depends mv) claim of None \<Rightarrow> [] | Some ds \<Rightarrow> ds)
         in if added = [] then expand_dependencies mv cs required ex
            else expand_dependencies mv cs (required @ added) (dset ex claim added)))"

definition select_required :: "pystr option \<Rightarrow> manifest_view option \<Rightarrow>
    gate_error + pystr list \<times> (pystr, pystr list) dict" where
  "select_required req m =
     rbind (case req of
         Some s \<Rightarrow> if named_claims s = [] then Inl NamesNoClaims else Inr (named_claims s)
       | None \<Rightarrow> (case m of Some mv \<Rightarrow> Inr (manifest_required mv) | None \<Rightarrow> Inl NeitherRequireNorManifest))
     (\<lambda>required. case m of
         None \<Rightarrow> Inr (sorted_set required, [])
       | Some mv \<Rightarrow>
          (let unknown = sorted_set (filter (\<lambda>c. c \<notin> fst ` set (kinds mv)) required) in
           if unknown \<noteq> [] then Inl (UnknownRequired unknown)
           else if req = None then Inr (sorted_set required, [])
           else (let (all, ex) = expand_dependencies mv required required [] in Inr (sorted_set all, ex))))"

definition binding_of :: "gate_args \<Rightarrow> binding_mode" where
  "binding_of args = (if allow_unbound args then Unbound
     else if pin_snapshot args \<noteq> None \<or> pin_intent args \<noteq> None then Pinned else Recomputed)"

definition bind_inputs :: "gate_args \<Rightarrow> inputs \<Rightarrow> pystr option \<Rightarrow> pystr list option \<Rightarrow> gate_error + expectations" where
  "bind_inputs args ins manifest_hash targets =
     (let ex = \<lparr>expect_snapshot = pin_snapshot args, expect_intent = pin_intent args,
                expect_manifest = (case pin_manifest args of Some h \<Rightarrow> Some h | None \<Rightarrow> manifest_hash),
                snapshot_exact = exact args, expect_intent_path = None, expect_required_targets = targets\<rparr>
      in if allow_unbound args then Inr ex
         else rbind (case pin_snapshot args of
             Some _ \<Rightarrow> Inr ex
           | None \<Rightarrow> (case current_snapshot ins of
                Inl e \<Rightarrow> Inl (CannotBind e)
              | Inr s \<Rightarrow> Inr (ex\<lparr>expect_snapshot := Some s, snapshot_exact := True\<rparr>))) (\<lambda>ex1.
           case pin_intent args of
             Some _ \<Rightarrow> Inr ex1
           | None \<Rightarrow> (case current_intent ins of
                Inl e \<Rightarrow> Inl (CannotBind e)
              | Inr (path, h) \<Rightarrow> Inr (ex1\<lparr>expect_intent_path := Some path, expect_intent := Some h\<rparr>))))"

definition is_incomplete :: "status \<Rightarrow> bool" where
  "is_incomplete s \<longleftrightarrow> (case s of FailStatus \<Rightarrow> False | PassWaived \<Rightarrow> False | PassStatus \<Rightarrow> False | _ \<Rightarrow> True)"

definition profile_of :: "json \<Rightarrow> pystr" where
  "profile_of r = (case jget (bindings_of r) ''profile'' of JStr p \<Rightarrow> p | _ \<Rightarrow> [])"

definition aggregate :: "binding_mode \<Rightarrow> (pystr, json) dict \<Rightarrow> (pystr \<times> status) list \<Rightarrow> verdict" where
  "aggregate discipline records rows =
     (if list_ex (\<lambda>(_, s). s = FailStatus) rows then Failed
      else if rows = [] \<or> list_ex (\<lambda>(_, s). is_incomplete s) rows then Incomplete
      else Verified
        (sorted_set (map (\<lambda>(c, _). case map_of records c of Some r \<Rightarrow> profile_of r | None \<Rightarrow> []) rows))
        discipline (sorted_set (map fst (filter (\<lambda>(_, s). s = PassWaived) rows))))"

definition judge_run :: "env \<Rightarrow> expectations \<Rightarrow> manifest_view option \<Rightarrow> json list \<Rightarrow> pystr list \<Rightarrow>
    py_exn + (pystr \<times> status) list" where
  "judge_run env ex m records required =
     (let (bc, dups) = index_records records ([], []);
          j = \<lparr>by_claim = bc, duplicates = dups, cited = cited_artifact_index required bc\<rparr>
      in traverse (\<lambda>c. rbind (judge_claim env ex m j c) (\<lambda>s. Inr (c, s))) required)"

text \<open>Everything before the records are judged.\<close>

record prepared =
  run_records :: "json list"
  run_manifest :: "manifest_view option"
  run_required :: "pystr list"
  run_expansion :: "(pystr, pystr list) dict"
  run_expect :: expectations

definition read_manifest :: "inputs \<Rightarrow> gate_error + pystr option \<times> manifest_view option" where
  "read_manifest ins = (case manifest_file ins of
       None \<Rightarrow> Inr (None, None)
     | Some None \<Rightarrow> Inl UnreadableInputs
     | Some (Some (h, doc)) \<Rightarrow> (case load_manifest doc of
          Inl e \<Rightarrow> Inl (BadManifest e) | Inr mv \<Rightarrow> Inr (Some h, Some mv)))"

definition prepare :: "gate_args \<Rightarrow> inputs \<Rightarrow> gate_error + prepared" where
  "prepare args ins =
     rbind (case documents ins of None \<Rightarrow> Inl UnreadableInputs | Some docs \<Rightarrow> Inr docs) (\<lambda>docs.
     rbind (read_manifest ins) (\<lambda>(h, m).
     rbind (select_required (require args) m) (\<lambda>(required, ex).
     rbind (bind_inputs args ins h (map_option manifest_required m)) (\<lambda>expect.
     Inr \<lparr>run_records = load_records docs, run_manifest = m, run_required = required,
          run_expansion = ex, run_expect = expect\<rparr>))))"

definition gate_main :: "env \<Rightarrow> gate_args \<Rightarrow> inputs \<Rightarrow> py_exn + (gate_error + report)" where
  "gate_main env args ins = (case prepare args ins of
       Inl e \<Rightarrow> Inr (Inl e)
     | Inr p \<Rightarrow>
         rbind (judge_run env (run_expect p) (run_manifest p) (run_records p) (run_required p)) (\<lambda>rows.
         Inr (Inr \<lparr>required_claims = run_required p, expansion = run_expansion p,
                  binding = binding_of args, per_claim = rows,
                  verdict_of = aggregate (binding_of args)
                    (fst (index_records (run_records p) ([], []))) rows\<rparr>)))"

text \<open>The status the process exits with; an uncaught exception is 1.\<close>

definition gate_exit :: "py_exn + (gate_error + report) \<Rightarrow> nat" where
  "gate_exit r = (case r of Inl _ \<Rightarrow> 1 | Inr (Inl _) \<Rightarrow> 2 | Inr (Inr rep) \<Rightarrow> exit_code (verdict_of rep))"

subsection \<open>The verdict token\<close>

definition mode_text :: "binding_mode \<Rightarrow> pystr" where
  "mode_text m = (case m of Recomputed \<Rightarrow> [] | Pinned \<Rightarrow> str ''; binding=pinned'' | Unbound \<Rightarrow> str ''; binding=unbound'')"

definition verdict_text :: "verdict \<Rightarrow> pystr" where
  "verdict_text v = (case v of
       Failed \<Rightarrow> str ''FAILED''
     | Incomplete \<Rightarrow> str ''INCOMPLETE''
     | Verified profiles discipline waived \<Rightarrow>
         str ''VERIFIED[profile='' @ join (str ''/'') profiles @ mode_text discipline @ str '']'' @
         (if waived = [] then [] else str '' (waived: '' @ join (str '','') waived @ str '')''))"

subsection \<open>What loading a manifest guarantees\<close>

definition system_claims :: "manifest_view \<Rightarrow> pystr set" where
  "system_claims m = {c. map_of (kinds m) c = Some SystemClaim}"

definition dependencies :: "manifest_view \<Rightarrow> pystr \<Rightarrow> pystr list" where
  "dependencies m c = (case map_of (claim_depends m) c of None \<Rightarrow> [] | Some ds \<Rightarrow> ds)"

text \<open>The required claims are the declared ids, each once and each usable by the producer; the
  system claims, and they alone, have dependencies and required tools, both nonempty without
  repetition; every dependency is a declared invariant or witness.\<close>

definition depends_ok :: "(pystr, obligation_kind) dict \<Rightarrow> pystr list \<Rightarrow> bool" where
  "depends_ok ks ds \<longleftrightarrow> ds \<noteq> [] \<and> distinct ds \<and>
     (\<forall>d \<in> set ds. map_of ks d = Some Invariant \<or> map_of ks d = Some Witness)"

definition tools_ok :: "pystr list \<Rightarrow> bool" where
  "tools_ok ts \<longleftrightarrow> ts \<noteq> [] \<and> distinct ts \<and> list_all evidence_tool_id ts"

definition claims_ok :: "manifest_view \<Rightarrow> bool" where
  "claims_ok m \<longleftrightarrow> (\<forall>ds \<in> ran (map_of (claim_depends m)). depends_ok (kinds m) ds) \<and>
     (\<forall>ts \<in> ran (map_of (claim_evidence m)). tools_ok ts)"

definition manifest_ok :: "manifest_view \<Rightarrow> bool" where
  "manifest_ok m \<longleftrightarrow>
     distinct (manifest_required m) \<and> map fst (kinds m) = manifest_required m \<and>
     list_all producer_claim_id (manifest_required m) \<and>
     dom (map_of (claim_depends m)) = system_claims m \<and>
     dom (map_of (claim_evidence m)) = system_claims m \<and> claims_ok m"

lemma obligation_entries_from_ids:
  "obligation_entries_from kind i items = Inr es \<Longrightarrow> list_all (\<lambda>(c, _). producer_claim_id c) es"
  by (induction kind i items arbitrary: es rule: obligation_entries_from.induct)
    (auto split: json.splits if_splits)

lemma obligation_entries_ids:
  "obligation_entries manifest kind = Inr es \<Longrightarrow> list_all (\<lambda>(c, _). producer_claim_id c) es"
  using obligation_entries_from_ids
  by (auto simp: obligation_entries_def split: option.splits json.splits)

lemma id_list_from_ok:
  "id_list_from c f pattern i ids vs = Inr ts \<Longrightarrow> distinct ids \<Longrightarrow> list_all pattern ids \<Longrightarrow>
   distinct ts \<and> list_all pattern ts \<and> (\<exists>us. ts = ids @ us \<and> length us = length vs)"
proof (induction c f pattern i ids vs rule: id_list_from.induct)
  case (2 c f pattern i ids v vs)
  then show ?case by (fastforce split: json.splits if_splits)
qed simp

lemma id_list_ok:
  assumes "id_list c f v pattern = Inr ts"
  shows "ts \<noteq> [] \<and> distinct ts \<and> list_all pattern ts"
proof -
  from assms obtain x xs where "id_list_from c f pattern 0 [] (x # xs) = Inr ts"
    by (auto simp: id_list_def simp del: id_list_from.simps split: json.splits list.splits)
  from id_list_from_ok [OF this] show ?thesis by auto
qed

lemma check_dependencies_ok:
  "check_dependencies c ks ds = Inr u \<longleftrightarrow>
   (\<forall>d \<in> set ds. map_of ks d = Some Invariant \<or> map_of ks d = Some Witness)"
  by (induction c ks ds rule: check_dependencies.induct) (auto split: option.splits obligation_kind.splits)

text \<open>Declaring keeps the three views of the manifest in step.\<close>

definition declared_ok :: "declared \<Rightarrow> bool" where
  "declared_ok st \<longleftrightarrow> (case st of (required, ks, claims) \<Rightarrow>
     distinct required \<and> map fst ks = required \<and> list_all producer_claim_id required \<and>
     set (map fst claims) = {c. map_of ks c = Some SystemClaim})"

lemma declare_entries_ok:
  "declare_entries kind es st = Inr st' \<Longrightarrow> list_all (\<lambda>(c, _). producer_claim_id c) es \<Longrightarrow>
   declared_ok st \<Longrightarrow> declared_ok st'"
proof (induction kind es st rule: declare_entries.induct)
  case (2 kind claim fs es required ks claims)
  then have new: "claim \<notin> fst ` set ks" and keys: "map fst ks = required"
    by (auto simp: declared_ok_def split: if_splits)
  have "claim \<notin> set required" using new keys by (metis set_map)
  moreover have "{c. ((map_of ks)(claim \<mapsto> kind)) c = Some SystemClaim} =
      {c. map_of ks c = Some SystemClaim} \<union> (if kind = SystemClaim then {claim} else {})"
    using new by (auto simp: map_of_eq_None_iff [symmetric])
  ultimately have "declared_ok (required @ [claim], dset ks claim kind,
      if kind = SystemClaim then claims @ [(claim, fs)] else claims)"
    using 2 new by (auto simp: declared_ok_def keys_dset map_of_dset)
  with 2 new show ?case by (auto split: if_splits)
qed simp

lemma declare_collections_ok:
  "declare_collections manifest ks st = Inr st' \<Longrightarrow> declared_ok st \<Longrightarrow> declared_ok st'"
proof (induction manifest ks st rule: declare_collections.induct)
  case (2 manifest k ks st)
  from "2.prems"(1) obtain es st1 where es: "obligation_entries manifest k = Inr es"
    "declare_entries k es st = Inr st1" "declare_collections manifest ks st1 = Inr st'" by auto
  have "declared_ok st1"
    using declare_entries_ok [OF es(2) obligation_entries_ids [OF es(1)] "2.prems"(2)] .
  with "2.IH" [OF es(1,2,3)] show ?case .
qed simp

lemma validate_system_claim_ok:
  assumes "validate_system_claim c fs ks = Inr (ds, ts)"
  shows "depends_ok ks ds" "tools_ok ts"
  using assms
  by (auto simp: validate_system_claim_def check_dependencies_ok depends_ok_def tools_ok_def dest: id_list_ok)

lemma ran_upd: "x \<in> ran (f(k \<mapsto> v)) \<Longrightarrow> x = v \<or> x \<in> ran f"
  by (auto simp: ran_def split: if_splits)

lemma claims_ok_add:
  assumes "claims_ok m" "depends_ok (kinds m) ds" "tools_ok ts"
  shows "claims_ok (m\<lparr>claim_depends := dset (claim_depends m) c ds,
    claim_evidence := dset (claim_evidence m) c ts\<rparr>)"
  using assms unfolding claims_ok_def by (auto simp: map_of_dset dest!: ran_upd)

lemma resolve_claims_ok:
  "resolve_claims cs m = Inr m' \<Longrightarrow> claims_ok m \<Longrightarrow>
   kinds m' = kinds m \<and> manifest_required m' = manifest_required m \<and> claims_ok m' \<and>
   dom (map_of (claim_depends m')) = dom (map_of (claim_depends m)) \<union> fst ` set cs \<and>
   dom (map_of (claim_evidence m')) = dom (map_of (claim_evidence m)) \<union> fst ` set cs"
proof (induction cs m rule: resolve_claims.induct)
  case (2 c fs cs m)
  obtain ds ts where v: "validate_system_claim c fs (kinds m) = Inr (ds, ts)"
    using "2.prems"(1) by (cases "validate_system_claim c fs (kinds m)") auto
  let ?m = "m\<lparr>claim_depends := dset (claim_depends m) c ds, claim_evidence := dset (claim_evidence m) c ts\<rparr>"
  have rest: "resolve_claims cs ?m = Inr m'" using "2.prems"(1) v by simp
  have ok: "claims_ok ?m" by (rule claims_ok_add [OF "2.prems"(2) validate_system_claim_ok [OF v]])
  from "2.IH" [OF v refl rest ok] show ?case by (auto simp: map_of_dset)
qed simp

lemma load_manifest_ok:
  assumes "load_manifest v = Inr m"
  shows "manifest_ok m"
proof -
  obtain manifest where v: "v = JObj manifest" using assms by (cases v) (auto simp: load_manifest_def)
  obtain required ks claims where
    d: "declare_collections manifest [Invariant, Witness, SystemClaim] ([], [], []) = Inr (required, ks, claims)"
    using assms by (cases "declare_collections manifest [Invariant, Witness, SystemClaim] ([], [], [])")
      (auto simp: v load_manifest_def simp del: declare_collections.simps)
  let ?m = "\<lparr>manifest_required = required, kinds = ks, claim_evidence = [], claim_depends = []\<rparr>"
  have r: "resolve_claims claims ?m = Inr m"
    using assms d by (simp add: v load_manifest_def del: declare_collections.simps)
  have st: "declared_ok (required, ks, claims)"
    by (rule declare_collections_ok [OF d]) (simp add: declared_ok_def)
  have "claims_ok ?m" by (simp add: claims_ok_def)
  from resolve_claims_ok [OF r this] st show ?thesis
    by (simp add: manifest_ok_def declared_ok_def system_claims_def)
qed

lemma dependency_kind:
  assumes "manifest_ok m" "d \<in> set (dependencies m c)"
  shows "map_of (kinds m) d = Some Invariant \<or> map_of (kinds m) d = Some Witness"
proof -
  obtain ds where "map_of (claim_depends m) c = Some ds" "d \<in> set ds"
    using assms(2) by (cases "map_of (claim_depends m) c") (auto simp: dependencies_def)
  moreover from this(1) have "depends_ok (kinds m) ds"
    using assms(1) ranI [of "map_of (claim_depends m)" c ds] by (auto simp: manifest_ok_def claims_ok_def)
  ultimately show ?thesis unfolding depends_ok_def by blast
qed

lemma only_claims_depend:
  assumes "manifest_ok m" "d \<in> set (dependencies m c)"
  shows "map_of (kinds m) c = Some SystemClaim"
proof -
  have "c \<in> dom (map_of (claim_depends m))"
    using assms(2) by (cases "map_of (claim_depends m) c") (auto simp: dependencies_def)
  then show ?thesis using assms(1) by (simp add: manifest_ok_def system_claims_def)
qed

text \<open>A dependency is never a system claim, so no chain of dependencies has a second link.\<close>

lemma dependencies_acyclic:
  assumes "manifest_ok m"
  shows "acyclic {(c, d). d \<in> set (dependencies m c)}" (is "acyclic ?r")
proof -
  have "trans ?r"
    using dependency_kind [OF assms] only_claims_depend [OF assms] by (fastforce intro: transI)
  then have "?r\<^sup>+ = ?r" by (rule trancl_id)
  moreover have "(c, c) \<notin> ?r" for c
    using dependency_kind [OF assms] only_claims_depend [OF assms] by fastforce
  ultimately show ?thesis by (simp add: acyclic_def)
qed

subsection \<open>Records by claim\<close>

definition records_of :: "pystr \<Rightarrow> json list \<Rightarrow> json list" where
  "records_of c rs = filter (\<lambda>r. jsub r ''claim_id'' = JStr c) rs"

lemma index_records_spec:
  "index_records rs (bc, du) = (bc', du') \<Longrightarrow>
   map_of bc' c = (if records_of c rs = [] then map_of bc c else Some (last (records_of c rs))) \<and>
   (c \<in> set du' \<longleftrightarrow> c \<in> set du \<or>
      2 \<le> length (records_of c rs) + (if map_of bc c = None then 0 else 1) \<and> records_of c rs \<noteq> [])"
proof (induction rs arbitrary: bc du)
  case Nil
  then show ?case by (auto simp: records_of_def)
next
  case (Cons r rs)
  show ?case
  proof (cases "\<exists>k. jsub r ''claim_id'' = JStr k")
    case False
    then have "index_records rs (bc, du) = (bc', du')" "records_of c (r # rs) = records_of c rs"
      using Cons.prems by (auto simp: records_of_def split: json.splits)
    then show ?thesis using Cons.IH by simp
  next
    case True
    then obtain k where k: "jsub r ''claim_id'' = JStr k" by blast
    let ?bc = "dset bc k r" and ?du = "if k \<in> fst ` set bc then du @ [k] else du"
    have "index_records rs (?bc, ?du) = (bc', du')" using Cons.prems k by simp
    from Cons.IH [OF this] show ?thesis
      using k by (auto simp: records_of_def map_of_dset map_of_eq_None_iff split: if_splits)
  qed
qed

lemma by_claim_look:
  "map_of (fst (index_records rs ([], []))) c =
    (if records_of c rs = [] then None else Some (last (records_of c rs)))"
  using index_records_spec [of rs "[]" "[]"] by (cases "index_records rs ([], [])") simp

lemma duplicates_iff:
  "c \<in> set (snd (index_records rs ([], []))) \<longleftrightarrow> 2 \<le> length (records_of c rs)"
proof -
  have "2 \<le> length xs \<Longrightarrow> xs \<noteq> []" for xs :: "json list" by auto
  then show ?thesis
    using index_records_spec [of rs "[]" "[]"] by (cases "index_records rs ([], [])") auto
qed

lemma sole_record:
  assumes "c \<notin> set (snd (index_records rs ([], [])))" "map_of (fst (index_records rs ([], []))) c = Some r"
  shows "records_of c rs = [r]"
proof -
  have "records_of c rs \<noteq> []" "last (records_of c rs) = r"
    using assms(2) by (auto simp: by_claim_look split: if_splits)
  moreover have "length (records_of c rs) < 2" using assms(1) by (simp add: duplicates_iff)
  ultimately show ?thesis by (cases "records_of c rs") auto
qed

subsection \<open>Who cites an artifact\<close>

definition citing :: "(pystr, pystr list) dict \<Rightarrow> pystr \<Rightarrow> pystr list" where
  "citing cx path = (case map_of cx path of None \<Rightarrow> [] | Some cs \<Rightarrow> cs)"

lemma citing_cite:
  "set (citing (cite c d p) q) = set (citing d q) \<union> (if q = p then {c} else {})"
  by (auto simp: citing_def cite_def Let_def map_of_dset split: option.splits if_splits)

lemma citing_foldl_cite:
  "set (citing (foldl (cite c) d ps) q) = set (citing d q) \<union> (if q \<in> set ps then {c} else {})"
  by (induction ps arbitrary: d) (auto simp: citing_cite)

lemma citing_index_from:
  "set (citing (foldl (\<lambda>cx c. foldl (cite c) cx
      (case map_of bc c of None \<Rightarrow> [] | Some r \<Rightarrow> cited_artifacts r)) d required) q) =
   set (citing d q) \<union> {c \<in> set required. \<exists>r. map_of bc c = Some r \<and> q \<in> set (cited_artifacts r)}"
proof (induction required arbitrary: d)
  case (Cons c cs)
  then show ?case by (cases "map_of bc c") (auto simp: citing_foldl_cite)
qed simp

lemma citing_index:
  "set (citing (cited_artifact_index required bc) q) =
   {c \<in> set required. \<exists>r. map_of bc c = Some r \<and> q \<in> set (cited_artifacts r)}"
  unfolding cited_artifact_index_def citing_index_from by (simp add: citing_def)

lemma set_map_filter': "set (List.map_filter f xs) = {y. \<exists>x \<in> set xs. f x = Some y}"
  by (induction xs) (auto simp: List.map_filter_simps split: option.splits)

lemma map_filter_empty: "List.map_filter f xs = [] \<longleftrightarrow> (\<forall>x \<in> set xs. f x = None)"
  by (induction xs) (auto simp: List.map_filter_simps split: option.splits)

lemma filter_Nil_iff: "filter P xs = [] \<longleftrightarrow> (\<forall>x \<in> set xs. \<not> P x)"
  by (simp add: filter_empty_conv)

lemma shared_artifact_Nil:
  "shared_artifact_defects c r cx = [] \<longleftrightarrow> (is_schema_v3 r \<longrightarrow>
     (\<forall>path \<in> set (cited_artifacts r). set (citing cx path) \<subseteq> {c}))"
  by (auto simp: shared_artifact_defects_def Let_def map_filter_empty filter_Nil_iff citing_def
      split: if_splits option.splits)

subsection \<open>What a verified claim has\<close>

definition uncontested :: "json list \<Rightarrow> pystr list \<Rightarrow> pystr \<Rightarrow> json \<Rightarrow> bool" where
  "uncontested rs required c r \<longleftrightarrow> (\<forall>path \<in> set (cited_artifacts r). \<forall>d \<in> set required. \<forall>q \<in> set (records_of d rs).
     d \<noteq> c \<longrightarrow> path \<notin> set (cited_artifacts q))"

text \<open>One record, which is sound and passes; a waiver that says who waived what, or no assumed
  class anywhere in the record; and, for a cohort record, artifacts no other claim cites.\<close>

definition verified_claim :: "env \<Rightarrow> expectations \<Rightarrow> manifest_view option \<Rightarrow> json list \<Rightarrow> pystr list \<Rightarrow> pystr \<Rightarrow> bool" where
  "verified_claim env ex m rs required c \<longleftrightarrow>
     (\<exists>r. records_of c rs = [r] \<and> sound_record env ex (kind_of m c) (evidence_of m c) r \<and> passing r \<and>
        (attributable (jsub r ''waiver'') \<or> assumed_evidence r = Inr []) \<and>
        (is_schema_v3 r \<longrightarrow> uncontested rs required c r))"

definition passed :: "status \<Rightarrow> bool" where
  "passed s \<longleftrightarrow> s = PassStatus \<or> s = PassWaived"

lemma outcome_passed:
  "passed (outcome r assumed) \<longleftrightarrow> jsub r ''result'' \<noteq> JStr (str ''FAIL'') \<and> jsub r ''result'' \<noteq> JStr (str ''INCOMPLETE'') \<and>
     (truthy (jsub r ''waiver'') \<or> assumed = [])"
  by (auto simp: outcome_def passed_def)

lemma sound_record_result:
  "sound_record env ex k req r \<Longrightarrow> jsub r ''result'' \<noteq> JStr (str ''FAIL'') \<Longrightarrow>
   jsub r ''result'' \<noteq> JStr (str ''INCOMPLETE'') \<Longrightarrow> passing r"
  by (auto simp: sound_record_def passing_def results_def)

definition judged_of :: "json list \<Rightarrow> pystr list \<Rightarrow> judged" where
  "judged_of rs required =
     \<lparr>by_claim = fst (index_records rs ([], [])), duplicates = snd (index_records rs ([], [])),
      cited = cited_artifact_index required (fst (index_records rs ([], [])))\<rparr>"

lemma judge_run_eq:
  "judge_run env ex m rs required =
     traverse (\<lambda>c. rbind (judge_claim env ex m (judged_of rs required) c) (\<lambda>s. Inr (c, s))) required"
  by (simp add: judge_run_def judged_of_def split: prod.splits)

lemma judge_run_rows:
  "judge_run env ex m rs required = Inr rows \<longleftrightarrow>
   list_all2 (\<lambda>c row. \<exists>s. judge_claim env ex m (judged_of rs required) c = Inr s \<and> row = (c, s)) required rows"
proof -
  have "rbind x (\<lambda>s. Inr (c, s)) = Inr row \<longleftrightarrow> (\<exists>s. x = Inr s \<and> row = (c, s))"
    for x :: "py_exn + status" and c :: pystr and row
    by (cases x) auto
  then show ?thesis by (simp only: judge_run_eq traverse_Inr_iff)
qed

lemma citing_judged:
  "set (citing (cited (judged_of rs required)) q) =
   {d \<in> set required. records_of d rs \<noteq> [] \<and> q \<in> set (cited_artifacts (last (records_of d rs)))}"
  by (auto simp: judged_of_def citing_index by_claim_look split: if_splits)

lemma judge_claim_record:
  assumes "judge_claim env ex m (judged_of rs required) c = Inr s" "s \<noteq> DuplicateRecord" "s \<noteq> MissingRecord"
  shows "\<exists>r. records_of c rs = [r] \<and> map_of (by_claim (judged_of rs required)) c = Some r"
proof -
  let ?i = "index_records rs ([], [])"
  obtain r where "c \<notin> set (snd ?i)" "map_of (fst ?i) c = Some r"
    using assms by (cases "map_of (fst ?i) c") (auto simp: judge_claim_def judged_of_def split: if_splits)
  with sole_record [of c rs r] show ?thesis by (auto simp: judged_of_def)
qed

lemma judge_claim_sole:
  assumes "records_of c rs = [r]"
  shows "judge_claim env ex m (judged_of rs required) c =
    rbind (validate_record (Some env) ex (kind_of m c) (evidence_of m c) r) (\<lambda>ds.
      if ds @ shared_artifact_defects c r (cited (judged_of rs required)) \<noteq> []
      then Inr (InvalidRecord (ds @ shared_artifact_defects c r (cited (judged_of rs required))))
      else rbind (assumed_evidence r) (\<lambda>assumed. Inr (outcome r assumed)))"
proof -
  have "c \<notin> set (duplicates (judged_of rs required))" "map_of (by_claim (judged_of rs required)) c = Some r"
    by (simp_all add: judged_of_def duplicates_iff by_claim_look assms)
  then show ?thesis by (simp add: judge_claim_def Let_def)
qed

lemma judge_claim_judged:
  assumes "judge_claim env ex m (judged_of rs required) c = Inr s"
    "s = FailStatus \<or> s = IncompleteStatus \<or> passed s \<or> (\<exists>a. s = UnwaivedAssumption a)"
  shows "\<exists>r assumed. records_of c rs = [r] \<and>
     validate_record (Some env) ex (kind_of m c) (evidence_of m c) r = Inr [] \<and>
     shared_artifact_defects c r (cited (judged_of rs required)) = [] \<and>
     assumed_evidence r = Inr assumed \<and> s = outcome r assumed"
proof -
  obtain r where r: "records_of c rs = [r]"
    using judge_claim_record [OF assms(1)] assms(2) by (auto simp: passed_def)
  have "\<nexists>ds. s = InvalidRecord ds" using assms(2) by (auto simp: passed_def)
  with assms(1) r show ?thesis by (auto simp: judge_claim_sole split: if_splits)
qed

lemma shared_uncontested:
  assumes "shared_artifact_defects c r (cited (judged_of rs required)) = []" "is_schema_v3 r"
    "\<forall>d \<in> set required. \<exists>q. records_of d rs = [q]"
  shows "uncontested rs required c r"
  unfolding uncontested_def
proof (intro ballI impI notI)
  fix path d q
  assume path: "path \<in> set (cited_artifacts r)" and d: "d \<in> set required" "q \<in> set (records_of d rs)" "d \<noteq> c"
    "path \<in> set (cited_artifacts q)"
  then have "records_of d rs = [q]" using assms(3) by fastforce
  then have "d \<in> set (citing (cited (judged_of rs required)) path)" using d by (simp add: citing_judged)
  with assms(1,2) path d(3) show False by (auto simp: shared_artifact_Nil)
qed

lemma judge_passed:
  assumes "judge_claim env ex m (judged_of rs required) c = Inr s" "passed s"
    "\<forall>d \<in> set required. \<exists>q. records_of d rs = [q]"
  shows "verified_claim env ex m rs required c"
proof -
  obtain r assumed where r: "records_of c rs = [r]"
    and v: "validate_record (Some env) ex (kind_of m c) (evidence_of m c) r = Inr []"
    and sh: "shared_artifact_defects c r (cited (judged_of rs required)) = []"
    and a: "assumed_evidence r = Inr assumed" and s: "s = outcome r assumed"
    using judge_claim_judged [OF assms(1)] assms(2) by blast
  have sound: "sound_record env ex (kind_of m c) (evidence_of m c) r" by (rule accepted_sound [OF v])
  moreover have "passing r" using sound_record_result [OF sound] assms(2) s by (auto simp: outcome_passed)
  moreover have "attributable (jsub r ''waiver'') \<or> assumed = []"
    using sound assms(2) s by (auto simp: outcome_passed sound_record_def)
  ultimately show ?thesis
    using r a shared_uncontested [OF sh _ assms(3)] by (auto simp: verified_claim_def)
qed

lemma passed_iff: "passed s \<longleftrightarrow> s \<noteq> FailStatus \<and> \<not> is_incomplete s"
  by (cases s) (auto simp: is_incomplete_def passed_def)

lemma aggregate_Verified:
  "aggregate md bc rows = Verified ps md' ws \<longleftrightarrow> rows \<noteq> [] \<and> (\<forall>(c, s) \<in> set rows. passed s) \<and> md' = md \<and>
     ps = sorted_set (map (\<lambda>(c, _). case map_of bc c of Some r \<Rightarrow> profile_of r | None \<Rightarrow> []) rows) \<and>
     ws = sorted_set (map fst (filter (\<lambda>(_, s). s = PassWaived) rows))"
proof -
  have p: "(\<forall>(c, s) \<in> set rows. passed s) \<longleftrightarrow>
      \<not> list_ex (\<lambda>(_, s). s = FailStatus) rows \<and> \<not> list_ex (\<lambda>(_, s). is_incomplete s) rows"
    unfolding list_ex_iff split_beta passed_iff by blast
  have table: "(if f then Failed else if e \<or> i then Incomplete else Verified a b w) = Verified ps md' ws \<longleftrightarrow>
      \<not> e \<and> (\<not> f \<and> \<not> i) \<and> md' = b \<and> ps = a \<and> ws = w" for f e i a b w by auto
  show ?thesis unfolding aggregate_def p by (rule table)
qed

lemma judge_run_verified:
  assumes "judge_run env ex m rs required = Inr rows" "\<forall>(c, s) \<in> set rows. passed s"
  shows "\<forall>c \<in> set required. verified_claim env ex m rs required c"
proof -
  have rows: "\<exists>s. judge_claim env ex m (judged_of rs required) c = Inr s \<and> passed s" if c: "c \<in> set required" for c
  proof -
    obtain i where "i < length required" "required ! i = c" using c by (auto simp: in_set_conv_nth)
    with assms show ?thesis
      by (fastforce simp: judge_run_rows list_all2_conv_all_nth all_set_conv_all_nth split: prod.splits)
  qed
  have "\<forall>d \<in> set required. \<exists>q. records_of d rs = [q]"
    using rows judge_claim_judged by blast
  with rows judge_passed show ?thesis by blast
qed

subsection \<open>The verdict of a run\<close>

definition is_verified :: "verdict \<Rightarrow> bool" where
  "is_verified v \<longleftrightarrow> (case v of Verified _ _ _ \<Rightarrow> True | _ \<Rightarrow> False)"

lemma is_verified_iff: "is_verified v \<longleftrightarrow> (\<exists>ps md ws. v = Verified ps md ws)"
  by (cases v) (auto simp: is_verified_def)

lemma aggregate_Failed: "aggregate md bc rows = Failed \<longleftrightarrow> (\<exists>row \<in> set rows. snd row = FailStatus)"
  by (auto simp: aggregate_def list_ex_iff split_beta)

interpretation gate: g2_table "aggregate md bc" "\<lambda>row. snd row = FailStatus" "\<lambda>row. is_incomplete (snd row)"
  "\<lambda>v. v = Failed" is_verified for md bc
proof
  fix rows
  show "aggregate md bc rows = Failed \<longleftrightarrow> (\<exists>row \<in> set rows. snd row = FailStatus)" by (rule aggregate_Failed)
  have v: "is_verified (aggregate md bc rows) \<longleftrightarrow>
      rows \<noteq> [] \<and> (\<forall>row \<in> set rows. snd row \<noteq> FailStatus \<and> \<not> is_incomplete (snd row))" for rows
    by (auto simp: is_verified_iff aggregate_Verified passed_iff split_beta)
  show "rows \<noteq> [] \<Longrightarrow> is_verified (aggregate md bc rows) \<longleftrightarrow>
      (\<forall>row \<in> set rows. snd row \<noteq> FailStatus \<and> \<not> is_incomplete (snd row))"
    unfolding v by blast
  show "\<not> is_verified (aggregate md bc [])" unfolding v by blast
qed

lemma gate_main_report:
  "gate_main env args ins = Inr (Inr rep) \<longleftrightarrow> (\<exists>p rows. prepare args ins = Inr p \<and>
     judge_run env (run_expect p) (run_manifest p) (run_records p) (run_required p) = Inr rows \<and>
     rep = \<lparr>required_claims = run_required p, expansion = run_expansion p, binding = binding_of args,
            per_claim = rows, verdict_of = aggregate (binding_of args)
              (fst (index_records (run_records p) ([], []))) rows\<rparr>)"
  by (cases "prepare args ins") (auto simp: gate_main_def)

lemma prepare_Inr:
  assumes "prepare args ins = Inr p"
  shows "\<exists>docs h. documents ins = Some docs \<and> read_manifest ins = Inr (h, run_manifest p) \<and>
     select_required (require args) (run_manifest p) = Inr (run_required p, run_expansion p) \<and>
     bind_inputs args ins h (map_option manifest_required (run_manifest p)) = Inr (run_expect p) \<and>
     run_records p = load_records docs"
proof -
  obtain docs where d: "documents ins = Some docs" using assms by (cases "documents ins") (auto simp: prepare_def)
  obtain h m where m: "read_manifest ins = Inr (h, m)"
    using assms d by (cases "read_manifest ins") (auto simp: prepare_def)
  obtain required ex where r: "select_required (require args) m = Inr (required, ex)"
    using assms d m by (cases "select_required (require args) m") (auto simp: prepare_def)
  obtain expect where e: "bind_inputs args ins h (map_option manifest_required m) = Inr expect"
    using assms d m r by (cases "bind_inputs args ins h (map_option manifest_required m)") (auto simp: prepare_def)
  from assms d m r e show ?thesis by (auto simp: prepare_def)
qed

lemma read_manifest_ok: "read_manifest ins = Inr (h, Some m) \<Longrightarrow> manifest_ok m"
  by (auto simp: read_manifest_def load_manifest_ok split: option.splits sum.splits)

text \<open>Binding: without the escape hatch, what is not pinned is recomputed, and exactly.\<close>

definition bound_afresh :: "gate_args \<Rightarrow> inputs \<Rightarrow> expectations \<Rightarrow> bool" where
  "bound_afresh args ins ex \<longleftrightarrow>
     (if allow_unbound args then expect_snapshot ex = pin_snapshot args \<and> expect_intent ex = pin_intent args
      else (case pin_snapshot args of Some s \<Rightarrow> expect_snapshot ex = Some s
         | None \<Rightarrow> \<exists>s. current_snapshot ins = Inr s \<and> expect_snapshot ex = Some s \<and> snapshot_exact ex) \<and>
       (case pin_intent args of Some i \<Rightarrow> expect_intent ex = Some i
         | None \<Rightarrow> \<exists>path i. current_intent ins = Inr (path, i) \<and> expect_intent ex = Some i \<and>
             expect_intent_path ex = Some path))"

lemma bind_inputs_Inr:
  assumes "bind_inputs args ins h targets = Inr ex"
  shows "bound_afresh args ins ex" "expect_required_targets ex = targets"
    "expect_manifest ex = (case pin_manifest args of Some k \<Rightarrow> Some k | None \<Rightarrow> h)"
  using assms unfolding bind_inputs_def bound_afresh_def Let_def
  by (auto split: if_splits option.splits sum.splits prod.splits)

subsection \<open>The set of claims a run judges\<close>

lemma expand_dependencies_set:
  "expand_dependencies mv cs required ex = (all, ex') \<Longrightarrow>
   set all = set required \<union> {d. \<exists>c \<in> set cs. map_of (kinds mv) c = Some SystemClaim \<and> d \<in> set (dependencies mv c)}"
proof (induction mv cs required ex rule: expand_dependencies.induct)
  case (2 mv c cs required ex)
  let ?added = "filter (\<lambda>d. d \<notin> set required) (dependencies mv c)"
  have added: "filter (\<lambda>d. d \<notin> set required) (case map_of (claim_depends mv) c of None \<Rightarrow> [] | Some ds \<Rightarrow> ds) = ?added"
    by (simp add: dependencies_def)
  show ?case
  proof (cases "map_of (kinds mv) c = Some SystemClaim")
    case False
    with 2 show ?thesis by auto
  next
    case claim: True
    show ?thesis
    proof (cases "?added = []")
      case True
      then have "set (dependencies mv c) \<subseteq> set required" by (auto simp: filter_empty_conv)
      with 2 claim added True show ?thesis by (auto simp: Let_def)
    next
      case False
      then have "expand_dependencies mv cs (required @ ?added) (dset ex c ?added) = (all, ex')"
        using "2.prems" claim added by (simp add: Let_def)
      with "2.IH"(3) claim added False show ?thesis by (auto simp: Let_def)
    qed
  qed
qed simp

lemma sorted_set_empty [simp]: "sorted_set [] = []"
  by (simp add: sorted_set_def)

text \<open>The claims a run judges: those named, or all of the manifest, closed under dependencies.\<close>

lemma select_named:
  assumes "select_required (Some s) (Some mv) = Inr (required, xp)"
  shows "named_claims s \<noteq> []" "set (named_claims s) \<subseteq> fst ` set (kinds mv)"
    "\<exists>xs. required = sorted_set xs"
    "set required = set (named_claims s) \<union>
       {d. \<exists>c \<in> set (named_claims s). map_of (kinds mv) c = Some SystemClaim \<and> d \<in> set (dependencies mv c)}"
proof -
  show ne: "named_claims s \<noteq> []" using assms by (auto simp: select_required_def split: if_splits)
  obtain all ex where all: "expand_dependencies mv (named_claims s) (named_claims s) [] = (all, ex)" by force
  have unk: "sorted_set (filter (\<lambda>c. c \<notin> fst ` set (kinds mv)) (named_claims s)) = []"
    using assms ne by (auto simp: select_required_def Let_def split: if_splits)
  then show "set (named_claims s) \<subseteq> fst ` set (kinds mv)" by (auto simp: filter_empty_conv)
  have r: "required = sorted_set all"
    using assms ne unk all by (simp add: select_required_def)
  then show "\<exists>xs. required = sorted_set xs" by blast
  show "set required = set (named_claims s) \<union>
       {d. \<exists>c \<in> set (named_claims s). map_of (kinds mv) c = Some SystemClaim \<and> d \<in> set (dependencies mv c)}"
    using r expand_dependencies_set [OF all] by simp
qed

lemma select_unlisted:
  "select_required (Some s) None = Inr (required, xp) \<Longrightarrow>
   named_claims s \<noteq> [] \<and> required = sorted_set (named_claims s)"
  by (auto simp: select_required_def split: if_splits)

lemma select_required_all:
  assumes "select_required None m = Inr (required, xp)"
  shows "\<exists>mv. m = Some mv \<and> required = sorted_set (manifest_required mv)"
  using assms by (cases m) (auto simp: select_required_def Let_def split: if_splits)

lemma required_closed:
  assumes "select_required req (Some mv) = Inr (required, xp)" "manifest_ok mv"
    "c \<in> set required" "map_of (kinds mv) c = Some SystemClaim" "d \<in> set (dependencies mv c)"
  shows "d \<in> set required"
proof (cases req)
  case None
  have "d \<in> fst ` set (kinds mv)"
    using dependency_kind [OF assms(2,5)] by (metis map_of_eq_None_iff option.distinct(1))
  also have "\<dots> = set (manifest_required mv)" using assms(2) by (metis manifest_ok_def set_map)
  finally show ?thesis using select_required_all assms(1) None by fastforce
next
  case (Some s)
  note sel = select_named(4) [OF assms(1) [unfolded Some]]
  have "c \<in> set (named_claims s)"
    using sel assms(3,4) dependency_kind [OF assms(2)] by fastforce
  with sel assms(4,5) show ?thesis by auto
qed

lemma required_declared:
  assumes "select_required req (Some mv) = Inr (required, xp)" "manifest_ok mv"
  shows "set required \<subseteq> set (manifest_required mv)"
proof -
  have keys: "fst ` set (kinds mv) = set (manifest_required mv)" using assms(2) by (metis manifest_ok_def set_map)
  show ?thesis
  proof (cases req)
    case None
    then show ?thesis using select_required_all assms(1) by fastforce
  next
    case (Some s)
    have "d \<in> fst ` set (kinds mv)" if "d \<in> set (dependencies mv c)" for c d
      using dependency_kind [OF assms(2) that] by (metis map_of_eq_None_iff option.distinct(1))
    then show ?thesis
      using select_named(2,4) [OF assms(1) [unfolded Some]] keys by auto
  qed
qed

lemma select_required_sorted: "select_required req m = Inr (required, xp) \<Longrightarrow> sorted required \<and> distinct required"
  using select_named(3) select_unlisted select_required_all
  by (cases req; cases m) (fastforce simp del: sorted_set_empty)+

subsection \<open>Fewer claims, fewer conflicts\<close>

lemma judge_claim_subset:
  assumes "judge_claim env ex m (judged_of rs required) c = Inr s" "passed s" "set required' \<subseteq> set required"
  shows "judge_claim env ex m (judged_of rs required') c = Inr s"
proof -
  obtain r assumed where r: "records_of c rs = [r]"
    and v: "validate_record (Some env) ex (kind_of m c) (evidence_of m c) r = Inr []"
    and sh: "shared_artifact_defects c r (cited (judged_of rs required)) = []"
    and a: "assumed_evidence r = Inr assumed" "s = outcome r assumed"
    using judge_claim_judged [OF assms(1)] assms(2) by blast
  have "set (citing (cited (judged_of rs required')) q) \<subseteq> set (citing (cited (judged_of rs required)) q)" for q
    using assms(3) by (auto simp: citing_judged)
  then have "shared_artifact_defects c r (cited (judged_of rs required')) = []"
    using sh unfolding shared_artifact_Nil by blast
  with r v a show ?thesis by (simp add: judge_claim_sole)
qed

lemma judge_run_subset:
  assumes "judge_run env ex m rs required = Inr rows" "\<forall>(c, s) \<in> set rows. passed s"
    "set required' \<subseteq> set required"
  shows "\<exists>rows'. judge_run env ex m rs required' = Inr rows' \<and> (\<forall>(c, s) \<in> set rows'. passed s) \<and>
    set rows' \<subseteq> set rows \<and> length rows' = length required'"
proof -
  have row: "\<exists>s. judge_claim env ex m (judged_of rs required) c = Inr s \<and> (c, s) \<in> set rows" if "c \<in> set required" for c
    using assms(1) that by (fastforce simp: judge_run_rows list_all2_conv_all_nth in_set_conv_nth)
  define st where "st = (\<lambda>c. SOME s. judge_claim env ex m (judged_of rs required) c = Inr s \<and> (c, s) \<in> set rows)"
  have st: "judge_claim env ex m (judged_of rs required) c = Inr (st c) \<and> (c, st c) \<in> set rows"
    if "c \<in> set required" for c
    unfolding st_def by (rule someI_ex [OF row [OF that]])
  have st': "judge_claim env ex m (judged_of rs required') c = Inr (st c)" if "c \<in> set required'" for c
    using that st [of c] assms(2,3) by (intro judge_claim_subset [OF _ _ assms(3)]) auto
  have "judge_run env ex m rs required' = Inr (map (\<lambda>c. (c, st c)) required')"
    unfolding judge_run_rows using st' by (simp add: list_all2_conv_all_nth)
  moreover have "set (map (\<lambda>c. (c, st c)) required') \<subseteq> set rows" using st assms(3) by auto
  ultimately show ?thesis using assms(2) by (intro exI [of _ "map (\<lambda>c. (c, st c)) required'"]) auto
qed

subsection \<open>Order of the records\<close>

lemma judge_run_perm:
  assumes "mset rs = mset rs'" "\<forall>c. length (records_of c rs) \<le> 1"
  shows "judge_run env ex m rs required = judge_run env ex m rs' required"
    "aggregate md (fst (index_records rs ([], []))) rows = aggregate md (fst (index_records rs' ([], []))) rows"
proof -
  have same: "records_of c rs = records_of c rs'" for c
  proof -
    have m: "mset (records_of c rs) = mset (records_of c rs')"
      unfolding records_of_def mset_filter assms(1) ..
    have "length (records_of c rs) \<le> 1" using assms(2) by blast
    then consider "records_of c rs = []" | r where "records_of c rs = [r]"
      by (cases "records_of c rs") auto
    then show ?thesis using m by cases (simp_all add: mset_single_iff_right)
  qed
  then have look: "map_of (fst (index_records rs ([], []))) = map_of (fst (index_records rs' ([], [])))"
    by (auto simp: by_claim_look)
  have dup: "c \<in> set (snd (index_records rs ([], []))) \<longleftrightarrow> c \<in> set (snd (index_records rs' ([], [])))" for c
    by (simp add: duplicates_iff same)
  have "judge_claim env ex m (judged_of rs required) c = judge_claim env ex m (judged_of rs' required) c" for c
    unfolding judge_claim_def judged_of_def judged.simps cited_artifact_index_def look dup ..
  then show "judge_run env ex m rs required = judge_run env ex m rs' required"
    by (simp add: judge_run_eq)
  show "aggregate md (fst (index_records rs ([], []))) rows = aggregate md (fst (index_records rs' ([], []))) rows"
    unfolding aggregate_def look ..
qed

subsection \<open>Reading the token back\<close>

lemma profile_id_chars: "profile_id p \<Longrightarrow> c \<in> set p \<Longrightarrow> c \<noteq> 59 \<and> c \<noteq> 93"
  by (cases p) (auto simp: profile_id_def id_match_def ascii_alnum_def list_all_iff str_def)

lemma join_chars: "c \<in> set (join sep ws) \<Longrightarrow> c \<in> set sep \<or> (\<exists>w \<in> set ws. c \<in> set w)"
  by (induction sep ws rule: join.induct) auto

lemma dropWhile_prefix: "\<forall>c \<in> set xs. P c \<Longrightarrow> ys \<noteq> [] \<Longrightarrow> \<not> P (hd ys) \<Longrightarrow> dropWhile P (xs @ ys) = ys"
  by (induction xs) (auto simp: neq_Nil_conv)

lemma mode_text_tail:
  "mode_text md @ str '']'' @ r = mode_text md' @ str '']'' @ r' \<Longrightarrow> md = md'"
  by (cases md; cases md') (auto simp: mode_text_def str_def)

lemma verdict_text_mode:
  assumes "list_all profile_id ps" "list_all profile_id ps'"
    "verdict_text (Verified ps md ws) = verdict_text (Verified ps' md' ws')"
  shows "md = md'"
proof -
  let ?P = "\<lambda>c. c \<noteq> 59 \<and> c \<noteq> (93::codepoint)"
  have clean: "list_all profile_id qs \<Longrightarrow> \<forall>c \<in> set (join (str ''/'') qs). ?P c" for qs
    using join_chars [of _ "str ''/''" qs] profile_id_chars by (fastforce simp: list_all_iff str_def)
  have tail: "mode_text d @ str '']'' @ r \<noteq> []" "\<not> ?P (hd (mode_text d @ str '']'' @ r))" for d r
    by (cases d; simp add: mode_text_def str_def)+
  define r where "r = (if ws = [] then [] else str '' (waived: '' @ join (str '','') ws @ str '')'')"
  define r' where "r' = (if ws' = [] then [] else str '' (waived: '' @ join (str '','') ws' @ str '')'')"
  have "join (str ''/'') ps @ mode_text md @ str '']'' @ r = join (str ''/'') ps' @ mode_text md' @ str '']'' @ r'"
    using assms(3) by (simp add: verdict_text_def r_def r'_def)
  then have "dropWhile ?P (join (str ''/'') ps @ mode_text md @ str '']'' @ r) =
      dropWhile ?P (join (str ''/'') ps' @ mode_text md' @ str '']'' @ r')" by simp
  then show ?thesis
    unfolding dropWhile_prefix [OF clean [OF assms(1)] tail] dropWhile_prefix [OF clean [OF assms(2)] tail]
    by (rule mode_text_tail)
qed

lemma verified_run:
  assumes "gate_main env args ins = Inr (Inr rep)" "verdict_of rep = Verified ps md ws"
  shows "\<exists>p. prepare args ins = Inr p \<and> required_claims rep = run_required p \<and> run_required p \<noteq> [] \<and>
    md = binding_of args \<and> bound_afresh args ins (run_expect p) \<and>
    (\<forall>c \<in> set (run_required p).
       verified_claim env (run_expect p) (run_manifest p) (run_records p) (run_required p) c)"
    "list_all profile_id ps"
proof -
  obtain p rows where p: "prepare args ins = Inr p"
    and run: "judge_run env (run_expect p) (run_manifest p) (run_records p) (run_required p) = Inr rows"
    and rep: "required_claims rep = run_required p" "per_claim rep = rows"
      "verdict_of rep = aggregate (binding_of args) (fst (index_records (run_records p) ([], []))) rows"
    using assms(1) by (auto simp: gate_main_report)
  have agg: "rows \<noteq> []" "\<forall>(c, s) \<in> set rows. passed s" "md = binding_of args"
    "ps = sorted_set (map (\<lambda>(c, _). case map_of (fst (index_records (run_records p) ([], []))) c of
        Some r \<Rightarrow> profile_of r | None \<Rightarrow> []) rows)"
    using assms(2) rep(3) by (simp_all add: aggregate_Verified)
  have len: "length rows = length (run_required p)" using run by (auto simp: judge_run_rows dest: list_all2_lengthD)
  have ver: "\<forall>c \<in> set (run_required p).
       verified_claim env (run_expect p) (run_manifest p) (run_records p) (run_required p) c"
    by (rule judge_run_verified [OF run agg(2)])
  have "bound_afresh args ins (run_expect p)" using prepare_Inr [OF p] bind_inputs_Inr(1) by blast
  with p rep agg len ver show "\<exists>p. prepare args ins = Inr p \<and> required_claims rep = run_required p \<and> run_required p \<noteq> [] \<and>
    md = binding_of args \<and> bound_afresh args ins (run_expect p) \<and>
    (\<forall>c \<in> set (run_required p).
       verified_claim env (run_expect p) (run_manifest p) (run_records p) (run_required p) c)"
    by fastforce
  have "profile_id (case map_of (fst (index_records (run_records p) ([], []))) c of
        Some r \<Rightarrow> profile_of r | None \<Rightarrow> [])" if "(c, s) \<in> set rows" for c s
  proof -
    have "c \<in> set (run_required p)"
      using run that by (fastforce simp: judge_run_rows list_all2_conv_all_nth in_set_conv_nth)
    with ver obtain r where "records_of c (run_records p) = [r]"
      "sound_record env (run_expect p) (kind_of (run_manifest p) c) (evidence_of (run_manifest p) c) r"
      by (auto simp: verified_claim_def)
    then show ?thesis by (auto simp: by_claim_look sound_record_def profile_of_def bindings_of_def)
  qed
  then show "list_all profile_id ps" by (auto simp: agg(4) list_all_iff)
qed

subsection \<open>A sample run\<close>

definition sample_manifest :: json where
  "sample_manifest = obj [(''invariants'', JArr [obj [(''id'', jtext ''INV-1'')]]),
     (''system_claims'', JArr [obj [(''id'', jtext ''SC-1''), (''depends_on'', JArr [jtext ''INV-1'']),
        (''required_evidence'', JArr [jtext ''kani'', jtext ''verus''])]])]"

definition sample_inputs :: "string list \<Rightarrow> inputs" where
  "sample_inputs claims = \<lparr>documents = Some (map (\<lambda>c. sample_record c [''INV-1'', ''SC-1'']) claims),
     manifest_file = Some (Some (str ''manifest'', sample_manifest)),
     current_snapshot = Inr (str ''snap''), current_intent = Inr (str ''.fv/intent.md'', str ''intent'')\<rparr>"

definition sample_args :: "string option \<Rightarrow> gate_args" where
  "sample_args req = \<lparr>require = map_option str req, pin_snapshot = None, pin_intent = None,
     pin_manifest = None, exact = False, allow_unbound = False\<rparr>"

definition sample_report :: "string list \<Rightarrow> (pystr, pystr list) dict \<Rightarrow> report" where
  "sample_report claims xp = \<lparr>required_claims = map str claims, expansion = xp, binding = Recomputed,
     per_claim = map (\<lambda>c. (str c, PassStatus)) claims,
     verdict_of = Verified [producer_profile] Recomputed []\<rparr>"

lemma sample_run:
  "gate_main sample_env (sample_args None) (sample_inputs [''INV-1'', ''SC-1'']) =
   Inr (Inr (sample_report [''INV-1'', ''SC-1''] []))"
  by code_simp

lemma bind_inputs_require [simp]: "bind_inputs (args\<lparr>require := x\<rparr>) ins h t = bind_inputs args ins h t"
  by (simp add: bind_inputs_def cong: if_cong option.case_cong)

lemma bind_inputs_documents [simp]: "bind_inputs args (ins\<lparr>documents := x\<rparr>) h t = bind_inputs args ins h t"
  by (simp add: bind_inputs_def cong: if_cong option.case_cong)

lemma read_manifest_documents [simp]: "read_manifest (ins\<lparr>documents := x\<rparr>) = read_manifest ins"
  by (simp add: read_manifest_def)

definition sample_view :: manifest_view where
  "sample_view = \<lparr>manifest_required = map str [''INV-1'', ''SC-1''],
     kinds = [(str ''INV-1'', Invariant), (str ''SC-1'', SystemClaim)],
     claim_evidence = [(str ''SC-1'', map str [''kani'', ''verus''])],
     claim_depends = [(str ''SC-1'', [str ''INV-1''])]\<rparr>"

definition sample_prepared :: prepared where
  "sample_prepared = \<lparr>run_records = [], run_manifest = Some sample_view,
     run_required = map str [''INV-1'', ''SC-1''], run_expansion = [(str ''SC-1'', [str ''INV-1''])],
     run_expect = sample_expectations [''INV-1'', ''SC-1'']\<rparr>"

lemma sample_manifest_loads: "load_manifest sample_manifest = Inr sample_view"
  by code_simp

lemma sample_prepare: "prepare (sample_args (Some ''SC-1'')) (sample_inputs []) = Inr sample_prepared"
  by code_simp

subsection \<open>Properties of the gate\<close>

text \<open>C1. VERIFIED is earned. When the gate reports it, the run judged at least one claim; the
  snapshot and the intent compared against were recomputed for this run unless the operator
  pinned them or allowed an unbound run, and the verdict says which; and every claim judged has
  exactly one record, which is sound (its artifacts exist with the recorded digests and certify
  the PASS, beneath executions with distinct tools), passes, rests on an assumed class only under
  a waiver that names who granted it, and, for a cohort record, cites no artifact another judged
  claim cites.\<close>

theorem verified_is_earned:
  assumes "gate_main env args ins = Inr (Inr rep)" "verdict_of rep = Verified ps md ws"
  shows "\<exists>p. prepare args ins = Inr p \<and> required_claims rep = run_required p \<and> run_required p \<noteq> [] \<and>
    md = binding_of args \<and> bound_afresh args ins (run_expect p) \<and>
    (\<forall>c \<in> set (run_required p).
       verified_claim env (run_expect p) (run_manifest p) (run_records p) (run_required p) c)"
  by (rule verified_run(1) [OF assms])

theorem verified_is_earned_witness:
  "\<exists>p. prepare (sample_args None) (sample_inputs [''INV-1'', ''SC-1'']) = Inr p \<and>
    map str [''INV-1'', ''SC-1''] = run_required p \<and> run_required p \<noteq> [] \<and>
    Recomputed = binding_of (sample_args None) \<and>
    bound_afresh (sample_args None) (sample_inputs [''INV-1'', ''SC-1'']) (run_expect p) \<and>
    (\<forall>c \<in> set (run_required p).
       verified_claim sample_env (run_expect p) (run_manifest p) (run_records p) (run_required p) c)"
  using verified_is_earned [OF sample_run, of "[producer_profile]" Recomputed "[]"]
  by (simp add: sample_report_def)

text \<open>C37. The exit status of the gate. A run that is judged exits with 1 exactly when a required
  claim has a valid failing record, with 0 exactly when there is a claim and all of them pass, and
  with 3 otherwise; unusable inputs exit with 2; and an uncaught exception exits with 1 as well.\<close>

theorem gate_exit_status:
  "gate_exit r = (case r of
     Inl _ \<Rightarrow> 1
   | Inr (Inl _) \<Rightarrow> 2
   | Inr (Inr rep) \<Rightarrow> if verdict_of rep = Failed then 1 else if is_verified (verdict_of rep) then 0 else 3) \<and>
   (gate_main env args ins = Inr (Inr rep') \<longrightarrow>
     (verdict_of rep' = Failed \<longleftrightarrow> (\<exists>row \<in> set (per_claim rep'). snd row = FailStatus)) \<and>
     (is_verified (verdict_of rep') \<longleftrightarrow> per_claim rep' \<noteq> [] \<and>
        (\<forall>row \<in> set (per_claim rep'). snd row = PassStatus \<or> snd row = PassWaived)) \<and>
     map fst (per_claim rep') = required_claims rep')"
proof -
  have exit: "exit_code v = (if v = Failed then 1 else if is_verified v then 0 else 3)" for v
    by (cases v) (auto simp: is_verified_def)
  have rows: "map fst rows = required" if "judge_run env ex m rs required = Inr rows" for ex m rs required rows
    using that by (auto simp: judge_run_rows list_all2_conv_all_nth intro!: nth_equalityI)
  have "(verdict_of rep' = Failed \<longleftrightarrow> (\<exists>row \<in> set (per_claim rep'). snd row = FailStatus)) \<and>
     (is_verified (verdict_of rep') \<longleftrightarrow> per_claim rep' \<noteq> [] \<and>
        (\<forall>row \<in> set (per_claim rep'). snd row = PassStatus \<or> snd row = PassWaived)) \<and>
     map fst (per_claim rep') = required_claims rep'" if g: "gate_main env args ins = Inr (Inr rep')"
  proof -
    obtain p :: prepared and rs where rs: "judge_run env (run_expect p) (run_manifest p) (run_records p) (run_required p) = Inr rs"
      and rep: "rep' = \<lparr>required_claims = run_required p, expansion = run_expansion p, binding = binding_of args,
            per_claim = rs, verdict_of = aggregate (binding_of args)
              (fst (index_records (run_records p) ([], []))) rs\<rparr>"
      using g [unfolded gate_main_report] by blast
    have pass: "s \<noteq> FailStatus \<and> \<not> is_incomplete s \<longleftrightarrow> s = PassStatus \<or> s = PassWaived" for s
      using passed_iff [of s] passed_def [of s] by simp
    show ?thesis
      unfolding rep report.simps gate.failed_iff gate.verified_iff pass using rows [OF rs] by simp
  qed
  then show ?thesis by (auto simp: gate_exit_def exit split: sum.splits)
qed

theorem gate_exit_status_witness:
  "is_verified (verdict_of (sample_report [''INV-1'', ''SC-1''] [])) \<longleftrightarrow>
     per_claim (sample_report [''INV-1'', ''SC-1''] []) \<noteq> [] \<and>
     (\<forall>row \<in> set (per_claim (sample_report [''INV-1'', ''SC-1''] [])).
        snd row = PassStatus \<or> snd row = PassWaived)"
  using gate_exit_status [of "Inl TypeError" sample_env "sample_args None"
      "sample_inputs [''INV-1'', ''SC-1'']" "sample_report [''INV-1'', ''SC-1''] []"] sample_run
  by blast

text \<open>C22. Narrowing a run never costs it its verdict. When the whole manifest is VERIFIED, so is the
  run that names any of its claims, under the same inputs and the same freshness discipline.\<close>

theorem narrowing_keeps_verified:
  assumes "gate_main env (args\<lparr>require := None\<rparr>) ins = Inr (Inr rep)" "is_verified (verdict_of rep)"
    "named_claims s \<noteq> []" "set (named_claims s) \<subseteq> set (required_claims rep)"
  shows "\<exists>rep'. gate_main env (args\<lparr>require := Some s\<rparr>) ins = Inr (Inr rep') \<and>
    is_verified (verdict_of rep') \<and> set (per_claim rep') \<subseteq> set (per_claim rep)"
proof -
  obtain p rows where p: "prepare (args\<lparr>require := None\<rparr>) ins = Inr p"
    and run: "judge_run env (run_expect p) (run_manifest p) (run_records p) (run_required p) = Inr rows"
    and rep: "required_claims rep = run_required p" "per_claim rep = rows"
      "verdict_of rep = aggregate (binding_of args) (fst (index_records (run_records p) ([], []))) rows"
    using assms(1) by (auto simp: gate_main_report binding_of_def)
  have pass: "\<forall>(c, s) \<in> set rows. passed s"
    using assms(2) rep(3) by (auto simp: is_verified_iff aggregate_Verified)
  obtain docs h where pre: "documents ins = Some docs" "read_manifest ins = Inr (h, run_manifest p)"
    "select_required None (run_manifest p) = Inr (run_required p, run_expansion p)"
    "bind_inputs args ins h (map_option manifest_required (run_manifest p)) = Inr (run_expect p)"
    "run_records p = load_records docs"
    using prepare_Inr [OF p] by auto
  obtain mv where mv: "run_manifest p = Some mv" "run_required p = sorted_set (manifest_required mv)"
    using select_required_all [OF pre(3)] by blast
  have ok: "manifest_ok mv" using read_manifest_ok pre(2) mv(1) by simp
  have keys: "fst ` set (kinds mv) = set (manifest_required mv)" using ok by (metis manifest_ok_def set_map)
  obtain all xp where x: "expand_dependencies mv (named_claims s) (named_claims s) [] = (all, xp)" by force
  have sub: "set (named_claims s) \<subseteq> set (manifest_required mv)" using assms(4) rep(1) mv(2) by simp
  have unk: "sorted_set (filter (\<lambda>c. c \<notin> fst ` set (kinds mv)) (named_claims s)) = []"
    using sub keys by (auto simp: filter_empty_conv)
  have sel: "select_required (Some s) (run_manifest p) = Inr (sorted_set all, xp)"
    using assms(3) unk x by (simp add: select_required_def mv(1))
  then have inc: "set (sorted_set all) \<subseteq> set (run_required p)"
    using required_declared [of "Some s" mv] ok mv by fastforce
  let ?p = "p\<lparr>run_required := sorted_set all, run_expansion := xp\<rparr>"
  have p': "prepare (args\<lparr>require := Some s\<rparr>) ins = Inr ?p"
    using pre sel by (simp add: prepare_def)
  obtain rows' where rows': "judge_run env (run_expect p) (run_manifest p) (run_records p) (sorted_set all) = Inr rows'"
    "\<forall>(c, s) \<in> set rows'. passed s" "set rows' \<subseteq> set rows" "length rows' = length (sorted_set all)"
    using judge_run_subset [OF run pass inc] by blast
  have "sorted_set all \<noteq> []"
    using assms(3) expand_dependencies_set [OF x] by (cases all) auto
  then have "rows' \<noteq> []" using rows'(4) by auto
  then have "is_verified (aggregate (binding_of args) (fst (index_records (run_records p) ([], []))) rows')"
    using rows'(2) by (auto simp: is_verified_iff aggregate_Verified)
  with p' rows' rep(2) show ?thesis by (auto simp: gate_main_report binding_of_def)
qed

theorem narrowing_keeps_verified_witness:
  "\<exists>rep'. gate_main sample_env ((sample_args None)\<lparr>require := Some (str '' SC-1 ,'')\<rparr>)
       (sample_inputs [''INV-1'', ''SC-1'']) = Inr (Inr rep') \<and> is_verified (verdict_of rep') \<and>
     set (per_claim rep') \<subseteq> set (per_claim (sample_report [''INV-1'', ''SC-1''] []))"
proof (rule narrowing_keeps_verified)
  show "gate_main sample_env ((sample_args None)\<lparr>require := None\<rparr>) (sample_inputs [''INV-1'', ''SC-1'']) =
      Inr (Inr (sample_report [''INV-1'', ''SC-1''] []))"
    using sample_run by (simp add: sample_args_def)
  show "is_verified (verdict_of (sample_report [''INV-1'', ''SC-1''] []))" by code_simp
  show "named_claims (str '' SC-1 ,'') \<noteq> []" by code_simp
  show "set (named_claims (str '' SC-1 ,'')) \<subseteq> set (required_claims (sample_report [''INV-1'', ''SC-1''] []))"
    by code_simp
qed

text \<open>C19. A composition is judged with its parts. In any run under a manifest, whether it names the
  claims or takes them all, the claims judged are declared and distinct, every claim named is
  among them, and every dependency of a judged system claim is judged too.\<close>

theorem judged_set_closed:
  assumes "prepare args ins = Inr p" "run_manifest p = Some mv"
  shows "set (run_required p) \<subseteq> set (manifest_required mv) \<and> distinct (run_required p) \<and>
    (case require args of Some s \<Rightarrow> set (named_claims s) | None \<Rightarrow> set (manifest_required mv)) \<subseteq> set (run_required p) \<and>
    (\<forall>c \<in> set (run_required p). map_of (kinds mv) c = Some SystemClaim \<longrightarrow>
       set (dependencies mv c) \<subseteq> set (run_required p))"
proof -
  obtain h where pre: "read_manifest ins = Inr (h, Some mv)"
    "select_required (require args) (Some mv) = Inr (run_required p, run_expansion p)"
    using prepare_Inr [OF assms(1)] assms(2) by auto
  have ok: "manifest_ok mv" by (rule read_manifest_ok [OF pre(1)])
  have "(case require args of Some s \<Rightarrow> set (named_claims s) | None \<Rightarrow> set (manifest_required mv)) \<subseteq> set (run_required p)"
    using pre(2) select_named(4) select_required_all by (cases "require args") fastforce+
  then show ?thesis
    using required_declared [OF pre(2) ok] required_closed [OF pre(2) ok] select_required_sorted [OF pre(2)]
    by blast
qed

theorem judged_set_closed_witness:
  "distinct (run_required sample_prepared) \<and> set (named_claims (str ''SC-1'')) \<subseteq> set (run_required sample_prepared) \<and>
   set (dependencies sample_view (str ''SC-1'')) \<subseteq> set (run_required sample_prepared)"
proof -
  note closed = judged_set_closed [OF sample_prepare, of sample_view]
  have "run_manifest sample_prepared = Some sample_view" "map_of (kinds sample_view) (str ''SC-1'') = Some SystemClaim"
    "str ''SC-1'' \<in> set (run_required sample_prepared)"
    by (simp_all add: sample_prepared_def sample_view_def)
  with closed show ?thesis by (simp add: sample_args_def)
qed

text \<open>C34. What a loaded manifest guarantees: the required claims are the declared ids, each once and
  each usable by the evidence producer; the system claims, and only they, have dependencies and
  required tools, nonempty and without repetition; and the dependency relation has no cycle,
  though nothing searches for one.\<close>

theorem manifest_well_formed:
  assumes "load_manifest v = Inr m"
  shows "manifest_ok m \<and> acyclic {(c, d). d \<in> set (dependencies m c)}"
  using load_manifest_ok [OF assms] dependencies_acyclic by blast

theorem manifest_well_formed_witness: "manifest_ok sample_view"
  using manifest_well_formed [OF sample_manifest_loads] by blast

text \<open>C36. The order of the records does not matter. When no two records name one claim, any
  reordering of them, within a file or by renaming the files of a directory, gives the same
  report.\<close>

theorem record_order_irrelevant:
  assumes "mset (load_records docs) = mset (load_records docs')"
    "\<forall>c. length (records_of c (load_records docs)) \<le> 1"
  shows "gate_main env args (ins\<lparr>documents := Some docs\<rparr>) = gate_main env args (ins\<lparr>documents := Some docs'\<rparr>)"
proof (cases "read_manifest ins")
  case (Inr hm)
  obtain h m where hm: "hm = (h, m)" by force
  show ?thesis
  proof (cases "select_required (require args) m")
    case sel: (Inr rx)
    obtain required xp where rx: "rx = (required, xp)" by force
    show ?thesis
    proof (cases "bind_inputs args ins h (map_option manifest_required m)")
      case bi: (Inr ex)
      show ?thesis
        using judge_run_perm [OF assms] by (simp add: gate_main_def prepare_def Inr hm sel rx bi)
    qed (simp add: gate_main_def prepare_def Inr hm sel rx)
  qed (simp add: gate_main_def prepare_def Inr hm)
qed (simp add: gate_main_def prepare_def)

theorem record_order_irrelevant_witness:
  "gate_main sample_env (sample_args None) ((sample_inputs [])\<lparr>documents := Some
     [sample_record ''SC-1'' [''INV-1'', ''SC-1''], sample_record ''INV-1'' [''INV-1'', ''SC-1'']]\<rparr>) =
   gate_main sample_env (sample_args None) ((sample_inputs [])\<lparr>documents := Some
     [sample_record ''INV-1'' [''INV-1'', ''SC-1''], sample_record ''SC-1'' [''INV-1'', ''SC-1'']]\<rparr>)"
proof (rule record_order_irrelevant)
  have lone: "load_records [sample_record a ts, sample_record b ts] = [sample_record a ts, sample_record b ts]"
    for a b ts by (simp add: load_records_def unwrap_def sample_record_def obj_def jhas_def)
  have id: "jsub (sample_record a ts) ''claim_id'' = JStr (str a)" for a ts
    by (simp add: sample_record_def jtext_def jget_def obj_def str_def)
  show "mset (load_records [sample_record ''SC-1'' [''INV-1'', ''SC-1''], sample_record ''INV-1'' [''INV-1'', ''SC-1'']]) =
    mset (load_records [sample_record ''INV-1'' [''INV-1'', ''SC-1''], sample_record ''SC-1'' [''INV-1'', ''SC-1'']])"
    by (simp add: lone)
  show "\<forall>c. length (records_of c (load_records [sample_record ''SC-1'' [''INV-1'', ''SC-1''],
      sample_record ''INV-1'' [''INV-1'', ''SC-1'']])) \<le> 1"
    by (simp add: lone records_of_def id str_def)
qed

text \<open>C35. A VERIFIED token under a weaker freshness discipline is never read as one under a
  stronger: two runs that both report VERIFIED, with verdict tokens that are the same text, used
  the same discipline, since no profile a record asserts can forge the field that names it. The
  tokens of the other two verdicts do not name the discipline, and nothing is claimed of them.\<close>

theorem verdict_names_binding:
  assumes "gate_main env args ins = Inr (Inr rep)" "is_verified (verdict_of rep)"
    "gate_main env' args' ins' = Inr (Inr rep')" "is_verified (verdict_of rep')"
    "verdict_text (verdict_of rep) = verdict_text (verdict_of rep')"
  shows "binding_of args = binding_of args'"
proof -
  obtain ps md ws where v: "verdict_of rep = Verified ps md ws" using assms(2) by (auto simp: is_verified_iff)
  obtain ps' md' ws' where v': "verdict_of rep' = Verified ps' md' ws'" using assms(4) by (auto simp: is_verified_iff)
  have "md = md'"
    using verdict_text_mode verified_run(2) [OF assms(1) v] verified_run(2) [OF assms(3) v'] assms(5) v v' by metis
  then show ?thesis using verified_run(1) [OF assms(1) v] verified_run(1) [OF assms(3) v'] by auto
qed

definition pinned_report :: "string list \<Rightarrow> (pystr, pystr list) dict \<Rightarrow> report" where
  "pinned_report claims xp = (sample_report claims xp)
     \<lparr>binding := Pinned, verdict_of := Verified [producer_profile] Pinned []\<rparr>"

lemma sample_snapshot_run:
  "gate_main sample_env ((sample_args None)\<lparr>pin_snapshot := Some (str ''snap'')\<rparr>)
     (sample_inputs [''INV-1'', ''SC-1'']) = Inr (Inr (pinned_report [''INV-1'', ''SC-1''] []))"
  by code_simp

lemma sample_intent_run:
  "gate_main sample_env ((sample_args (Some ''SC-1''))\<lparr>pin_intent := Some (str ''intent'')\<rparr>)
     (sample_inputs [''INV-1'', ''SC-1'']) =
   Inr (Inr (pinned_report [''INV-1'', ''SC-1''] [(str ''SC-1'', [str ''INV-1''])]))"
  by code_simp

theorem verdict_names_binding_witness:
  "binding_of ((sample_args None)\<lparr>pin_snapshot := Some (str ''snap'')\<rparr>) =
   binding_of ((sample_args (Some ''SC-1''))\<lparr>pin_intent := Some (str ''intent'')\<rparr>)"
  by (rule verdict_names_binding [OF sample_snapshot_run _ sample_intent_run]) code_simp+

text \<open>A malformed record can hide the run from its exit status. One record whose class is an
  array makes the gate raise before it judges anything, and the process exits with the status that
  otherwise means a required claim failed.\<close>

theorem crash_reads_as_failed:
  "\<exists>ins. gate_main sample_env (sample_args None) ins = Inl TypeError \<and>
     gate_exit (gate_main sample_env (sample_args None) ins) = exit_code Failed"
proof -
  let ?bad = "obj [(''claim_id'', jtext ''INV-1''), (''required'', JBool True), (''evidence_class'', JArr []),
        (''result'', jtext ''PASS''), (''scope'', jtext ''x''), (''bindings'', obj []), (''waiver'', JNull)]"
  have "gate_main sample_env (sample_args None) ((sample_inputs [])\<lparr>documents := Some [?bad]\<rparr>) = Inl TypeError"
    by code_simp
  then show ?thesis by (auto simp: gate_exit_def)
qed

end
