(* ===== verification/Coverage.thy ===== *)
theory Coverage
  imports Gate_B
begin

text \<open>
  The coverage dashboard of \<^verbatim>\<open>scripts/coverage_dashboard.py\<close>: its own reading of the
  records Gate B judges, without the work tree, one row per required claim, the summary and the
  verdict. The vocabulary, the waiver, dirty-snapshot, manifest-binding, producer and
  shared-artifact rules are Gate B's, imported there as here; the rest is restated in the source
  and so modelled again.
\<close>

subsection \<open>The manifest as the dashboard reads it\<close>

fun dash_ids_from :: "pystr \<Rightarrow> string \<Rightarrow> nat \<Rightarrow> pystr list \<Rightarrow> json list \<Rightarrow> manifest_error + pystr list" where
  "dash_ids_from claim field index ids [] = Inr ids"
| "dash_ids_from claim field index ids (v # vs) =
     (if \<not> nonblank_str v then Inl (MalformedEntry claim field index v)
      else dash_ids_from claim field (Suc index)
        (if the (as_str v) \<in> set ids then ids else ids @ [the (as_str v)]) vs)"

definition dash_id_list :: "pystr \<Rightarrow> string \<Rightarrow> json \<Rightarrow> manifest_error + pystr list" where
  "dash_id_list claim field v = (case v of
       JArr (x # xs) \<Rightarrow> dash_ids_from claim field 0 [] (x # xs)
     | _ \<Rightarrow> Inl (ListNotArray claim field))"

text \<open>Required ids, kinds, and per system claim what it depends on and the tools it requires.\<close>

type_synonym claim_specs = "(pystr, pystr list \<times> pystr list) dict"

type_synonym dash_manifest = "pystr list \<times> (pystr, obligation_kind) dict \<times> claim_specs"

fun dash_entries :: "obligation_kind \<Rightarrow> nat \<Rightarrow> json list \<Rightarrow> dash_manifest \<Rightarrow> manifest_error + dash_manifest" where
  "dash_entries kind index [] st = Inr st"
| "dash_entries kind index (item # items) (required, ks, specs) =
     (let declared = jsub item ''id''; claim = the (as_str declared) in
      if \<not> nonblank_str declared \<or> \<not> obligation_id claim then Inl (MalformedId kind index declared)
      else if \<not> producer_claim_id claim then Inl (UnusableId kind index claim)
      else if claim \<in> fst ` set ks then Inl (DuplicateId claim kind)
      else rbind (if kind = SystemClaim
          then rbind (dash_id_list claim ''depends_on'' (jsub item ''depends_on'')) (\<lambda>ds.
               rbind (dash_id_list claim ''required_evidence'' (jsub item ''required_evidence'')) (\<lambda>ts.
               Inr (dset specs claim (ds, ts))))
          else Inr specs) (\<lambda>specs'.
        dash_entries kind (Suc index) items (required @ [claim], dset ks claim kind, specs')))"

fun dash_collections :: "fields \<Rightarrow> obligation_kind list \<Rightarrow> dash_manifest \<Rightarrow> manifest_error + dash_manifest" where
  "dash_collections manifest [] st = Inr st"
| "dash_collections manifest (k # ks) st =
     rbind (case map_of manifest (str (collection_name k)) of
         None \<Rightarrow> Inr [] | Some (JArr items) \<Rightarrow> Inr items | Some _ \<Rightarrow> Inl (CollectionNotArray k)) (\<lambda>items.
     rbind (dash_entries k 0 items st) (\<lambda>st'.
     dash_collections manifest ks st'))"

definition dash_load_manifest :: "json \<Rightarrow> manifest_error + dash_manifest" where
  "dash_load_manifest v = (case v of
       JObj manifest \<Rightarrow> dash_collections manifest [Invariant, Witness, SystemClaim] ([], [], [])
     | _ \<Rightarrow> Inl ManifestNotObject)"

subsection \<open>Records without the tree\<close>

text \<open>The state is the gate's cohort state; no record result is imposed on the executions.\<close>

definition dash_execution_defects :: "nat \<Rightarrow> json \<Rightarrow> cohort \<Rightarrow> obligation_kind option \<Rightarrow>
    py_exn + (defect list \<times> cohort)" where
  "dash_execution_defects index execution c0 kind = (case execution of
       JObj e \<Rightarrow>
         (let missing = filter (\<lambda>f. \<not> jhas e f) execution_fields in
          if missing \<noteq> [] then Inr (map MissingField missing, c0)
          else
            (let (tool_ds, c1) = tool_step (jget e ''tool'') c0;
                 (path_ds, c2) = path_step index (jget e ''raw_output_path'') (jget e ''run_id'') c1;
                 marker = jget e ''pass_marker''
             in rbind (gather
                  [Inr tool_ds,
                   class_defects kind (jget e ''evidence_class''),
                   report_if (\<not> command_ok (jget e ''command'')) (Malformed ''command'' (jget e ''command'')),
                   report_if (\<not> nonblank_str (jget e ''cwd'')) (Malformed ''cwd'' (jget e ''cwd'')),
                   report_if (\<not> valid_toolchain (jget e ''toolchain_digests'')) NoExecutableIdentity,
                   report_unless_in (jget e ''result'') results (Malformed ''result'' (jget e ''result'')),
                   report_if (\<not> nonblank_str (jget e ''run_id'')) (Malformed ''run_id'' (jget e ''run_id'')),
                   Inr path_ds,
                   report_if (jhas e ''pass_marker'' \<and> \<not> nonempty_str marker) (Malformed ''pass_marker'' marker)])
                (\<lambda>ds. Inr (ds, c2))))
     | _ \<Rightarrow> Inr ([Malformed ''execution'' execution], c0))"

fun dash_cohort_loop :: "nat \<Rightarrow> json list \<Rightarrow> cohort \<Rightarrow> obligation_kind option \<Rightarrow> defects" where
  "dash_cohort_loop index [] c kind = Inr []"
| "dash_cohort_loop index (x # xs) c kind =
     rbind (dash_execution_defects index x c kind) (\<lambda>(ds, c').
     rbind (dash_cohort_loop (Suc index) xs c' kind) (\<lambda>es.
     Inr (map (InExecution index) ds @ es)))"

text \<open>\<open>loads\<close> is \<^verbatim>\<open>json.loads\<close>; the derivation check restates the gate's.\<close>

definition dash_derivation_defects :: "(pystr \<Rightarrow> json option) \<Rightarrow> fields \<Rightarrow> json \<Rightarrow> defect list" where
  "dash_derivation_defects loads bindings primary =
     (if \<not> py_eq (jget bindings ''raw_output_path'') (jsub primary ''raw_output_path'') \<or>
         \<not> py_eq (jget bindings ''raw_output_hash'') (jsub primary ''raw_output_hash'')
      then [NotDerived ''raw_output''] else []) @
     (let command = (case jget bindings ''command'' of
          JStr s \<Rightarrow> (case loads s of None \<Rightarrow> JNull | Some j \<Rightarrow> j) | v \<Rightarrow> v)
      in if \<not> py_eq command (jsub primary ''command'') then [NotDerived ''command''] else []) @
     (if \<not> py_eq (jsub (jget bindings ''configuration'') ''cwd'') (jsub primary ''cwd'')
      then [NotDerived ''configuration.cwd''] else []) @
     (if \<not> py_eq (jsub (jget bindings ''configuration'') ''pass_marker'') (jsub primary ''pass_marker'')
      then [NotDerived ''configuration.pass_marker''] else [])"

definition dash_cohort_defects :: "(pystr \<Rightarrow> json option) \<Rightarrow> fields \<Rightarrow> fields \<Rightarrow> obligation_kind option \<Rightarrow> defects" where
  "dash_cohort_defects loads rec bindings kind = (case jget bindings ''executions'' of
       JArr (x # xs) \<Rightarrow>
         rbind (dash_cohort_loop 0 (x # xs)
           \<lparr>cohort_claim = (case jget rec ''claim_id'' of JStr s \<Rightarrow> s | _ \<Rightarrow> []), record_pass = False,
            producer = (jget bindings ''profile'' = JStr producer_profile),
            cohort_kind = kind, seen_tools = [], seen_paths = []\<rparr> kind)
         (\<lambda>ds. Inr (if ds \<noteq> [] then ds else dash_derivation_defects loads bindings x))
     | v \<Rightarrow> Inr [Malformed ''executions'' v])"

definition dash_validate_record :: "(pystr \<Rightarrow> json option) \<Rightarrow> obligation_kind option \<Rightarrow> pystr list option \<Rightarrow>
    pystr option \<Rightarrow> json \<Rightarrow> defects" where
  "dash_validate_record loads kind targets manifest_hash record = (case record of
       JObj rec \<Rightarrow>
         (let missing = filter (\<lambda>f. \<not> jhas rec f) top_fields in
          if missing \<noteq> [] then Inr (map MissingField missing)
          else rbind (header_defects rec) (\<lambda>hs.
            case jget rec ''bindings'' of
              JObj b \<Rightarrow>
                (let shape = hs @ waiver_defects (jget rec ''waiver'') @
                   concat (map (binding_field_defects b)
                     (binding_fields @ (if bindings_v3 b then v3_binding_fields else []))) @
                   asserted_field_defects b (bindings_v3 b) @
                   (if jget b ''profile'' = JStr producer_profile \<and>
                       \<not> valid_toolchain (jget b ''toolchain_digests'') then [NoExecutableIdentity] else [])
                 in if shape \<noteq> [] then Inr shape
                    else gather
                      [Inr (dirty_snapshot_defects rec b),
                       Inr (manifest_binding_defects b manifest_hash),
                       (if bindings_v3 b then v3_producer_defects b targets else Inr []),
                       (case kind of None \<Rightarrow> Inr []
                          | Some k \<Rightarrow> report_unless_in (jget rec ''evidence_class'') (compatible_classes k)
                              (IncompatibleClass (jget rec ''evidence_class'') k)),
                       (if bindings_v3 b then dash_cohort_defects loads rec b kind else Inr [])])
            | v \<Rightarrow> Inr (hs @ waiver_defects (jget rec ''waiver'') @ [Malformed ''bindings'' v])))
     | _ \<Rightarrow> Inr [Malformed ''record'' record])"

subsection \<open>Cohort coverage\<close>

record entry =
  entry_index :: nat
  entry_tool :: "pystr option"
  entry_result :: "pystr option"
  entry_class :: "pystr option"

fun entries_from :: "nat \<Rightarrow> json list \<Rightarrow> entry list" where
  "entries_from index [] = []"
| "entries_from index (x # xs) =
     \<lparr>entry_index = index, entry_tool = as_str (jsub x ''tool''), entry_result = as_str (jsub x ''result''),
      entry_class = as_str (jsub x ''evidence_class'')\<rparr> # entries_from (Suc index) xs"

definition executions_of :: "json \<Rightarrow> entry list option" where
  "executions_of r = (case jsub (jsub r ''bindings'') ''executions'' of
       JArr xs \<Rightarrow> Some (entries_from 0 xs) | _ \<Rightarrow> None)"

text \<open>\<^verbatim>\<open>entry["tool"] or f"executions[{index}]"\<close>: the tool, or the position as a number.\<close>

definition entry_name :: "entry \<Rightarrow> json" where
  "entry_name e = (case entry_tool e of Some (c # cs) \<Rightarrow> JStr (c # cs) | _ \<Rightarrow> JInt (int (entry_index e)))"

definition non_passing_executions :: "entry list option \<Rightarrow> json list" where
  "non_passing_executions cohort = (case cohort of None \<Rightarrow> [] | Some es \<Rightarrow>
     map entry_name (filter (\<lambda>e. \<not> (entry_tool e \<noteq> None \<and> entry_result e = Some (str ''PASS''))) es))"

definition observed_results :: "entry list \<Rightarrow> pystr \<Rightarrow> pystr option list" where
  "observed_results es tool = map entry_result (filter (\<lambda>e. entry_tool e = Some tool) es)"

definition tool_coverage :: "entry list \<Rightarrow> pystr \<Rightarrow> pystr" where
  "tool_coverage es tool =
     (let rs = observed_results es tool in
      if rs = [] then str ''no-execution''
      else if Some (str ''PASS'') \<in> set rs then str ''PASS''
      else (case List.map_filter (\<lambda>r. if r = Some [] then None else r) rs of
          [] \<Rightarrow> str ''unknown'' | r # _ \<Rightarrow> r))"

definition cohort_coverage :: "pystr list \<Rightarrow> entry list option \<Rightarrow> (pystr, pystr) dict \<times> pystr list" where
  "cohort_coverage required_evidence cohort =
     (let es = (case cohort of None \<Rightarrow> [] | Some es \<Rightarrow> es) in
      (foldl (\<lambda>d t. dset d t (tool_coverage es t)) [] required_evidence,
       filter (\<lambda>t. tool_coverage es t \<noteq> str ''PASS'') required_evidence))"

subsection \<open>Rows\<close>

datatype row_status =
    Missing
  | Duplicated
  | Invalid
  | Fail
  | Unfinished
  | Unwaived
  | EvidenceGap
  | DependencyGap
  | Pass

record row =
  row_claim :: pystr
  row_status :: row_status
  row_class :: json
  row_result :: json
  row_scope :: json
  row_waived :: bool
  row_defects :: "defect list"
  row_kind :: "obligation_kind option"
  row_executions :: "entry list option"
  row_assumed :: "(json \<times> pystr) list"
  row_non_passing :: "json list"
  row_coverage :: "(pystr, pystr) dict option"
  row_gaps :: "pystr list option"
  row_depends :: "pystr list option"
  row_dependency_gaps :: "pystr list"
  row_not_evaluated :: "pystr list"

definition assumed_entries :: "entry list option \<Rightarrow> (json \<times> pystr) list" where
  "assumed_entries cohort = (case cohort of None \<Rightarrow> [] | Some es \<Rightarrow>
     List.map_filter (\<lambda>e. case entry_class e of
         Some cls \<Rightarrow> if cls \<in> set assumed_classes then Some (entry_name e, cls) else None
       | None \<Rightarrow> None) es)"

definition plain_row :: "pystr \<Rightarrow> obligation_kind option \<Rightarrow> row_status \<Rightarrow> row" where
  "plain_row claim kind st = \<lparr>row_claim = claim, row_status = st, row_class = JNull, row_result = JNull,
     row_scope = JNull, row_waived = False, row_defects = [], row_kind = kind, row_executions = None,
     row_assumed = [], row_non_passing = [], row_coverage = None, row_gaps = None, row_depends = None,
     row_dependency_gaps = [], row_not_evaluated = []\<rparr>"

definition row_outcome :: "json \<Rightarrow> (json \<times> pystr) list \<Rightarrow> py_exn + row_status" where
  "row_outcome r assumed =
     (if jsub r ''result'' = JStr (str ''FAIL'') then Inr Fail
      else if jsub r ''result'' = JStr (str ''INCOMPLETE'') then Inr Unfinished
      else rbind (in_names (jsub r ''evidence_class'') assumed_classes) (\<lambda>own.
        Inr (if (own \<or> assumed \<noteq> []) \<and> \<not> truthy (jsub r ''waiver'') then Unwaived else Pass)))"

definition record_row :: "(pystr \<Rightarrow> json option) \<Rightarrow> pystr list option \<Rightarrow> pystr option \<Rightarrow> judged \<Rightarrow>
    obligation_kind option \<Rightarrow> pystr \<Rightarrow> json \<Rightarrow> py_exn + row" where
  "record_row loads targets manifest_hash j kind claim r =
     rbind (dash_validate_record loads kind targets manifest_hash r) (\<lambda>ds.
     let defects = ds @ shared_artifact_defects claim r (cited j);
         filled = (plain_row claim kind Invalid)\<lparr>row_class := jsub r ''evidence_class'',
           row_result := jsub r ''result'', row_scope := jsub r ''scope'', row_executions := executions_of r,
           row_non_passing := non_passing_executions (executions_of r)\<rparr>
     in if defects \<noteq> [] then Inr (filled\<lparr>row_defects := defects\<rparr>)
        else rbind (row_outcome r (assumed_entries (executions_of r))) (\<lambda>st.
          Inr (filled\<lparr>row_status := st, row_waived := truthy (jsub r ''waiver''),
                      row_assumed := assumed_entries (executions_of r)\<rparr>)))"

text \<open>A cohort with an execution that did not pass defeats a passing record of any kind; a
  system claim also needs its required tools.\<close>

definition gap_row :: "claim_specs \<Rightarrow> row \<Rightarrow> row" where
  "gap_row specs rw =
     (let atomic = (if row_status rw = Pass \<and> row_non_passing rw \<noteq> [] then rw\<lparr>row_status := EvidenceGap\<rparr> else rw)
      in if row_kind rw \<noteq> Some SystemClaim then atomic
         else (case map_of specs (row_claim rw) of
             None \<Rightarrow> atomic
           | Some (ds, required_evidence) \<Rightarrow>
              (let (coverage, gaps) = cohort_coverage required_evidence (row_executions rw)
               in atomic\<lparr>row_coverage := Some coverage, row_gaps := Some gaps, row_depends := Some ds,
                    row_status := (if row_status atomic = Pass \<and> gaps \<noteq> [] then EvidenceGap
                                   else row_status atomic)\<rparr>)))"

definition evaluate_claim :: "(pystr \<Rightarrow> json option) \<Rightarrow> pystr list option \<Rightarrow> pystr option \<Rightarrow>
    (pystr, obligation_kind) dict \<Rightarrow> claim_specs \<Rightarrow> judged \<Rightarrow> pystr \<Rightarrow> py_exn + row" where
  "evaluate_claim loads targets manifest_hash ks specs j claim =
     (let kind = map_of ks claim in
      rbind (if claim \<in> set (duplicates j) then Inr (plain_row claim kind Duplicated)
        else case map_of (by_claim j) claim of
            None \<Rightarrow> Inr (plain_row claim kind Missing)
          | Some r \<Rightarrow> record_row loads targets manifest_hash j kind claim r) (\<lambda>rw.
      Inr (gap_row specs rw)))"

definition dependency_row :: "(pystr, row_status) dict \<Rightarrow> row \<Rightarrow> row" where
  "dependency_row statuses rw =
     (if row_kind rw \<noteq> Some SystemClaim then rw
      else
        (let ds = (case row_depends rw of None \<Rightarrow> [] | Some ds \<Rightarrow> ds);
             gaps = filter (\<lambda>d. map_of statuses d \<noteq> None \<and> map_of statuses d \<noteq> Some Pass) ds
         in rw\<lparr>row_dependency_gaps := gaps,
               row_not_evaluated := filter (\<lambda>d. map_of statuses d = None) ds,
               row_status := (if row_status rw = Pass \<and> gaps \<noteq> [] then DependencyGap else row_status rw)\<rparr>))"

definition apply_dependency_coverage :: "row list \<Rightarrow> row list" where
  "apply_dependency_coverage rows =
     (let statuses = foldl (\<lambda>d rw. dset d (row_claim rw) (row_status rw)) [] rows
      in map (dependency_row statuses) rows)"

subsection \<open>Summary and verdict\<close>

definition gap_status :: "row_status \<Rightarrow> bool" where
  "gap_status s \<longleftrightarrow> s \<in> {Missing, Duplicated, Invalid, Unfinished, Unwaived, EvidenceGap, DependencyGap}"

record bucket =
  in_pass :: nat
  in_fail :: nat
  in_incomplete :: nat
  in_other :: nat

definition empty_bucket :: bucket where
  "empty_bucket = \<lparr>in_pass = 0, in_fail = 0, in_incomplete = 0, in_other = 0\<rparr>"

definition bump :: "('k, bucket) dict \<Rightarrow> 'k \<Rightarrow> (bucket \<Rightarrow> bucket) \<Rightarrow> ('k, bucket) dict" where
  "bump d k f = dset d k (f (case map_of d k of None \<Rightarrow> empty_bucket | Some b \<Rightarrow> b))"

text \<open>A class is any value a record declares, and a Python dict compares its keys with \<^verbatim>\<open>==\<close>; an
  array or an object is not a key at all.\<close>

fun hashable :: "json \<Rightarrow> bool" where
  "hashable (JArr _) \<longleftrightarrow> False"
| "hashable (JObj _) \<longleftrightarrow> False"
| "hashable _ \<longleftrightarrow> True"

fun bump_class :: "(json, bucket) dict \<Rightarrow> json \<Rightarrow> (bucket \<Rightarrow> bucket) \<Rightarrow> (json, bucket) dict" where
  "bump_class [] k f = [(k, f empty_bucket)]"
| "bump_class ((k', b) # d) k f = (if py_eq k' k then (k', f b) # d else (k', b) # bump_class d k f)"

definition by_row_status :: "row_status \<Rightarrow> bucket \<Rightarrow> bucket" where
  "by_row_status s b = (case s of
       Pass \<Rightarrow> b\<lparr>in_pass := in_pass b + 1\<rparr>
     | Fail \<Rightarrow> b\<lparr>in_fail := in_fail b + 1\<rparr>
     | Unfinished \<Rightarrow> b\<lparr>in_incomplete := in_incomplete b + 1\<rparr>
     | _ \<Rightarrow> b\<lparr>in_other := in_other b + 1\<rparr>)"

definition by_entry_result :: "pystr option \<Rightarrow> bucket \<Rightarrow> bucket" where
  "by_entry_result r b =
     (if r = Some (str ''PASS'') then b\<lparr>in_pass := in_pass b + 1\<rparr>
      else if r = Some (str ''FAIL'') then b\<lparr>in_fail := in_fail b + 1\<rparr>
      else if r = Some (str ''INCOMPLETE'') then b\<lparr>in_incomplete := in_incomplete b + 1\<rparr>
      else b\<lparr>in_other := in_other b + 1\<rparr>)"

text \<open>Per kind the third column counts every gap, so it is the last two fields here.\<close>

definition by_kind_status :: "row_status \<Rightarrow> bucket \<Rightarrow> bucket" where
  "by_kind_status s b = (case s of
       Pass \<Rightarrow> b\<lparr>in_pass := in_pass b + 1\<rparr>
     | Fail \<Rightarrow> b\<lparr>in_fail := in_fail b + 1\<rparr>
     | _ \<Rightarrow> b\<lparr>in_other := in_other b + 1\<rparr>)"

record summary =
  total_required :: nat
  status_counts :: "(row_status, nat) dict"
  waived_claims :: "pystr list"
  by_evidence_class :: "(json, bucket) dict"
  by_execution_class :: "(pystr, bucket) dict"
  assumed_by_claim :: "(pystr, (json \<times> pystr) list) dict"
  by_obligation_kind :: "(obligation_kind option, bucket) dict"
  system_total :: nat
  system_covered :: "pystr list"
  system_evidence_gaps :: "(pystr, pystr list) dict"
  system_dependency_gaps :: "(pystr, pystr list) dict"
  system_non_passing :: "(pystr, json list) dict"

definition all_statuses :: "row_status list" where
  "all_statuses = [Pass, Fail, Unfinished, Missing, Duplicated, Invalid, Unwaived, EvidenceGap, DependencyGap]"

definition summarize_row :: "summary \<Rightarrow> row \<Rightarrow> summary" where
  "summarize_row s rw = s\<lparr>
     status_counts := dset (status_counts s) (row_status rw)
       (1 + (case map_of (status_counts s) (row_status rw) of None \<Rightarrow> 0 | Some n \<Rightarrow> n)),
     waived_claims := (if row_waived rw then waived_claims s @ [row_claim rw] else waived_claims s),
     assumed_by_claim := (if row_assumed rw \<noteq> [] then dset (assumed_by_claim s) (row_claim rw) (row_assumed rw)
       else assumed_by_claim s),
     by_obligation_kind := bump (by_obligation_kind s) (row_kind rw) (by_kind_status (row_status rw)),
     by_execution_class := foldl (\<lambda>d e. bump d (case entry_class e of Some (c # cs) \<Rightarrow> c # cs
         | _ \<Rightarrow> str ''unreadable'') (by_entry_result (entry_result e))) (by_execution_class s)
       (case row_executions rw of None \<Rightarrow> [] | Some es \<Rightarrow> es),
     by_evidence_class := (if row_class rw = JNull then by_evidence_class s
       else bump_class (by_evidence_class s) (row_class rw) (by_row_status (row_status rw)))\<rparr>"

text \<open>The nonempty lists of some field, by claim.\<close>

definition named_lists :: "(row \<Rightarrow> 'a list) \<Rightarrow> row list \<Rightarrow> (pystr, 'a list) dict" where
  "named_lists f rows = foldl (\<lambda>d rw. if f rw = [] then d else dset d (row_claim rw) (f rw)) [] rows"

definition summary_start :: "row list \<Rightarrow> summary" where
  "summary_start rows =
     (let systems = filter (\<lambda>rw. row_kind rw = Some SystemClaim) rows in
      \<lparr>total_required = length rows, status_counts = map (\<lambda>st. (st, 0)) all_statuses,
       waived_claims = [], by_evidence_class = [], by_execution_class = [], assumed_by_claim = [],
       by_obligation_kind = [], system_total = length systems,
       system_covered = sort (map row_claim (filter (\<lambda>rw. row_status rw = Pass) systems)),
       system_evidence_gaps = named_lists (\<lambda>rw. case row_gaps rw of None \<Rightarrow> [] | Some gs \<Rightarrow> gs) systems,
       system_dependency_gaps = named_lists row_dependency_gaps systems,
       system_non_passing = named_lists row_non_passing systems\<rparr>)"

definition summarize :: "row list \<Rightarrow> py_exn + summary" where
  "summarize rows =
     (if list_ex (\<lambda>rw. \<not> hashable (row_class rw)) rows then Inl TypeError
      else (let s = foldl summarize_row (summary_start rows) rows
            in Inr (s\<lparr>waived_claims := sort (waived_claims s)\<rparr>)))"

datatype coverage_verdict = Covered "pystr list" "pystr list" | Uncovered | Unsettled

definition compute_verdict :: "row list \<Rightarrow> (pystr, json) dict \<Rightarrow> coverage_verdict" where
  "compute_verdict rows records =
     (if rows = [] then Unsettled
      else if list_ex (\<lambda>rw. row_status rw = Fail) rows then Uncovered
      else if list_ex (\<lambda>rw. gap_status (row_status rw)) rows then Unsettled
      else Covered
        (sorted_set (map (\<lambda>rw. case map_of records (row_claim rw) of Some r \<Rightarrow> profile_of r | None \<Rightarrow> []) rows))
        (sort (map row_claim (filter row_waived rows))))"

definition dashboard_rows :: "(pystr \<Rightarrow> json option) \<Rightarrow> pystr list option \<Rightarrow> pystr option \<Rightarrow>
    (pystr, obligation_kind) dict \<Rightarrow> claim_specs \<Rightarrow> json list \<Rightarrow> pystr list \<Rightarrow> py_exn + row list" where
  "dashboard_rows loads targets manifest_hash ks specs records required =
     (let (bc, dups) = index_records records ([], []);
          j = \<lparr>by_claim = bc, duplicates = dups, cited = cited_artifact_index required bc\<rparr>
      in rbind (traverse (evaluate_claim loads targets manifest_hash ks specs j) required) (\<lambda>rows.
         Inr (apply_dependency_coverage rows)))"

record dashboard =
  dash_required :: "pystr list"
  dash_expansion :: "(pystr, pystr list) dict"
  dash_rows :: "row list"
  dash_summary :: summary
  dash_verdict :: coverage_verdict

fun dash_expand :: "(pystr, obligation_kind) dict \<Rightarrow> claim_specs \<Rightarrow> pystr list \<Rightarrow> pystr list \<Rightarrow>
    (pystr, pystr list) dict \<Rightarrow> pystr list \<times> (pystr, pystr list) dict" where
  "dash_expand ks specs [] required ex = (required, ex)"
| "dash_expand ks specs (claim # cs) required ex =
     (if map_of ks claim \<noteq> Some SystemClaim then dash_expand ks specs cs required ex
      else
        (let added = filter (\<lambda>d. d \<notin> set required)
               (case map_of specs claim of None \<Rightarrow> [] | Some (ds, _) \<Rightarrow> ds)
         in if added = [] then dash_expand ks specs cs required ex
            else dash_expand ks specs cs (required @ added) (dset ex claim added)))"

text \<open>\<^verbatim>\<open>main\<close>: an empty \<^verbatim>\<open>--require\<close> counts as none here, by its truth value.\<close>

definition dash_select :: "pystr option \<Rightarrow> dash_manifest option \<Rightarrow> gate_error + pystr list \<times> (pystr, pystr list) dict" where
  "dash_select req m = (case expected req of
       Some s \<Rightarrow> (case m of
           None \<Rightarrow> Inr (named_claims s, [])
         | Some (declared, ks, specs) \<Rightarrow>
            (let unknown = sorted_set (filter (\<lambda>c. c \<notin> fst ` set ks) (named_claims s)) in
             if unknown \<noteq> [] then Inl (UnknownRequired unknown)
             else Inr (dash_expand ks specs (named_claims s) (named_claims s) [])))
     | None \<Rightarrow> (case m of
           Some (declared, _, _) \<Rightarrow> Inr (declared, [])
         | None \<Rightarrow> Inl NeitherRequireNorManifest))"

definition dash_main :: "(pystr \<Rightarrow> json option) \<Rightarrow> pystr option \<Rightarrow> json list option \<Rightarrow>
    (pystr \<times> json) option option \<Rightarrow> py_exn + (gate_error + dashboard)" where
  "dash_main loads req docs manifest = (case docs of
       None \<Rightarrow> Inr (Inl UnreadableInputs)
     | Some ds \<Rightarrow>
        (case (case manifest of
             None \<Rightarrow> Inr (None, None)
           | Some None \<Rightarrow> Inl UnreadableInputs
           | Some (Some (h, doc)) \<Rightarrow> (case dash_load_manifest doc of
                Inl e \<Rightarrow> Inl (BadManifest e) | Inr dm \<Rightarrow> Inr (Some h, Some dm))) of
           Inl e \<Rightarrow> Inr (Inl e)
         | Inr (h, m) \<Rightarrow> (case dash_select req m of
              Inl e \<Rightarrow> Inr (Inl e)
            | Inr (required, ex) \<Rightarrow>
               (let (targets, ks, specs) = (case m of None \<Rightarrow> (None, [], []) | Some (t, k, s) \<Rightarrow> (Some t, k, s));
                    records = load_records ds
                in rbind (dashboard_rows loads targets h ks specs records required) (\<lambda>rows.
                   rbind (summarize rows) (\<lambda>s.
                   Inr (Inr \<lparr>dash_required = required, dash_expansion = ex, dash_rows = rows,
                     dash_summary = s,
                     dash_verdict = compute_verdict rows (fst (index_records records ([], [])))\<rparr>)))))))"

subsection \<open>One manifest grammar\<close>

lemma id_match_nonblank: "id_match extra s \<Longrightarrow> \<not> blank s"
proof (cases s)
  case (Cons c cs)
  assume "id_match extra s"
  then have "\<not> py_space c" using Cons by (auto simp: id_match_def ascii_alnum_def py_space_def)
  then have "\<not> list_all py_space s" using Cons by simp
  then show ?thesis by (simp add: blank_iff)
qed simp

lemma dash_ids_from_strict:
  "id_list_from c f pattern i ids vs = Inr ts \<Longrightarrow> (\<And>s. pattern s \<Longrightarrow> \<not> blank s) \<Longrightarrow>
   dash_ids_from c f i ids vs = Inr ts"
proof (induction c f pattern i ids vs rule: id_list_from.induct)
  case (2 c f pattern i ids v vs)
  then show ?case by (auto split: json.splits if_splits)
qed simp

lemma dash_id_list_strict:
  assumes "id_list c f v pattern = Inr ts" "\<And>s. pattern s \<Longrightarrow> \<not> blank s"
  shows "dash_id_list c f v = Inr ts"
proof -
  obtain x xs where "v = JArr (x # xs)" "id_list_from c f pattern 0 [] (x # xs) = Inr ts"
    using assms(1) by (auto simp: id_list_def simp del: id_list_from.simps split: json.splits list.splits)
  with dash_ids_from_strict [OF _ assms(2)] show ?thesis
    by (simp add: dash_id_list_def del: dash_ids_from.simps)
qed

lemma dset_new: "k \<notin> fst ` set d \<Longrightarrow> dset d k v = d @ [(k, v)]"
  by (induction d) auto

definition spec_of :: "pystr \<times> fields \<Rightarrow> pystr \<times> pystr list \<times> pystr list \<Rightarrow> bool" where
  "spec_of cf spec \<longleftrightarrow> fst spec = fst cf \<and>
     id_list (fst cf) ''depends_on'' (jget (snd cf) ''depends_on'') obligation_id = Inr (fst (snd spec)) \<and>
     id_list (fst cf) ''required_evidence'' (jget (snd cf) ''required_evidence'') evidence_tool_id =
       Inr (snd (snd spec))"

lemma resolve_claims_specs:
  "resolve_claims cs m = Inr m' \<Longrightarrow> distinct (map fst cs) \<Longrightarrow>
   (\<forall>c \<in> fst ` set cs. c \<notin> fst ` set (claim_depends m) \<and> c \<notin> fst ` set (claim_evidence m)) \<Longrightarrow>
   \<exists>specs. list_all2 spec_of cs specs \<and>
     claim_depends m' = claim_depends m @ map (\<lambda>(c, ds, _). (c, ds)) specs \<and>
     claim_evidence m' = claim_evidence m @ map (\<lambda>(c, _, ts). (c, ts)) specs"
proof (induction cs m rule: resolve_claims.induct)
  case (2 c fs cs m)
  obtain ds ts where v: "validate_system_claim c fs (kinds m) = Inr (ds, ts)"
    using "2.prems"(1) by (cases "validate_system_claim c fs (kinds m)") auto
  let ?m = "m\<lparr>claim_depends := dset (claim_depends m) c ds, claim_evidence := dset (claim_evidence m) c ts\<rparr>"
  have rest: "resolve_claims cs ?m = Inr m'" using "2.prems"(1) v by simp
  have new: "claim_depends ?m = claim_depends m @ [(c, ds)]" "claim_evidence ?m = claim_evidence m @ [(c, ts)]"
    using "2.prems"(3) by (simp_all add: dset_new)
  from "2.IH" [OF v refl rest] "2.prems"(2,3) obtain specs where
    "list_all2 spec_of cs specs" "claim_depends m' = claim_depends ?m @ map (\<lambda>(c, ds, _). (c, ds)) specs"
    "claim_evidence m' = claim_evidence ?m @ map (\<lambda>(c, _, ts). (c, ts)) specs"
    by (auto simp: new image_iff)
  moreover have "spec_of (c, fs) (c, ds, ts)" using v by (auto simp: validate_system_claim_def spec_of_def)
  ultimately show ?case by (intro exI [of _ "(c, ds, ts) # specs"]) (simp add: new)
qed simp

lemma declare_entries_claims:
  "declare_entries kind es (required, ks, claims) = Inr (required', ks', claims') \<Longrightarrow>
   claims' = claims @ (if kind = SystemClaim then es else [])"
proof (induction es arbitrary: required ks claims)
  case (Cons e es)
  obtain c fs where "e = (c, fs)" by force
  with Cons show ?case by (fastforce split: if_splits)
qed simp

lemma declare_entries_required:
  "declare_entries kind es (required, ks, claims) = Inr (required', ks', claims') \<Longrightarrow>
   required' = required @ map fst es"
proof (induction es arbitrary: required ks claims)
  case (Cons e es)
  obtain c fs where "e = (c, fs)" by force
  with Cons show ?case by (fastforce split: if_splits)
qed simp

lemma dash_entries_strict:
  "obligation_entries_from kind i items = Inr es \<Longrightarrow>
   declare_entries kind es (required, ks, claims) = Inr (required', ks', claims') \<Longrightarrow>
   (if kind = SystemClaim then list_all2 spec_of es extra else extra = []) \<Longrightarrow> fst ` set specs \<subseteq> fst ` set ks \<Longrightarrow>
   dash_entries kind i items (required, ks, specs) = Inr (required', ks', specs @ extra)"
proof (induction kind i items arbitrary: es required ks claims specs extra rule: obligation_entries_from.induct)
  case (1 kind index)
  then show ?case by (auto split: if_splits)
next
  case (2 kind index item items)
  obtain fs c es' where item: "item = JObj fs" "jget fs ''id'' = JStr c" "obligation_id c" "producer_claim_id c"
    "obligation_entries_from kind (Suc index) items = Inr es'" "es = (c, fs) # es'"
    using "2.prems"(1) by (auto split: json.splits if_splits)
  have nb: "\<not> blank c" using item(3) id_match_nonblank by (simp add: obligation_id_def)
  have new: "c \<notin> fst ` set ks" using "2.prems"(2) item(6) by (auto split: if_splits)
  then have fresh: "c \<notin> fst ` set specs" using "2.prems"(4) by blast
  let ?claims = "if kind = SystemClaim then claims @ [(c, fs)] else claims"
  have rest: "declare_entries kind es' (required @ [c], dset ks c kind, ?claims) = Inr (required', ks', claims')"
    using "2.prems"(2) item(6) new by simp
  have keys: "fst ` set (dset ks c kind) = insert c (fst ` set ks)"
    using new by (simp add: dset_new)
  note IH = "2.IH" [OF item(1,2) _ _ item(5) rest]
  show ?case
  proof (cases "kind = SystemClaim")
    case False
    then show ?thesis
      using IH [of "[]" specs] "2.prems"(3,4) keys item nb new by (auto simp: Let_def)
  next
    case True
    then obtain ds ts extra' where extra: "extra = (c, ds, ts) # extra'" "spec_of (c, fs) (c, ds, ts)" "list_all2 spec_of es' extra'"
      using "2.prems"(3) item(6) by (auto simp: list_all2_Cons1 spec_of_def)
    have ids: "dash_id_list c ''depends_on'' (jget fs ''depends_on'') = Inr ds"
      "dash_id_list c ''required_evidence'' (jget fs ''required_evidence'') = Inr ts"
      using extra(2) id_match_nonblank
      by (auto simp: spec_of_def obligation_id_def evidence_tool_id_def intro: dash_id_list_strict)
    have "dash_entries kind (Suc index) items (required @ [c], dset ks c kind, specs @ [(c, ds, ts)]) =
        Inr (required', ks', (specs @ [(c, ds, ts)]) @ extra')"
      using IH [of extra' "specs @ [(c, ds, ts)]"] True extra(3) "2.prems"(4) keys item(3,4) by auto
    then show ?thesis using True item nb new fresh ids extra(1) by (simp add: dset_new Let_def)
  qed
qed

text \<open>Every manifest the gate loads, the dashboard loads with the same content.\<close>

lemma dash_load_manifest_strict:
  assumes "load_manifest v = Inr m"
  shows "\<exists>specs. dash_load_manifest v = Inr (manifest_required m, kinds m, specs) \<and>
    claim_depends m = map (\<lambda>(c, ds, _). (c, ds)) specs \<and> claim_evidence m = map (\<lambda>(c, _, ts). (c, ts)) specs"
proof -
  obtain manifest where v: "v = JObj manifest" using assms by (cases v) (auto simp: load_manifest_def)
  obtain required ks claims where
    d: "declare_collections manifest [Invariant, Witness, SystemClaim] ([], [], []) = Inr (required, ks, claims)"
    using assms by (cases "declare_collections manifest [Invariant, Witness, SystemClaim] ([], [], [])")
      (auto simp: v load_manifest_def simp del: declare_collections.simps)
  let ?m = "\<lparr>manifest_required = required, kinds = ks, claim_evidence = [], claim_depends = []\<rparr>"
  have r: "resolve_claims claims ?m = Inr m"
    using assms d by (simp add: v load_manifest_def del: declare_collections.simps)
  have m: "kinds m = ks" "manifest_required m = required"
    using resolve_claims_ok [OF r] by (simp_all add: claims_ok_def)
  obtain e1 st1 e2 st2 e3 where e: "obligation_entries manifest Invariant = Inr e1" "declare_entries Invariant e1 ([], [], []) = Inr st1"
    "obligation_entries manifest Witness = Inr e2" "declare_entries Witness e2 st1 = Inr st2"
    "obligation_entries manifest SystemClaim = Inr e3" "declare_entries SystemClaim e3 st2 = Inr (required, ks, claims)"
    using d by auto
  obtain r1 k1 c1 r2 k2 c2 where st: "st1 = (r1, k1, c1)" "st2 = (r2, k2, c2)" by (metis prod_cases3)
  have claims: "c1 = []" "c2 = []" "claims = e3"
    using e(2,4,6) by (auto simp: st dest!: declare_entries_claims)
  have "declared_ok (required, ks, claims)"
    by (rule declare_collections_ok [OF d]) (simp add: declared_ok_def)
  then have "distinct (map fst claims)"
    using declare_entries_required e(6) by (fastforce simp: st claims(3) declared_ok_def)
  then obtain specs where specs: "list_all2 spec_of e3 specs"
    "claim_depends m = map (\<lambda>(c, ds, _). (c, ds)) specs" "claim_evidence m = map (\<lambda>(c, _, ts). (c, ts)) specs"
    using resolve_claims_specs [OF r] claims(3) by auto
  have items: "\<exists>items. (case map_of manifest (str (collection_name k)) of
         None \<Rightarrow> Inr [] | Some (JArr items) \<Rightarrow> Inr items | Some _ \<Rightarrow> Inl (CollectionNotArray k)) = Inr items \<and>
       obligation_entries_from k 0 items = Inr es" if "obligation_entries manifest k = Inr es" for k es
    using that by (auto simp: obligation_entries_def split: option.splits json.splits)
  obtain i1 where i1: "(case map_of manifest (str (collection_name Invariant)) of
         None \<Rightarrow> Inr [] | Some (JArr items) \<Rightarrow> Inr items | Some _ \<Rightarrow> Inl (CollectionNotArray Invariant)) = Inr i1"
       "obligation_entries_from Invariant 0 i1 = Inr e1" using items [OF e(1)] by blast
  obtain i2 where i2: "(case map_of manifest (str (collection_name Witness)) of
         None \<Rightarrow> Inr [] | Some (JArr items) \<Rightarrow> Inr items | Some _ \<Rightarrow> Inl (CollectionNotArray Witness)) = Inr i2"
       "obligation_entries_from Witness 0 i2 = Inr e2" using items [OF e(3)] by blast
  obtain i3 where i3: "(case map_of manifest (str (collection_name SystemClaim)) of
         None \<Rightarrow> Inr [] | Some (JArr items) \<Rightarrow> Inr items | Some _ \<Rightarrow> Inl (CollectionNotArray SystemClaim)) = Inr i3"
       "obligation_entries_from SystemClaim 0 i3 = Inr e3" using items [OF e(5)] by blast
  have "dash_entries Invariant 0 i1 ([], [], []) = Inr (r1, k1, [])"
    using dash_entries_strict [OF i1(2) e(2) [unfolded st], of "[]" "[]"] by simp
  moreover have "dash_entries Witness 0 i2 (r1, k1, []) = Inr (r2, k2, [])"
    using dash_entries_strict [OF i2(2) e(4) [unfolded st], of "[]" "[]"] by simp
  moreover have "dash_entries SystemClaim 0 i3 (r2, k2, []) = Inr (required, ks, specs)"
    using dash_entries_strict [OF i3(2) e(6) [unfolded st], of specs "[]"] specs(1) by simp
  ultimately have "dash_load_manifest v = Inr (required, ks, specs)"
    by (simp only: v dash_load_manifest_def json.case dash_collections.simps i1(1) i2(1) i3(1) rbind.simps)
  with specs(2,3) m show ?thesis by simp
qed

subsection \<open>What the gate accepts, the dashboard accepts\<close>

text \<open>\<open>follows strict view\<close>: where the strict check returns, so does the other, and without a
  defect where the strict one has none.\<close>

definition follows :: "defects \<Rightarrow> defects \<Rightarrow> bool" where
  "follows strict view \<longleftrightarrow> (\<forall>ds. strict = Inr ds \<longrightarrow> (\<exists>es. view = Inr es \<and> (ds = [] \<longrightarrow> es = [])))"

lemma follows_refl [intro]: "follows m m"
  by (simp add: follows_def)

lemma follows_Nil [intro]: "follows m (Inr [])"
  by (simp add: follows_def)

lemma gather_returns: "(\<exists>ds. gather cs = Inr ds) \<longleftrightarrow> (\<forall>c \<in> set cs. \<exists>ds. c = Inr ds)"
  by (induction cs) auto

lemma follows_gather:
  assumes "\<And>v. v \<in> set vs \<Longrightarrow> \<exists>s \<in> set ss. follows s v"
  shows "follows (gather ss) (gather vs)"
  unfolding follows_def
proof (intro allI impI)
  fix ds assume g: "gather ss = Inr ds"
  have "\<exists>es. v = Inr es" if "v \<in> set vs" for v
    using assms [OF that] g gather_returns [of ss] by (fastforce simp: follows_def)
  then obtain es where es: "gather vs = Inr es" using gather_returns by blast
  have "es = []" if "ds = []"
  proof -
    have "\<forall>s \<in> set ss. s = Inr []" using g that by (simp add: gather_Inr_Nil_iff)
    then have "\<forall>v \<in> set vs. v = Inr []" using assms by (fastforce simp: follows_def)
    then show ?thesis using es by (simp add: gather_Inr_Nil_iff [symmetric])
  qed
  with es show "\<exists>es. gather vs = Inr es \<and> (ds = [] \<longrightarrow> es = [])" by blast
qed

abbreviation lenient :: "cohort \<Rightarrow> cohort" where
  "lenient c \<equiv> c\<lparr>record_pass := False\<rparr>"

lemma tool_step_lenient: "tool_step v (lenient c) = (fst (tool_step v c), lenient (snd (tool_step v c)))"
  by (cases v) (auto simp: tool_step_def)

lemma path_step_lenient: "path_step i p r (lenient c) = (fst (path_step i p r c), lenient (snd (path_step i p r c)))"
  by (cases p) (auto simp: path_step_def Let_def split: json.splits)

lemma follows_cwd:
  "follows (contained_path_defect env v f) (report_if (\<not> nonblank_str v) (Malformed f v))"
  by (cases v) (auto simp: follows_def contained_path_defect_def report_if_def split: if_splits)

lemma follows_result: "follows (result_defects b v) (report_unless_in v results (Malformed ''result'' v))"
  by (cases "in_names v results")
    (auto simp: follows_def result_defects_def report_unless_in_def split: if_splits)

lemma execution_follows:
  assumes "execution_defects env i x c = Inr (ds, c1)" "cohort_kind c = kind"
  shows "\<exists>es. dash_execution_defects i x (lenient c) kind = Inr (es, lenient c1) \<and> (ds = [] \<longrightarrow> es = [])"
proof (cases x)
  case (JObj e)
  obtain tds c2 where ts: "tool_step (jget e ''tool'') c = (tds, c2)" by force
  obtain pds c3 where ps: "path_step i (jget e ''raw_output_path'') (jget e ''run_id'') c2 = (pds, c3)" by force
  let ?marker = "jget e ''pass_marker''"
  let ?ss = "[Inr tds, class_defects kind (jget e ''evidence_class''),
       report_if (\<not> command_ok (jget e ''command'')) (Malformed ''command'' (jget e ''command'')),
       contained_path_defect env (jget e ''cwd'') ''cwd'',
       report_if (\<not> valid_toolchain (jget e ''toolchain_digests'')) NoExecutableIdentity,
       result_defects (record_pass c) (jget e ''result''),
       report_if (\<not> nonblank_str (jget e ''run_id'')) (Malformed ''run_id'' (jget e ''run_id'')),
       Inr pds, report_if (jhas e ''pass_marker'' \<and> \<not> nonempty_str ?marker) (Malformed ''pass_marker'' ?marker)]"
  let ?vs = "[Inr tds, class_defects kind (jget e ''evidence_class''),
       report_if (\<not> command_ok (jget e ''command'')) (Malformed ''command'' (jget e ''command'')),
       report_if (\<not> nonblank_str (jget e ''cwd'')) (Malformed ''cwd'' (jget e ''cwd'')),
       report_if (\<not> valid_toolchain (jget e ''toolchain_digests'')) NoExecutableIdentity,
       report_unless_in (jget e ''result'') results (Malformed ''result'' (jget e ''result'')),
       report_if (\<not> nonblank_str (jget e ''run_id'')) (Malformed ''run_id'' (jget e ''run_id'')),
       Inr pds, report_if (jhas e ''pass_marker'' \<and> \<not> nonempty_str ?marker) (Malformed ''pass_marker'' ?marker)]"
  show ?thesis
  proof (cases "filter (\<lambda>f. \<not> jhas e f) execution_fields = []")
    case False
    then show ?thesis using assms by (auto simp: JObj execution_defects_def dash_execution_defects_def Let_def)
  next
    case True
    have gate: "rbind (gather ?ss) (\<lambda>ds. if ds \<noteq> [] then Inr (ds, c3)
        else rbind (read_artifact env (jget e ''raw_output_path'') (jget e ''raw_output_hash''))
          (\<lambda>(ads, content). Inr (ads @ (case content of
              Some t \<Rightarrow> if jget e ''result'' = JStr (str ''PASS'')
                then pass_artifact_defects t (jget e ''evidence_class'') ?marker else []
            | None \<Rightarrow> []), c3))) = Inr (ds, c1)"
      using assms True by (simp add: JObj execution_defects_def ts ps Let_def del: gather.simps)
    then obtain gs where gs: "gather ?ss = Inr gs" "c1 = c3" "ds = [] \<longrightarrow> gs = []"
      by (cases "gather ?ss") (auto simp del: gather.simps split: if_splits)
    have dash: "dash_execution_defects i x (lenient c) kind = rbind (gather ?vs) (\<lambda>ds. Inr (ds, lenient c3))"
      using True by (simp add: JObj dash_execution_defects_def tool_step_lenient path_step_lenient ts ps Let_def
          del: gather.simps)
    have "follows (gather ?ss) (gather ?vs)"
      by (rule follows_gather) (use follows_cwd follows_result in \<open>fastforce\<close>)
    with gs dash show ?thesis by (fastforce simp: follows_def simp del: gather.simps)
  qed
qed (use assms in \<open>auto simp: execution_defects_def dash_execution_defects_def\<close>)

lemma execution_keeps_kind:
  "execution_defects env i x c = Inr (ds, c') \<Longrightarrow> cohort_kind c' = cohort_kind c"
proof -
  have t: "cohort_kind (snd (tool_step v c)) = cohort_kind c" for v c
    by (cases v) (auto simp: tool_step_def)
  have p: "cohort_kind (snd (path_step i v r c)) = cohort_kind c" for v r c
    by (cases v) (auto simp: path_step_def Let_def)
  assume "execution_defects env i x c = Inr (ds, c')"
  then show ?thesis
    using t p by (cases x) (auto simp: execution_defects_def Let_def rbind_pair_Inr split_beta simp del: gather.simps
        split: if_splits)
qed

lemma cohort_loop_follows:
  "cohort_kind c = kind \<Longrightarrow> follows (cohort_loop env i xs c) (dash_cohort_loop i xs (lenient c) kind)"
proof (induction env i xs c rule: cohort_loop.induct)
  case (1 env i c)
  then show ?case by (simp add: follows_def)
next
  case (2 env i x xs c)
  show ?case unfolding follows_def
  proof (intro allI impI)
    fix ds assume l: "cohort_loop env i (x # xs) c = Inr ds"
    then obtain d1 c1 d2 where g: "execution_defects env i x c = Inr (d1, c1)" "cohort_loop env (Suc i) xs c1 = Inr d2"
      "ds = map (InExecution i) d1 @ d2" by (auto simp: rbind_pair_Inr)
    obtain e1 where e1: "dash_execution_defects i x (lenient c) kind = Inr (e1, lenient c1)" "d1 = [] \<longrightarrow> e1 = []"
      using execution_follows [OF g(1) "2.prems"] by blast
    have "cohort_kind c1 = kind" using execution_keeps_kind [OF g(1)] "2.prems" by simp
    from "2.IH" [OF g(1) refl this] g(2) obtain e2 where
      "dash_cohort_loop (Suc i) xs (lenient c1) kind = Inr e2" "d2 = [] \<longrightarrow> e2 = []"
      by (auto simp: follows_def)
    with e1 g(3) show "\<exists>es. dash_cohort_loop i (x # xs) (lenient c) kind = Inr es \<and> (ds = [] \<longrightarrow> es = [])" by auto
  qed
qed

lemma dash_derivation_eq: "dash_derivation_defects (json_loads env) b x = derivation_defects env b x"
  by (cases "jget b ''command''")
    (simp_all add: dash_derivation_defects_def derivation_defects_def derived_command_def Let_def)

lemma cohort_follows: "follows (cohort_defects env rec b kind) (dash_cohort_defects (json_loads env) rec b kind)"
proof (cases "\<exists>x xs. jget b ''executions'' = JArr (x # xs)")
  case True
  then obtain x xs where xs: "jget b ''executions'' = JArr (x # xs)" by blast
  let ?c = "\<lparr>cohort_claim = (case jget rec ''claim_id'' of JStr s \<Rightarrow> s | _ \<Rightarrow> []),
            record_pass = (jget rec ''result'' = JStr (str ''PASS'')),
            producer = (jget b ''profile'' = JStr producer_profile),
            cohort_kind = kind, seen_tools = [], seen_paths = []\<rparr>"
  have f: "follows (cohort_loop env 0 (x # xs) ?c) (dash_cohort_loop 0 (x # xs) (lenient ?c) kind)"
    by (rule cohort_loop_follows) simp
  show ?thesis unfolding follows_def
  proof (intro allI impI)
    fix ds assume "cohort_defects env rec b kind = Inr ds"
    then obtain ls where ls: "cohort_loop env 0 (x # xs) ?c = Inr ls"
      "ds = (if ls \<noteq> [] then ls else derivation_defects env b x)"
      by (auto simp: cohort_defects_def xs simp del: cohort_loop.simps)
    then obtain es where "dash_cohort_loop 0 (x # xs) (lenient ?c) kind = Inr es" "ls = [] \<longrightarrow> es = []"
      using f unfolding follows_def by blast
    then show "\<exists>es. dash_cohort_defects (json_loads env) rec b kind = Inr es \<and> (ds = [] \<longrightarrow> es = [])"
      using ls(2) by (auto simp: dash_cohort_defects_def xs dash_derivation_eq simp del: dash_cohort_loop.simps)
  qed
qed (auto simp: follows_def cohort_defects_def dash_cohort_defects_def split: json.splits list.splits)

lemma validate_follows:
  "follows (validate_record (Some env) ex kind req r)
     (dash_validate_record (json_loads env) kind (expect_required_targets ex) (expect_manifest ex) r)"
proof (cases r)
  case (JObj rec)
  show ?thesis
  proof (cases "filter (\<lambda>f. \<not> jhas rec f) top_fields = []")
    case False
    then show ?thesis by (auto simp: JObj follows_def validate_record_def dash_validate_record_def Let_def)
  next
    case True
    show ?thesis
    proof (cases "header_defects rec")
      case (Inl e)
      with True show ?thesis
        by (auto simp: JObj follows_def validate_record_def shape_defects_def Let_def split: json.splits)
    next
      case (Inr hs)
      show ?thesis
      proof (cases "\<exists>b. jget rec ''bindings'' = JObj b")
        case False
        with True Inr show ?thesis
          by (auto simp: JObj follows_def validate_record_def dash_validate_record_def Let_def split: json.splits)
      next
        case bindings: True
        then obtain b where b: "jget rec ''bindings'' = JObj b" by blast
        let ?shape = "hs @ waiver_defects (jget rec ''waiver'') @
                   concat (map (binding_field_defects b)
                     (binding_fields @ (if bindings_v3 b then v3_binding_fields else []))) @
                   asserted_field_defects b (bindings_v3 b) @
                   (if jget b ''profile'' = JStr producer_profile \<and>
                       \<not> valid_toolchain (jget b ''toolchain_digests'') then [NoExecutableIdentity] else [])"
        obtain sh where sh: "shape_defects rec b = Inr sh" "sh = [] \<longleftrightarrow> ?shape = []"
          using Inr by (auto simp: shape_defects_def)
        let ?vs = "[Inr (dirty_snapshot_defects rec b), Inr (manifest_binding_defects b (expect_manifest ex)),
             (if bindings_v3 b then v3_producer_defects b (expect_required_targets ex) else Inr []),
             (case kind of None \<Rightarrow> Inr []
                | Some k \<Rightarrow> report_unless_in (jget rec ''evidence_class'') (compatible_classes k)
                    (IncompatibleClass (jget rec ''evidence_class'') k)),
             (if bindings_v3 b then dash_cohort_defects (json_loads env) rec b kind else Inr [])]"
        have f: "follows (bound_defects (Some env) ex kind req rec b) (gather ?vs)"
          unfolding bound_defects_def
          by (rule follows_gather) (use cohort_follows in \<open>auto\<close>)
        have g: "validate_record (Some env) ex kind req r =
            (if sh \<noteq> [] then Inr sh else bound_defects (Some env) ex kind req rec b)"
          using True b sh(1) by (simp add: JObj validate_record_def)
        have d: "dash_validate_record (json_loads env) kind (expect_required_targets ex) (expect_manifest ex) r =
            (if ?shape \<noteq> [] then Inr ?shape else gather ?vs)"
          by (simp only: JObj dash_validate_record_def json.case Let_def True Inr b rbind.simps
              simp_thms if_False)
        show ?thesis
        proof (cases "sh = []")
          case True
          with f sh(2) show ?thesis unfolding g d by simp
        next
          case False
          with sh(2) show ?thesis unfolding g d by (simp add: follows_def)
        qed
      qed
    qed
  qed
qed (auto simp: follows_def validate_record_def dash_validate_record_def)

subsection \<open>Rows the gate decides\<close>

lemma entries_from_nth:
  "set (entries_from i xs) = (\<lambda>(k, x). \<lparr>entry_index = k, entry_tool = as_str (jsub x ''tool''),
     entry_result = as_str (jsub x ''result''), entry_class = as_str (jsub x ''evidence_class'')\<rparr>) ` set (enumerate i xs)"
  by (induction i xs rule: entries_from.induct) auto

lemma in_entries:
  "e \<in> set (entries_from i xs) \<Longrightarrow> \<exists>x \<in> set xs. entry_tool e = as_str (jsub x ''tool'') \<and>
     entry_result e = as_str (jsub x ''result'') \<and> entry_class e = as_str (jsub x ''evidence_class'')"
  by (induction i xs rule: entries_from.induct) auto

lemma entries_in:
  "x \<in> set xs \<Longrightarrow> \<exists>e \<in> set (entries_from i xs). entry_tool e = as_str (jsub x ''tool'') \<and>
     entry_result e = as_str (jsub x ''result'')"
  by (induction i xs rule: entries_from.induct) auto

lemma executions_of_v3:
  assumes "jsub r ''bindings'' = JObj b"
  shows "executions_of r = (case jget b ''executions'' of JArr xs \<Rightarrow> Some (entries_from 0 xs) | _ \<Rightarrow> None)"
  by (simp add: executions_of_def assms)

lemma no_executions: "\<not> bindings_v3 b \<Longrightarrow> jget b ''executions'' = JNull"
  by (auto simp: bindings_v3_def jhas_def jget_def)

lemma sound_record_non_passing:
  assumes "sound_record env ex k req r" "passing r"
  shows "non_passing_executions (executions_of r) = []"
proof -
  obtain b where b: "jsub r ''bindings'' = JObj b"
    and x: "bindings_v3 b \<Longrightarrow> \<exists>xs claim. jget b ''executions'' = JArr xs \<and> sound_cohort env k True True claim xs"
    using assms by (auto simp: sound_record_def split: if_splits)
  show ?thesis
  proof (cases "bindings_v3 b")
    case False
    with b no_executions [OF False] show ?thesis by (simp add: executions_of_v3 non_passing_executions_def)
  next
    case True
    then obtain xs claim where xs: "jget b ''executions'' = JArr xs" "sound_cohort env k True True claim xs" using x by blast
    have "entry_tool e \<noteq> None \<and> entry_result e = Some (str ''PASS'')" if "e \<in> set (entries_from 0 xs)" for e
      using in_entries [OF that] xs(2)
      by (fastforce simp: sound_cohort_def list_all_iff sound_execution_def passing_def)
    then show ?thesis using b xs(1) by (auto simp: executions_of_v3 non_passing_executions_def filter_empty_conv)
  qed
qed

lemma passing_tools_iff:
  "t \<in> set (passing_tools v) \<longleftrightarrow> (\<exists>xs x. v = JArr xs \<and> x \<in> set xs \<and>
     jsub x ''result'' = JStr (str ''PASS'') \<and> jsub x ''tool'' = JStr t)"
  by (cases v) (auto simp: passing_tools_def set_map_filter')

lemma covered_tools:
  assumes "jsub r ''bindings'' = JObj b" "set req \<subseteq> set (passing_tools (jget b ''executions''))"
  shows "snd (cohort_coverage req (executions_of r)) = []"
proof -
  have "tool_coverage es t = str ''PASS''" if t: "t \<in> set req" and es: "executions_of r = Some es" for t es
  proof -
    obtain xs x where xs: "jget b ''executions'' = JArr xs" "x \<in> set xs" "jsub x ''result'' = JStr (str ''PASS'')"
      "as_str (jsub x ''tool'') = Some t"
      using assms(2) t passing_tools_iff [of t "jget b ''executions''"] by auto
    then have e: "es = entries_from 0 xs" using es assms(1) by (simp add: executions_of_v3)
    obtain e where "e \<in> set es" "entry_tool e = Some t" "entry_result e = Some (str ''PASS'')"
      using entries_in [OF xs(2), of 0] xs(3,4) e by auto
    then have "Some (str ''PASS'') \<in> set (observed_results es t)" by (force simp: observed_results_def)
    then show ?thesis by (auto simp: tool_coverage_def Let_def)
  qed
  moreover have "req = []" if "executions_of r = None"
    using assms that by (cases "jget b ''executions''") (auto simp: executions_of_v3 passing_tools_def)
  ultimately show ?thesis
    by (cases "executions_of r") (auto simp: cohort_coverage_def Let_def filter_empty_conv)
qed

lemma assumed_executions_Nil:
  "assumed_executions i xs = Inr [] \<Longrightarrow> x \<in> set xs \<Longrightarrow> jsub x ''evidence_class'' = JStr c \<Longrightarrow> c \<notin> set assumed_classes"
  by (induction i xs rule: assumed_executions.induct) (auto split: json.splits if_splits)

lemma assumed_entries_Nil:
  assumes "assumed_evidence r = Inr []"
  shows "assumed_entries (executions_of r) = []" "in_names (jsub r ''evidence_class'') assumed_classes = Inr False"
proof -
  obtain own es where a: "in_names (jsub r ''evidence_class'') assumed_classes = Inr own"
    "(case jsub (jsub r ''bindings'') ''executions'' of JArr xs \<Rightarrow> assumed_executions 0 xs | _ \<Rightarrow> Inr []) = Inr es"
    "(if own then [(JStr (str ''record''), jsub r ''evidence_class'')] else []) @ es = []"
    using assms by (auto simp: assumed_evidence_def)
  then show "in_names (jsub r ''evidence_class'') assumed_classes = Inr False" by (simp split: if_splits)
  have es: "es = []" using a(3) by simp
  show "assumed_entries (executions_of r) = []"
  proof (cases "jsub (jsub r ''bindings'') ''executions''")
    case (JArr xs)
    have "c \<notin> set assumed_classes" if e: "e \<in> set (entries_from 0 xs)" "entry_class e = Some c" for e c
    proof -
      obtain x where x: "x \<in> set xs" "entry_class e = as_str (jsub x ''evidence_class'')"
        using in_entries [OF e(1)] by blast
      then have "jsub x ''evidence_class'' = JStr c" using e(2) by (metis as_str_Some)
      then show ?thesis using assumed_executions_Nil [of 0 xs x c] x(1) a(2) es JArr by simp
    qed
    then show ?thesis
      by (auto simp: assumed_entries_def executions_of_def JArr map_filter_empty split: option.splits)
  qed (simp_all add: assumed_entries_def executions_of_def)
qed

text \<open>The dashboard's view of the gate's manifest.\<close>

definition reads_as :: "manifest_view option \<Rightarrow> (pystr, obligation_kind) dict \<Rightarrow> claim_specs \<Rightarrow> bool" where
  "reads_as m ks specs \<longleftrightarrow> (\<forall>c. map_of ks c = kind_of m c) \<and>
     (\<forall>c ds ts. map_of specs c = Some (ds, ts) \<longrightarrow> evidence_of m c = ts)"

lemma dash_validate_class:
  assumes "dash_validate_record loads kind targets mh r = Inr []"
  shows "\<exists>s. jsub r ''evidence_class'' = JStr s"
proof -
  obtain rec where r: "r = JObj rec" using assms by (cases r) (auto simp: dash_validate_record_def)
  have "filter (\<lambda>f. \<not> jhas rec f) top_fields = []"
    using assms by (auto simp: r dash_validate_record_def Let_def split: if_splits)
  then obtain hs where hs: "header_defects rec = Inr hs"
    using assms by (cases "header_defects rec") (auto simp: r dash_validate_record_def)
  have "hs = []"
    using assms hs \<open>filter _ _ = []\<close>
    by (auto simp: r dash_validate_record_def Let_def simp del: gather.simps split: json.splits if_splits)
  with hs show ?thesis by (auto simp: r header_defects_Nil)
qed

lemma shared_artifact_same:
  assumes "set required' = set required"
  shows "shared_artifact_defects c r (cited (judged_of rs required')) = [] \<longleftrightarrow>
    shared_artifact_defects c r (cited (judged_of rs required)) = []"
  unfolding shared_artifact_Nil citing_judged assms ..

lemma gap_row_keeps [simp]: "row_claim (gap_row specs rw) = row_claim rw" "row_kind (gap_row specs rw) = row_kind rw"
  "row_waived (gap_row specs rw) = row_waived rw"
  "row_status rw \<noteq> Pass \<Longrightarrow> row_status (gap_row specs rw) = row_status rw"
  by (auto simp: gap_row_def Let_def split: option.splits prod.splits)

lemma gap_row_Pass:
  assumes "row_status rw = Pass" "row_non_passing rw = []"
    "\<And>ds ts. map_of specs (row_claim rw) = Some (ds, ts) \<Longrightarrow> snd (cohort_coverage ts (row_executions rw)) = []"
  shows "row_status (gap_row specs rw) = Pass"
  using assms by (auto simp: gap_row_def Let_def split: option.splits prod.splits)

lemma record_row_returns:
  assumes "dash_validate_record loads kind targets mh r = Inr ds"
  shows "\<exists>rw. record_row loads targets mh j kind c r = Inr rw \<and> row_claim rw = c \<and> row_kind rw = kind"
proof (cases "ds @ shared_artifact_defects c r (cited j) = []")
  case False
  then show ?thesis using assms by (auto simp: record_row_def Let_def plain_row_def)
next
  case True
  then have "dash_validate_record loads kind targets mh r = Inr []" using assms by simp
  then obtain s where "jsub r ''evidence_class'' = JStr s" using dash_validate_class by blast
  with True assms show ?thesis by (auto simp: record_row_def Let_def row_outcome_def plain_row_def)
qed

lemma evaluate_follows:
  assumes j: "judge_claim env ex m (judged_of rs required) c = Inr s" and req: "set required' = set required"
    and m: "reads_as m ks specs"
  shows "\<exists>rw. evaluate_claim (json_loads env) (expect_required_targets ex) (expect_manifest ex) ks specs
      (judged_of rs required') c = Inr rw \<and> row_claim rw = c \<and> (s = FailStatus \<longrightarrow> row_status rw = Fail) \<and>
      (passed s \<longrightarrow> row_status rw = Pass \<and> (row_waived rw \<longleftrightarrow> s = PassWaived))"
proof -
  have k: "map_of ks c = kind_of m c" using m by (simp add: reads_as_def)
  have j': "duplicates (judged_of rs required') = duplicates (judged_of rs required)"
    "by_claim (judged_of rs required') = by_claim (judged_of rs required)" by (simp_all add: judged_of_def)
  consider (dup) "c \<in> set (duplicates (judged_of rs required))" "s = DuplicateRecord"
    | (none) "c \<notin> set (duplicates (judged_of rs required))" "map_of (by_claim (judged_of rs required)) c = None" "s = MissingRecord"
    | (rec) r where "c \<notin> set (duplicates (judged_of rs required))" "map_of (by_claim (judged_of rs required)) c = Some r"
    using j by (cases "map_of (by_claim (judged_of rs required)) c") (auto simp: judge_claim_def split: if_splits)
  then show ?thesis
  proof cases
    case rec
    then have r: "records_of c rs = [r]" using sole_record [of c rs r] by (simp add: judged_of_def)
    obtain ds where v: "validate_record (Some env) ex (kind_of m c) (evidence_of m c) r = Inr ds"
      using j by (auto simp: judge_claim_sole [OF r])
    obtain es where es: "dash_validate_record (json_loads env) (kind_of m c) (expect_required_targets ex)
        (expect_manifest ex) r = Inr es" "ds = [] \<longrightarrow> es = []"
      using validate_follows v unfolding follows_def by blast
    obtain rw where rw: "record_row (json_loads env) (expect_required_targets ex) (expect_manifest ex)
        (judged_of rs required') (kind_of m c) c r = Inr rw" "row_claim rw = c"
      using record_row_returns [OF es(1)] by blast
    have ev: "evaluate_claim (json_loads env) (expect_required_targets ex) (expect_manifest ex) ks specs
      (judged_of rs required') c = Inr (gap_row specs rw)"
      using rec rw(1) by (simp add: evaluate_claim_def k j' Let_def)
    show ?thesis
    proof (cases "s = FailStatus \<or> passed s")
      case False
      with ev rw(2) show ?thesis by auto
    next
      case decided: True
      obtain assumed where g: "ds = []" "shared_artifact_defects c r (cited (judged_of rs required)) = []"
        "assumed_evidence r = Inr assumed" "s = outcome r assumed"
        using judge_claim_judged [OF j] decided r v by (auto simp: passed_def)
      have sound: "sound_record env ex (kind_of m c) (evidence_of m c) r"
        by (rule accepted_sound) (use v g(1) in simp)
      have clean: "es @ shared_artifact_defects c r (cited (judged_of rs required')) = []"
        using es(2) g(1,2) shared_artifact_same [OF req] by simp
      show ?thesis
      proof (cases "s = FailStatus")
        case True
        then have "jsub r ''result'' = JStr (str ''FAIL'')" using g(4) by (auto simp: outcome_def split: if_splits)
        then have "row_status rw = Fail" using rw(1) es(1) clean by (auto simp: record_row_def Let_def row_outcome_def)
        with True ev rw(2) show ?thesis by (auto simp: passed_def)
      next
        case False
        with decided have p: "passed (outcome r assumed)" using g(4) by simp
        then have pass: "passing r" using sound_record_result [OF sound] by (simp add: outcome_passed)
        then have res: "jsub r ''result'' = JStr (str ''PASS'')" by (simp add: passing_def)
        obtain cls where cls: "jsub r ''evidence_class'' = JStr cls" using sound by (auto simp: sound_record_def)
        have wa: "truthy (jsub r ''waiver'') \<or> assumed = []" using p by (simp add: outcome_passed)
        have "row_outcome r (assumed_entries (executions_of r)) = Inr Pass"
        proof (cases "assumed = []")
          case True
          with g(3) show ?thesis using assumed_entries_Nil [of r] by (simp add: row_outcome_def res)
        qed (use wa cls in \<open>simp add: row_outcome_def res\<close>)
        then have rwp: "row_status rw = Pass" "row_waived rw \<longleftrightarrow> truthy (jsub r ''waiver'')"
          "row_non_passing rw = non_passing_executions (executions_of r)" "row_executions rw = executions_of r"
          using rw(1) es(1) clean by (auto simp: record_row_def Let_def plain_row_def)
        have "snd (cohort_coverage ts (executions_of r)) = []" if "map_of specs c = Some (ds', ts)" for ds' ts
        proof -
          have "ts = evidence_of m c" using m that by (auto simp: reads_as_def)
          with sound pass show ?thesis by (auto simp: sound_record_def intro: covered_tools)
        qed
        then have "row_status (gap_row specs rw) = Pass"
          using rwp sound_record_non_passing [OF sound pass] rw(2) by (intro gap_row_Pass) auto
        moreover have "s = PassWaived \<longleftrightarrow> truthy (jsub r ''waiver'')"
          using p g(4) by (auto simp: outcome_def passed_def)
        ultimately show ?thesis using ev rw(2) rwp(2) False by auto
      qed
    qed
  qed (auto simp: evaluate_claim_def j' k Let_def plain_row_def passed_def)
qed

subsection \<open>The verdict of the dashboard\<close>

definition is_covered :: "coverage_verdict \<Rightarrow> bool" where
  "is_covered v \<longleftrightarrow> (case v of Covered _ _ \<Rightarrow> True | _ \<Rightarrow> False)"

lemma row_status_cases: "s = Pass \<longleftrightarrow> s \<noteq> Fail \<and> \<not> gap_status s"
  by (cases s) (simp_all add: gap_status_def)

lemma dependency_row_keeps [simp]: "row_claim (dependency_row sts rw) = row_claim rw"
  "row_waived (dependency_row sts rw) = row_waived rw"
  "row_status (dependency_row sts rw) = Fail \<longleftrightarrow> row_status rw = Fail"
  by (auto simp: dependency_row_def Let_def)

lemma dependency_row_Pass: "row_status (dependency_row sts rw) = Pass \<Longrightarrow> row_status rw = Pass"
  by (auto simp: dependency_row_def Let_def split: if_splits)

lemma statuses_of_rows:
  "map_of (foldl (\<lambda>d rw. dset d (row_claim rw) (row_status rw)) d rows) c = Some st \<Longrightarrow>
   map_of d c = Some st \<or> (\<exists>rw \<in> set rows. row_status rw = st)"
proof (induction rows arbitrary: d)
  case (Cons rw rows)
  from Cons.IH [of "dset d (row_claim rw) (row_status rw)"] Cons.prems
  show ?case by (auto simp: map_of_dset split: if_splits)
qed simp

lemma dependency_row_all_pass:
  assumes "\<And>c st. map_of sts c = Some st \<Longrightarrow> st = Pass" "row_status rw = Pass"
  shows "row_status (dependency_row sts rw) = Pass"
proof -
  have "map_of sts d \<noteq> None \<and> map_of sts d \<noteq> Some Pass \<longleftrightarrow> False" for d
    using assms(1) [of d] by (cases "map_of sts d") simp_all
  then show ?thesis using assms(2) by (simp add: dependency_row_def Let_def)
qed

lemma dependency_rows_pass:
  "(\<forall>rw \<in> set (apply_dependency_coverage rows). row_status rw = Pass) \<longleftrightarrow> (\<forall>rw \<in> set rows. row_status rw = Pass)"
proof
  let ?sts = "foldl (\<lambda>d rw. dset d (row_claim rw) (row_status rw)) [] rows"
  assume all: "\<forall>rw \<in> set rows. row_status rw = Pass"
  have "st = Pass" if "map_of ?sts c = Some st" for c st
    using statuses_of_rows [OF that] all by auto
  with all show "\<forall>rw \<in> set (apply_dependency_coverage rows). row_status rw = Pass"
    by (simp add: apply_dependency_coverage_def Let_def dependency_row_all_pass)
next
  assume "\<forall>rw \<in> set (apply_dependency_coverage rows). row_status rw = Pass"
  then show "\<forall>rw \<in> set rows. row_status rw = Pass"
    by (simp add: apply_dependency_coverage_def Let_def) (blast dest: dependency_row_Pass)
qed

lemma dependency_rows_fail:
  "(\<exists>rw \<in> set (apply_dependency_coverage rows). row_status rw = Fail) \<longleftrightarrow> (\<exists>rw \<in> set rows. row_status rw = Fail)"
  by (simp add: apply_dependency_coverage_def Let_def)

lemma coverage_tables:
  "compute_verdict rows recs = Uncovered \<longleftrightarrow> (\<exists>rw \<in> set rows. row_status rw = Fail)"
  "is_covered (compute_verdict rows recs) \<longleftrightarrow> rows \<noteq> [] \<and> (\<forall>rw \<in> set rows. row_status rw = Pass)"
proof -
  have f: "(if n then Unsettled else if f then Uncovered else if g then Unsettled else Covered a b) = Uncovered \<longleftrightarrow> \<not> n \<and> f"
    for n f g a b by simp
  have c: "is_covered (if n then Unsettled else if f then Uncovered else if g then Unsettled else Covered a b) \<longleftrightarrow>
     \<not> n \<and> \<not> f \<and> \<not> g" for n f g a b by (simp add: is_covered_def)
  show "compute_verdict rows recs = Uncovered \<longleftrightarrow> (\<exists>rw \<in> set rows. row_status rw = Fail)"
    unfolding compute_verdict_def f list_ex_iff by auto
  show "is_covered (compute_verdict rows recs) \<longleftrightarrow> rows \<noteq> [] \<and> (\<forall>rw \<in> set rows. row_status rw = Pass)"
    unfolding compute_verdict_def c list_ex_iff row_status_cases by blast
qed

text \<open>Marking dependency gaps adds visibility and leaves the verdict alone.\<close>

interpretation coverage: g2_table "\<lambda>rows. compute_verdict (apply_dependency_coverage rows) recs"
  "\<lambda>rw. row_status rw = Fail" "\<lambda>rw. gap_status (row_status rw)" "\<lambda>v. v = Uncovered" is_covered for recs
proof
  fix rows
  show "compute_verdict (apply_dependency_coverage rows) recs = Uncovered \<longleftrightarrow> (\<exists>rw \<in> set rows. row_status rw = Fail)"
    unfolding coverage_tables dependency_rows_fail ..
  have v: "is_covered (compute_verdict (apply_dependency_coverage rows) recs) \<longleftrightarrow>
      rows \<noteq> [] \<and> (\<forall>rw \<in> set rows. row_status rw \<noteq> Fail \<and> \<not> gap_status (row_status rw))" for rows
    unfolding coverage_tables(2) dependency_rows_pass row_status_cases [symmetric]
    by (simp add: apply_dependency_coverage_def Let_def)
  show "rows \<noteq> [] \<Longrightarrow> is_covered (compute_verdict (apply_dependency_coverage rows) recs) \<longleftrightarrow>
      (\<forall>rw \<in> set rows. row_status rw \<noteq> Fail \<and> \<not> gap_status (row_status rw))"
    unfolding v by blast
  show "\<not> is_covered (compute_verdict (apply_dependency_coverage []) recs)" unfolding v by blast
qed

definition corresponds :: "pystr \<times> status \<Rightarrow> row \<Rightarrow> bool" where
  "corresponds row rw \<longleftrightarrow> row_claim rw = fst row \<and> (snd row = FailStatus \<longrightarrow> row_status rw = Fail) \<and>
     (passed (snd row) \<longrightarrow> row_status rw = Pass \<and> (row_waived rw \<longleftrightarrow> snd row = PassWaived))"

interpretation reader: g2_reader "aggregate md bc" "\<lambda>row. snd row = FailStatus" "\<lambda>row. is_incomplete (snd row)"
  "\<lambda>v. v = Failed" is_verified "\<lambda>rows. compute_verdict (apply_dependency_coverage rows) recs"
  "\<lambda>rw. row_status rw = Fail" "\<lambda>rw. gap_status (row_status rw)" "\<lambda>v. v = Uncovered" is_covered corresponds
  for md bc recs
proof
  fix row and rw
  assume c: "corresponds row rw"
  show "row_status rw = Fail" if "snd row = FailStatus" using c that by (simp add: corresponds_def)
  show "row_status rw \<noteq> Fail \<and> \<not> gap_status (row_status rw)" if "snd row \<noteq> FailStatus" "\<not> is_incomplete (snd row)"
    using c that unfolding corresponds_def row_status_cases [symmetric] passed_iff by blast
qed

subsection \<open>One judged set\<close>

lemma spec_lookup:
  assumes "claim_depends mv = map (\<lambda>(c, ds, _). (c, ds)) specs" "claim_evidence mv = map (\<lambda>(c, _, ts). (c, ts)) specs"
  shows "map_of (claim_depends mv) c = map_option fst (map_of specs c)"
    "map_of (claim_evidence mv) c = map_option snd (map_of specs c)"
  unfolding assms by (induction specs) auto

lemma dash_expand_eq:
  assumes "\<And>c. map_of (claim_depends mv) c = map_option fst (map_of specs c)"
  shows "expand_dependencies mv cs required ex = dash_expand (kinds mv) specs cs required ex"
proof (induction cs arbitrary: required ex)
  case (Cons c cs)
  have "(case map_of (claim_depends mv) c of None \<Rightarrow> [] | Some ds \<Rightarrow> ds) =
      (case map_of specs c of None \<Rightarrow> [] | Some (ds, _) \<Rightarrow> ds)"
    unfolding assms by (cases "map_of specs c") auto
  then show ?case unfolding expand_dependencies.simps dash_expand.simps Let_def Cons.IH by simp
qed simp

text \<open>What the dashboard makes of the manifest the gate read.\<close>

definition dash_view :: "manifest_view option \<Rightarrow> dash_manifest option \<Rightarrow> bool" where
  "dash_view m dm \<longleftrightarrow> (case m of None \<Rightarrow> dm = None
     | Some mv \<Rightarrow> \<exists>specs. dm = Some (manifest_required mv, kinds mv, specs) \<and>
         (\<forall>c. map_of (claim_depends mv) c = map_option fst (map_of specs c)) \<and>
         (\<forall>c. map_of (claim_evidence mv) c = map_option snd (map_of specs c)))"

lemma dash_select_agrees:
  assumes sel: "select_required req m = Inr (required, ex)" and v: "dash_view m dm"
  shows "\<exists>required'. dash_select req dm = Inr (required', ex) \<and> set required' = set required"
proof (cases req)
  case None
  then obtain mv where m: "m = Some mv" "required = sorted_set (manifest_required mv)" using select_required_all sel by blast
  have "ex = []" using sel unfolding None m by (auto simp: select_required_def Let_def split: if_splits)
  with m v None show ?thesis by (auto simp: dash_view_def dash_select_def expected_def)
next
  case (Some s)
  then have ne: "named_claims s \<noteq> []" using sel by (auto simp: select_required_def split: if_splits)
  then have "s \<noteq> []" by (auto simp: named_claims_def)
  then have ex: "expected req = Some s" using Some by (cases s) (simp_all add: expected_def)
  show ?thesis
  proof (cases m)
    case None
    with v sel Some ex ne show ?thesis by (auto simp: dash_view_def dash_select_def select_required_def)
  next
    case (Some mv)
    obtain all xp where x: "expand_dependencies mv (named_claims s) (named_claims s) [] = (all, xp)" by force
    have unk: "sorted_set (filter (\<lambda>c. c \<notin> fst ` set (kinds mv)) (named_claims s)) = []"
      using sel Some \<open>req = Some s\<close> ne by (auto simp: select_required_def Let_def split: if_splits)
    have r: "required = sorted_set all" "ex = xp"
      using sel Some \<open>req = Some s\<close> ne unk x by (simp_all add: select_required_def)
    obtain specs where dm: "dm = Some (manifest_required mv, kinds mv, specs)"
      "\<And>c. map_of (claim_depends mv) c = map_option fst (map_of specs c)"
      using v Some by (auto simp: dash_view_def)
    show ?thesis using dash_expand_eq [OF dm(2)] x unk ex r by (simp add: dash_select_def dm(1))
  qed
qed


lemma dash_read_agrees:
  assumes "read_manifest ins = Inr (h, m)"
  shows "\<exists>dm. dash_view m dm \<and> (case manifest_file ins of
        None \<Rightarrow> Inr (None, None)
      | Some None \<Rightarrow> Inl UnreadableInputs
      | Some (Some (h, doc)) \<Rightarrow> (case dash_load_manifest doc of
           Inl e \<Rightarrow> Inl (BadManifest e) | Inr dm \<Rightarrow> Inr (Some h, Some dm))) = Inr (h, dm)"
proof (cases "manifest_file ins")
  case None
  with assms show ?thesis by (auto simp: read_manifest_def dash_view_def)
next
  case (Some f)
  then obtain k doc where f: "f = Some (k, doc)" using assms by (cases f) (auto simp: read_manifest_def)
  obtain mv where mv: "load_manifest doc = Inr mv" "h = Some k" "m = Some mv"
    using assms Some f by (cases "load_manifest doc") (auto simp: read_manifest_def)
  obtain specs where s: "dash_load_manifest doc = Inr (manifest_required mv, kinds mv, specs)"
    "claim_depends mv = map (\<lambda>(c, ds, _). (c, ds)) specs" "claim_evidence mv = map (\<lambda>(c, _, ts). (c, ts)) specs"
    using dash_load_manifest_strict [OF mv(1)] by blast
  have "dash_view m (Some (manifest_required mv, kinds mv, specs))"
    using spec_lookup [OF s(2,3)] mv(3) by (simp add: dash_view_def)
  then show ?thesis using Some f s(1) mv(2) by auto
qed

lemma dash_view_reads_as:
  assumes "dash_view m (Some (t, ks, specs))"
  shows "reads_as m ks specs"
proof -
  obtain mv where m: "m = Some mv" using assms by (cases m) (auto simp: dash_view_def)
  have k: "kinds mv = ks" "\<And>c. map_of (claim_evidence mv) c = map_option snd (map_of specs c)"
    using assms m by (auto simp: dash_view_def)
  show ?thesis by (simp add: reads_as_def kind_of_def evidence_of_def m k)
qed

lemma no_manifest_reads_as: "reads_as None [] []"
  by (simp add: reads_as_def kind_of_def)

lemma traverse_returns: "(\<exists>ys. traverse f xs = Inr ys) \<longleftrightarrow> (\<forall>x \<in> set xs. \<exists>y. f x = Inr y)"
proof (induction xs)
  case (Cons x xs)
  then show ?case by (cases "f x"; cases "traverse f xs") auto
qed simp

text \<open>The rows of the two runs correspond, claim by claim.\<close>

lemma dash_run_agrees:
  assumes run: "judge_run env ex m rs required = Inr rows" and req: "set required' = set required"
    and m: "reads_as m ks specs"
  shows "\<exists>rows'. traverse (evaluate_claim (json_loads env) (expect_required_targets ex) (expect_manifest ex) ks specs
       (judged_of rs required')) required' = Inr rows' \<and>
     (\<forall>row \<in> set rows. \<exists>rw \<in> set rows'. corresponds row rw) \<and>
     (\<forall>rw \<in> set rows'. \<exists>row \<in> set rows. corresponds row rw)"
proof -
  let ?ev = "evaluate_claim (json_loads env) (expect_required_targets ex) (expect_manifest ex) ks specs (judged_of rs required')"
  have fst: "\<exists>s. (c, s) \<in> set rows \<and> judge_claim env ex m (judged_of rs required) c = Inr s" if "c \<in> set required" for c
    using run that by (fastforce simp: judge_run_rows list_all2_conv_all_nth in_set_conv_nth)
  have snd: "fst row \<in> set required \<and> judge_claim env ex m (judged_of rs required) (fst row) = Inr (snd row)"
    if "row \<in> set rows" for row
    using run that by (fastforce simp: judge_run_rows list_all2_conv_all_nth in_set_conv_nth)
  have ev: "\<exists>rw. ?ev c = Inr rw \<and> corresponds (c, s) rw" if "judge_claim env ex m (judged_of rs required) c = Inr s" for c s
    using evaluate_follows [OF that req m] by (simp add: corresponds_def)
  have "\<forall>c \<in> set required'. \<exists>rw. ?ev c = Inr rw" using fst ev req by blast
  then obtain rows' where rows': "traverse ?ev required' = Inr rows'"
    by (meson traverse_returns)
  have l2: "list_all2 (\<lambda>c rw. ?ev c = Inr rw) required' rows'" using rows' by (simp add: traverse_Inr_iff)
  have dst: "\<exists>rw \<in> set rows'. ?ev c = Inr rw" if "c \<in> set required'" for c
    using l2 that by (fastforce simp: list_all2_conv_all_nth in_set_conv_nth)
  have src: "\<exists>c \<in> set required'. ?ev c = Inr rw" if "rw \<in> set rows'" for rw
    using l2 that by (fastforce simp: list_all2_conv_all_nth in_set_conv_nth)
  have "\<exists>rw \<in> set rows'. corresponds row rw" if row: "row \<in> set rows" for row
  proof -
    obtain rw where "?ev (fst row) = Inr rw" "corresponds row rw" using ev snd [OF row] by fastforce
    with dst [of "fst row"] snd [OF row] req show ?thesis by auto
  qed
  moreover have "\<exists>row \<in> set rows. corresponds row rw" if rw: "rw \<in> set rows'" for rw
  proof -
    obtain c where c: "c \<in> set required'" "?ev c = Inr rw" using src [OF rw] by blast
    obtain s where "(c, s) \<in> set rows" "judge_claim env ex m (judged_of rs required) c = Inr s" using fst c(1) req by blast
    with ev c(2) show ?thesis by fastforce
  qed
  ultimately show ?thesis using rows' by blast
qed


text \<open>The class of a row is null or that of a record.\<close>

lemma evaluate_claim_class:
  assumes "evaluate_claim loads targets h ks specs (judged_of rs required) c = Inr rw"
    "\<forall>r \<in> set rs. hashable (jsub r ''evidence_class'')"
  shows "hashable (row_class rw)"
proof -
  have gap: "row_class (gap_row specs r) = row_class r" for r
    by (auto simp: gap_row_def Let_def split: option.splits prod.splits)
  have plain: "hashable (row_class (plain_row k q st))" for k q st by (simp add: plain_row_def)
  show ?thesis
  proof (cases "c \<notin> set (duplicates (judged_of rs required)) \<and> map_of (by_claim (judged_of rs required)) c \<noteq> None")
    case False
    with assms(1) plain show ?thesis by (auto simp: evaluate_claim_def Let_def gap split: if_splits)
  next
    case True
    then obtain r where r: "map_of (by_claim (judged_of rs required)) c = Some r" by blast
    then have "records_of c rs \<noteq> []" "r = last (records_of c rs)" by (auto simp: judged_of_def by_claim_look split: if_splits)
    then have mem: "r \<in> set rs" using last_in_set [of "records_of c rs"] by (auto simp: records_of_def)
    obtain rw' where rw': "record_row loads targets h (judged_of rs required) (map_of ks c) c r = Inr rw'" "rw = gap_row specs rw'"
      using assms(1) True r
      by (cases "record_row loads targets h (judged_of rs required) (map_of ks c) c r") (auto simp: evaluate_claim_def Let_def)
    have "row_class rw' = jsub r ''evidence_class''"
      using rw'(1) by (auto simp: record_row_def Let_def split: if_splits)
    with mem assms(2) show ?thesis by (simp add: rw'(2) gap)
  qed
qed

lemma dependency_row_class [simp]: "row_class (dependency_row sts rw) = row_class rw"
  by (simp add: dependency_row_def Let_def)

lemma traverse_in: "traverse f xs = Inr ys \<Longrightarrow> y \<in> set ys \<Longrightarrow> \<exists>x \<in> set xs. f x = Inr y"
  by (fastforce simp: traverse_Inr_iff list_all2_conv_all_nth in_set_conv_nth)

lemma summarize_returns:
  assumes "traverse (evaluate_claim loads targets h ks specs (judged_of rs required)) required' = Inr rows"
    "\<forall>r \<in> set rs. hashable (jsub r ''evidence_class'')"
  shows "\<exists>s. summarize (apply_dependency_coverage rows) = Inr s"
proof -
  have "hashable (row_class rw)" if "rw \<in> set rows" for rw
    using traverse_in [OF assms(1) that] evaluate_claim_class [OF _ assms(2)] by blast
  then have "\<not> list_ex (\<lambda>rw. \<not> hashable (row_class rw)) (apply_dependency_coverage rows)"
    by (auto simp: list_ex_iff apply_dependency_coverage_def Let_def)
  then show ?thesis by (simp add: summarize_def Let_def)
qed

text \<open>The dashboard on the inputs of a run the gate judged.\<close>

definition own_manifest :: "gate_args \<Rightarrow> inputs \<Rightarrow> bool" where
  "own_manifest args ins \<longleftrightarrow> (case pin_manifest args of None \<Rightarrow> True
     | Some k \<Rightarrow> (case manifest_file ins of Some (Some (h, _)) \<Rightarrow> h = k | _ \<Rightarrow> False))"

lemma own_manifest_hash:
  assumes "own_manifest args ins" "read_manifest ins = Inr (h, m)"
  shows "(case pin_manifest args of Some k \<Rightarrow> Some k | None \<Rightarrow> h) = h"
  using assms by (auto simp: own_manifest_def read_manifest_def split: option.splits sum.splits if_splits)

lemma dash_follows_gate:
  assumes g: "gate_main env args ins = Inr (Inr rep)" and pin: "own_manifest args ins"
    and h: "\<forall>docs. documents ins = Some docs \<longrightarrow> (\<forall>r \<in> set (load_records docs). hashable (jsub r ''evidence_class''))"
  shows "\<exists>d rows recs. dash_main (json_loads env) (require args) (documents ins) (manifest_file ins) = Inr (Inr d) \<and>
    set (dash_required d) = set (required_claims rep) \<and> dash_expansion d = expansion rep \<and>
    dash_rows d = apply_dependency_coverage rows \<and> dash_verdict d = compute_verdict (dash_rows d) recs \<and>
    verdict_of rep = aggregate (binding_of args) recs (per_claim rep) \<and>
    (\<forall>row \<in> set (per_claim rep). \<exists>rw \<in> set rows. corresponds row rw) \<and>
    (\<forall>rw \<in> set rows. \<exists>row \<in> set (per_claim rep). corresponds row rw)"
proof -
  obtain p rows where p: "prepare args ins = Inr p"
    and run: "judge_run env (run_expect p) (run_manifest p) (run_records p) (run_required p) = Inr rows"
    and rep: "required_claims rep = run_required p" "expansion rep = run_expansion p" "per_claim rep = rows"
      "verdict_of rep = aggregate (binding_of args) (fst (index_records (run_records p) ([], []))) rows"
    using g by (auto simp: gate_main_report)
  obtain docs h where pre: "documents ins = Some docs" "read_manifest ins = Inr (h, run_manifest p)"
    "select_required (require args) (run_manifest p) = Inr (run_required p, run_expansion p)"
    "bind_inputs args ins h (map_option manifest_required (run_manifest p)) = Inr (run_expect p)"
    "run_records p = load_records docs"
    using prepare_Inr [OF p] by auto
  obtain dm where dm: "dash_view (run_manifest p) dm" "(case manifest_file ins of
        None \<Rightarrow> Inr (None, None)
      | Some None \<Rightarrow> Inl UnreadableInputs
      | Some (Some (h, doc)) \<Rightarrow> (case dash_load_manifest doc of
           Inl e \<Rightarrow> Inl (BadManifest e) | Inr dm \<Rightarrow> Inr (Some h, Some dm))) = Inr (h, dm)"
    using dash_read_agrees [OF pre(2)] by blast
  obtain required' where sel: "dash_select (require args) dm = Inr (required', run_expansion p)"
    "set required' = set (run_required p)"
    using dash_select_agrees [OF pre(3) dm(1)] by blast
  obtain t ks specs where parts: "(case dm of None \<Rightarrow> (None, [], []) | Some (t, k, s) \<Rightarrow> (Some t, k, s)) = (t, ks, specs)"
    by (metis prod_cases3)
  have m: "reads_as (run_manifest p) ks specs" "t = expect_required_targets (run_expect p)" "h = expect_manifest (run_expect p)"
  proof -
    show "h = expect_manifest (run_expect p)" using bind_inputs_Inr(3) [OF pre(4)] own_manifest_hash [OF pin pre(2)] by simp
    have t: "expect_required_targets (run_expect p) = map_option manifest_required (run_manifest p)"
      by (rule bind_inputs_Inr(2) [OF pre(4)])
    have "reads_as (run_manifest p) ks specs \<and> t = expect_required_targets (run_expect p)"
    proof (cases "run_manifest p")
      case None
      then have "dm = None" using dm(1) by (simp add: dash_view_def)
      then show ?thesis
        using parts t None no_manifest_reads_as by auto
    next
      case (Some mv)
      then obtain specs' where d: "dm = Some (manifest_required mv, kinds mv, specs')"
        using dm(1) by (auto simp: dash_view_def)
      then show ?thesis
        using dash_view_reads_as [of "run_manifest p"] dm(1) parts t Some by auto
    qed
    then show "reads_as (run_manifest p) ks specs" "t = expect_required_targets (run_expect p)" by blast+
  qed
  obtain rows' where rows': "traverse (evaluate_claim (json_loads env) t h ks specs
       (judged_of (run_records p) required')) required' = Inr rows'"
     "\<forall>row \<in> set rows. \<exists>rw \<in> set rows'. corresponds row rw" "\<forall>rw \<in> set rows'. \<exists>row \<in> set rows. corresponds row rw"
    using dash_run_agrees [OF run sel(2) m(1)] m(2,3) by blast
  obtain sm where sm: "summarize (apply_dependency_coverage rows') = Inr sm"
    using summarize_returns [OF rows'(1)] h pre(1,5) by auto
  have "dashboard_rows (json_loads env) t h ks specs (load_records docs) required' = Inr (apply_dependency_coverage rows')"
    using rows'(1) pre(5)
    by (cases "index_records (load_records docs) ([], [])") (simp add: dashboard_rows_def judged_of_def)
  then have "dash_main (json_loads env) (require args) (documents ins) (manifest_file ins) =
      Inr (Inr \<lparr>dash_required = required', dash_expansion = run_expansion p,
        dash_rows = apply_dependency_coverage rows', dash_summary = sm,
        dash_verdict = compute_verdict (apply_dependency_coverage rows') (fst (index_records (run_records p) ([], [])))\<rparr>)"
    unfolding dash_main_def dm(2) by (simp add: pre(1,5) sel(1) parts sm Let_def)
  with rows' rep sel(2) show ?thesis by auto
qed

lemma corresponds_waived:
  assumes "\<forall>row \<in> set rows. passed (snd row)" "\<forall>row \<in> set rows. \<exists>rw \<in> set rows'. corresponds row rw"
    "\<forall>rw \<in> set rows'. \<exists>row \<in> set rows. corresponds row rw"
  shows "set (map row_claim (filter row_waived rows')) = set (map fst (filter (\<lambda>(_, s). s = PassWaived) rows))"
    "set (map (\<lambda>rw. f (row_claim rw)) rows') = set (map (\<lambda>(c, _). f c) rows)"
proof -
  have a: "\<exists>rw \<in> set rows'. row_claim rw = fst row \<and> (row_waived rw \<longleftrightarrow> snd row = PassWaived)" if "row \<in> set rows" for row
    using assms(1,2) that unfolding corresponds_def by meson
  have b: "\<exists>row \<in> set rows. row_claim rw = fst row \<and> (row_waived rw \<longleftrightarrow> snd row = PassWaived)" if "rw \<in> set rows'" for rw
    using assms(1,3) that unfolding corresponds_def by meson
  show "set (map row_claim (filter row_waived rows')) = set (map fst (filter (\<lambda>(_, s). s = PassWaived) rows))"
  proof (intro set_eqI iffI)
    fix c assume "c \<in> set (map row_claim (filter row_waived rows'))"
    then obtain rw where "rw \<in> set rows'" "row_waived rw" "row_claim rw = c" by auto
    with b [of rw] show "c \<in> set (map fst (filter (\<lambda>(_, s). s = PassWaived) rows))" by force
  next
    fix c assume "c \<in> set (map fst (filter (\<lambda>(_, s). s = PassWaived) rows))"
    then obtain row where "row \<in> set rows" "snd row = PassWaived" "fst row = c" by auto
    with a [of row] show "c \<in> set (map row_claim (filter row_waived rows'))" by force
  qed
  show "set (map (\<lambda>rw. f (row_claim rw)) rows') = set (map (\<lambda>(c, _). f c) rows)"
  proof (intro set_eqI iffI)
    fix c assume "c \<in> set (map (\<lambda>rw. f (row_claim rw)) rows')"
    then obtain rw where "rw \<in> set rows'" "f (row_claim rw) = c" by auto
    with b [of rw] show "c \<in> set (map (\<lambda>(c, _). f c) rows)" by force
  next
    fix c assume "c \<in> set (map (\<lambda>(c, _). f c) rows)"
    then obtain row where "row \<in> set rows" "f (fst row) = c" by auto
    with a [of row] show "c \<in> set (map (\<lambda>rw. f (row_claim rw)) rows')" by force
  qed
qed

text \<open>C5. Gate B and the dashboard tell one story, on two conditions. The first is that the operator
  gives the gate no manifest hash of their own, or gives the hash of the manifest file itself: the
  dashboard has no such option and always compares records with the file it reads. The second is
  that no record declares an array or object as its evidence class, which makes the dashboard
  raise. Then, whenever the gate judges a run, the dashboard, reading the same records and
  manifest without the work tree, judges the same set of claims; where the gate finds a failure
  so does it, and where the gate verifies the run the dashboard reports it covered, with the same
  producer profiles and the same waived claims.\<close>

theorem dashboard_agrees:
  assumes "gate_main env args ins = Inr (Inr rep)" "own_manifest args ins"
    "\<forall>docs. documents ins = Some docs \<longrightarrow> (\<forall>r \<in> set (load_records docs). hashable (jsub r ''evidence_class''))"
  shows "\<exists>d. dash_main (json_loads env) (require args) (documents ins) (manifest_file ins) = Inr (Inr d) \<and>
    set (dash_required d) = set (required_claims rep) \<and> dash_expansion d = expansion rep \<and>
    (verdict_of rep = Failed \<longrightarrow> dash_verdict d = Uncovered) \<and>
    (\<forall>ps md ws. verdict_of rep = Verified ps md ws \<longrightarrow>
       (\<exists>ws'. dash_verdict d = Covered ps ws' \<and> set ws' = set ws))"
proof -
  obtain d rows recs where d: "dash_main (json_loads env) (require args) (documents ins) (manifest_file ins) = Inr (Inr d)"
    "set (dash_required d) = set (required_claims rep)" "dash_expansion d = expansion rep"
    and v: "dash_rows d = apply_dependency_coverage rows" "dash_verdict d = compute_verdict (dash_rows d) recs"
    "verdict_of rep = aggregate (binding_of args) recs (per_claim rep)"
    and c: "\<forall>row \<in> set (per_claim rep). \<exists>rw \<in> set rows. corresponds row rw"
    "\<forall>rw \<in> set rows. \<exists>row \<in> set (per_claim rep). corresponds row rw"
    using dash_follows_gate [OF assms] by blast
  have f: "dash_verdict d = Uncovered" if "verdict_of rep = Failed"
    using reader.decided_alike(1) [of "per_claim rep" rows "binding_of args" recs recs] c that v by auto
  have p: "\<exists>ws'. dash_verdict d = Covered ps ws' \<and> set ws' = set ws" if agg: "verdict_of rep = Verified ps md ws" for ps md ws
  proof -
    have "is_verified (verdict_of rep)" using agg by (simp add: is_verified_def)
    then have "is_covered (dash_verdict d)"
      using reader.decided_alike(2) [of "per_claim rep" rows "binding_of args" recs recs] c v by auto
    then obtain qs ws' where cov: "dash_verdict d = Covered qs ws'" by (auto simp: is_covered_def split: coverage_verdict.splits)
    have rows: "\<forall>row \<in> set (per_claim rep). passed (snd row)"
      "ps = sorted_set (map (\<lambda>(c, _). case map_of recs c of Some r \<Rightarrow> profile_of r | None \<Rightarrow> []) (per_claim rep))"
      "ws = sorted_set (map fst (filter (\<lambda>(_, s). s = PassWaived) (per_claim rep)))"
      using agg v(3) by (auto simp: aggregate_Verified)
    have keep: "map (\<lambda>rw. h (row_claim rw)) (apply_dependency_coverage rows) = map (\<lambda>rw. h (row_claim rw)) rows"
      "map row_claim (filter row_waived (apply_dependency_coverage rows)) = map row_claim (filter row_waived rows)"
      for h :: "pystr \<Rightarrow> pystr"
      by (simp_all add: apply_dependency_coverage_def Let_def filter_map o_def)
    have qs: "qs = sorted_set (map (\<lambda>rw. case map_of recs (row_claim rw) of Some r \<Rightarrow> profile_of r | None \<Rightarrow> []) (dash_rows d))"
      "ws' = sort (map row_claim (filter row_waived (dash_rows d)))"
      using cov v(2) by (auto simp: compute_verdict_def split: if_splits)
    have "qs = ps"
      unfolding qs(1) rows(2) v(1) keep(1) [of "\<lambda>k. case map_of recs k of Some r \<Rightarrow> profile_of r | None \<Rightarrow> []"]
      by (rule sorted_set_cong, rule corresponds_waived(2) [OF rows(1) c])
    moreover have "set ws' = set ws"
      unfolding qs(2) rows(3) v(1) keep(2) using corresponds_waived(1) [OF rows(1) c] by simp
    ultimately show ?thesis using cov by blast
  qed
  show ?thesis using d f p by blast
qed


lemma sample_pinned_manifest:
  "gate_main sample_env ((sample_args None)\<lparr>pin_manifest := Some (str ''manifest'')\<rparr>)
     (sample_inputs [''INV-1'', ''SC-1'']) = Inr (Inr (sample_report [''INV-1'', ''SC-1''] []))"
  by code_simp

theorem dashboard_agrees_witness:
  "\<exists>d. dash_main (json_loads sample_env) None (documents (sample_inputs [''INV-1'', ''SC-1'']))
      (manifest_file (sample_inputs [''INV-1'', ''SC-1''])) = Inr (Inr d) \<and>
    (\<exists>ws. dash_verdict d = Covered [producer_profile] ws \<and> set ws = {})"
proof -
  have "verdict_of (sample_report [''INV-1'', ''SC-1''] []) = Verified [producer_profile] Recomputed []"
    by (simp add: sample_report_def)
  moreover have "\<forall>r \<in> set (load_records (the (documents (sample_inputs [''INV-1'', ''SC-1''])))).
      hashable (jsub r ''evidence_class'')"
    by code_simp
  ultimately show ?thesis
    using dashboard_agrees [OF sample_pinned_manifest]
    by (simp add: sample_args_def own_manifest_def sample_inputs_def) blast
qed

text \<open>One manifest grammar. Every obligation manifest the gate accepts the dashboard accepts, with
  the same required claims in the same order, the same kinds, and for each system claim the same
  dependencies and required tools.\<close>

theorem dashboard_reads_manifest:
  assumes "load_manifest v = Inr m"
  shows "\<exists>specs. dash_load_manifest v = Inr (manifest_required m, kinds m, specs) \<and>
    (\<forall>c. map_of specs c = (case map_of (claim_depends m) c of None \<Rightarrow> None
       | Some ds \<Rightarrow> Some (ds, the (map_of (claim_evidence m) c))))"
proof -
  obtain specs where s: "dash_load_manifest v = Inr (manifest_required m, kinds m, specs)"
    "claim_depends m = map (\<lambda>(c, ds, _). (c, ds)) specs" "claim_evidence m = map (\<lambda>(c, _, ts). (c, ts)) specs"
    using dash_load_manifest_strict [OF assms] by blast
  have "map_of specs c = (case map_of (claim_depends m) c of None \<Rightarrow> None
       | Some ds \<Rightarrow> Some (ds, the (map_of (claim_evidence m) c)))" for c
    unfolding spec_lookup [OF s(2,3)] by (cases "map_of specs c") auto
  with s(1) show ?thesis by blast
qed

theorem dashboard_reads_manifest_witness:
  "\<exists>specs. dash_load_manifest sample_manifest = Inr (manifest_required sample_view, kinds sample_view, specs)"
  using dashboard_reads_manifest [OF sample_manifest_loads] by blast

subsection \<open>The summary counts every row once\<close>

definition counted :: "summary \<Rightarrow> nat" where
  "counted s = sum_list (map snd (status_counts s))"

lemma sum_dset:
  "distinct (map fst d) \<Longrightarrow> sum_list (map snd (dset d k v)) + (case map_of d k of None \<Rightarrow> 0 | Some n \<Rightarrow> n) =
   sum_list (map snd d) + (v :: nat)"
proof (induction d)
  case (Cons kw d)
  show ?case
  proof (cases "fst kw = k")
    case True
    then show ?thesis by (cases kw) simp
  next
    case False
    with Cons show ?thesis by (cases kw; cases "map_of d k") simp_all
  qed
qed simp

lemma summarize_row_counts:
  assumes "distinct (map fst (status_counts s))"
  shows "counted (summarize_row s rw) = Suc (counted s)" "distinct (map fst (status_counts (summarize_row s rw)))"
proof -
  show "counted (summarize_row s rw) = Suc (counted s)"
    using sum_dset [OF assms, of "row_status rw" "1 + (case map_of (status_counts s) (row_status rw) of None \<Rightarrow> 0 | Some n \<Rightarrow> n)"]
    by (simp add: counted_def summarize_row_def)
  show "distinct (map fst (status_counts (summarize_row s rw)))"
    using assms by (simp add: summarize_row_def distinct_keys_dset)
qed

lemma summarize_rows_count:
  "distinct (map fst (status_counts s)) \<Longrightarrow> counted (foldl summarize_row s rows) = counted s + length rows"
proof (induction rows arbitrary: s)
  case (Cons rw rows)
  from Cons.IH [OF summarize_row_counts(2) [OF Cons.prems]] summarize_row_counts(1) [OF Cons.prems]
  show ?case by simp
qed simp

lemma summarize_row_status:
  "map_of (status_counts s) st = Some n \<Longrightarrow>
   map_of (status_counts (summarize_row s rw)) st = Some (n + (if row_status rw = st then 1 else 0))"
  by (auto simp: summarize_row_def map_of_dset)

lemma summarize_rows_status:
  "map_of (status_counts s) st = Some n \<Longrightarrow>
   map_of (status_counts (foldl summarize_row s rows)) st = Some (n + length (filter (\<lambda>rw. row_status rw = st) rows))"
proof (induction rows arbitrary: s n)
  case (Cons rw rows)
  from Cons.IH [OF summarize_row_status [OF Cons.prems, of rw]] show ?case by auto
qed simp

text \<open>The summary is the rows, counted. For every status the count is the number of rows with it,
  the counts add up to the number of required claims, and the waived claims are exactly those of
  the waived rows.\<close>

theorem summary_counts_rows:
  assumes "summarize rows = Inr s"
  shows "(\<forall>st. map_of (status_counts s) st = Some (length (filter (\<lambda>rw. row_status rw = st) rows))) \<and>
   counted s = total_required s \<and> total_required s = length rows \<and>
   mset (waived_claims s) = mset (map row_claim (filter row_waived rows))"
proof -
  define s0 where "s0 = summary_start rows"
  have s0: "total_required s0 = length rows" "status_counts s0 = map (\<lambda>st. (st, 0)) all_statuses"
    "waived_claims s0 = []" by (simp_all add: s0_def summary_start_def Let_def)
  have s: "s = (foldl summarize_row s0 rows)\<lparr>waived_claims := sort (waived_claims (foldl summarize_row s0 rows))\<rparr>"
    using assms by (simp add: summarize_def s0_def Let_def split: if_splits)
  have tot: "total_required (foldl summarize_row t xs) = total_required t" for t xs
    by (induction xs arbitrary: t) (simp_all add: summarize_row_def)
  have wv: "waived_claims (foldl summarize_row t xs) = waived_claims t @ map row_claim (filter row_waived xs)" for t xs
    by (induction xs arbitrary: t) (simp_all add: summarize_row_def)
  have st: "map_of (status_counts s0) st = Some 0" for st
    by (cases st) (simp_all add: s0 all_statuses_def)
  have d: "distinct (map fst (status_counts s0))" "counted s0 = 0"
    by (simp_all add: s0 all_statuses_def counted_def)
  have "counted s = length rows"
    using summarize_rows_count [OF d(1), of rows] d(2) by (simp add: s counted_def)
  then show ?thesis using summarize_rows_status [OF st] unfolding s by (simp add: wv tot s0)
qed

theorem summary_counts_rows_witness:
  "\<exists>s. summarize [(plain_row (str ''A'') None Pass)\<lparr>row_waived := True\<rparr>, plain_row (str ''B'') None Missing] = Inr s \<and>
     map_of (status_counts s) Missing = Some 1 \<and> total_required s = 2 \<and> mset (waived_claims s) = {#str ''A''#}"
proof -
  let ?rows = "[(plain_row (str ''A'') None Pass)\<lparr>row_waived := True\<rparr>, plain_row (str ''B'') None Missing]"
  obtain s where s: "summarize ?rows = Inr s" by (simp add: summarize_def plain_row_def Let_def)
  show ?thesis using s summary_counts_rows [OF s] by (simp add: plain_row_def)
qed

text \<open>The one place they part. A record that lacks a field and declares an array as its class is an
  invalid record to the gate, which exits with 3; the dashboard raises while it tallies the
  classes and leaves no report at all.\<close>

theorem dashboard_crash:
  "\<exists>ins rep. gate_main sample_env (sample_args None) ins = Inr (Inr rep) \<and> verdict_of rep = Incomplete \<and>
     dash_main (json_loads sample_env) None (documents ins) (manifest_file ins) = Inl TypeError"
proof -
  let ?bad = "obj [(''claim_id'', jtext ''INV-1''), (''evidence_class'', JArr [])]"
  let ?ins = "(sample_inputs [])\<lparr>documents := Some [?bad]\<rparr>"
  have "case gate_main sample_env (sample_args None) ?ins of Inr (Inr rep) \<Rightarrow> verdict_of rep = Incomplete | _ \<Rightarrow> False"
    by code_simp
  then have "\<exists>rep. gate_main sample_env (sample_args None) ?ins = Inr (Inr rep) \<and> verdict_of rep = Incomplete"
    by (simp split: sum.splits)
  moreover have "dash_main (json_loads sample_env) None (documents ?ins) (manifest_file ?ins) = Inl TypeError"
    by code_simp
  ultimately show ?thesis by blast
qed

end
