(* ===== verification/Pyramid_Plan.thy ===== *)
theory Pyramid_Plan
  imports Project
begin

text \<open>
  The verification plan of \<^verbatim>\<open>scripts/pyramid_run.py\<close>: the layers a project declares in
  \<^verbatim>\<open>.fv/verification-plan.json\<close>, what the parser accepts and in which order the layers
  run. The document is the value \<^verbatim>\<open>json.loads\<close> returns; the directory a declared
  working directory resolves to is asked of the operating system, and an answer it refuses to
  give is an exception the parser does not catch.
\<close>

subsection \<open>Layers\<close>

definition layer_order :: "pystr list" where
  "layer_order = map str [''types'', ''lints'', ''proptests'', ''fuzz'', ''floors'', ''kani'', ''verus'', ''lean'']"

definition plan_reserved_layers :: "pystr list" where
  "plan_reserved_layers = [str ''floors'']"

definition plan_layers :: "pystr list" where
  "plan_layers = filter (\<lambda>n. n \<notin> set plan_reserved_layers) layer_order"

definition plan_custom_id :: "pystr \<Rightarrow> bool" where
  "plan_custom_id s = id_match (str ''._:+/-'') s"

definition plan_layer_order :: "pystr list \<Rightarrow> pystr list" where
  "plan_layer_order names = filter (\<lambda>n. n \<in> set names) layer_order @
     sorted_set (filter (\<lambda>n. n \<notin> set layer_order) names)"

definition plan_schema :: pystr where
  "plan_schema = str ''fv-verification-plan/v1''"

definition plan_top_keys :: "pystr list" where
  "plan_top_keys = map str [''schema'', ''layers'']"

definition plan_layer_keys :: "pystr list" where
  "plan_layer_keys = map str [''required'', ''executions'']"

definition plan_exec_keys :: "pystr list" where
  "plan_exec_keys = map str [''argv'', ''cwd'', ''timeout_seconds'', ''env'', ''evidence_tool'']"

subsection \<open>One invocation\<close>

datatype invocation_error =
    InvocationNotObject
  | UnknownInvocationKeys "pystr list"
  | ArgvNotArray json
  | ArgvWord nat json
  | BadTimeout json
  | BadTool json
  | CwdNotString json
  | CwdAbsolute pystr
  | CwdParent pystr
  | CwdLeaves pystr parts
  | CwdNotDirectory pystr
  | EnvNotObject json
  | EnvName pystr
  | EnvValue pystr json

text \<open>A rejection is a \<^verbatim>\<open>PlanError\<close>; \<open>PlanCrash\<close> is any other exception on the way.\<close>

datatype plan_failure =
    PlanUnreadable
  | PlanNotObject
  | UnknownTopKeys "pystr list"
  | UnsupportedSchema json
  | NoLayers json
  | ReservedLayer pystr
  | MalformedLayerId pystr
  | LayerNotObject pystr
  | UnknownLayerKeys pystr "pystr list"
  | RequiredNotBool pystr json
  | NoExecutions pystr json
  | BadInvocation pystr nat invocation_error
  | RepeatedTool pystr "pystr \<times> nat" "pystr \<times> nat"
  | PlanCrash py_exn

record invocation =
  argv :: "pystr list"
  run_cwd :: pystr
  timeout_seconds :: int
  run_env :: "(pystr, pystr) dict"
  evidence_tool :: "pystr option"

text \<open>The crate root, what \<^verbatim>\<open>Path.resolve\<close> makes of a path, and \<^verbatim>\<open>is_dir\<close>.\<close>

record crate_dirs =
  crate_root :: parts
  resolve_path :: "parts \<Rightarrow> py_exn + parts"
  directory_at :: "parts \<Rightarrow> bool"

definition plan_cwd :: "crate_dirs \<Rightarrow> json \<Rightarrow> py_exn + (invocation_error + pystr)" where
  "plan_cwd ds raw = (case raw of
       JStr s \<Rightarrow>
         if blank s then Inr (Inl (CwdNotString raw))
         else if is_absolute s then Inr (Inl (CwdAbsolute s))
         else if str ''..'' \<in> set (path_parts s) then Inr (Inl (CwdParent s))
         else rbind (resolve_path ds (under (crate_root ds) (path_parts s))) (\<lambda>resolved.
           if \<not> contained (crate_root ds) resolved then Inr (Inl (CwdLeaves s resolved))
           else if \<not> directory_at ds resolved then Inr (Inl (CwdNotDirectory s))
           else Inr (Inr (posix (drop (length (crate_root ds)) resolved))))
     | _ \<Rightarrow> Inr (Inl (CwdNotString raw)))"

fun plan_env_from :: "fields \<Rightarrow> invocation_error + (pystr, pystr) dict" where
  "plan_env_from [] = Inr []"
| "plan_env_from ((name, v) # fs) =
     (if name = [] \<or> 61 \<in> set name \<or> 0 \<in> set name then Inl (EnvName name)
      else (case v of
          JStr s \<Rightarrow> if 0 \<in> set s then Inl (EnvValue name v)
                   else rbind (plan_env_from fs) (\<lambda>env. Inr ((name, s) # env))
        | _ \<Rightarrow> Inl (EnvValue name v)))"

definition plan_env :: "json \<Rightarrow> invocation_error + (pystr, pystr) dict" where
  "plan_env raw = (case raw of JNull \<Rightarrow> Inr [] | JObj fs \<Rightarrow> plan_env_from fs | _ \<Rightarrow> Inl (EnvNotObject raw))"

fun plan_words :: "nat \<Rightarrow> json list \<Rightarrow> invocation_error + pystr list" where
  "plan_words index [] = Inr []"
| "plan_words index (w # ws) = (case w of
       JStr s \<Rightarrow> if s = [] \<or> 0 \<in> set s then Inl (ArgvWord index w)
                else rbind (plan_words (Suc index) ws) (\<lambda>rest. Inr (s # rest))
     | _ \<Rightarrow> Inl (ArgvWord index w))"

definition plan_argv :: "json \<Rightarrow> invocation_error + pystr list" where
  "plan_argv v = (case v of JArr (w # ws) \<Rightarrow> plan_words 0 (w # ws) | _ \<Rightarrow> Inl (ArgvNotArray v))"

definition plan_timeout :: "json \<Rightarrow> invocation_error + int" where
  "plan_timeout v = (case v of JInt i \<Rightarrow> if 0 < i then Inr i else Inl (BadTimeout v) | _ \<Rightarrow> Inl (BadTimeout v))"

definition plan_tool :: "json \<Rightarrow> invocation_error + pystr option" where
  "plan_tool v = (case v of
       JNull \<Rightarrow> Inr None
     | JStr s \<Rightarrow> if blank s then Inl (BadTool v) else Inr (Some s)
     | _ \<Rightarrow> Inl (BadTool v))"

definition unknown_keys :: "pystr list \<Rightarrow> fields \<Rightarrow> pystr list" where
  "unknown_keys allowed fs = sorted_set (filter (\<lambda>k. k \<notin> set allowed) (map fst fs))"

text \<open>What the checks of one invocation say before its working directory is looked at.\<close>

definition plan_shape :: "json \<Rightarrow> invocation_error + fields \<times> pystr list \<times> int \<times> pystr option" where
  "plan_shape raw = (case raw of
       JObj fs \<Rightarrow>
         if unknown_keys plan_exec_keys fs \<noteq> [] then Inl (UnknownInvocationKeys (unknown_keys plan_exec_keys fs))
         else rbind (plan_argv (jget fs ''argv'')) (\<lambda>words.
              rbind (plan_timeout (jget fs ''timeout_seconds'')) (\<lambda>seconds.
              rbind (plan_tool (jget fs ''evidence_tool'')) (\<lambda>tool.
              Inr (fs, words, seconds, tool))))
     | _ \<Rightarrow> Inl InvocationNotObject)"

definition plan_execution :: "crate_dirs \<Rightarrow> json \<Rightarrow> py_exn + (invocation_error + invocation)" where
  "plan_execution ds raw = (case plan_shape raw of
       Inl e \<Rightarrow> Inr (Inl e)
     | Inr (fs, words, seconds, tool) \<Rightarrow>
         rbind (plan_cwd ds (jget fs ''cwd'')) (\<lambda>cwd.
         Inr (rbind cwd (\<lambda>dir.
              rbind (plan_env (jget fs ''env'')) (\<lambda>env.
              Inr \<lparr>argv = words, run_cwd = dir, timeout_seconds = seconds, run_env = env, evidence_tool = tool\<rparr>)))))"

subsection \<open>The plan\<close>

record plan_layer =
  layer_required :: bool
  layer_executions :: "invocation list"

type_synonym plan = "(pystr, plan_layer) dict"

fun plan_executions :: "crate_dirs \<Rightarrow> pystr \<Rightarrow> nat \<Rightarrow> json list \<Rightarrow> plan_failure + invocation list" where
  "plan_executions ds name index [] = Inr []"
| "plan_executions ds name index (x # xs) = (case plan_execution ds x of
       Inl e \<Rightarrow> Inl (PlanCrash e)
     | Inr (Inl e) \<Rightarrow> Inl (BadInvocation name index e)
     | Inr (Inr i) \<Rightarrow> rbind (plan_executions ds name (Suc index) xs) (\<lambda>rest. Inr (i # rest)))"

text \<open>\<open>origins\<close> is \<^verbatim>\<open>tool_origin\<close>: the invocation that declared each tool id first.\<close>

type_synonym origins = "(pystr, pystr \<times> nat) dict"

fun file_tools :: "pystr \<Rightarrow> nat \<Rightarrow> invocation list \<Rightarrow> origins \<Rightarrow> plan_failure + origins" where
  "file_tools name index [] origins = Inr origins"
| "file_tools name index (i # rest) origins = (case evidence_tool i of
       None \<Rightarrow> file_tools name (Suc index) rest origins
     | Some tool \<Rightarrow> (case map_of origins tool of
          None \<Rightarrow> file_tools name (Suc index) rest (origins @ [(tool, (name, index))])
        | Some first \<Rightarrow>
            if first \<noteq> (name, index) then Inl (RepeatedTool tool first (name, index))
            else file_tools name (Suc index) rest origins))"

definition parse_layer :: "crate_dirs \<Rightarrow> pystr \<Rightarrow> json \<Rightarrow> origins \<Rightarrow> plan_failure + plan_layer \<times> origins" where
  "parse_layer ds name spec origins = (case spec of
       JObj fs \<Rightarrow>
         if unknown_keys plan_layer_keys fs \<noteq> [] then Inl (UnknownLayerKeys name (unknown_keys plan_layer_keys fs))
         else (case jget fs ''required'' of
             JBool required \<Rightarrow> (case jget fs ''executions'' of
                 JArr (x # xs) \<Rightarrow>
                   rbind (plan_executions ds name 0 (x # xs)) (\<lambda>parsed.
                   rbind (file_tools name 0 parsed origins) (\<lambda>origins'.
                   Inr (\<lparr>layer_required = required, layer_executions = parsed\<rparr>, origins')))
               | v \<Rightarrow> Inl (NoExecutions name v))
           | v \<Rightarrow> Inl (RequiredNotBool name v))
     | _ \<Rightarrow> Inl (LayerNotObject name))"

fun check_layer_ids :: "pystr list \<Rightarrow> plan_failure + unit" where
  "check_layer_ids [] = Inr ()"
| "check_layer_ids (name # names) =
     (if name \<in> set plan_layers then check_layer_ids names
      else if name \<in> set plan_reserved_layers then Inl (ReservedLayer name)
      else if \<not> plan_custom_id name then Inl (MalformedLayerId name)
      else check_layer_ids names)"

fun parse_layers :: "crate_dirs \<Rightarrow> fields \<Rightarrow> pystr list \<Rightarrow> origins \<Rightarrow> plan_failure + plan" where
  "parse_layers ds declared [] origins = Inr []"
| "parse_layers ds declared (name # names) origins =
     rbind (parse_layer ds name (case map_of declared name of None \<Rightarrow> JNull | Some v \<Rightarrow> v) origins) (\<lambda>(layer, origins').
     rbind (parse_layers ds declared names origins') (\<lambda>rest.
     Inr ((name, layer) # rest)))"

definition parse_plan :: "crate_dirs \<Rightarrow> json \<Rightarrow> plan_failure + plan" where
  "parse_plan ds document = (case document of
       JObj fs \<Rightarrow>
         if unknown_keys plan_top_keys fs \<noteq> [] then Inl (UnknownTopKeys (unknown_keys plan_top_keys fs))
         else if jhas fs ''schema'' \<and> jget fs ''schema'' \<noteq> JStr plan_schema
           then Inl (UnsupportedSchema (jget fs ''schema''))
         else (case jget fs ''layers'' of
             JObj (l # ls) \<Rightarrow>
               rbind (check_layer_ids (map fst (l # ls))) (\<lambda>_.
               parse_layers ds (l # ls) (plan_layer_order (map fst (l # ls))) [])
           | v \<Rightarrow> Inl (NoLayers v))
     | _ \<Rightarrow> Inl PlanNotObject)"

text \<open>The file that holds the plan: \<open>None\<close> when it cannot be read or is not JSON.\<close>

definition load_plan :: "crate_dirs \<Rightarrow> json option \<Rightarrow> plan_failure + plan" where
  "load_plan ds f = (case f of None \<Rightarrow> Inl PlanUnreadable | Some document \<Rightarrow> parse_plan ds document)"

subsection \<open>What an accepted plan guarantees\<close>

definition invocation_ok :: "crate_dirs \<Rightarrow> invocation \<Rightarrow> bool" where
  "invocation_ok ds i \<longleftrightarrow> argv i \<noteq> [] \<and> (\<forall>w \<in> set (argv i). w \<noteq> [] \<and> 0 \<notin> set w) \<and> 0 < timeout_seconds i \<and>
     (\<exists>rel. run_cwd i = posix rel \<and> directory_at ds (crate_root ds @ rel)) \<and>
     (\<forall>(n, v) \<in> set (run_env i). n \<noteq> [] \<and> 61 \<notin> set n \<and> 0 \<notin> set n \<and> 0 \<notin> set v) \<and>
     (\<forall>t. evidence_tool i = Some t \<longrightarrow> \<not> blank t)"

definition tools_of :: "invocation list \<Rightarrow> pystr list" where
  "tools_of is = List.map_filter evidence_tool is"

definition plan_tools :: "plan \<Rightarrow> pystr list" where
  "plan_tools p = concat (map (\<lambda>(_, l). tools_of (layer_executions l)) p)"

definition plan_ok :: "crate_dirs \<Rightarrow> plan \<Rightarrow> bool" where
  "plan_ok ds p \<longleftrightarrow> p \<noteq> [] \<and> map fst p = plan_layer_order (map fst p) \<and>
     (\<forall>(n, l) \<in> set p. (n \<in> set plan_layers \<or> n \<notin> set layer_order \<and> plan_custom_id n) \<and>
        layer_executions l \<noteq> [] \<and> (\<forall>i \<in> set (layer_executions l). invocation_ok ds i)) \<and>
     distinct (plan_tools p)"

lemma distinct_layer_order [simp]: "distinct layer_order"
  by (simp add: layer_order_def)

lemma set_plan_layer_order [simp]: "set (plan_layer_order names) = set names"
  by (auto simp: plan_layer_order_def)

lemma distinct_plan_layer_order [simp]: "distinct (plan_layer_order names)"
  using sorted_set_strict [of "filter (\<lambda>n. n \<notin> set layer_order) names"]
  by (auto simp: plan_layer_order_def strict_sorted_iff)

lemma plan_layer_order_cong: "set names = set names' \<Longrightarrow> plan_layer_order names = plan_layer_order names'"
  unfolding plan_layer_order_def by (intro arg_cong2 [where f = append] sorted_set_cong filter_cong) auto

lemma plan_layer_order_idem [simp]: "plan_layer_order (plan_layer_order names) = plan_layer_order names"
  by (rule plan_layer_order_cong) simp

lemma plan_words_Inr:
  "plan_words k (w # ws) = Inr vs \<longleftrightarrow>
   (\<exists>s rest. w = JStr s \<and> s \<noteq> [] \<and> 0 \<notin> set s \<and> plan_words (Suc k) ws = Inr rest \<and> vs = s # rest)"
  by (cases w; cases "plan_words (Suc k) ws") auto

lemma plan_words_ok: "plan_words k ws = Inr vs \<Longrightarrow> length vs = length ws \<and> (\<forall>w \<in> set vs. w \<noteq> [] \<and> 0 \<notin> set w)"
proof (induction ws arbitrary: k vs)
  case (Cons w ws)
  then show ?case unfolding plan_words_Inr by fastforce
qed simp

lemma plan_env_from_Inr:
  "plan_env_from ((n, v) # fs) = Inr env \<longleftrightarrow>
   (\<exists>s rest. v = JStr s \<and> n \<noteq> [] \<and> 61 \<notin> set n \<and> 0 \<notin> set n \<and> 0 \<notin> set s \<and>
      plan_env_from fs = Inr rest \<and> env = (n, s) # rest)"
  by (cases v; cases "plan_env_from fs") auto

lemma plan_env_from_ok:
  "plan_env_from fs = Inr env \<Longrightarrow> (\<forall>(n, v) \<in> set env. n \<noteq> [] \<and> 61 \<notin> set n \<and> 0 \<notin> set n \<and> 0 \<notin> set v)"
proof (induction fs arbitrary: env)
  case (Cons f fs)
  obtain n v where f: "f = (n, v)" by force
  obtain s rest where "n \<noteq> []" "61 \<notin> set n" "0 \<notin> set n" "0 \<notin> set s" "plan_env_from fs = Inr rest" "env = (n, s) # rest"
    using Cons.prems unfolding f plan_env_from_Inr by blast
  with Cons.IH show ?case by auto
qed simp

lemma plan_cwd_ok:
  assumes "plan_cwd ds raw = Inr (Inr dir)"
  shows "\<exists>rel. dir = posix rel \<and> directory_at ds (crate_root ds @ rel)"
proof -
  obtain s resolved where r: "raw = JStr s" "contained (crate_root ds) resolved" "directory_at ds resolved"
    "dir = posix (drop (length (crate_root ds)) resolved)"
    using assms by (cases raw) (auto simp: plan_cwd_def split: if_splits)
  have "crate_root ds @ drop (length (crate_root ds)) resolved = resolved"
    using r(2) by (metis append_take_drop_id contained_def)
  with r show ?thesis by metis
qed

lemma plan_execution_ok:
  assumes "plan_execution ds raw = Inr (Inr i)"
  shows "invocation_ok ds i"
proof -
  obtain fs words seconds tool where shape: "plan_shape raw = Inr (fs, words, seconds, tool)"
    using assms by (cases "plan_shape raw") (auto simp: plan_execution_def)
  obtain dir where dir: "plan_cwd ds (jget fs ''cwd'') = Inr (Inr dir)"
    using assms shape by (auto simp: plan_execution_def)
  obtain env where env: "plan_env (jget fs ''env'') = Inr env"
    using assms shape dir by (auto simp: plan_execution_def)
  have i: "i = \<lparr>argv = words, run_cwd = dir, timeout_seconds = seconds, run_env = env, evidence_tool = tool\<rparr>"
    using assms shape dir env by (simp add: plan_execution_def)
  obtain w ws where "plan_words 0 (w # ws) = Inr words"
    using shape by (auto simp: plan_shape_def plan_argv_def simp del: plan_words.simps split: json.splits if_splits list.splits)
  then have "words \<noteq> [] \<and> (\<forall>w \<in> set words. w \<noteq> [] \<and> 0 \<notin> set w)" using plan_words_ok by fastforce
  moreover have "0 < seconds" "\<forall>t. tool = Some t \<longrightarrow> \<not> blank t"
    using shape by (auto simp: plan_shape_def plan_timeout_def plan_tool_def split: json.splits if_splits)
  moreover have "\<forall>(n, v) \<in> set env. n \<noteq> [] \<and> 61 \<notin> set n \<and> 0 \<notin> set n \<and> 0 \<notin> set v"
    using env by (cases "jget fs ''env''") (auto simp: plan_env_def dest: plan_env_from_ok)
  ultimately show ?thesis using plan_cwd_ok [OF dir] by (simp add: invocation_ok_def i)
qed

lemma plan_executions_ok:
  "plan_executions ds name k xs = Inr is \<Longrightarrow> length is = length xs \<and> (\<forall>i \<in> set is. invocation_ok ds i)"
proof (induction ds name k xs arbitrary: "is" rule: plan_executions.induct)
  case (2 ds name k x xs)
  then show ?case using plan_execution_ok by (auto split: sum.splits)
qed simp

lemma file_tools_ok:
  "file_tools name k is origins = Inr origins' \<Longrightarrow> (\<forall>t. case map_of origins t of Some (m, j) \<Rightarrow> m = name \<longrightarrow> j < k | None \<Rightarrow> True) \<Longrightarrow>
   distinct (tools_of is) \<and> set (tools_of is) \<inter> fst ` set origins = {} \<and>
   fst ` set origins' = fst ` set origins \<union> set (tools_of is) \<and>
   (\<forall>t m j. map_of origins' t = Some (m, j) \<longrightarrow> m = name \<or> map_of origins t = Some (m, j))"
proof (induction name k "is" origins rule: file_tools.induct)
  case (2 name k i rest origins)
  show ?case
  proof (cases "evidence_tool i")
    case None
    have "\<forall>t. case map_of origins t of Some (m, j) \<Rightarrow> m = name \<longrightarrow> j < Suc k | None \<Rightarrow> True"
      using "2.prems"(2) by (auto split: option.splits prod.splits) fastforce
    with "2.IH"(1) [OF None] "2.prems"(1) None show ?thesis by (simp add: tools_of_def List.map_filter_simps)
  next
    case (Some tool)
    have fresh: "map_of origins tool = None"
    proof (rule ccontr)
      assume "map_of origins tool \<noteq> None"
      then obtain m j where f: "map_of origins tool = Some (m, j)" by auto
      then have "(m, j) \<noteq> (name, k)" using "2.prems"(2) by (auto split: option.splits dest!: spec [of _ tool])
      with "2.prems"(1) Some f show False by simp
    qed
    let ?o = "origins @ [(tool, (name, k))]"
    have look: "map_of ?o t = (if t = tool then Some (name, k) else map_of origins t)" for t
      using fresh by (auto simp: map_add_def split: option.splits)
    have "\<forall>t. case map_of ?o t of Some (m, j) \<Rightarrow> m = name \<longrightarrow> j < Suc k | None \<Rightarrow> True"
    proof
      fix t
      show "case map_of ?o t of Some (m, j) \<Rightarrow> m = name \<longrightarrow> j < Suc k | None \<Rightarrow> True"
        using "2.prems"(2) [rule_format, of t] unfolding look by (auto split: option.splits)
    qed
    moreover have "file_tools name (Suc k) rest ?o = Inr origins'" using "2.prems"(1) Some fresh by simp
    ultimately have ih: "distinct (tools_of rest) \<and> set (tools_of rest) \<inter> fst ` set ?o = {} \<and>
       fst ` set origins' = fst ` set ?o \<union> set (tools_of rest) \<and>
       (\<forall>t m j. map_of origins' t = Some (m, j) \<longrightarrow> m = name \<or> map_of ?o t = Some (m, j))"
      using "2.IH"(2) [OF Some fresh] by blast
    have tools: "tools_of (i # rest) = tool # tools_of rest" using Some by (simp add: tools_of_def List.map_filter_simps)
    have "tool \<notin> fst ` set origins" using fresh by (simp add: map_of_eq_None_iff)
    moreover have "m = name \<or> map_of origins t = Some (m, j)" if "map_of origins' t = Some (m, j)" for t m j
    proof -
      have "m = name \<or> map_of ?o t = Some (m, j)" using ih that by blast
      then show ?thesis unfolding look by (auto split: if_splits)
    qed
    ultimately show ?thesis using ih tools by auto
  qed
qed (simp add: tools_of_def List.map_filter_simps)


lemma plan_tools_Cons: "plan_tools ((n, l) # p) = tools_of (layer_executions l) @ plan_tools p"
  by (simp add: plan_tools_def)

definition owned_elsewhere :: "pystr list \<Rightarrow> origins \<Rightarrow> bool" where
  "owned_elsewhere names origins \<longleftrightarrow> (\<forall>t m j. map_of origins t = Some (m, j) \<longrightarrow> m \<notin> set names)"

definition layer_ok :: "crate_dirs \<Rightarrow> plan_layer \<Rightarrow> bool" where
  "layer_ok ds l \<longleftrightarrow> layer_executions l \<noteq> [] \<and> (\<forall>i \<in> set (layer_executions l). invocation_ok ds i)"

lemma parse_layer_ok:
  assumes "parse_layer ds name spec origins = Inr (l, origins')" "owned_elsewhere [name] origins"
  shows "layer_ok ds l" "distinct (tools_of (layer_executions l))"
    "set (tools_of (layer_executions l)) \<inter> fst ` set origins = {}"
    "fst ` set origins' = fst ` set origins \<union> set (tools_of (layer_executions l))"
    "map_of origins' t = Some (m, j) \<Longrightarrow> m = name \<or> map_of origins t = Some (m, j)"
proof -
  obtain fs where spec: "spec = JObj fs" using assms(1) by (cases spec) (auto simp: parse_layer_def)
  obtain required where req: "jget fs ''required'' = JBool required"
    using assms(1) spec by (cases "jget fs ''required''") (auto simp: parse_layer_def split: if_splits)
  obtain x xs where ex: "jget fs ''executions'' = JArr (x # xs)"
    using assms(1) spec req
    by (cases "jget fs ''executions''") (auto simp: parse_layer_def split: if_splits list.splits)
  obtain parsed where p: "plan_executions ds name 0 (x # xs) = Inr parsed" "file_tools name 0 parsed origins = Inr origins'"
    "l = \<lparr>layer_required = required, layer_executions = parsed\<rparr>"
    using assms(1) spec req ex by (auto simp: parse_layer_def simp del: plan_executions.simps split: if_splits)
  have "parsed \<noteq> []" "\<forall>i \<in> set parsed. invocation_ok ds i" using plan_executions_ok [OF p(1)] by auto
  then show "layer_ok ds l" by (simp add: layer_ok_def p(3))
  have "\<forall>t. case map_of origins t of Some (m, j) \<Rightarrow> m = name \<longrightarrow> j < 0 | None \<Rightarrow> True"
    using assms(2) by (auto simp: owned_elsewhere_def split: option.splits)
  note tools = file_tools_ok [OF p(2) this]
  show "distinct (tools_of (layer_executions l))" "set (tools_of (layer_executions l)) \<inter> fst ` set origins = {}"
    "fst ` set origins' = fst ` set origins \<union> set (tools_of (layer_executions l))"
    "map_of origins' t = Some (m, j) \<Longrightarrow> m = name \<or> map_of origins t = Some (m, j)"
    using tools by (simp_all add: p(3))
qed

lemma parse_layers_ok:
  "parse_layers ds declared names origins = Inr p \<Longrightarrow> distinct names \<Longrightarrow> owned_elsewhere names origins \<Longrightarrow>
   map fst p = names \<and> (\<forall>(n, l) \<in> set p. layer_ok ds l) \<and> distinct (plan_tools p) \<and>
   set (plan_tools p) \<inter> fst ` set origins = {}"
proof (induction names arbitrary: origins p)
  case (Cons name names)
  let ?spec = "case map_of declared name of None \<Rightarrow> JNull | Some v \<Rightarrow> v"
  obtain l origins' where l: "parse_layer ds name ?spec origins = Inr (l, origins')"
    using Cons.prems(1) by (cases "parse_layer ds name ?spec origins") auto
  obtain rest where rest: "parse_layers ds declared names origins' = Inr rest" "p = (name, l) # rest"
    using Cons.prems(1) l by auto
  have own: "owned_elsewhere [name] origins" using Cons.prems(3) by (auto simp: owned_elsewhere_def)
  note pl = parse_layer_ok [OF l own]
  have "owned_elsewhere names origins'"
    using pl(5) Cons.prems(2,3) by (fastforce simp: owned_elsewhere_def)
  then have ih: "map fst rest = names \<and> (\<forall>(n, l) \<in> set rest. layer_ok ds l) \<and> distinct (plan_tools rest) \<and>
     set (plan_tools rest) \<inter> fst ` set origins' = {}"
    using Cons.IH [OF rest(1)] Cons.prems(2) by simp
  moreover have "set (tools_of (layer_executions l)) \<inter> set (plan_tools rest) = {}"
    using ih pl(4) by blast
  moreover have "set (plan_tools rest) \<inter> fst ` set origins = {}" using ih pl(4) by blast
  ultimately show ?case using pl(1,2,3) unfolding rest(2) plan_tools_Cons by auto
qed (simp add: plan_tools_def)

lemma check_layer_ids_ok:
  "check_layer_ids names = Inr u \<longleftrightarrow>
   (\<forall>n \<in> set names. n \<in> set plan_layers \<or> n \<notin> set plan_reserved_layers \<and> plan_custom_id n)"
  by (induction names) auto

lemma parse_plan_Inr:
  "parse_plan ds document = Inr p \<longleftrightarrow> (\<exists>fs l ls. document = JObj fs \<and> unknown_keys plan_top_keys fs = [] \<and>
     (jhas fs ''schema'' \<longrightarrow> jget fs ''schema'' = JStr plan_schema) \<and> jget fs ''layers'' = JObj (l # ls) \<and>
     check_layer_ids (map fst (l # ls)) = Inr () \<and>
     parse_layers ds (l # ls) (plan_layer_order (map fst (l # ls))) [] = Inr p)"
  (is "?l \<longleftrightarrow> ?r")
proof
  assume ?l
  then obtain fs where d: "document = JObj fs" by (cases document) (auto simp: parse_plan_def)
  obtain l ls where lay: "jget fs ''layers'' = JObj (l # ls)"
    using \<open>?l\<close> d by (cases "jget fs ''layers''") (auto simp: parse_plan_def split: if_splits list.splits)
  obtain u where "check_layer_ids (map fst (l # ls)) = Inr u"
    using \<open>?l\<close> d lay
    by (cases "check_layer_ids (map fst (l # ls))") (auto simp: parse_plan_def simp del: check_layer_ids.simps split: if_splits)
  then show ?r using \<open>?l\<close> d lay
    by (intro exI [of _ fs] exI [of _ l] exI [of _ ls])
      (simp add: parse_plan_def del: check_layer_ids.simps split: if_splits)
next
  assume ?r
  then show ?l by (auto simp: parse_plan_def simp del: check_layer_ids.simps)
qed

lemma parse_plan_ok:
  assumes "parse_plan ds document = Inr p"
  shows "plan_ok ds p"
proof -
  obtain fs l ls where d: "document = JObj fs" "jget fs ''layers'' = JObj (l # ls)"
    "check_layer_ids (map fst (l # ls)) = Inr ()"
    "parse_layers ds (l # ls) (plan_layer_order (map fst (l # ls))) [] = Inr p"
    using assms unfolding parse_plan_Inr by blast
  have ok: "map fst p = plan_layer_order (map fst (l # ls)) \<and> (\<forall>(n, l) \<in> set p. layer_ok ds l) \<and> distinct (plan_tools p)"
    using parse_layers_ok [OF d(4)] by (simp add: owned_elsewhere_def)
  have names: "\<forall>n \<in> set (map fst (l # ls)). n \<in> set plan_layers \<or> n \<notin> set plan_reserved_layers \<and> plan_custom_id n"
    using d(3) unfolding check_layer_ids_ok .
  have "n \<in> set plan_layers \<or> n \<notin> set layer_order \<and> plan_custom_id n" if "(n, k) \<in> set p" for n k
  proof -
    have "n \<in> set (map fst (l # ls))" using ok that by (metis fst_conv image_eqI list.set_map set_plan_layer_order)
    with names show ?thesis by (auto simp: plan_layers_def)
  qed
  moreover have "p \<noteq> []" using ok by (metis list.simps(8) list.simps(9) list.distinct(1) set_empty set_plan_layer_order)
  moreover have "map fst p = plan_layer_order (map fst p)" using ok by (metis plan_layer_order_idem)
  ultimately show ?thesis using ok by (fastforce simp: plan_ok_def layer_ok_def)
qed

text \<open>C23. What the runner executes is what the contract of a plan allows. Every accepted plan has a
  layer, its layers come in the order the pyramid runs them and are all plannable, never the
  computed floors layer; every layer has an invocation; every invocation has a command of nonempty
  words, a positive timeout and a directory inside the crate; and no tool id names two
  invocations, in one layer or across layers.\<close>

theorem accepted_plan_sound:
  assumes "parse_plan ds document = Inr p"
  shows "plan_ok ds p"
  by (rule parse_plan_ok [OF assms])

lemma parse_layers_cong:
  "map_of declared = map_of declared' \<Longrightarrow> parse_layers ds declared names origins = parse_layers ds declared' names origins"
proof (induction names arbitrary: origins)
  case (Cons name names)
  then show ?case by (simp only: parse_layers.simps)
qed simp

lemma same_keys: "map_of d = map_of e \<Longrightarrow> set (map fst d) = set (map fst e)"
  by (metis dom_map_of_conv_image_fst list.set_map)

text \<open>The order of the file does not matter. Two plan documents that are equal as dictionaries,
  whatever the order of their keys and of their layers, give the same plan: the same layers, to
  run in the same order.\<close>

theorem plan_order_irrelevant:
  assumes "parse_plan ds (JObj fs) = Inr p" "jget fs ''layers'' = JObj ls"
    "map_of gs = (map_of fs)(str ''layers'' \<mapsto> JObj ks)" "map_of ks = map_of ls"
  shows "parse_plan ds (JObj gs) = Inr p"
proof -
  obtain l ls' where fs: "unknown_keys plan_top_keys fs = []"
    "jhas fs ''schema'' \<longrightarrow> jget fs ''schema'' = JStr plan_schema"
    "ls = l # ls'" "check_layer_ids (map fst ls) = Inr ()" "parse_layers ds ls (plan_layer_order (map fst ls)) [] = Inr p"
    using assms(1,2) unfolding parse_plan_Inr by auto
  have names: "set (map fst ks) = set (map fst ls)" by (rule same_keys [OF assms(4)])
  obtain k ks' where ks: "ks = k # ks'" using names fs(3) by (cases ks) auto
  have keys: "set (map fst gs) = insert (str ''layers'') (set (map fst fs))"
    using assms(3) by (metis dom_fun_upd dom_map_of_conv_image_fst list.set_map option.distinct(1))
  have "str ''layers'' \<in> set plan_top_keys" by (simp add: plan_top_keys_def)
  then have gs: "unknown_keys plan_top_keys gs = []"
    using fs(1) keys by (auto simp: unknown_keys_def filter_empty_conv sorted_set_Nil_iff)
  have "parse_layers ds ks (plan_layer_order (map fst ks)) [] = Inr p"
    using fs(5) parse_layers_cong [OF assms(4)] plan_layer_order_cong [OF names] by simp
  moreover have "check_layer_ids (map fst ks) = Inr ()"
    using fs(4) names unfolding check_layer_ids_ok by simp
  moreover have "jget gs ''layers'' = JObj ks" "jget gs ''schema'' = jget fs ''schema''" "jhas gs ''schema'' = jhas fs ''schema''"
    using assms(3) by (simp_all add: jget_def jhas_def)
  ultimately show ?thesis
    unfolding parse_plan_Inr using gs fs(2) unfolding ks
    by (intro exI [of _ gs] exI [of _ k] exI [of _ ks'] conjI) simp_all
qed

subsection \<open>A sample plan\<close>

definition sample_dirs :: crate_dirs where
  "sample_dirs = \<lparr>crate_root = map str [''/'', ''crate''], resolve_path = (\<lambda>ps. if 0 \<in> set (concat ps) then Inl ValueError else Inr ps),
     directory_at = (\<lambda>ps. True)\<rparr>"

definition invocation_doc :: "string list \<Rightarrow> string \<Rightarrow> json" where
  "invocation_doc words tool = JObj [(str ''argv'', JArr (map (JStr \<circ> str) words)), (str ''cwd'', JStr (str ''.'')),
     (str ''timeout_seconds'', JInt 600), (str ''evidence_tool'', JStr (str tool))]"

definition layer_doc :: "bool \<Rightarrow> json list \<Rightarrow> json" where
  "layer_doc required xs = JObj [(str ''required'', JBool required), (str ''executions'', JArr xs)]"

definition sample_layers :: fields where
  "sample_layers = [(str ''quint'', layer_doc True [invocation_doc [''quint'', ''verify''] ''quint'']),
     (str ''lean'', layer_doc True [invocation_doc [''lake'', ''build''] ''lake'', invocation_doc [''axioms''] ''gate'']),
     (str ''types'', layer_doc False [invocation_doc [''cargo'', ''check''] ''check''])]"

definition sample_plan_doc :: "fields \<Rightarrow> fields" where
  "sample_plan_doc ls = [(str ''schema'', JStr plan_schema), (str ''layers'', JObj ls)]"

definition sample_invocation :: "string list \<Rightarrow> string \<Rightarrow> invocation" where
  "sample_invocation words tool = \<lparr>argv = map str words, run_cwd = str ''.'', timeout_seconds = 600,
     run_env = [], evidence_tool = Some (str tool)\<rparr>"

definition sample_plan :: plan where
  "sample_plan = [(str ''types'', \<lparr>layer_required = False, layer_executions = [sample_invocation [''cargo'', ''check''] ''check'']\<rparr>),
     (str ''lean'', \<lparr>layer_required = True, layer_executions =
        [sample_invocation [''lake'', ''build''] ''lake'', sample_invocation [''axioms''] ''gate'']\<rparr>),
     (str ''quint'', \<lparr>layer_required = True, layer_executions = [sample_invocation [''quint'', ''verify''] ''quint'']\<rparr>)]"

lemma sample_plan_parses: "parse_plan sample_dirs (JObj (sample_plan_doc sample_layers)) = Inr sample_plan"
  by code_simp

theorem accepted_plan_sound_witness: "plan_ok sample_dirs sample_plan"
  by (rule accepted_plan_sound [OF sample_plan_parses])

theorem plan_order_irrelevant_witness:
  "parse_plan sample_dirs (JObj (rev (sample_plan_doc (rev sample_layers)))) = Inr sample_plan"
proof (rule plan_order_irrelevant [OF sample_plan_parses])
  show "jget (sample_plan_doc sample_layers) ''layers'' = JObj sample_layers" by (simp add: sample_plan_doc_def)
  show "map_of (rev (sample_plan_doc (rev sample_layers))) =
      (map_of (sample_plan_doc sample_layers))(str ''layers'' \<mapsto> JObj (rev sample_layers))"
    by (auto simp: sample_plan_doc_def)
  show "map_of (rev sample_layers) = map_of sample_layers"
    by (rule map_of_eqI) (auto simp: sample_layers_def)
qed

end
