(* ===== verification/Pyramid.thy ===== *)
theory Pyramid
  imports Pyramid_Plan Verdicts
begin

text \<open>
  The headless pyramid runner, \<^verbatim>\<open>scripts/pyramid_run.py\<close>: the layers of a profile and of
  the project's plan, the engineering floors, the verdict and its exit status. Processes, the file
  system and the tool path are the machine: a process may depend on every command run before it,
  and what it does is one of the ends \<^verbatim>\<open>subprocess.run\<close> can come to. Durations are in
  tenths of a second, the precision the runner rounds to. The log of commands is a ghost of the
  model.
\<close>

subsection \<open>Commands\<close>

record call =
  call_argv :: "pystr list"
  call_cwd :: pystr
  call_timeout :: int
  call_env :: "(pystr, pystr) dict"

text \<open>\<open>Raises\<close> is any exception beside a timeout and an \<^verbatim>\<open>OSError\<close>: output that is not
  UTF-8, an argument that does not encode, a timeout the poll call cannot hold.\<close>

datatype proc =
    Exited int pystr pystr nat
  | TimedOut nat
  | LaunchFailed pystr nat
  | Raises py_exn

record run_result =
  run_call :: call
  returncode :: int
  timed_out :: bool
  launch_error :: "pystr option"
  duration :: nat
  stdout_preview :: pystr
  stderr_preview :: pystr

definition preview :: "pystr \<Rightarrow> pystr" where
  "preview s = drop (length s - 500) s"

definition result_of :: "call \<Rightarrow> proc \<Rightarrow> py_exn + run_result" where
  "result_of c p = (case p of
       Exited rc out err d \<Rightarrow> Inr \<lparr>run_call = c, returncode = rc, timed_out = False, launch_error = None,
         duration = d, stdout_preview = preview out, stderr_preview = preview err\<rparr>
     | TimedOut d \<Rightarrow> Inr \<lparr>run_call = c, returncode = -1, timed_out = True, launch_error = None,
         duration = d, stdout_preview = [], stderr_preview = []\<rparr>
     | LaunchFailed e d \<Rightarrow> Inr \<lparr>run_call = c, returncode = -1, timed_out = False, launch_error = Some e,
         duration = d, stdout_preview = [], stderr_preview = []\<rparr>
     | Raises e \<Rightarrow> Inl e)"

datatype toml_file = NoToml | BadToml py_exn | Toml pystr
datatype floors_file = NoFloors | BadFloors | FloorsDoc json

text \<open>The crate and the tools around it. \<open>str_int\<close> is \<^verbatim>\<open>int\<close> of a string, \<open>word_above\<close> the
  word characters outside ASCII, \<open>fuzz_target\<close> whether \<^verbatim>\<open>fuzz_targets/<s>.rs\<close> is a
  file; the Rust sources come sorted, each with its text or the error of reading it.\<close>

record machine =
  dirs :: crate_dirs
  cargo_toml :: toml_file
  plan_file :: "json option option"
  floors_file :: floors_file
  rust_sources :: "(pystr \<times> (py_exn + pystr)) list option"
  fuzz_dir :: bool
  fuzz_target :: "json \<Rightarrow> bool"
  on_path :: "pystr \<Rightarrow> bool"
  process :: "call list \<Rightarrow> call \<Rightarrow> proc"
  str_int :: "pystr \<Rightarrow> int option"
  word_above :: "codepoint \<Rightarrow> bool"
  report_writable :: bool

definition run_cmd :: "machine \<Rightarrow> call \<Rightarrow> call list \<Rightarrow> py_exn + run_result \<times> call list" where
  "run_cmd m c past = rbind (result_of c (process m past c)) (\<lambda>r. Inr (r, past @ [c]))"

definition tool_call :: "int \<Rightarrow> pystr list \<Rightarrow> call" where
  "tool_call seconds words = \<lparr>call_argv = words, call_cwd = str ''.'', call_timeout = seconds, call_env = []\<rparr>"

definition crate_call :: "string list \<Rightarrow> call" where
  "crate_call words = tool_call 1800 (map str words)"

fun run_all :: "machine \<Rightarrow> call list \<Rightarrow> call list \<Rightarrow> py_exn + run_result list \<times> call list" where
  "run_all m [] past = Inr ([], past)"
| "run_all m (c # cs) past =
     rbind (run_cmd m c past) (\<lambda>(r, past').
     rbind (run_all m cs past') (\<lambda>(rs, past'').
     Inr (r # rs, past'')))"

subsection \<open>Floors: the sources\<close>

text \<open>Searching a pattern: \<open>match before s\<close> is the length of its match at the front of \<open>s\<close>, after a
  character that is or is not of a word. \<^verbatim>\<open>findall\<close> goes on behind each match.\<close>

type_synonym matcher = "bool \<Rightarrow> pystr \<Rightarrow> nat option"

fun find_all :: "(codepoint \<Rightarrow> bool) \<Rightarrow> matcher \<Rightarrow> bool \<Rightarrow> nat \<Rightarrow> pystr \<Rightarrow> nat" where
  "find_all w match before skip [] = 0"
| "find_all w match before skip (c # cs) =
     (if 0 < skip then find_all w match (word_char w c) (skip - 1) cs
      else (case match before (c # cs) of
          None \<Rightarrow> find_all w match (word_char w c) 0 cs
        | Some n \<Rightarrow> Suc (find_all w match (word_char w c) (n - 1) cs)))"

definition after_spaces :: "pystr \<Rightarrow> pystr" where
  "after_spaces s = dropWhile py_space s"

text \<open>\<^verbatim>\<open>\bpub\s+(?:fn|struct|enum|trait)\b\<close>\<close>

definition pub_item :: "(codepoint \<Rightarrow> bool) \<Rightarrow> matcher" where
  "pub_item w before s =
     (let rest = drop 3 s; item = after_spaces rest in
      if \<not> before \<and> starts_with s (str ''pub'') \<and> item \<noteq> rest
      then (case filter (\<lambda>k. starts_with item k \<and> \<not> word_first w (drop (length k) item))
              (map str [''fn'', ''struct'', ''enum'', ''trait'']) of
          [] \<Rightarrow> None | k # _ \<Rightarrow> Some (length s - length item + length k))
      else None)"

text \<open>\<^verbatim>\<open>\bname\s*!|#\[\s*name\b\<close>\<close>

definition macro_or_attribute :: "(codepoint \<Rightarrow> bool) \<Rightarrow> pystr \<Rightarrow> matcher" where
  "macro_or_attribute w name before s =
     (let bang = after_spaces (drop (length name) s); item = after_spaces (drop 2 s) in
      if \<not> before \<and> starts_with s name \<and> starts_with bang (str ''!'') then Some (length s - length bang + 1)
      else if starts_with s (str ''#['') \<and> starts_with item name \<and> \<not> word_first w (drop (length name) item)
        then Some (length s - length item + length name)
      else None)"

text \<open>\<^verbatim>\<open>#\[\s*test\s*\]\<close>\<close>

definition test_attribute :: matcher where
  "test_attribute before s =
     (let item = after_spaces (drop 2 s); close = after_spaces (drop 4 item) in
      if starts_with s (str ''#['') \<and> starts_with item (str ''test'') \<and> starts_with close (str '']'')
      then Some (length s - length close + 1) else None)"

definition count_tests :: "(codepoint \<Rightarrow> bool) \<Rightarrow> pystr \<Rightarrow> bool \<Rightarrow> nat" where
  "count_tests w src property_only =
     find_all w (macro_or_attribute w (str ''proptest'')) False 0 src +
     find_all w (macro_or_attribute w (str ''quickcheck'')) False 0 src +
     (if property_only then 0 else find_all w test_attribute False 0 src)"

definition has_public_api :: "(codepoint \<Rightarrow> bool) \<Rightarrow> pystr \<Rightarrow> bool" where
  "has_public_api w src \<longleftrightarrow> 0 < find_all w (pub_item w) False 0 src"

text \<open>\<^verbatim>\<open>^\s*\[workspace\]\<close> at the start of some line.\<close>

fun workspace_line :: "bool \<Rightarrow> pystr \<Rightarrow> bool" where
  "workspace_line start [] \<longleftrightarrow> False"
| "workspace_line start (c # cs) \<longleftrightarrow>
     start \<and> starts_with (after_spaces (c # cs)) (str ''[workspace]'') \<or> workspace_line (c = 10) cs"

definition is_workspace :: "machine \<Rightarrow> py_exn + bool" where
  "is_workspace m = (case cargo_toml m of
       NoToml \<Rightarrow> Inr False | BadToml e \<Rightarrow> Inl e | Toml s \<Rightarrow> Inr (workspace_line True s))"

subsection \<open>Floors: the configuration\<close>

record floors_cfg =
  cfg_features :: fields
  cfg_property_tests :: fields
  cfg_fuzz :: fields

definition floors_schema :: pystr where
  "floors_schema = str ''fv-floors/v2''"

definition default_floors :: floors_cfg where
  "default_floors = \<lparr>cfg_features = [(str ''matrix'', JArr [])],
     cfg_property_tests = [(str ''min_per_module'', JInt 1), (str ''require_property_tests'', JBool False)],
     cfg_fuzz = [(str ''surfaces'', JArr []), (str ''min_seconds'', JInt 30)]\<rparr>"

text \<open>\<^verbatim>\<open>{**base, **user[section]}\<close> when the section is an object.\<close>

definition merge_section :: "fields \<Rightarrow> json \<Rightarrow> fields" where
  "merge_section base v = (case v of JObj fs \<Rightarrow> foldl (\<lambda>d (k, x). dset d k x) base fs | _ \<Rightarrow> base)"

text \<open>A file that cannot be read and an unsupported schema are reported (\<open>Inr None\<close>); a document
  that is not an object meets \<^verbatim>\<open>in\<close>, a subscript or \<^verbatim>\<open>get\<close> it does not have.\<close>

definition load_floors :: "machine \<Rightarrow> py_exn + floors_cfg option" where
  "load_floors m = (case floors_file m of
       NoFloors \<Rightarrow> Inr (Some default_floors)
     | BadFloors \<Rightarrow> Inr None
     | FloorsDoc user \<Rightarrow> (case user of
          JObj fs \<Rightarrow>
            if jhas fs ''schema'' \<and> jget fs ''schema'' \<noteq> JStr floors_schema then Inr None
            else Inr (Some \<lparr>cfg_features = merge_section (cfg_features default_floors) (jget fs ''features''),
              cfg_property_tests = merge_section (cfg_property_tests default_floors) (jget fs ''property_tests''),
              cfg_fuzz = merge_section (cfg_fuzz default_floors) (jget fs ''fuzz'')\<rparr>)
        | JArr xs \<Rightarrow> if JStr (str ''schema'') \<in> set xs then Inl TypeError else Inl AttributeError
        | JStr s \<Rightarrow> if contains (str ''schema'') s then Inl TypeError else Inl AttributeError
        | _ \<Rightarrow> Inl TypeError))"

text \<open>\<^verbatim>\<open>int(v)\<close>, \<^verbatim>\<open>for x in v\<close>, \<^verbatim>\<open>v or []\<close>, \<^verbatim>\<open>",".join(v)\<close>.\<close>

definition py_int_of :: "machine \<Rightarrow> json \<Rightarrow> py_exn + int" where
  "py_int_of m v = (case v of
       JInt i \<Rightarrow> Inr i
     | JBool b \<Rightarrow> Inr (if b then 1 else 0)
     | JReal r \<Rightarrow> Inr (if 0 \<le> r then \<lfloor>r\<rfloor> else \<lceil>r\<rceil>)
     | JStr s \<Rightarrow> (case str_int m s of None \<Rightarrow> Inl ValueError | Some i \<Rightarrow> Inr i)
     | _ \<Rightarrow> Inl TypeError)"

definition or_empty :: "json \<Rightarrow> json" where
  "or_empty v = (if truthy v then v else JArr [])"

definition join_commas :: "json \<Rightarrow> py_exn + pystr" where
  "join_commas v = rbind (iter_items v) (\<lambda>xs.
     if list_all (\<lambda>x. as_str x \<noteq> None) xs then Inr (join (str '','') (map (\<lambda>x. the (as_str x)) xs))
     else Inl TypeError)"

subsection \<open>Layers and their details\<close>

datatype layer_status = LayerPassed | LayerFailed | LayerSkipped | LayerNotApplicable | LayerNotRun

record floors_detail =
  floors_workspace :: bool
  matrix_status :: layer_status
  matrix_combos :: "(json \<times> bool \<times> run_result) list"
  bar_status :: layer_status
  bar_public :: "pystr list"
  bar_below :: "pystr list"
  surface_status :: layer_status
  surfaces_missing :: "json list"
  surfaces_short :: "json list"

datatype layer_detail =
    Remark string
  | CommandRan run_result
  | PlanRan bool "run_result list" "(pystr, nat) dict" "(nat \<times> pystr option \<times> pystr \<times> pystr) list"
  | FuzzRan "pystr list" "(pystr, nat) dict" "run_result list"
  | FloorsRan floors_detail
  | FloorsUnreadable

record run_state =
  layers :: "(pystr, layer_status \<times> layer_detail) dict"
  invoked :: "call list"

definition record_layer :: "pystr \<Rightarrow> layer_status \<Rightarrow> layer_detail \<Rightarrow> run_state \<Rightarrow> run_state" where
  "record_layer layer s d st = st\<lparr>layers := dset (layers st) layer (s, d)\<rparr>"

definition status_of :: "run_state \<Rightarrow> pystr \<Rightarrow> layer_status option" where
  "status_of st layer = map_option fst (map_of (layers st) layer)"

definition exit_status :: "run_result \<Rightarrow> layer_status" where
  "exit_status r = (if returncode r = 0 then LayerPassed else LayerFailed)"

subsection \<open>The floors layer\<close>

definition combo_call :: "bool \<Rightarrow> fields \<Rightarrow> py_exn + call" where
  "combo_call workspace fs =
     (let feats = or_empty (jget fs ''features'') in
      rbind (if truthy feats then rbind (join_commas feats) (\<lambda>t. Inr [str ''--features'', t]) else Inr []) (\<lambda>features.
      Inr (tool_call 1800 (map str [''cargo'', ''check'', ''--quiet''] @
        (if workspace then [str ''--workspace''] else []) @
        (if truthy (jget fs ''no_default_features'') then [str ''--no-default-features''] else []) @
        features @ (if truthy (jget fs ''release'') then [str ''--release''] else [])))))"

definition combo_name :: "fields \<Rightarrow> py_exn + json" where
  "combo_name fs = (if truthy (jget fs ''name'') then Inr (jget fs ''name'')
     else rbind (join_commas (or_empty (jget fs ''features''))) (\<lambda>t.
       Inr (JStr (if t = [] then str ''default'' else t))))"

fun run_combos :: "machine \<Rightarrow> bool \<Rightarrow> json list \<Rightarrow> call list \<Rightarrow>
    py_exn + (json \<times> bool \<times> run_result) list \<times> call list" where
  "run_combos m workspace [] past = Inr ([], past)"
| "run_combos m workspace (combo # combos) past = (case combo of
       JObj fs \<Rightarrow>
         rbind (combo_call workspace fs) (\<lambda>c.
         rbind (run_cmd m c past) (\<lambda>(r, past').
         rbind (combo_name fs) (\<lambda>name.
         rbind (run_combos m workspace combos past') (\<lambda>(rest, past'').
         Inr ((name, truthy (jget fs ''release''), r) # rest, past'')))))
     | _ \<Rightarrow> Inl AttributeError)"

definition feature_matrix :: "machine \<Rightarrow> floors_cfg \<Rightarrow> bool \<Rightarrow> call list \<Rightarrow>
    py_exn + layer_status \<times> (json \<times> bool \<times> run_result) list \<times> call list" where
  "feature_matrix m cfg workspace past =
     (let matrix = or_empty (jget (cfg_features cfg) ''matrix'') in
      if \<not> truthy matrix then
        (if workspace then
           rbind (run_cmd m (crate_call [''cargo'', ''check'', ''--workspace'', ''--quiet'']) past) (\<lambda>(r, past').
           Inr (exit_status r, [(JStr (str ''workspace-default''), False, r)], past'))
         else Inr (LayerNotApplicable, [], past))
      else rbind (iter_items matrix) (\<lambda>combos.
           rbind (run_combos m workspace combos past) (\<lambda>(rs, past').
           Inr (if list_all (\<lambda>(_, _, r). returncode r = 0) rs then LayerPassed else LayerFailed, rs, past'))))"

fun scan_modules :: "machine \<Rightarrow> int \<Rightarrow> bool \<Rightarrow> (pystr \<times> (py_exn + pystr)) list \<Rightarrow> py_exn + pystr list \<times> pystr list" where
  "scan_modules m minimum property_only [] = Inr ([], [])"
| "scan_modules m minimum property_only ((rel, content) # fs) =
     rbind content (\<lambda>src.
     rbind (scan_modules m minimum property_only fs) (\<lambda>(public, below).
     if \<not> has_public_api (word_above m) src then Inr (public, below)
     else Inr (rel # public,
       if int (count_tests (word_above m) src property_only) < minimum then rel # below else below)))"

definition modules_below_bar :: "machine \<Rightarrow> floors_cfg \<Rightarrow> py_exn + layer_status \<times> pystr list \<times> pystr list" where
  "modules_below_bar m cfg =
     rbind (py_int_of m (jget (cfg_property_tests cfg) ''min_per_module'')) (\<lambda>minimum.
     case rust_sources m of
       None \<Rightarrow> Inr (LayerNotApplicable, [], [])
     | Some fs \<Rightarrow>
         rbind (scan_modules m minimum (truthy (jget (cfg_property_tests cfg) ''require_property_tests'')) fs)
           (\<lambda>(public, below).
         Inr (if public = [] then LayerNotApplicable else if below = [] then LayerPassed else LayerFailed,
              public, below)))"

definition durations_of :: "layer_detail \<Rightarrow> (pystr, nat) dict" where
  "durations_of d = (case d of PlanRan _ _ ds _ \<Rightarrow> ds | FuzzRan _ ds _ \<Rightarrow> ds | _ \<Rightarrow> [])"

definition surface_duration :: "(pystr, nat) dict \<Rightarrow> json \<Rightarrow> py_exn + nat" where
  "surface_duration durations s = (case s of
       JStr t \<Rightarrow> Inr (case map_of durations t of None \<Rightarrow> 0 | Some d \<Rightarrow> d)
     | JArr _ \<Rightarrow> Inl TypeError | JObj _ \<Rightarrow> Inl TypeError | _ \<Rightarrow> Inr 0)"

fun short_surfaces :: "(pystr, nat) dict \<Rightarrow> int \<Rightarrow> json list \<Rightarrow> py_exn + json list" where
  "short_surfaces durations min_seconds [] = Inr []"
| "short_surfaces durations min_seconds (s # ss) =
     rbind (surface_duration durations s) (\<lambda>d.
     rbind (short_surfaces durations min_seconds ss) (\<lambda>rest.
     Inr (if int d < 10 * min_seconds then s # rest else rest)))"

definition fuzz_surface_check :: "machine \<Rightarrow> json \<Rightarrow> int \<Rightarrow> (layer_status \<times> layer_detail) option \<Rightarrow>
    py_exn + layer_status \<times> json list \<times> json list" where
  "fuzz_surface_check m surfaces min_seconds fuzz_layer =
     (if \<not> truthy surfaces then Inr (LayerNotApplicable, [], [])
      else rbind (iter_items surfaces) (\<lambda>ss.
        let missing = filter (\<lambda>s. \<not> fuzz_target m s) ss in
        if missing \<noteq> [] then Inr (LayerFailed, missing, [])
        else (case fuzz_layer of
            Some (LayerPassed, d) \<Rightarrow>
              rbind (short_surfaces (durations_of d) min_seconds ss) (\<lambda>short.
              Inr (if short \<noteq> [] then LayerFailed else LayerPassed, [], short))
          | _ \<Rightarrow> Inr (LayerSkipped, [], []))))"

definition aggregate_floors :: "layer_status list \<Rightarrow> layer_status" where
  "aggregate_floors ss = (if LayerFailed \<in> set ss then LayerFailed
     else if LayerSkipped \<in> set ss then LayerSkipped else LayerPassed)"

definition floors_layer :: "machine \<Rightarrow> floors_cfg \<Rightarrow> bool \<Rightarrow> (layer_status \<times> layer_detail) option \<Rightarrow> call list \<Rightarrow>
    py_exn + layer_status \<times> floors_detail \<times> call list" where
  "floors_layer m cfg workspace fuzz_layer past =
     rbind (feature_matrix m cfg workspace past) (\<lambda>(fm, combos, past').
     rbind (modules_below_bar m cfg) (\<lambda>(pb, public, below).
     rbind (py_int_of m (jget (cfg_fuzz cfg) ''min_seconds'')) (\<lambda>min_seconds.
     rbind (fuzz_surface_check m (or_empty (jget (cfg_fuzz cfg) ''surfaces'')) min_seconds fuzz_layer)
       (\<lambda>(fz, missing, short).
     Inr (aggregate_floors [fm, pb, fz],
          \<lparr>floors_workspace = workspace, matrix_status = fm, matrix_combos = combos, bar_status = pb,
           bar_public = public, bar_below = below, surface_status = fz, surfaces_missing = missing,
           surfaces_short = short\<rparr>, past')))))"

subsection \<open>The layers\<close>

definition invocation_call :: "invocation \<Rightarrow> call" where
  "invocation_call i = \<lparr>call_argv = argv i, call_cwd = run_cwd i, call_timeout = timeout_seconds i, call_env = run_env i\<rparr>"

definition plan_durations :: "invocation list \<Rightarrow> run_result list \<Rightarrow> (pystr, nat) dict" where
  "plan_durations is rs = foldl (\<lambda>d (i, r). case evidence_tool i of
       None \<Rightarrow> d | Some [] \<Rightarrow> d | Some t \<Rightarrow> dset d t (duration r)) [] (zip is rs)"

definition plan_launch_errors :: "invocation list \<Rightarrow> run_result list \<Rightarrow> (nat \<times> pystr option \<times> pystr \<times> pystr) list" where
  "plan_launch_errors is rs = List.map_filter (\<lambda>(k, i, r). case launch_error r of
       None \<Rightarrow> None | Some e \<Rightarrow> Some (k, evidence_tool i, hd (argv i), e)) (zip [0..<length is] (zip is rs))"

text \<open>Whether the plan owns the layer, and the state after it ran.\<close>

definition run_plan_layer :: "machine \<Rightarrow> pystr list \<Rightarrow> plan \<Rightarrow> pystr \<Rightarrow> run_state \<Rightarrow> py_exn + bool \<times> run_state" where
  "run_plan_layer m skip p layer st = (case map_of p layer of
       None \<Rightarrow> Inr (False, st)
     | Some spec \<Rightarrow>
         if layer \<in> set skip then Inr (True, record_layer layer LayerSkipped (Remark ''skipped by flag'') st)
         else rbind (run_all m (map invocation_call (layer_executions spec)) (invoked st)) (\<lambda>(rs, past).
           Inr (True, record_layer layer
             (if list_all (\<lambda>r. returncode r = 0) rs then LayerPassed else LayerFailed)
             (PlanRan (layer_required spec) rs (plan_durations (layer_executions spec) rs)
               (plan_launch_errors (layer_executions spec) rs)) (st\<lparr>invoked := past\<rparr>))))"

definition planned_or :: "machine \<Rightarrow> pystr list \<Rightarrow> plan \<Rightarrow> pystr \<Rightarrow> (run_state \<Rightarrow> py_exn + run_state) \<Rightarrow>
    run_state \<Rightarrow> py_exn + run_state" where
  "planned_or m skip p layer builtin st =
     rbind (run_plan_layer m skip p layer st) (\<lambda>(owned, st'). if owned then Inr st' else builtin st')"

definition run_tool :: "machine \<Rightarrow> pystr \<Rightarrow> call \<Rightarrow> run_state \<Rightarrow> py_exn + run_state" where
  "run_tool m layer c st = rbind (run_cmd m c (invoked st)) (\<lambda>(r, past).
     Inr (record_layer layer (exit_status r) (CommandRan r) (st\<lparr>invoked := past\<rparr>)))"

definition skipped_by_flag :: "pystr \<Rightarrow> run_state \<Rightarrow> py_exn + run_state" where
  "skipped_by_flag layer st = Inr (record_layer layer LayerSkipped (Remark ''skipped by flag'') st)"

definition cargo_layer :: "machine \<Rightarrow> pystr list \<Rightarrow> plan \<Rightarrow> string \<Rightarrow> string list \<Rightarrow> run_state \<Rightarrow> py_exn + run_state" where
  "cargo_layer m skip p layer words =
     planned_or m skip p (str layer) (\<lambda>st.
       if str layer \<in> set skip then skipped_by_flag (str layer) st
       else run_tool m (str layer) (crate_call words) st)"

text \<open>\<open>decimal\<close> is the numeral of an integer in an argument.\<close>

definition fuzz_call :: "int \<Rightarrow> pystr \<Rightarrow> call" where
  "fuzz_call seconds target = tool_call (seconds + 300)
     (map str [''cargo'', ''fuzz'', ''run''] @ [target, str ''--'', str ''-max_total_time='' @ decimal seconds])"

definition run_fuzz :: "machine \<Rightarrow> int \<Rightarrow> run_state \<Rightarrow> py_exn + run_state" where
  "run_fuzz m seconds st =
     rbind (run_cmd m (crate_call [''cargo'', ''fuzz'', ''list'']) (invoked st)) (\<lambda>(lst, past).
     let targets = py_words [] (stdout_preview lst) in
     rbind (run_all m (map (fuzz_call seconds) targets) past) (\<lambda>(rs, past').
     Inr (record_layer (str ''fuzz'')
       (if targets \<noteq> [] \<and> list_all (\<lambda>r. returncode r = 0) rs then LayerPassed else LayerFailed)
       (FuzzRan targets (foldl (\<lambda>d (t, r). dset d t (duration r)) [] (zip targets rs)) rs)
       (st\<lparr>invoked := past'\<rparr>))))"

definition fuzz_builtin :: "machine \<Rightarrow> pystr list \<Rightarrow> int \<Rightarrow> pystr list \<Rightarrow> run_state \<Rightarrow> py_exn + run_state" where
  "fuzz_builtin m skip seconds required st =
     (if str ''fuzz'' \<notin> set required \<and> \<not> fuzz_dir m then Inr st
      else if str ''fuzz'' \<in> set skip then skipped_by_flag (str ''fuzz'') st
      else if \<not> fuzz_dir m then Inr (record_layer (str ''fuzz'') LayerNotApplicable (Remark ''no fuzz/ harnesses'') st)
      else if \<not> on_path m (str ''cargo-fuzz'')
        then Inr (record_layer (str ''fuzz'') LayerSkipped (Remark ''cargo-fuzz not installed'') st)
      else run_fuzz m seconds st)"

definition floors_step :: "machine \<Rightarrow> pystr list \<Rightarrow> pystr list \<Rightarrow> run_state \<Rightarrow> py_exn + run_state" where
  "floors_step m skip required st =
     (if str ''floors'' \<notin> set required then Inr st
      else if str ''floors'' \<in> set skip then skipped_by_flag (str ''floors'') st
      else rbind (load_floors m) (\<lambda>loaded. case loaded of
          None \<Rightarrow> Inr (record_layer (str ''floors'') LayerFailed FloorsUnreadable st)
        | Some cfg \<Rightarrow>
            rbind (is_workspace m) (\<lambda>workspace.
            rbind (floors_layer m cfg workspace (map_of (layers st) (str ''fuzz'')) (invoked st)) (\<lambda>(s, d, past).
            Inr (record_layer (str ''floors'') s (FloorsRan d) (st\<lparr>invoked := past\<rparr>))))))"

definition kani_builtin :: "machine \<Rightarrow> pystr list \<Rightarrow> pystr list \<Rightarrow> run_state \<Rightarrow> py_exn + run_state" where
  "kani_builtin m skip required st =
     (if str ''kani'' \<notin> set required then Inr st
      else if str ''kani'' \<in> set skip then skipped_by_flag (str ''kani'') st
      else if \<not> on_path m (str ''cargo-kani'')
        then Inr (record_layer (str ''kani'') LayerSkipped (Remark ''cargo-kani not installed'') st)
      else rbind (run_cmd m (tool_call 120 (map str [''grep'', ''-r'', ''-l'', ''kani::proof'', ''src''])) (invoked st)) (\<lambda>(src, past).
        if launch_error src \<noteq> None \<or> timed_out src
        then Inr (record_layer (str ''kani'') LayerFailed (CommandRan src) (st\<lparr>invoked := past\<rparr>))
        else if returncode src \<noteq> 0
        then Inr (record_layer (str ''kani'') LayerNotApplicable (Remark ''no #[kani::proof] harnesses'') (st\<lparr>invoked := past\<rparr>))
        else run_tool m (str ''kani'') (crate_call [''cargo'', ''kani'']) (st\<lparr>invoked := past\<rparr>)))"

definition verus_builtin :: "machine \<Rightarrow> pystr list \<Rightarrow> pystr list \<Rightarrow> run_state \<Rightarrow> py_exn + run_state" where
  "verus_builtin m skip required st =
     (if str ''verus'' \<notin> set required then Inr st
      else if str ''verus'' \<in> set skip then skipped_by_flag (str ''verus'') st
      else if \<not> (on_path m (str ''cargo-verus'') \<or> on_path m (str ''verus''))
        then Inr (record_layer (str ''verus'') LayerSkipped (Remark ''verus not installed'') st)
      else run_tool m (str ''verus'') (crate_call [''cargo'', ''verus'', ''verify'']) st)"

definition lean_builtin :: "pystr list \<Rightarrow> run_state \<Rightarrow> py_exn + run_state" where
  "lean_builtin required st =
     (if str ''lean'' \<notin> set required then Inr st
      else Inr (record_layer (str ''lean'') LayerNotRun (Remark ''agent-flow layer'') st))"

fun run_custom :: "machine \<Rightarrow> pystr list \<Rightarrow> plan \<Rightarrow> pystr list \<Rightarrow> run_state \<Rightarrow> py_exn + run_state" where
  "run_custom m skip p [] st = Inr st"
| "run_custom m skip p (layer # ls) st =
     (if layer \<in> set layer_order then run_custom m skip p ls st
      else rbind (run_plan_layer m skip p layer st) (\<lambda>(_, st'). run_custom m skip p ls st'))"

definition not_run_below :: "pystr list \<Rightarrow> run_state \<Rightarrow> run_state" where
  "not_run_below names st = foldl (\<lambda>st layer. if map_of (layers st) layer \<noteq> None then st
     else record_layer layer LayerNotRun (Remark ''types layer failed'') st) st names"

subsection \<open>The run\<close>

datatype profile = Tested | Bounded | Proved

fun profile_layers :: "profile \<Rightarrow> pystr list" where
  "profile_layers Tested = map str [''types'', ''lints'', ''proptests'', ''floors'']"
| "profile_layers Bounded = map str [''types'', ''lints'', ''proptests'', ''floors'', ''kani'']"
| "profile_layers Proved = map str [''types'', ''lints'', ''proptests'', ''floors'', ''kani'', ''verus'', ''lean'']"

datatype plan_choice = AutoPlan | NoPlan | PlanAt "json option"

record pyramid_args =
  for_profile :: profile
  skip_layers :: "pystr list"
  fuzz_seconds :: int
  plan_choice :: plan_choice

definition planned_layers :: "plan \<Rightarrow> pystr list" where
  "planned_layers p = map fst (filter (\<lambda>(_, spec). layer_required spec) p)"

definition required_layers :: "machine \<Rightarrow> profile \<Rightarrow> plan \<Rightarrow> pystr list" where
  "required_layers m pr p =
     (let base = profile_layers pr;
          required = (if fuzz_dir m \<and> str ''fuzz'' \<notin> set base then take 3 base @ [str ''fuzz''] @ drop 3 base else base)
      in if planned_layers p = [] then required else plan_layer_order (required @ planned_layers p))"

definition below_types :: "machine \<Rightarrow> pyramid_args \<Rightarrow> plan \<Rightarrow> pystr list \<Rightarrow> run_state \<Rightarrow> py_exn + run_state" where
  "below_types m args p required st =
     (let skip = skip_layers args in
      rbind (cargo_layer m skip p ''lints'' [''cargo'', ''clippy'', ''--quiet'', ''--'', ''-D'', ''warnings''] st) (\<lambda>st.
      rbind (cargo_layer m skip p ''proptests'' [''cargo'', ''test'', ''--quiet''] st) (\<lambda>st.
      rbind (planned_or m skip p (str ''fuzz'') (fuzz_builtin m skip (fuzz_seconds args) required) st) (\<lambda>st.
      rbind (floors_step m skip required st) (\<lambda>st.
      rbind (planned_or m skip p (str ''kani'') (kani_builtin m skip required) st) (\<lambda>st.
      rbind (planned_or m skip p (str ''verus'') (verus_builtin m skip required) st) (\<lambda>st.
      rbind (planned_or m skip p (str ''lean'') (lean_builtin required) st) (\<lambda>st.
      run_custom m skip p (map fst p) st))))))))"

definition run_layers :: "machine \<Rightarrow> pyramid_args \<Rightarrow> plan \<Rightarrow> pystr list \<Rightarrow> py_exn + run_state" where
  "run_layers m args p required =
     rbind (cargo_layer m (skip_layers args) p ''types'' [''cargo'', ''check'', ''--quiet''] \<lparr>layers = [], invoked = []\<rparr>) (\<lambda>st.
     if status_of st (str ''types'') = Some LayerFailed
     then Inr (not_run_below (plan_layer_order (required @ map fst p)) st)
     else below_types m args p required st)"

datatype pyramid_verdict = LayersVerified profile | LayersFailed | LayersIncomplete

definition gating :: "(pystr \<Rightarrow> layer_status option) \<Rightarrow> pystr list \<Rightarrow> layer_status list" where
  "gating statuses required = map (\<lambda>l. case statuses l of None \<Rightarrow> LayerNotRun | Some s \<Rightarrow> s) required"

definition aggregate_verdict :: "profile \<Rightarrow> layer_status list \<Rightarrow> pyramid_verdict" where
  "aggregate_verdict pr ss = (if list_ex (\<lambda>s. s = LayerFailed) ss then LayersFailed
     else if list_ex (\<lambda>s. s \<noteq> LayerPassed) ss then LayersIncomplete else LayersVerified pr)"

datatype pyramid_error = NoCargoToml | BadPlan plan_failure | NoCargo | ReportUnwritable pyramid_verdict

record pyramid_report =
  report_profile :: profile
  report_required :: "pystr list"
  report_plan :: plan
  report_state :: run_state
  report_verdict :: pyramid_verdict

definition chosen_plan :: "machine \<Rightarrow> pyramid_args \<Rightarrow> plan_failure + plan" where
  "chosen_plan m args = (case plan_choice args of
       NoPlan \<Rightarrow> Inr []
     | PlanAt f \<Rightarrow> load_plan (dirs m) f
     | AutoPlan \<Rightarrow> (case plan_file m of None \<Rightarrow> Inr [] | Some f \<Rightarrow> load_plan (dirs m) f))"

definition pyramid_main :: "machine \<Rightarrow> pyramid_args \<Rightarrow> py_exn + (pyramid_error + pyramid_report)" where
  "pyramid_main m args =
     (if cargo_toml m = NoToml then Inr (Inl NoCargoToml)
      else (case chosen_plan m args of
          Inl (PlanCrash e) \<Rightarrow> Inl e
        | Inl failure \<Rightarrow> Inr (Inl (BadPlan failure))
        | Inr p \<Rightarrow>
            if \<not> on_path m (str ''cargo'') then Inr (Inl NoCargo)
            else
              (let required = required_layers m (for_profile args) p in
               rbind (run_layers m args p required) (\<lambda>st.
               let v = aggregate_verdict (for_profile args) (gating (status_of st) required) in
               Inr (if report_writable m
                    then Inr \<lparr>report_profile = for_profile args, report_required = required, report_plan = p,
                           report_state = st, report_verdict = v\<rparr>
                    else Inl (ReportUnwritable v))))))"

fun verdict_exit :: "pyramid_verdict \<Rightarrow> nat" where
  "verdict_exit (LayersVerified _) = 0"
| "verdict_exit LayersFailed = 1"
| "verdict_exit LayersIncomplete = 3"

definition pyramid_exit :: "py_exn + (pyramid_error + pyramid_report) \<Rightarrow> nat" where
  "pyramid_exit r = (case r of Inl _ \<Rightarrow> 1 | Inr (Inl _) \<Rightarrow> 2 | Inr (Inr rep) \<Rightarrow> verdict_exit (report_verdict rep))"

subsection \<open>Commands that succeeded\<close>

definition succeeded :: "machine \<Rightarrow> call list \<Rightarrow> call \<Rightarrow> bool" where
  "succeeded m calls c \<longleftrightarrow> (\<exists>past rest out err d. calls = past @ c # rest \<and> process m past c = Exited 0 out err d)"

lemma succeeded_append: "succeeded m calls c \<Longrightarrow> succeeded m (calls @ more_calls) c"
  unfolding succeeded_def by fastforce

lemma run_cmd_Inr:
  "run_cmd m c past = Inr (r, past') \<Longrightarrow> past' = past @ [c] \<and> (returncode r = 0 \<longrightarrow> succeeded m past' c)"
  by (cases "process m past c") (auto simp: run_cmd_def result_of_def succeeded_def)

lemma run_all_Inr:
  "run_all m cs past = Inr (rs, past') \<Longrightarrow> past' = past @ cs \<and> length rs = length cs \<and>
   (list_all (\<lambda>r. returncode r = 0) rs \<longrightarrow> (\<forall>c \<in> set cs. succeeded m past' c))"
proof (induction cs arbitrary: past rs)
  case (Cons c cs)
  obtain r past1 where r: "run_cmd m c past = Inr (r, past1)" using Cons.prems by (cases "run_cmd m c past") auto
  obtain rest where rest: "run_all m cs past1 = Inr (rest, past')" "rs = r # rest"
    using Cons.prems r by (cases "run_all m cs past1") auto
  show ?case
    using run_cmd_Inr [OF r] Cons.IH [OF rest(1)] rest(2) succeeded_append [of m past1 c cs] by auto
qed simp

subsection \<open>What a passed layer has\<close>

text \<open>A command that exited with 0 after so many tenths of a second; a fuzz target the fuzz layer ran
  for that long, by its own command or by an execution the plan declares for it.\<close>

definition ran_for :: "machine \<Rightarrow> call list \<Rightarrow> call \<Rightarrow> nat \<Rightarrow> bool" where
  "ran_for m calls c d \<longleftrightarrow> (\<exists>past rest out err. calls = past @ c # rest \<and> process m past c = Exited 0 out err d)"

definition fuzzed_for :: "machine \<Rightarrow> plan \<Rightarrow> call list \<Rightarrow> pystr \<Rightarrow> nat \<Rightarrow> bool" where
  "fuzzed_for m p calls t d \<longleftrightarrow> (case map_of p (str ''fuzz'') of
       None \<Rightarrow> \<exists>seconds. ran_for m calls (fuzz_call seconds t) d
     | Some spec \<Rightarrow> \<exists>i \<in> set (layer_executions spec). evidence_tool i = Some t \<and> ran_for m calls (invocation_call i) d)"

definition fuzz_times_earned :: "machine \<Rightarrow> plan \<Rightarrow> layer_detail \<Rightarrow> call list \<Rightarrow> bool" where
  "fuzz_times_earned m p d calls \<longleftrightarrow>
     (\<forall>t n. map_of (durations_of d) t = Some n \<longrightarrow> fuzzed_for m p calls t n)"

text \<open>The floors, read off the configuration, the crate and the commands that ran: each combination of
  the feature matrix was checked by a command that exited with 0 (in a workspace without a matrix,
  the default features were); each source with a public item has the minimum of tests; and each
  fuzz surface has its target file and was fuzzed for the minimum of seconds.\<close>

definition matrix_checked :: "machine \<Rightarrow> floors_cfg \<Rightarrow> bool \<Rightarrow> call list \<Rightarrow> bool" where
  "matrix_checked m cfg workspace calls \<longleftrightarrow>
     (let matrix = or_empty (jget (cfg_features cfg) ''matrix'') in
      if truthy matrix
      then \<exists>combos. iter_items matrix = Inr combos \<and> (\<forall>combo \<in> set combos. \<exists>fs c. combo = JObj fs \<and>
             combo_call workspace fs = Inr c \<and> succeeded m calls c)
      else workspace \<longrightarrow> succeeded m calls (crate_call [''cargo'', ''check'', ''--workspace'', ''--quiet'']))"

definition modules_tested :: "machine \<Rightarrow> floors_cfg \<Rightarrow> bool" where
  "modules_tested m cfg \<longleftrightarrow> (\<exists>minimum. py_int_of m (jget (cfg_property_tests cfg) ''min_per_module'') = Inr minimum \<and>
     (\<forall>fs. rust_sources m = Some fs \<longrightarrow> (\<forall>(rel, content) \<in> set fs. \<exists>src. content = Inr src \<and>
        (has_public_api (word_above m) src \<longrightarrow> minimum \<le> int (count_tests (word_above m) src
           (truthy (jget (cfg_property_tests cfg) ''require_property_tests'')))))))"

definition surfaces_fuzzed :: "machine \<Rightarrow> plan \<Rightarrow> floors_cfg \<Rightarrow> call list \<Rightarrow> bool" where
  "surfaces_fuzzed m p cfg calls \<longleftrightarrow>
     (let surfaces = or_empty (jget (cfg_fuzz cfg) ''surfaces'') in truthy surfaces \<longrightarrow>
      (\<exists>ss k. iter_items surfaces = Inr ss \<and> py_int_of m (jget (cfg_fuzz cfg) ''min_seconds'') = Inr k \<and>
         (\<forall>s \<in> set ss. fuzz_target m s \<and>
            (0 < k \<longrightarrow> (\<exists>t d. s = JStr t \<and> fuzzed_for m p calls t d \<and> 10 * k \<le> int d)))))"

definition floors_met :: "machine \<Rightarrow> plan \<Rightarrow> floors_detail \<Rightarrow> call list \<Rightarrow> bool" where
  "floors_met m p fd calls \<longleftrightarrow> (\<exists>cfg. load_floors m = Inr (Some cfg) \<and> is_workspace m = Inr (floors_workspace fd) \<and>
     matrix_checked m cfg (floors_workspace fd) calls \<and> modules_tested m cfg \<and> surfaces_fuzzed m p cfg calls)"

definition builtin_commands :: "(pystr, call) dict" where
  "builtin_commands =
     [(str ''types'', crate_call [''cargo'', ''check'', ''--quiet'']),
      (str ''lints'', crate_call [''cargo'', ''clippy'', ''--quiet'', ''--'', ''-D'', ''warnings'']),
      (str ''proptests'', crate_call [''cargo'', ''test'', ''--quiet'']),
      (str ''kani'', crate_call [''cargo'', ''kani'']),
      (str ''verus'', crate_call [''cargo'', ''verus'', ''verify''])]"

text \<open>Without a plan for it: the layer's own command exited with 0; there are fuzz targets recorded
  and the command for each of them exited with 0; the floors are met. Lean and the layers of no
  plan never pass.\<close>

definition builtin_earned :: "machine \<Rightarrow> plan \<Rightarrow> pystr \<Rightarrow> layer_detail \<Rightarrow> call list \<Rightarrow> bool" where
  "builtin_earned m p layer d calls \<longleftrightarrow> (case map_of builtin_commands layer of
       Some c \<Rightarrow> succeeded m calls c
     | None \<Rightarrow> (case d of
          FuzzRan targets _ _ \<Rightarrow> layer = str ''fuzz'' \<and> targets \<noteq> [] \<and>
            (\<exists>seconds. \<forall>t \<in> set targets. succeeded m calls (fuzz_call seconds t))
        | FloorsRan fd \<Rightarrow> layer = str ''floors'' \<and> floors_met m p fd calls
        | _ \<Rightarrow> False))"

definition layer_earned :: "machine \<Rightarrow> plan \<Rightarrow> pystr \<Rightarrow> layer_detail \<Rightarrow> call list \<Rightarrow> bool" where
  "layer_earned m p layer d calls \<longleftrightarrow> (case map_of p layer of
       Some spec \<Rightarrow> if layer = str ''floors'' then builtin_earned m p layer d calls
         else \<forall>i \<in> set (layer_executions spec). succeeded m calls (invocation_call i)
     | None \<Rightarrow> builtin_earned m p layer d calls) \<and>
     (layer = str ''fuzz'' \<longrightarrow> fuzz_times_earned m p d calls)"

lemma ran_for_append: "ran_for m calls c d \<Longrightarrow> ran_for m (calls @ more_calls) c d"
  unfolding ran_for_def by fastforce

lemma fuzzed_for_append: "fuzzed_for m p calls t d \<Longrightarrow> fuzzed_for m p (calls @ more_calls) t d"
  unfolding fuzzed_for_def by (auto split: option.splits intro: ran_for_append)

lemma fuzz_times_append: "fuzz_times_earned m p d calls \<Longrightarrow> fuzz_times_earned m p d (calls @ more_calls)"
  unfolding fuzz_times_earned_def using fuzzed_for_append by blast

lemma matrix_checked_append: "matrix_checked m cfg w calls \<Longrightarrow> matrix_checked m cfg w (calls @ more_calls)"
  unfolding matrix_checked_def Let_def by (auto split: if_splits dest: succeeded_append [where more_calls = more_calls]) 
    (meson succeeded_append)

lemma surfaces_fuzzed_append: "surfaces_fuzzed m p cfg calls \<Longrightarrow> surfaces_fuzzed m p cfg (calls @ more_calls)"
  unfolding surfaces_fuzzed_def Let_def using fuzzed_for_append by meson

lemma floors_met_append: "floors_met m p fd calls \<Longrightarrow> floors_met m p fd (calls @ more_calls)"
  unfolding floors_met_def using matrix_checked_append surfaces_fuzzed_append by blast

lemma builtin_earned_append: "builtin_earned m p layer d calls \<Longrightarrow> builtin_earned m p layer d (calls @ more_calls)"
  unfolding builtin_earned_def
  by (auto split: option.splits layer_detail.splits intro: floors_met_append succeeded_append)

lemma layer_earned_append: "layer_earned m p layer d calls \<Longrightarrow> layer_earned m p layer d (calls @ more_calls)"
  unfolding layer_earned_def
  by (auto split: option.splits if_splits intro: builtin_earned_append succeeded_append fuzz_times_append)

lemma run_cmd_ran_for:
  "run_cmd m c past = Inr (r, past') \<Longrightarrow> returncode r = 0 \<Longrightarrow> ran_for m past' c (duration r)"
  by (cases "process m past c") (auto simp: run_cmd_def result_of_def ran_for_def)

lemma run_all_ran_for:
  "run_all m cs past = Inr (rs, past') \<Longrightarrow> list_all (\<lambda>r. returncode r = 0) rs \<Longrightarrow>
   \<forall>(c, r) \<in> set (zip cs rs). ran_for m past' c (duration r)"
proof (induction cs arbitrary: past rs)
  case (Cons c cs)
  obtain r past1 where r: "run_cmd m c past = Inr (r, past1)" using Cons.prems by (cases "run_cmd m c past") auto
  obtain rest where rest: "run_all m cs past1 = Inr (rest, past')" "rs = r # rest"
    using Cons.prems(1) r by (cases "run_all m cs past1") auto
  have "ran_for m past1 c (duration r)" using run_cmd_ran_for [OF r] Cons.prems(2) rest(2) by simp
  then have "ran_for m past' c (duration r)" using ran_for_append run_all_Inr [OF rest(1)] by metis
  then show ?case using Cons.IH [OF rest(1)] Cons.prems(2) rest(2) by auto
qed simp

lemma fuzz_durations:
  "map_of (foldl (\<lambda>d (t, r). dset d t (duration r)) d0 zs) t = Some n \<Longrightarrow>
   map_of d0 t = Some n \<or> (\<exists>r. (t, r) \<in> set zs \<and> n = duration r)"
  by (induction zs arbitrary: d0) (fastforce simp: map_of_dset split: if_splits)+

lemma plan_durations_from:
  assumes "map_of (plan_durations is rs) t = Some n"
  shows "\<exists>i r. (i, r) \<in> set (zip is rs) \<and> evidence_tool i = Some t \<and> n = duration r"
proof -
  have "map_of d0 t = Some n \<or> (\<exists>i r. (i, r) \<in> set zs \<and> evidence_tool i = Some t \<and> n = duration r)"
    if "map_of (foldl (\<lambda>d (i, r). case evidence_tool i of None \<Rightarrow> d | Some [] \<Rightarrow> d
      | Some t \<Rightarrow> dset d t (duration r)) d0 zs) t = Some n" for d0 zs
    using that by (induction zs arbitrary: d0)
      (fastforce simp: map_of_dset split: if_splits option.splits list.splits)+
  from this [of "[]" "zip is rs"] assms show ?thesis by (simp add: plan_durations_def)
qed

text \<open>How the layers named in \<open>L\<close> may advance a run: one recorded status at a time, after some
  further commands, and a pass only where it is earned.\<close>

inductive advance :: "machine \<Rightarrow> plan \<Rightarrow> pystr set \<Rightarrow> run_state \<Rightarrow> run_state \<Rightarrow> bool"
  for m p L where
  stay: "advance m p L st st"
| rec_layer: "advance m p L st st1 \<Longrightarrow> l \<in> L \<Longrightarrow>
     (s = LayerPassed \<Longrightarrow> layer_earned m p l d (invoked st1 @ cs)) \<Longrightarrow>
     advance m p L st (record_layer l s d (st1\<lparr>invoked := invoked st1 @ cs\<rparr>))"

lemma advance_trans: "advance m p L st1 st2 \<Longrightarrow> advance m p L st st1 \<Longrightarrow> advance m p L st st2"
  by (induction rule: advance.induct) (auto intro: advance.intros)

lemma advance_weaken: "advance m p K st st' \<Longrightarrow> K \<subseteq> L \<Longrightarrow> advance m p L st st'"
  by (induction rule: advance.induct) (auto intro: advance.intros)

lemma advance_one:
  "l \<in> L \<Longrightarrow> (s = LayerPassed \<Longrightarrow> layer_earned m p l d (invoked st @ cs)) \<Longrightarrow>
   advance m p L st (record_layer l s d (st\<lparr>invoked := invoked st @ cs\<rparr>))"
  by (rule rec_layer [OF stay])

lemma advance_note: "l \<in> L \<Longrightarrow> s \<noteq> LayerPassed \<Longrightarrow> advance m p L st (record_layer l s d st)"
  using advance_one [of l L s m p d st "[]"] by simp

lemma layers_record [simp]: "map_of (layers (record_layer l s d st)) = (map_of (layers st))(l \<mapsto> (s, d))"
  "invoked (record_layer l s d st) = invoked st"
  by (simp_all add: record_layer_def map_of_dset)

definition earned :: "machine \<Rightarrow> plan \<Rightarrow> run_state \<Rightarrow> bool" where
  "earned m p st \<longleftrightarrow> (\<forall>l d. map_of (layers st) l = Some (LayerPassed, d) \<longrightarrow> layer_earned m p l d (invoked st))"

lemma advance_earned: "advance m p L st st' \<Longrightarrow> earned m p st \<Longrightarrow> earned m p st'"
  by (induction rule: advance.induct) (auto simp: earned_def layer_earned_append)

lemma advance_frame: "advance m p L st st' \<Longrightarrow> l \<notin> L \<Longrightarrow> map_of (layers st') l = map_of (layers st) l"
  by (induction rule: advance.induct) auto

lemma advance_dom: "advance m p L st st' \<Longrightarrow> dom (map_of (layers st)) \<subseteq> dom (map_of (layers st'))"
  by (induction rule: advance.induct) auto

subsection \<open>Every step advances its own layer\<close>

lemma run_plan_layer_advance:
  assumes "run_plan_layer m skip p layer st = Inr (owned, st')" "layer \<noteq> str ''floors''"
  shows "advance m p {layer} st st'" "owned \<longleftrightarrow> map_of p layer \<noteq> None" "owned \<Longrightarrow> map_of (layers st') layer \<noteq> None"
    "\<not> owned \<Longrightarrow> st' = st"
proof -
  have "advance m p {layer} st st' \<and> (owned \<longleftrightarrow> map_of p layer \<noteq> None) \<and> (owned \<longrightarrow> map_of (layers st') layer \<noteq> None) \<and>
      (\<not> owned \<longrightarrow> st' = st)"
  proof (cases "map_of p layer")
    case None
    with assms show ?thesis by (auto simp: run_plan_layer_def intro: stay)
  next
    case (Some spec)
    show ?thesis
    proof (cases "layer \<in> set skip")
      case True
      with Some assms show ?thesis by (auto simp: run_plan_layer_def intro: advance_note)
    next
      case False
      then obtain rs calls where r: "run_all m (map invocation_call (layer_executions spec)) (invoked st) = Inr (rs, calls)"
        using Some assms by (cases "run_all m (map invocation_call (layer_executions spec)) (invoked st)") (auto simp: run_plan_layer_def)
      note all = run_all_Inr [OF r]
      have st': "owned" "st' = record_layer layer (if list_all (\<lambda>r. returncode r = 0) rs then LayerPassed else LayerFailed)
             (PlanRan (layer_required spec) rs (plan_durations (layer_executions spec) rs)
               (plan_launch_errors (layer_executions spec) rs)) (st\<lparr>invoked := calls\<rparr>)"
        using Some assms False r by (simp_all add: run_plan_layer_def)
      have times: "fuzzed_for m p calls t n" if pass: "list_all (\<lambda>r. returncode r = 0) rs" and
        n: "map_of (plan_durations (layer_executions spec) rs) t = Some n" and fz: "layer = str ''fuzz''" for t n
      proof -
        obtain i r' where i: "(i, r') \<in> set (zip (layer_executions spec) rs)" "evidence_tool i = Some t" "n = duration r'"
          using plan_durations_from [OF n] by blast
        then have "(invocation_call i, r') \<in> set (zip (map invocation_call (layer_executions spec)) rs)"
          by (force simp: zip_map1)
        then have "ran_for m calls (invocation_call i) n" using run_all_ran_for [OF r pass] i(3) by blast
        then show ?thesis using Some i(1,2) fz by (auto simp: fuzzed_for_def dest: set_zip_leftD)
      qed
      have "advance m p {layer} st st'"
        unfolding st'(2) using all times Some assms(2)
        by (auto intro!: advance_one simp: layer_earned_def fuzz_times_earned_def durations_of_def split: if_splits)
      then show ?thesis using st' Some by simp
    qed
  qed
  then show "advance m p {layer} st st'" "owned \<longleftrightarrow> map_of p layer \<noteq> None" "owned \<Longrightarrow> map_of (layers st') layer \<noteq> None"
    "\<not> owned \<Longrightarrow> st' = st" by blast+
qed

lemma planned_or_advance:
  assumes "planned_or m skip p layer builtin st = Inr st'" "layer \<noteq> str ''floors''"
    "\<And>st'. map_of p layer = None \<Longrightarrow> builtin st = Inr st' \<Longrightarrow> advance m p {layer} st st' \<and> (need \<longrightarrow> map_of (layers st') layer \<noteq> None)"
  shows "advance m p {layer} st st'" "need \<Longrightarrow> map_of (layers st') layer \<noteq> None"
proof -
  obtain owned st1 where r: "run_plan_layer m skip p layer st = Inr (owned, st1)"
    using assms(1) by (cases "run_plan_layer m skip p layer st") (auto simp: planned_or_def)
  note step = run_plan_layer_advance [OF r assms(2)]
  show "advance m p {layer} st st'" "need \<Longrightarrow> map_of (layers st') layer \<noteq> None"
    using assms(1,3) r step by (cases owned; simp add: planned_or_def)+
qed

lemma builtin_command_earned:
  "map_of p layer = None \<Longrightarrow> map_of builtin_commands layer = Some c \<Longrightarrow>
   layer_earned m p layer d calls \<longleftrightarrow> succeeded m calls c"
  by (auto simp: layer_earned_def builtin_earned_def builtin_commands_def)

lemma run_tool_advance:
  assumes "run_tool m layer c st = Inr st'" "map_of p layer = None" "map_of builtin_commands layer = Some c"
  shows "advance m p {layer} st st' \<and> map_of (layers st') layer \<noteq> None"
proof -
  obtain r calls where r: "run_cmd m c (invoked st) = Inr (r, calls)"
    using assms(1) by (cases "run_cmd m c (invoked st)") (auto simp: run_tool_def)
  have st': "st' = record_layer layer (exit_status r) (CommandRan r) (st\<lparr>invoked := invoked st @ [c]\<rparr>)"
    using assms(1) r run_cmd_Inr [OF r] by (simp add: run_tool_def)
  show ?thesis
    unfolding st' using run_cmd_Inr [OF r] builtin_command_earned [OF assms(2,3)]
    by (auto intro!: advance_one simp: exit_status_def split: if_splits)
qed

lemma skipped_advance:
  "skipped_by_flag layer st = Inr st' \<Longrightarrow> advance m p {layer} st st' \<and> map_of (layers st') layer \<noteq> None"
  by (auto simp: skipped_by_flag_def intro: advance_note)

lemma cargo_layer_advance:
  assumes "cargo_layer m skip p layer words st = Inr st'" "layer \<noteq> ''floors''"
    "map_of builtin_commands (str layer) = Some (crate_call words)"
  shows "advance m p {str layer} st st'" "map_of (layers st') (str layer) \<noteq> None"
  using planned_or_advance [OF assms(1) [unfolded cargo_layer_def], where need = True] assms(2,3)
    skipped_advance run_tool_advance by (auto split: if_splits)

lemma run_fuzz_advance:
  assumes "run_fuzz m seconds st = Inr st'" "map_of p (str ''fuzz'') = None"
  shows "advance m p {str ''fuzz''} st st' \<and> map_of (layers st') (str ''fuzz'') \<noteq> None"
proof -
  obtain lst calls where l: "run_cmd m (crate_call [''cargo'', ''fuzz'', ''list'']) (invoked st) = Inr (lst, calls)"
    using assms(1) by (cases "run_cmd m (crate_call [''cargo'', ''fuzz'', ''list'']) (invoked st)") (auto simp: run_fuzz_def)
  let ?ts = "py_words [] (stdout_preview lst)"
  obtain rs calls' where r: "run_all m (map (fuzz_call seconds) ?ts) calls = Inr (rs, calls')"
    using assms(1) l by (cases "run_all m (map (fuzz_call seconds) ?ts) calls") (auto simp: run_fuzz_def Let_def)
  note all = run_all_Inr [OF r] and one = run_cmd_Inr [OF l]
  define cs where "cs = crate_call [''cargo'', ''fuzz'', ''list''] # map (fuzz_call seconds) ?ts"
  have calls': "calls' = invoked st @ cs" using all one by (simp add: cs_def)
  have st': "st' = record_layer (str ''fuzz'') (if ?ts \<noteq> [] \<and> list_all (\<lambda>r. returncode r = 0) rs then LayerPassed else LayerFailed)
       (FuzzRan ?ts (foldl (\<lambda>d (t, r). dset d t (duration r)) [] (zip ?ts rs)) rs) (st\<lparr>invoked := invoked st @ cs\<rparr>)"
    using assms(1) l r calls' by (simp add: run_fuzz_def Let_def)
  have "advance m p {str ''fuzz''} st st'"
    unfolding st'
  proof (rule advance_one)
    assume pass: "(if ?ts \<noteq> [] \<and> list_all (\<lambda>r. returncode r = 0) rs then LayerPassed else LayerFailed) = LayerPassed"
    then have "?ts \<noteq> []" "\<forall>t \<in> set ?ts. succeeded m (invoked st @ cs) (fuzz_call seconds t)"
      using all calls' by (auto split: if_splits)
    moreover have "fuzzed_for m p (invoked st @ cs) t n"
      if n: "map_of (foldl (\<lambda>d (t, r). dset d t (duration r)) [] (zip ?ts rs)) t = Some n" for t n
    proof -
      obtain r' where "(t, r') \<in> set (zip ?ts rs)" "n = duration r'" using fuzz_durations [OF n] by auto
      then have "(fuzz_call seconds t, r') \<in> set (zip (map (fuzz_call seconds) ?ts) rs)" by (force simp: zip_map1)
      then have "ran_for m calls' (fuzz_call seconds t) n"
        using run_all_ran_for [OF r] pass \<open>n = duration r'\<close> by (auto split: if_splits)
      then show ?thesis using assms(2) calls' by (auto simp: fuzzed_for_def)
    qed
    ultimately show "layer_earned m p (str ''fuzz'') (FuzzRan ?ts (foldl (\<lambda>d (t, r). dset d t (duration r)) [] (zip ?ts rs)) rs) (invoked st @ cs)"
      using assms(2)
      by (auto simp: layer_earned_def builtin_earned_def builtin_commands_def fuzz_times_earned_def durations_of_def)
  qed simp
  then show ?thesis by (simp add: st')
qed

lemma fuzz_builtin_advance:
  assumes "fuzz_builtin m skip seconds required st = Inr st'" "map_of p (str ''fuzz'') = None"
  shows "advance m p {str ''fuzz''} st st' \<and> (str ''fuzz'' \<in> set required \<longrightarrow> map_of (layers st') (str ''fuzz'') \<noteq> None)"
  using assms skipped_advance run_fuzz_advance
  by (auto simp: fuzz_builtin_def intro: stay advance_note split: if_splits)

lemma run_combos_append:
  "run_combos m w combos past = Inr (rs, past') \<Longrightarrow> \<exists>cs. past' = past @ cs"
proof (induction combos arbitrary: past rs)
  case (Cons combo combos)
  obtain fs where combo: "combo = JObj fs" using Cons.prems by (cases combo) auto
  obtain c where c: "combo_call w fs = Inr c" using Cons.prems combo by (cases "combo_call w fs") auto
  obtain r past1 where r: "run_cmd m c past = Inr (r, past1)" using Cons.prems combo c by (cases "run_cmd m c past") auto
  obtain n where n: "combo_name fs = Inr n" using Cons.prems combo c r by (cases "combo_name fs") auto
  obtain rest where "run_combos m w combos past1 = Inr (rest, past')"
    using Cons.prems combo c r n by (cases "run_combos m w combos past1") auto
  then show ?case using Cons.IH run_cmd_Inr [OF r] by fastforce
qed simp

lemma feature_matrix_append:
  assumes "feature_matrix m cfg w past = Inr (fm, combos, past')"
  shows "\<exists>cs. past' = past @ cs"
proof (cases "truthy (or_empty (jget (cfg_features cfg) ''matrix''))")
  case False
  show ?thesis
  proof (cases w)
    case True
    with False assms show ?thesis
      by (cases "run_cmd m (crate_call [''cargo'', ''check'', ''--workspace'', ''--quiet'']) past")
        (auto simp: feature_matrix_def dest: run_cmd_Inr)
  qed (use False assms in \<open>auto simp: feature_matrix_def\<close>)
next
  case True
  obtain xs where xs: "iter_items (or_empty (jget (cfg_features cfg) ''matrix'')) = Inr xs"
    using assms True by (cases "iter_items (or_empty (jget (cfg_features cfg) ''matrix''))") (auto simp: feature_matrix_def Let_def)
  show ?thesis
    using assms True xs
    by (cases "run_combos m w xs past") (auto simp: feature_matrix_def Let_def dest: run_combos_append)
qed

lemma run_combos_checked:
  "run_combos m w combos past = Inr (rs, past') \<Longrightarrow> list_all (\<lambda>(_, _, r). returncode r = 0) rs \<Longrightarrow>
   \<forall>combo \<in> set combos. \<exists>fs c. combo = JObj fs \<and> combo_call w fs = Inr c \<and> succeeded m past' c"
proof (induction combos arbitrary: past rs)
  case (Cons combo combos)
  obtain fs where combo: "combo = JObj fs" using Cons.prems by (cases combo) auto
  obtain c where c: "combo_call w fs = Inr c" using Cons.prems combo by (cases "combo_call w fs") auto
  obtain r past1 where r: "run_cmd m c past = Inr (r, past1)" using Cons.prems combo c by (cases "run_cmd m c past") auto
  obtain n where n: "combo_name fs = Inr n" using Cons.prems combo c r by (cases "combo_name fs") auto
  obtain rest where rest: "run_combos m w combos past1 = Inr (rest, past')"
    using Cons.prems combo c r n by (cases "run_combos m w combos past1") auto
  have rs: "rs = (n, truthy (jget fs ''release''), r) # rest" using Cons.prems(1) combo c r n rest by simp
  obtain cs where "past' = past1 @ cs" using run_combos_append [OF rest] by blast
  moreover have "returncode r = 0" using Cons.prems(2) rs by simp
  then have "succeeded m past1 c" using run_cmd_Inr [OF r] by blast
  ultimately have "succeeded m past' c" using succeeded_append by blast
  then show ?case using Cons.IH [OF rest] Cons.prems(2) rs combo c by simp
qed simp

lemma feature_matrix_checked:
  assumes "feature_matrix m cfg w past = Inr (fm, combos, past')" "fm \<noteq> LayerFailed"
  shows "matrix_checked m cfg w past'"
proof (cases "truthy (or_empty (jget (cfg_features cfg) ''matrix''))")
  case False
  with assms show ?thesis
    by (cases w; cases "run_cmd m (crate_call [''cargo'', ''check'', ''--workspace'', ''--quiet'']) past")
      (auto simp: feature_matrix_def matrix_checked_def exit_status_def dest: run_cmd_Inr split: if_splits)
next
  case True
  obtain xs where xs: "iter_items (or_empty (jget (cfg_features cfg) ''matrix'')) = Inr xs"
    using assms True by (cases "iter_items (or_empty (jget (cfg_features cfg) ''matrix''))") (auto simp: feature_matrix_def Let_def)
  obtain rs calls where rs: "run_combos m w xs past = Inr (rs, calls)"
    using assms(1) True xs by (cases "run_combos m w xs past") (auto simp: feature_matrix_def Let_def)
  have "calls = past'" "list_all (\<lambda>(_, _, r). returncode r = 0) rs"
    using assms True xs rs by (auto simp: feature_matrix_def Let_def split: if_splits)
  then show ?thesis using run_combos_checked [OF rs] xs True by (simp add: matrix_checked_def Let_def)
qed

lemma scan_modules_tested:
  "scan_modules m k po fs = Inr (public, []) \<Longrightarrow> \<forall>(rel, content) \<in> set fs. \<exists>src. content = Inr src \<and>
     (has_public_api (word_above m) src \<longrightarrow> k \<le> int (count_tests (word_above m) src po))"
proof (induction fs arbitrary: public)
  case (Cons f fs)
  obtain rel content where f: "f = (rel, content)" by force
  obtain src where src: "content = Inr src" using Cons.prems f by (cases content) auto
  obtain ps bs where rest: "scan_modules m k po fs = Inr (ps, bs)"
    using Cons.prems f src by (cases "scan_modules m k po fs") auto
  then have "bs = []" "has_public_api (word_above m) src \<longrightarrow> k \<le> int (count_tests (word_above m) src po)"
    using Cons.prems f src by (auto split: if_splits)
  then show ?case using Cons.IH rest f src by simp
qed simp

lemma scan_modules_below:
  "scan_modules m k po fs = Inr (public, below) \<Longrightarrow> set below \<subseteq> set public"
proof (induction fs arbitrary: public below)
  case (Cons f fs)
  obtain rel content where f: "f = (rel, content)" by force
  obtain src where src: "content = Inr src" using Cons.prems f by (cases content) auto
  obtain ps bs where rest: "scan_modules m k po fs = Inr (ps, bs)"
    using Cons.prems f src by (cases "scan_modules m k po fs") auto
  show ?case using Cons.IH [OF rest] Cons.prems by (auto simp: f src rest split: if_splits)
qed simp

lemma modules_below_bar_met:
  assumes "modules_below_bar m cfg = Inr (s, public, below)"
  shows "s \<noteq> LayerSkipped" "s \<noteq> LayerFailed \<Longrightarrow> modules_tested m cfg"
proof -
  obtain k where k: "py_int_of m (jget (cfg_property_tests cfg) ''min_per_module'') = Inr k"
    using assms by (cases "py_int_of m (jget (cfg_property_tests cfg) ''min_per_module'')") (auto simp: modules_below_bar_def)
  have "s \<noteq> LayerSkipped \<and> (s \<noteq> LayerFailed \<longrightarrow> modules_tested m cfg)"
  proof (cases "rust_sources m")
    case None
    with assms k show ?thesis by (auto simp: modules_below_bar_def modules_tested_def)
  next
    case (Some fs)
    let ?scan = "scan_modules m k (truthy (jget (cfg_property_tests cfg) ''require_property_tests'')) fs"
    obtain ps bs where scan: "?scan = Inr (ps, bs)" using assms k Some by (cases ?scan) (auto simp: modules_below_bar_def)
    then have "s = (if ps = [] then LayerNotApplicable else if bs = [] then LayerPassed else LayerFailed)" "below = bs"
      using assms k Some by (auto simp: modules_below_bar_def)
    then have "s \<noteq> LayerSkipped" "s \<noteq> LayerFailed \<Longrightarrow> bs = []"
      using scan_modules_below [OF scan] by (auto split: if_splits)
    moreover have "modules_tested m cfg" if "bs = []"
      using scan_modules_tested scan that k Some by (auto simp: modules_tested_def)
    ultimately show ?thesis by blast
  qed
  then show "s \<noteq> LayerSkipped" "s \<noteq> LayerFailed \<Longrightarrow> modules_tested m cfg" by blast+
qed

lemma short_surfaces_none:
  "short_surfaces ds k ss = Inr [] \<Longrightarrow> \<forall>s \<in> set ss. \<exists>d. surface_duration ds s = Inr d \<and> 10 * k \<le> int d"
proof (induction ss)
  case (Cons s ss)
  obtain d where d: "surface_duration ds s = Inr d" using Cons.prems by (cases "surface_duration ds s") auto
  obtain rest where rest: "short_surfaces ds k ss = Inr rest" using Cons.prems d by (cases "short_surfaces ds k ss") auto
  then have "rest = []" "10 * k \<le> int d" using Cons.prems d by (auto split: if_splits)
  then show ?case using Cons.IH rest d by simp
qed simp

lemma surface_duration_recorded:
  "surface_duration ds s = Inr d \<Longrightarrow> 10 * k \<le> int d \<Longrightarrow> 0 < k \<Longrightarrow> \<exists>t. s = JStr t \<and> map_of ds t = Some d"
  by (cases s) (auto simp: surface_duration_def split: option.splits)

lemma fuzz_surface_check_met:
  assumes "fuzz_surface_check m (or_empty (jget (cfg_fuzz cfg) ''surfaces'')) k fl = Inr (s, missing, short)"
    "s \<noteq> LayerFailed" "s \<noteq> LayerSkipped" "py_int_of m (jget (cfg_fuzz cfg) ''min_seconds'') = Inr k"
    "\<And>d. fl = Some (LayerPassed, d) \<Longrightarrow> fuzz_times_earned m p d calls"
  shows "surfaces_fuzzed m p cfg calls"
proof (cases "truthy (or_empty (jget (cfg_fuzz cfg) ''surfaces''))")
  case True
  let ?v = "or_empty (jget (cfg_fuzz cfg) ''surfaces'')"
  obtain ss where ss: "iter_items ?v = Inr ss" using assms(1) True by (cases "iter_items ?v") (auto simp: fuzz_surface_check_def)
  have there: "filter (\<lambda>s. \<not> fuzz_target m s) ss = []" and fl: "\<exists>d. fl = Some (LayerPassed, d)"
    using assms(1-3) True ss by (auto simp: fuzz_surface_check_def Let_def split: if_splits option.splits prod.splits layer_status.splits)
  then obtain d where d: "fl = Some (LayerPassed, d)" by blast
  obtain sh where sh: "short_surfaces (durations_of d) k ss = Inr sh"
    using assms(1) True ss there d by (cases "short_surfaces (durations_of d) k ss") (auto simp: fuzz_surface_check_def)
  have "Inr (if sh \<noteq> [] then LayerFailed else LayerPassed, [], sh) = (Inr (s, missing, short) :: py_exn + _)"
    using assms(1) True ss there d sh by (auto simp: fuzz_surface_check_def Let_def)
  then have "sh = []" using assms(2) by (auto split: if_splits)
  then have long: "\<forall>s \<in> set ss. \<exists>n. surface_duration (durations_of d) s = Inr n \<and> 10 * k \<le> int n"
    using short_surfaces_none sh by blast
  have "\<exists>t n. s = JStr t \<and> fuzzed_for m p calls t n \<and> 10 * k \<le> int n" if mem: "s \<in> set ss" and pos: "0 < k" for s
  proof -
    obtain n where n: "surface_duration (durations_of d) s = Inr n" "10 * k \<le> int n" using long mem by meson
    then obtain t where t: "s = JStr t" "map_of (durations_of d) t = Some n"
      using surface_duration_recorded [OF n pos] by auto
    have "fuzzed_for m p calls t n" using assms(5) [OF d] t(2) by (simp add: fuzz_times_earned_def)
    with t(1) n(2) show ?thesis by blast
  qed
  moreover have "fuzz_target m s" if "s \<in> set ss" for s using there that by (auto simp: filter_empty_conv)
  ultimately have "\<forall>s \<in> set ss. fuzz_target m s \<and>
      (0 < k \<longrightarrow> (\<exists>t n. s = JStr t \<and> fuzzed_for m p calls t n \<and> 10 * k \<le> int n))"
    by simp
  with ss assms(4) have "\<exists>ss k. iter_items ?v = Inr ss \<and> py_int_of m (jget (cfg_fuzz cfg) ''min_seconds'') = Inr k \<and>
      (\<forall>s \<in> set ss. fuzz_target m s \<and> (0 < k \<longrightarrow> (\<exists>t d. s = JStr t \<and> fuzzed_for m p calls t d \<and> 10 * k \<le> int d)))"
    by (intro exI conjI)
  then show ?thesis unfolding surfaces_fuzzed_def Let_def by (rule impI)
qed (simp add: surfaces_fuzzed_def)

lemma feature_matrix_status:
  assumes "feature_matrix m cfg w past = Inr (fm, combos, past')"
  shows "fm \<noteq> LayerSkipped"
proof (cases "truthy (or_empty (jget (cfg_features cfg) ''matrix''))")
  case False
  with assms show ?thesis
    by (cases w; cases "run_cmd m (crate_call [''cargo'', ''check'', ''--workspace'', ''--quiet'']) past")
      (auto simp: feature_matrix_def exit_status_def split: if_splits)
next
  case True
  obtain xs where xs: "iter_items (or_empty (jget (cfg_features cfg) ''matrix'')) = Inr xs"
    using assms True by (cases "iter_items (or_empty (jget (cfg_features cfg) ''matrix''))") (auto simp: feature_matrix_def Let_def)
  show ?thesis
    using assms True xs
    by (cases "run_combos m w xs past") (auto simp: feature_matrix_def Let_def split: if_splits)
qed

lemma floors_layer_Inr:
  assumes "floors_layer m cfg w fl past = Inr (s, d, past')"
  shows "\<exists>cs. past' = past @ cs"
    "s = LayerPassed \<Longrightarrow> (\<And>d. fl = Some (LayerPassed, d) \<Longrightarrow> fuzz_times_earned m p d past) \<Longrightarrow>
       floors_workspace d = w \<and> matrix_checked m cfg w past' \<and> modules_tested m cfg \<and> surfaces_fuzzed m p cfg past'"
proof -
  obtain fm combos calls where fm: "feature_matrix m cfg w past = Inr (fm, combos, calls)"
    using assms by (cases "feature_matrix m cfg w past") (auto simp: floors_layer_def)
  obtain pb public below where pb: "modules_below_bar m cfg = Inr (pb, public, below)"
    using assms fm by (cases "modules_below_bar m cfg") (auto simp: floors_layer_def)
  obtain k where k: "py_int_of m (jget (cfg_fuzz cfg) ''min_seconds'') = Inr k"
    using assms fm pb by (cases "py_int_of m (jget (cfg_fuzz cfg) ''min_seconds'')") (auto simp: floors_layer_def)
  let ?check = "fuzz_surface_check m (or_empty (jget (cfg_fuzz cfg) ''surfaces'')) k fl"
  obtain fz missing short where fz: "?check = Inr (fz, missing, short)"
    using assms fm pb k by (cases ?check) (auto simp: floors_layer_def)
  have s: "s = aggregate_floors [fm, pb, fz]" "past' = calls" "floors_workspace d = w"
    using assms fm pb k fz by (auto simp: floors_layer_def)
  obtain cs where cs: "past' = past @ cs" using feature_matrix_append [OF fm] s(2) by blast
  then show "\<exists>cs. past' = past @ cs" by blast
  assume "s = LayerPassed" and timed: "\<And>d. fl = Some (LayerPassed, d) \<Longrightarrow> fuzz_times_earned m p d past"
  then have ok: "fm \<noteq> LayerFailed" "pb \<noteq> LayerFailed" "fz \<noteq> LayerFailed" "fz \<noteq> LayerSkipped"
    using s(1) by (auto simp: aggregate_floors_def split: if_splits)
  have "surfaces_fuzzed m p cfg past'"
    by (rule fuzz_surface_check_met [OF fz ok(3,4) k]) (simp add: cs timed fuzz_times_append)
  with feature_matrix_checked [OF fm ok(1)] modules_below_bar_met(2) [OF pb ok(2)] s(2,3)
  show "floors_workspace d = w \<and> matrix_checked m cfg w past' \<and> modules_tested m cfg \<and> surfaces_fuzzed m p cfg past'"
    by simp
qed

lemma floors_step_advance:
  assumes "floors_step m skip required st = Inr st'" "earned m p st"
  shows "advance m p {str ''floors''} st st' \<and> (str ''floors'' \<in> set required \<longrightarrow> map_of (layers st') (str ''floors'') \<noteq> None)"
proof (cases "str ''floors'' \<in> set required \<and> str ''floors'' \<notin> set skip")
  case False
  with assms show ?thesis using skipped_advance by (auto simp: floors_step_def intro: stay split: if_splits)
next
  case True
  obtain loaded where l: "load_floors m = Inr loaded" using assms True by (cases "load_floors m") (auto simp: floors_step_def)
  show ?thesis
  proof (cases loaded)
    case None
    with l assms True show ?thesis by (auto simp: floors_step_def intro: advance_note)
  next
    case (Some cfg)
    obtain w where w: "is_workspace m = Inr w" using assms True l Some by (cases "is_workspace m") (auto simp: floors_step_def)
    let ?f = "floors_layer m cfg w (map_of (layers st) (str ''fuzz'')) (invoked st)"
    obtain s d calls where f: "?f = Inr (s, d, calls)" using assms True l Some w by (cases ?f) (auto simp: floors_step_def)
    obtain cs where cs: "calls = invoked st @ cs" using floors_layer_Inr(1) [OF f] by blast
    have st': "st' = record_layer (str ''floors'') s (FloorsRan d) (st\<lparr>invoked := invoked st @ cs\<rparr>)"
      using assms True l Some w f cs by (simp add: floors_step_def)
    have "fuzz_times_earned m p d' (invoked st)" if "map_of (layers st) (str ''fuzz'') = Some (LayerPassed, d')" for d'
      using assms(2) that by (simp add: earned_def layer_earned_def)
    from floors_layer_Inr(2) [OF f _ this]
    have "s = LayerPassed \<Longrightarrow> floors_met m p d (invoked st @ cs)" using l Some w cs by (auto simp: floors_met_def)
    then have "s = LayerPassed \<Longrightarrow> layer_earned m p (str ''floors'') (FloorsRan d) (invoked st @ cs)"
      by (auto simp: layer_earned_def builtin_earned_def builtin_commands_def split: option.splits)
    then show ?thesis unfolding st' by (auto intro: advance_one)
  qed
qed

lemma kani_builtin_advance:
  assumes "kani_builtin m skip required st = Inr st'" "map_of p (str ''kani'') = None"
  shows "advance m p {str ''kani''} st st' \<and> (str ''kani'' \<in> set required \<longrightarrow> map_of (layers st') (str ''kani'') \<noteq> None)"
proof (cases "str ''kani'' \<in> set required \<and> str ''kani'' \<notin> set skip \<and> on_path m (str ''cargo-kani'')")
  case False
  with assms show ?thesis using skipped_advance by (auto simp: kani_builtin_def intro: stay advance_note split: if_splits)
next
  case True
  let ?c = "tool_call 120 (map str [''grep'', ''-r'', ''-l'', ''kani::proof'', ''src''])"
  obtain src calls where g: "run_cmd m ?c (invoked st) = Inr (src, calls)"
    using assms(1) True by (cases "run_cmd m ?c (invoked st)") (auto simp: kani_builtin_def)
  have calls: "calls = invoked st @ [?c]" using run_cmd_Inr [OF g] by simp
  show ?thesis
  proof (cases "launch_error src \<noteq> None \<or> timed_out src \<or> returncode src \<noteq> 0")
    case gap: True
    then obtain s d where "s \<noteq> LayerPassed" "st' = record_layer (str ''kani'') s d (st\<lparr>invoked := invoked st @ [?c]\<rparr>)"
      using assms(1) True g calls by (auto simp: kani_builtin_def split: if_splits)
    then show ?thesis by (auto intro: advance_one)
  next
    case False
    let ?st = "st\<lparr>invoked := invoked st @ [?c]\<rparr>"
    have "run_tool m (str ''kani'') (crate_call [''cargo'', ''kani'']) ?st = Inr st'"
      using assms(1) True g calls False by (simp add: kani_builtin_def)
    then obtain r calls' where r: "run_cmd m (crate_call [''cargo'', ''kani'']) (invoked st @ [?c]) = Inr (r, calls')"
      "st' = record_layer (str ''kani'') (exit_status r) (CommandRan r) (?st\<lparr>invoked := calls'\<rparr>)"
      by (cases "run_cmd m (crate_call [''cargo'', ''kani'']) (invoked st @ [?c])") (auto simp: run_tool_def)
    then have st': "st' = record_layer (str ''kani'') (exit_status r) (CommandRan r)
        (st\<lparr>invoked := invoked st @ [?c, crate_call [''cargo'', ''kani'']]\<rparr>)"
      using run_cmd_Inr [OF r(1)] by simp
    have "exit_status r = LayerPassed \<Longrightarrow> layer_earned m p (str ''kani'') (CommandRan r)
        (invoked st @ [?c, crate_call [''cargo'', ''kani'']])"
      using run_cmd_Inr [OF r(1)] builtin_command_earned [OF assms(2)]
      by (auto simp: exit_status_def builtin_commands_def split: if_splits)
    then show ?thesis unfolding st' by (auto intro: advance_one)
  qed
qed

lemma verus_builtin_advance:
  assumes "verus_builtin m skip required st = Inr st'" "map_of p (str ''verus'') = None"
  shows "advance m p {str ''verus''} st st' \<and> (str ''verus'' \<in> set required \<longrightarrow> map_of (layers st') (str ''verus'') \<noteq> None)"
  using assms skipped_advance run_tool_advance [of m "str ''verus''" _ _ _ p]
  by (auto simp: verus_builtin_def builtin_commands_def intro: stay advance_note split: if_splits)

lemma lean_builtin_advance:
  "lean_builtin required st = Inr st' \<Longrightarrow> advance m p {str ''lean''} st st' \<and>
     (str ''lean'' \<in> set required \<longrightarrow> map_of (layers st') (str ''lean'') \<noteq> None)"
  by (auto simp: lean_builtin_def intro: stay advance_note split: if_splits)

lemma run_custom_advance:
  "run_custom m skip p ls st = Inr st' \<Longrightarrow> set ls \<subseteq> fst ` set p \<Longrightarrow>
   advance m p (set ls - set layer_order) st st' \<and> (set ls - set layer_order \<subseteq> dom (map_of (layers st')))"
proof (induction ls arbitrary: st)
  case (Cons layer ls)
  show ?case
  proof (cases "layer \<in> set layer_order")
    case True
    with Cons show ?thesis by simp
  next
    case False
    then have nf: "layer \<noteq> str ''floors''" by (auto simp: layer_order_def)
    obtain owned st1 where r: "run_plan_layer m skip p layer st = Inr (owned, st1)"
      using Cons.prems(1) False by (cases "run_plan_layer m skip p layer st") auto
    note one = run_plan_layer_advance [OF r nf]
    have own: owned using one(2) Cons.prems(2) by (auto simp: map_of_eq_None_iff)
    have rest: "advance m p (set ls - set layer_order) st1 st'" "set ls - set layer_order \<subseteq> dom (map_of (layers st'))"
      using Cons.IH [of st1] Cons.prems False r by auto
    have "advance m p (set (layer # ls) - set layer_order) st st'"
      by (rule advance_trans [OF advance_weaken [OF rest(1)] advance_weaken [OF one(1)]]) (use False in auto)
    moreover have "layer \<in> dom (map_of (layers st'))"
      using one(3) [OF own] advance_dom [OF rest(1)] by blast
    ultimately show ?thesis using rest(2) by auto
  qed
qed (simp add: stay)

lemma not_run_below_spec:
  "map_of (layers (not_run_below names st)) l =
     (if map_of (layers st) l = None \<and> l \<in> set names then Some (LayerNotRun, Remark ''types layer failed'')
      else map_of (layers st) l)"
  "invoked (not_run_below names st) = invoked st"
proof -
  have "map_of (layers (not_run_below names st)) l =
     (if map_of (layers st) l = None \<and> l \<in> set names then Some (LayerNotRun, Remark ''types layer failed'')
      else map_of (layers st) l) \<and> invoked (not_run_below names st) = invoked st"
    unfolding not_run_below_def
    by (induction names arbitrary: st) (auto)
  then show "map_of (layers (not_run_below names st)) l =
     (if map_of (layers st) l = None \<and> l \<in> set names then Some (LayerNotRun, Remark ''types layer failed'')
      else map_of (layers st) l)" "invoked (not_run_below names st) = invoked st" by blast+
qed

subsection \<open>The whole run\<close>

lemma rbind_Inr_split: "rbind x f = Inr b \<Longrightarrow> (\<And>a. x = Inr a \<Longrightarrow> f a = Inr b \<Longrightarrow> thesis) \<Longrightarrow> thesis"
  by (cases x) auto

definition all_layers :: "plan \<Rightarrow> pystr set" where
  "all_layers p = set layer_order \<union> fst ` set p"

text \<open>Below a types layer that did not fail: the other layers advance, and each required layer and
  each layer of the plan gets a status.\<close>

lemma below_types_advance:
  assumes "below_types m args p required st = Inr st'" "set required \<subseteq> all_layers p"
    "str ''floors'' \<notin> fst ` set p" "str ''types'' \<in> dom (map_of (layers st))" "earned m p st"
  shows "advance m p (all_layers p - {str ''types''}) st st'"
    "set required \<union> fst ` set p \<subseteq> dom (map_of (layers st'))"
proof -
  let ?sk = "skip_layers args" and ?L = "all_layers p - {str ''types''}"
  obtain s1 s2 s3 s4 s5 s6 s7 where
    r1: "cargo_layer m ?sk p ''lints'' [''cargo'', ''clippy'', ''--quiet'', ''--'', ''-D'', ''warnings''] st = Inr s1" and
    r2: "cargo_layer m ?sk p ''proptests'' [''cargo'', ''test'', ''--quiet''] s1 = Inr s2" and
    r3: "planned_or m ?sk p (str ''fuzz'') (fuzz_builtin m ?sk (fuzz_seconds args) required) s2 = Inr s3" and
    r4: "floors_step m ?sk required s3 = Inr s4" and
    r5: "planned_or m ?sk p (str ''kani'') (kani_builtin m ?sk required) s4 = Inr s5" and
    r6: "planned_or m ?sk p (str ''verus'') (verus_builtin m ?sk required) s5 = Inr s6" and
    r7: "planned_or m ?sk p (str ''lean'') (lean_builtin required) s6 = Inr s7" and
    r8: "run_custom m ?sk p (map fst p) s7 = Inr st'"
    using assms(1) unfolding below_types_def Let_def by (blast elim!: rbind_Inr_split)
  have a1: "advance m p {str ''lints''} st s1" "str ''lints'' \<in> dom (map_of (layers s1))"
    using cargo_layer_advance [OF r1] by (auto simp: builtin_commands_def)
  have a2: "advance m p {str ''proptests''} s1 s2" "str ''proptests'' \<in> dom (map_of (layers s2))"
    using cargo_layer_advance [OF r2] by (auto simp: builtin_commands_def)
  have a3: "advance m p {str ''fuzz''} s2 s3"
    "str ''fuzz'' \<in> set required \<or> map_of p (str ''fuzz'') \<noteq> None \<Longrightarrow> str ''fuzz'' \<in> dom (map_of (layers s3))"
    using planned_or_advance [OF r3, where need = "str ''fuzz'' \<in> set required \<or> map_of p (str ''fuzz'') \<noteq> None"]
      fuzz_builtin_advance by (auto simp: dom_def)
  have e3: "earned m p s3"
    by (rule advance_earned [OF a3(1) advance_earned [OF a2(1) advance_earned [OF a1(1) assms(5)]]])
  have a4: "advance m p {str ''floors''} s3 s4" "str ''floors'' \<in> set required \<Longrightarrow> str ''floors'' \<in> dom (map_of (layers s4))"
    using floors_step_advance [OF r4 e3] by (auto simp: dom_def)
  have a5: "advance m p {str ''kani''} s4 s5"
    "str ''kani'' \<in> set required \<or> map_of p (str ''kani'') \<noteq> None \<Longrightarrow> str ''kani'' \<in> dom (map_of (layers s5))"
    using planned_or_advance [OF r5, where need = "str ''kani'' \<in> set required \<or> map_of p (str ''kani'') \<noteq> None"]
      kani_builtin_advance by (auto simp: dom_def)
  have a6: "advance m p {str ''verus''} s5 s6"
    "str ''verus'' \<in> set required \<or> map_of p (str ''verus'') \<noteq> None \<Longrightarrow> str ''verus'' \<in> dom (map_of (layers s6))"
    using planned_or_advance [OF r6, where need = "str ''verus'' \<in> set required \<or> map_of p (str ''verus'') \<noteq> None"]
      verus_builtin_advance by (auto simp: dom_def)
  have a7: "advance m p {str ''lean''} s6 s7"
    "str ''lean'' \<in> set required \<or> map_of p (str ''lean'') \<noteq> None \<Longrightarrow> str ''lean'' \<in> dom (map_of (layers s7))"
    using planned_or_advance [OF r7, where need = "str ''lean'' \<in> set required \<or> map_of p (str ''lean'') \<noteq> None"]
      lean_builtin_advance by (auto simp: dom_def)
  have a8: "advance m p (fst ` set p - set layer_order) s7 st'" "fst ` set p - set layer_order \<subseteq> dom (map_of (layers st'))"
    using run_custom_advance [OF r8] by simp_all
  have sub: "{str ''lints''} \<subseteq> ?L" "{str ''proptests''} \<subseteq> ?L" "{str ''fuzz''} \<subseteq> ?L" "{str ''floors''} \<subseteq> ?L"
    "{str ''kani''} \<subseteq> ?L" "{str ''verus''} \<subseteq> ?L" "{str ''lean''} \<subseteq> ?L" "fst ` set p - set layer_order \<subseteq> ?L"
    by (auto simp: all_layers_def layer_order_def)
  note w = a1(1) [THEN advance_weaken, OF sub(1)] a2(1) [THEN advance_weaken, OF sub(2)]
    a3(1) [THEN advance_weaken, OF sub(3)] a4(1) [THEN advance_weaken, OF sub(4)]
    a5(1) [THEN advance_weaken, OF sub(5)] a6(1) [THEN advance_weaken, OF sub(6)]
    a7(1) [THEN advance_weaken, OF sub(7)] a8(1) [THEN advance_weaken, OF sub(8)]
  show "advance m p ?L st st'"
    using w by (blast intro: advance_trans)
  note d = w [THEN advance_dom]
  have "l \<in> dom (map_of (layers st'))" if "l \<in> set required \<union> fst ` set p" for l
  proof (cases "l \<in> set layer_order")
    case False
    then have "l \<in> fst ` set p - set layer_order" using that assms(2) by (auto simp: all_layers_def)
    then show ?thesis using a8(2) by blast
  next
    case True
    have pl: "l \<in> fst ` set p \<Longrightarrow> map_of p l \<noteq> None" by (simp add: map_of_eq_None_iff)
    from True consider "l = str ''types''" | "l = str ''lints''" | "l = str ''proptests''" | "l = str ''fuzz''"
      | "l = str ''floors''" | "l = str ''kani''" | "l = str ''verus''" | "l = str ''lean''"
      by (auto simp: layer_order_def)
    then show ?thesis
    proof cases
      case 1 then show ?thesis using assms(4) d by blast
    next
      case 2 then show ?thesis using a1(2) d by blast
    next
      case 3 then show ?thesis using a2(2) d by blast
    next
      case 4 then show ?thesis using a3(2) that pl d by blast
    next
      case 5 then show ?thesis using a4(2) that assms(3) d by blast
    next
      case 6 then show ?thesis using a5(2) that pl d by blast
    next
      case 7 then show ?thesis using a6(2) that pl d by blast
    next
      case 8 then show ?thesis using a7(2) that pl d by blast
    qed
  qed
  then show "set required \<union> fst ` set p \<subseteq> dom (map_of (layers st'))" by blast
qed

lemma run_layers_earned:
  assumes "run_layers m args p required = Inr st'" "set required \<subseteq> all_layers p" "str ''floors'' \<notin> fst ` set p"
  shows "earned m p st'" "set required \<union> fst ` set p \<subseteq> dom (map_of (layers st'))"
    "status_of st' (str ''types'') = Some LayerFailed \<Longrightarrow>
       invoked st' = (case map_of p (str ''types'') of None \<Rightarrow> [crate_call [''cargo'', ''check'', ''--quiet'']]
         | Some spec \<Rightarrow> map invocation_call (layer_executions spec)) \<and>
       (\<forall>l \<in> set required \<union> fst ` set p. l \<noteq> str ''types'' \<longrightarrow> status_of st' l = Some LayerNotRun)"
proof -
  let ?st0 = "\<lparr>layers = [], invoked = []\<rparr>"
  obtain st where t: "cargo_layer m (skip_layers args) p ''types'' [''cargo'', ''check'', ''--quiet''] ?st0 = Inr st"
    using assms(1) by (cases "cargo_layer m (skip_layers args) p ''types'' [''cargo'', ''check'', ''--quiet''] ?st0") (auto simp: run_layers_def)
  have a: "advance m p {str ''types''} ?st0 st" "map_of (layers st) (str ''types'') \<noteq> None"
    using cargo_layer_advance [OF t] by (auto simp: builtin_commands_def)
  have e: "earned m p st" by (rule advance_earned [OF a(1)]) (simp add: earned_def)
  have only: "map_of (layers st) l = None" if "l \<noteq> str ''types''" for l
    using advance_frame [OF a(1)] that by simp
  have "earned m p st' \<and> set required \<union> fst ` set p \<subseteq> dom (map_of (layers st')) \<and>
    (status_of st' (str ''types'') = Some LayerFailed \<longrightarrow>
       invoked st' = (case map_of p (str ''types'') of None \<Rightarrow> [crate_call [''cargo'', ''check'', ''--quiet'']]
         | Some spec \<Rightarrow> map invocation_call (layer_executions spec)) \<and>
       (\<forall>l \<in> set required \<union> fst ` set p. l \<noteq> str ''types'' \<longrightarrow> status_of st' l = Some LayerNotRun))"
  proof (cases "status_of st (str ''types'') = Some LayerFailed")
    case True
    then have st': "st' = not_run_below (plan_layer_order (required @ map fst p)) st"
      using assms(1) t by (simp add: run_layers_def)
    have inv: "invoked st = (case map_of p (str ''types'') of None \<Rightarrow> [crate_call [''cargo'', ''check'', ''--quiet'']]
         | Some spec \<Rightarrow> map invocation_call (layer_executions spec))"
      using True t
      by (auto simp: cargo_layer_def planned_or_def run_plan_layer_def skipped_by_flag_def run_tool_def status_of_def
          split: option.splits if_splits dest: run_all_Inr run_cmd_Inr)
    have "earned m p st'"
      using e by (auto simp: earned_def st' not_run_below_spec split: if_splits)
    moreover have "set required \<union> fst ` set p \<subseteq> dom (map_of (layers st'))"
      by (auto simp: st' not_run_below_spec dom_def image_iff)
    ultimately show ?thesis
      using inv only by (auto simp: st' not_run_below_spec status_of_def)
  next
    case False
    then have b: "below_types m args p required st = Inr st'" using assms(1) t by (simp add: run_layers_def)
    have "str ''types'' \<in> dom (map_of (layers st))" using a(2) by auto
    note below = below_types_advance [OF b assms(2,3) this e]
    have "map_of (layers st') (str ''types'') = map_of (layers st) (str ''types'')"
      by (rule advance_frame [OF below(1)]) simp
    then have "status_of st' (str ''types'') \<noteq> Some LayerFailed" using False by (simp add: status_of_def)
    then show ?thesis using advance_earned [OF below(1) e] below(2) by blast
  qed
  then show "earned m p st'" "set required \<union> fst ` set p \<subseteq> dom (map_of (layers st'))"
    "status_of st' (str ''types'') = Some LayerFailed \<Longrightarrow>
       invoked st' = (case map_of p (str ''types'') of None \<Rightarrow> [crate_call [''cargo'', ''check'', ''--quiet'']]
         | Some spec \<Rightarrow> map invocation_call (layer_executions spec)) \<and>
       (\<forall>l \<in> set required \<union> fst ` set p. l \<noteq> str ''types'' \<longrightarrow> status_of st' l = Some LayerNotRun)"
    by blast+
qed

interpretation layers: g2_rule "aggregate_verdict pr" "\<lambda>s. s = LayerFailed" "\<lambda>s. s \<noteq> LayerPassed \<and> s \<noteq> LayerFailed"
  "\<lambda>v. v = LayersFailed" "\<lambda>v. v = LayersVerified pr" for pr
proof
  fix ss
  show "aggregate_verdict pr ss = LayersFailed \<longleftrightarrow> (\<exists>s \<in> set ss. s = LayerFailed)"
    by (simp add: aggregate_verdict_def list_ex_iff)
  show "aggregate_verdict pr ss = LayersVerified pr \<longleftrightarrow>
      (\<forall>s \<in> set ss. s \<noteq> LayerFailed \<and> \<not> (s \<noteq> LayerPassed \<and> s \<noteq> LayerFailed))"
    by (auto simp: aggregate_verdict_def list_ex_iff)
qed

lemma chosen_plan_floors:
  assumes "chosen_plan m args = Inr p"
  shows "str ''floors'' \<notin> fst ` set p"
proof (cases "p = []")
  case False
  then obtain document where "parse_plan (dirs m) document = Inr p"
    using assms by (auto simp: chosen_plan_def load_plan_def split: plan_choice.splits option.splits)
  then have "plan_ok (dirs m) p" by (rule parse_plan_ok)
  then show ?thesis
    by (fastforce simp: plan_ok_def plan_layers_def plan_reserved_layers_def layer_order_def)
qed simp

lemma set_required_layers:
  "set (required_layers m pr p) = set (profile_layers pr) \<union> (if fuzz_dir m then {str ''fuzz''} else {}) \<union> set (planned_layers p)"
  by (cases pr) (auto simp: required_layers_def Let_def)

lemma required_known: "set (required_layers m pr p) \<subseteq> all_layers p"
  unfolding set_required_layers
  by (cases pr) (auto simp: all_layers_def layer_order_def planned_layers_def)

lemma pyramid_main_report:
  assumes "pyramid_main m args = Inr (Inr rep)"
  shows "chosen_plan m args = Inr (report_plan rep)"
    "report_required rep = required_layers m (for_profile args) (report_plan rep)"
    "run_layers m args (report_plan rep) (report_required rep) = Inr (report_state rep)"
    "report_verdict rep = aggregate_verdict (for_profile args) (gating (status_of (report_state rep)) (report_required rep))"
proof -
  obtain p where p: "chosen_plan m args = Inr p"
    using assms by (cases "chosen_plan m args") (auto simp: pyramid_main_def split: if_splits plan_failure.splits)
  let ?req = "required_layers m (for_profile args) p"
  obtain st where st: "run_layers m args p ?req = Inr st"
    using assms p by (cases "run_layers m args p ?req") (auto simp: pyramid_main_def Let_def split: if_splits)
  show "chosen_plan m args = Inr (report_plan rep)"
    "report_required rep = required_layers m (for_profile args) (report_plan rep)"
    "run_layers m args (report_plan rep) (report_required rep) = Inr (report_state rep)"
    "report_verdict rep = aggregate_verdict (for_profile args) (gating (status_of (report_state rep)) (report_required rep))"
    using assms p st by (auto simp: pyramid_main_def Let_def split: if_splits)
qed

lemmas pyramid_run = run_layers_earned [OF pyramid_main_report(3) _ chosen_plan_floors [OF pyramid_main_report(1)]]

lemma set_gating: "set (gating statuses ls) = (\<lambda>l. case statuses l of None \<Rightarrow> LayerNotRun | Some s \<Rightarrow> s) ` set ls"
  by (simp add: gating_def)

subsection \<open>Sample machines\<close>

text \<open>Every tool is installed and every command succeeds; \<open>listing\<close> is what \<^verbatim>\<open>cargo fuzz list\<close>
  prints.\<close>

definition sample_machine :: "pystr \<Rightarrow> machine" where
  "sample_machine listing = \<lparr>dirs = sample_dirs, cargo_toml = Toml (str ''[package]''), plan_file = None,
     floors_file = NoFloors, rust_sources = None, fuzz_dir = True, fuzz_target = (\<lambda>_. True), on_path = (\<lambda>_. True),
     process = (\<lambda>_ c. Exited 0 (if call_argv c = map str [''cargo'', ''fuzz'', ''list''] then listing else []) [] 300),
     str_int = (\<lambda>_. None), word_above = (\<lambda>_. False), report_writable = True\<rparr>"

definition sample_pyramid_args :: "profile \<Rightarrow> plan_choice \<Rightarrow> pyramid_args" where
  "sample_pyramid_args pr choice = \<lparr>for_profile = pr, skip_layers = [], fuzz_seconds = 30, plan_choice = choice\<rparr>"

definition sample_choice :: plan_choice where
  "sample_choice = PlanAt (Some (JObj (sample_plan_doc sample_layers)))"

definition pyramid_result :: "machine \<Rightarrow> pyramid_args \<Rightarrow> (pyramid_verdict \<times> pystr list \<times> call list) option" where
  "pyramid_result m args = (case pyramid_main m args of
       Inr (Inr rep) \<Rightarrow> Some (report_verdict rep, report_required rep, invoked (report_state rep)) | _ \<Rightarrow> None)"

lemma pyramid_result_Some:
  assumes "pyramid_result m args = Some (v, req, calls)"
  shows "\<exists>rep. pyramid_main m args = Inr (Inr rep) \<and> report_verdict rep = v \<and> report_required rep = req \<and>
    invoked (report_state rep) = calls"
  using assms by (auto simp: pyramid_result_def split: sum.splits)


lemma sample_pyramid:
  "\<exists>rep. pyramid_main (sample_machine (str ''parse'')) (sample_pyramid_args Tested sample_choice) = Inr (Inr rep) \<and>
     report_verdict rep = LayersVerified Tested \<and>
     str ''quint'' \<in> set (report_required rep)"
proof -
  have "case pyramid_main (sample_machine (str ''parse'')) (sample_pyramid_args Tested sample_choice) of
      Inr (Inr rep) \<Rightarrow> report_verdict rep = LayersVerified Tested \<and>
        List.member (report_required rep) (str ''quint'')
    | _ \<Rightarrow> False"
    by code_simp
  then show ?thesis by (auto split: sum.splits)
qed

text \<open>C6. A pyramid verdict is earned. A run that reports VERIFIED names the profile it was asked for;
  every layer of the profile, every layer the plan requires, and fuzzing where the crate has
  harnesses, passed; and a passed layer did its work. Every invocation the plan declares for it
  ran and exited with 0, or, without a plan, its own command did; for fuzzing, the commands of
  the targets the runner recorded, at least one, which are those it read in the preview it keeps
  of the listing, not necessarily every target listed. The floors are met: a command that exited
  with 0 checked each combination of the feature matrix, each source with a public item has its
  minimum of tests, and each fuzz surface has its target file and was fuzzed, by a command that
  exited with 0, for the minimum of seconds. Lean passes only through a plan.\<close>

theorem pyramid_verdict_earned:
  assumes "pyramid_main m args = Inr (Inr rep)" "report_verdict rep = LayersVerified pr"
  shows "pr = for_profile args \<and>
    set (report_required rep) = set (profile_layers pr) \<union> set (planned_layers (report_plan rep)) \<union>
      (if fuzz_dir m then {str ''fuzz''} else {}) \<and>
    (\<forall>l \<in> set (report_required rep). \<exists>d. map_of (layers (report_state rep)) l = Some (LayerPassed, d) \<and>
       layer_earned m (report_plan rep) l d (invoked (report_state rep))) \<and>
    (pr = Proved \<longrightarrow> map_of (report_plan rep) (str ''lean'') \<noteq> None)"
proof -
  note parts = pyramid_main_report [OF assms(1)]
  have earned: "earned m (report_plan rep) (report_state rep)"
    by (rule pyramid_run(1) [OF assms(1) _ assms(1)]) (simp add: parts(2) required_known)
  have pr: "pr = for_profile args" using assms(2) parts(4) by (auto simp: aggregate_verdict_def split: if_splits)
  have all: "\<forall>s \<in> set (gating (status_of (report_state rep)) (report_required rep)). s = LayerPassed"
    using assms(2) parts(4) by (auto simp: aggregate_verdict_def list_ex_iff split: if_splits)
  have passed: "\<exists>d. map_of (layers (report_state rep)) l = Some (LayerPassed, d)" if "l \<in> set (report_required rep)" for l
    using all that by (cases "map_of (layers (report_state rep)) l") (auto simp: set_gating status_of_def split: option.splits)
  have did: "\<exists>d. map_of (layers (report_state rep)) l = Some (LayerPassed, d) \<and>
       layer_earned m (report_plan rep) l d (invoked (report_state rep))" if "l \<in> set (report_required rep)" for l
    using passed [OF that] earned by (auto simp: earned_def)
  have req: "set (report_required rep) = set (profile_layers pr) \<union> set (planned_layers (report_plan rep)) \<union>
      (if fuzz_dir m then {str ''fuzz''} else {})"
    unfolding parts(2) set_required_layers pr by auto
  have "map_of (report_plan rep) (str ''lean'') \<noteq> None" if "pr = Proved"
  proof
    assume none: "map_of (report_plan rep) (str ''lean'') = None"
    have "str ''lean'' \<in> set (report_required rep)" unfolding req that by simp
    then obtain d where "layer_earned m (report_plan rep) (str ''lean'') d (invoked (report_state rep))" using did by blast
    with none show False
      by (auto simp: layer_earned_def builtin_earned_def builtin_commands_def split: layer_detail.splits)
  qed
  with pr req did show ?thesis by blast
qed

definition floors_machine :: machine where
  "floors_machine = (sample_machine (str ''parse''))\<lparr>floors_file := FloorsDoc (obj
     [(''features'', obj [(''matrix'', JArr [obj [(''features'', JArr [jtext ''std''])], obj [(''release'', JBool True)]])]),
      (''fuzz'', obj [(''surfaces'', JArr [jtext ''parse'']), (''min_seconds'', JInt 20)])])\<rparr>"

lemma sample_floors_run:
  "\<exists>rep. pyramid_main floors_machine (sample_pyramid_args Tested sample_choice) = Inr (Inr rep) \<and>
     report_verdict rep = LayersVerified Tested \<and> str ''quint'' \<in> set (report_required rep)"
proof -
  have "case pyramid_main floors_machine (sample_pyramid_args Tested sample_choice) of
      Inr (Inr rep) \<Rightarrow> report_verdict rep = LayersVerified Tested \<and>
        List.member (report_required rep) (str ''quint'')
    | _ \<Rightarrow> False"
    by code_simp
  then show ?thesis by (auto split: sum.splits)
qed

theorem pyramid_verdict_earned_witness:
  "\<exists>rep. pyramid_main floors_machine (sample_pyramid_args Tested sample_choice) = Inr (Inr rep) \<and>
     (\<exists>d. layer_earned floors_machine (report_plan rep) (str ''quint'') d (invoked (report_state rep))) \<and>
     (\<exists>d. layer_earned floors_machine (report_plan rep) (str ''floors'') d (invoked (report_state rep)))"
proof -
  obtain rep where rep: "pyramid_main floors_machine (sample_pyramid_args Tested sample_choice) = Inr (Inr rep)"
    "report_verdict rep = LayersVerified Tested" "str ''quint'' \<in> set (report_required rep)"
    using sample_floors_run by auto
  note earned = pyramid_verdict_earned [OF rep(1,2)]
  have "str ''floors'' \<in> set (profile_layers Tested)" by simp
  with earned have "str ''floors'' \<in> set (report_required rep)" by blast
  with earned rep show ?thesis by blast
qed

text \<open>C20. Nothing is measured on code that does not compile. When the types layer fails, the only
  commands the run invokes are the types layer's own, every other required or declared layer is
  reported as not run, and the verdict is FAILED whatever the profile and the plan.\<close>

theorem types_failure_gates:
  assumes "pyramid_main m args = Inr (Inr rep)" "status_of (report_state rep) (str ''types'') = Some LayerFailed"
  shows "report_verdict rep = LayersFailed \<and>
    invoked (report_state rep) = (case map_of (report_plan rep) (str ''types'') of
        None \<Rightarrow> [crate_call [''cargo'', ''check'', ''--quiet'']]
      | Some spec \<Rightarrow> map invocation_call (layer_executions spec)) \<and>
    (\<forall>l \<in> set (report_required rep) \<union> fst ` set (report_plan rep). l \<noteq> str ''types'' \<longrightarrow>
       status_of (report_state rep) l = Some LayerNotRun)"
proof -
  note parts = pyramid_main_report [OF assms(1)]
  have "str ''types'' \<in> set (report_required rep)"
    unfolding parts(2) set_required_layers by (cases "for_profile args") auto
  then have "LayerFailed \<in> set (gating (status_of (report_state rep)) (report_required rep))"
    unfolding set_gating using assms(2) by force
  then have "report_verdict rep = LayersFailed" unfolding parts(4) layers.failed_iff by blast
  moreover note pyramid_run(3) [OF assms(1) _ assms(1) assms(2)]
  ultimately show ?thesis by (simp add: parts(2) required_known)
qed

definition broken_machine :: machine where
  "broken_machine = (sample_machine [])\<lparr>process := (\<lambda>_ c. Exited 1 [] [] 5)\<rparr>"

theorem types_failure_gates_witness:
  "\<exists>rep. pyramid_main broken_machine (sample_pyramid_args Tested NoPlan) = Inr (Inr rep) \<and>
     report_verdict rep = LayersFailed \<and> length (invoked (report_state rep)) = 1"
proof -
  have "case pyramid_main broken_machine (sample_pyramid_args Tested NoPlan) of
      Inr (Inr rep) \<Rightarrow> status_of (report_state rep) (str ''types'') = Some LayerFailed \<and>
        map_of (report_plan rep) (str ''types'') = None | _ \<Rightarrow> False"
    by code_simp
  then obtain rep where rep: "pyramid_main broken_machine (sample_pyramid_args Tested NoPlan) = Inr (Inr rep)"
    "status_of (report_state rep) (str ''types'') = Some LayerFailed" "map_of (report_plan rep) (str ''types'') = None"
    by (auto split: sum.splits)
  then show ?thesis using types_failure_gates [OF rep(1,2)] by auto
qed

text \<open>C21. No silent gap. Whatever is skipped, missing or broken, every required layer and every layer
  of the plan has a status in the report, and the exit status follows from the statuses alone: 1
  when a required layer failed, 0 when all passed, 3 otherwise.\<close>

theorem no_silent_gap:
  assumes "pyramid_main m args = Inr (Inr rep)"
  shows "set (report_required rep) \<union> fst ` set (report_plan rep) \<subseteq> dom (map_of (layers (report_state rep))) \<and>
    pyramid_exit (Inr (Inr rep)) =
      (if \<exists>l \<in> set (report_required rep). status_of (report_state rep) l = Some LayerFailed then 1
       else if \<forall>l \<in> set (report_required rep). status_of (report_state rep) l = Some LayerPassed then 0 else 3)"
proof -
  note parts = pyramid_main_report [OF assms]
  have dom: "set (report_required rep) \<union> fst ` set (report_plan rep) \<subseteq> dom (map_of (layers (report_state rep)))"
    by (rule pyramid_run(2) [OF assms _ assms]) (simp add: parts(2) required_known)
  have at: "(case status_of (report_state rep) l of None \<Rightarrow> LayerNotRun | Some s \<Rightarrow> s) = s \<longleftrightarrow>
      status_of (report_state rep) l = Some s" if "l \<in> set (report_required rep)" for l s
  proof -
    have "l \<in> dom (map_of (layers (report_state rep)))" by (rule subsetD [OF dom]) (simp add: that)
    then obtain e where "map_of (layers (report_state rep)) l = Some e" by (auto simp: dom_def)
    then show ?thesis by (simp add: status_of_def)
  qed
  have f: "(\<exists>s \<in> set (gating (status_of (report_state rep)) (report_required rep)). s = LayerFailed) \<longleftrightarrow>
      (\<exists>l \<in> set (report_required rep). status_of (report_state rep) l = Some LayerFailed)"
    unfolding set_gating bex_simps(7) Ball_def Bex_def using at by blast
  have v: "(\<exists>s \<in> set (gating (status_of (report_state rep)) (report_required rep)). s \<noteq> LayerPassed) \<longleftrightarrow>
      \<not> (\<forall>l \<in> set (report_required rep). status_of (report_state rep) l = Some LayerPassed)"
    unfolding set_gating bex_simps(7) Ball_def Bex_def using at by blast
  have "pyramid_exit (Inr (Inr rep)) = (if \<exists>s \<in> set (gating (status_of (report_state rep)) (report_required rep)). s = LayerFailed
      then 1 else if \<exists>s \<in> set (gating (status_of (report_state rep)) (report_required rep)). s \<noteq> LayerPassed then 3 else 0)"
    by (simp add: pyramid_exit_def parts(4) aggregate_verdict_def list_ex_iff)
  then show ?thesis unfolding f v using dom by simp
qed

theorem no_silent_gap_witness:
  "\<exists>rep. pyramid_main (sample_machine (str ''parse'')) (sample_pyramid_args Tested sample_choice) = Inr (Inr rep) \<and>
     str ''quint'' \<in> dom (map_of (layers (report_state rep)))"
proof -
  obtain rep where rep: "pyramid_main (sample_machine (str ''parse'')) (sample_pyramid_args Tested sample_choice) = Inr (Inr rep)"
    "str ''quint'' \<in> set (report_required rep)"
    using sample_pyramid by auto
  then show ?thesis using no_silent_gap [OF rep(1)] by blast
qed

text \<open>The fuzz targets are read from a preview. Only the last 500 characters of what
  \<^verbatim>\<open>cargo fuzz list\<close> prints are kept, so a target listed before them is never run, and
  the run still reports VERIFIED.\<close>

theorem listed_target_not_fuzzed:
  "\<exists>listing rep. pyramid_main (sample_machine listing) (sample_pyramid_args Tested NoPlan) = Inr (Inr rep) \<and>
     str ''lost'' \<in> set (py_words [] listing) \<and> report_verdict rep = LayersVerified Tested \<and>
     str ''lost'' \<notin> set (concat (map call_argv (invoked (report_state rep))))"
proof -
  let ?listing = "str ''lost'' @ 10 # replicate 499 120 @ [10]"
  have "case pyramid_main (sample_machine ?listing) (sample_pyramid_args Tested NoPlan) of
      Inr (Inr rep) \<Rightarrow> report_verdict rep = LayersVerified Tested \<and>
        list_all (\<lambda>c. \<not> List.member (call_argv c) (str ''lost'')) (invoked (report_state rep)) | _ \<Rightarrow> False"
    by code_simp
  moreover have "str ''lost'' \<in> set (py_words [] ?listing)" by code_simp
  ultimately show ?thesis by (fastforce simp: list_all_iff split: sum.splits)
qed

text \<open>Two inputs the runner rejects with the wrong status. A floors file that is not an object,
  and a plan whose working directory the operating system cannot even look up, end the process
  with an uncaught exception, whose exit status is that of a failed layer, not the 2 of a
  rejected input.\<close>

theorem rejected_inputs_read_as_failed:
  "pyramid_main ((sample_machine [])\<lparr>floors_file := FloorsDoc (JArr []), fuzz_dir := False\<rparr>) (sample_pyramid_args Tested NoPlan) =
     Inl AttributeError \<and>
   pyramid_main (sample_machine []) (sample_pyramid_args Tested (PlanAt (Some (JObj (sample_plan_doc
     [(str ''types'', layer_doc True [JObj [(str ''argv'', JArr [JStr (str ''true'')]), (str ''cwd'', JStr [97, 0]),
        (str ''timeout_seconds'', JInt 1)]])]))))) = Inl ValueError \<and>
   pyramid_exit (Inl e) = verdict_exit LayersFailed"
proof -
  have "case pyramid_main ((sample_machine [])\<lparr>floors_file := FloorsDoc (JArr []), fuzz_dir := False\<rparr>) (sample_pyramid_args Tested NoPlan) of
     Inl e \<Rightarrow> e = AttributeError | _ \<Rightarrow> False" by code_simp
  moreover have "case pyramid_main (sample_machine []) (sample_pyramid_args Tested (PlanAt (Some (JObj (sample_plan_doc
     [(str ''types'', layer_doc True [JObj [(str ''argv'', JArr [JStr (str ''true'')]), (str ''cwd'', JStr [97, 0]),
        (str ''timeout_seconds'', JInt 1)]])]))))) of Inl e \<Rightarrow> e = ValueError | _ \<Rightarrow> False" by code_simp
  ultimately show ?thesis by (auto simp: pyramid_exit_def split: sum.splits)
qed

end
