(* ===== verification/Run_Manifest.thy ===== *)
theory Run_Manifest
  imports Py_Json
begin

text \<open>
  The dispatch manifest of \<^verbatim>\<open>scripts/fv_run.py\<close>: \<^verbatim>\<open>run.json\<close> as the state machine several
  harnesses share. The manifest is the record the script writes (a hand-edited file of another
  shape is not represented); a time stamp is the whole second it denotes, so that
  \<^verbatim>\<open>_parse_run_ts\<close> is the identity; an elapsed time is rational. A run directory is its
  manifest and its other files, by the name the manifest has for them. What \<^verbatim>\<open>sys.exit\<close>
  reports is a constructor per message.
\<close>

subsection \<open>The manifest\<close>

datatype voice_status = Pending | Complete | Errored | Skipped

record attempt =
  past_status :: voice_status
  past_elapsed :: "rat option"
  past_finish :: "pystr option"
  past_error :: "pystr option"
  reset_at :: int
  moved_to :: "pystr option"

record voice =
  voice_id :: pystr
  harness :: pystr
  voice_file :: pystr
  voice_status :: voice_status
  elapsed_s :: "rat option"
  finish_reason :: "pystr option"
  error_detail :: "pystr option"
  history :: "attempt list"

record manifest =
  run_id :: pystr
  run_target :: pystr
  created :: int
  phase :: pystr
  voices :: "voice list"
  synthesis_file :: pystr
  synthesis_harness :: pystr
  synthesis_status :: voice_status

text \<open>A file of the run directory: what \<^verbatim>\<open>read_text\<close> makes of it and when it was last written.\<close>

record report_file =
  content :: "py_exn + pystr"
  mtime :: rat

type_synonym outputs = "pystr \<Rightarrow> report_file option"

record run_dir =
  disk :: "manifest option"
  outputs :: outputs

datatype run_error =
    NoManifest
  | ZeroVoices
  | DuplicateVoices "pystr list"
  | UnknownVoice pystr "pystr list"
  | BadOwner pystr
  | EmptyVoices
  | RepeatedVoices "pystr list"
  | NoOwner pystr
  | NoTarget
  | NoOutput pystr
  | EmptyOutput pystr
  | StaleOutput pystr
  | NotComplete "(pystr \<times> voice_status) list"
  | NothingComplete
  | Raised py_exn

definition voice_ids :: "manifest \<Rightarrow> pystr list" where
  "voice_ids mf = map voice_id (voices mf)"

definition load_manifest :: "manifest option \<Rightarrow> run_error + manifest" where
  "load_manifest d = (case d of
       None \<Rightarrow> Inl NoManifest
     | Some mf \<Rightarrow>
         if voices mf = [] then Inl ZeroVoices
         else if \<not> distinct (voice_ids mf) then Inl (DuplicateVoices (repeated (voice_ids mf)))
         else Inr mf)"

fun find_in :: "voice list \<Rightarrow> pystr \<Rightarrow> voice option" where
  "find_in [] i = None"
| "find_in (v # vs) i = (if voice_id v = i then Some v else find_in vs i)"

definition find_voice :: "manifest \<Rightarrow> pystr \<Rightarrow> run_error + voice" where
  "find_voice mf i = (case find_in (voices mf) i of
       None \<Rightarrow> Inl (UnknownVoice i (voice_ids mf)) | Some v \<Rightarrow> Inr v)"

text \<open>The voice found is updated where it stands.\<close>

fun put_in :: "voice list \<Rightarrow> voice \<Rightarrow> voice list" where
  "put_in [] w = []"
| "put_in (v # vs) w = (if voice_id v = voice_id w then w # vs else v # put_in vs w)"

definition put_voice :: "manifest \<Rightarrow> voice \<Rightarrow> manifest" where
  "put_voice mf w = mf\<lparr>voices := put_in (voices mf) w\<rparr>"

subsection \<open>Starting a run\<close>

definition split_first :: "codepoint \<Rightarrow> pystr \<Rightarrow> pystr \<times> pystr" where
  "split_first sep s = (takeWhile (\<lambda>c. c \<noteq> sep) s, drop 1 (dropWhile (\<lambda>c. c \<noteq> sep) s))"

fun parse_owners_from :: "(pystr, pystr) dict \<Rightarrow> pystr list \<Rightarrow> run_error + (pystr, pystr) dict" where
  "parse_owners_from out [] = Inr out"
| "parse_owners_from out (p # ps) =
     (if blank p then parse_owners_from out ps
      else if \<not> List.member p 58 then Inl (BadOwner p)
      else parse_owners_from (dset out (strip (fst (split_first 58 p))) (strip (snd (split_first 58 p)))) ps)"

definition parse_owners :: "pystr \<Rightarrow> run_error + (pystr, pystr) dict" where
  "parse_owners s = parse_owners_from [] (split_on 44 s)"

definition slug_for_voice :: "pystr \<Rightarrow> pystr \<Rightarrow> pystr" where
  "slug_for_voice v h =
     (let safe = map (\<lambda>c. if c = 47 \<or> c = 58 then 45 else c) v in
      if v = str ''claude'' \<and> h = str ''omp'' then str ''claude.md''
      else h @ str ''-'' @ safe @ str ''.md'')"

text \<open>\<^verbatim>\<open>strftime("%Y-%m-%dT%H%M%SZ")\<close> of a second since the epoch, in the proleptic Gregorian
  calendar.\<close>

definition two_digits :: "int \<Rightarrow> pystr" where
  "two_digits i = [48 + i div 10 mod 10, 48 + i mod 10]"

definition run_stamp :: "int \<Rightarrow> pystr" where
  "run_stamp t =
     (let z = t div 86400 + 719468; era = z div 146097; doe = z mod 146097;
          yoe = (doe - doe div 1460 + doe div 36524 - doe div 146096) div 365;
          doy = doe - (365 * yoe + yoe div 4 - yoe div 100); mp = (5 * doy + 2) div 153;
          day = doy - (153 * mp + 2) div 5 + 1; month = (if mp < 10 then mp + 3 else mp - 9);
          year = yoe + era * 400 + (if month \<le> 2 then 1 else 0); s = t mod 86400 in
      decimal year @ str ''-'' @ two_digits month @ str ''-'' @ two_digits day @ str ''T'' @
      two_digits (s div 3600) @ two_digits (s div 60 mod 60) @ two_digits (s mod 60) @ str ''Z'')"

text \<open>\<^verbatim>\<open>Path.stem\<close>: the last component without its suffix.\<close>

definition path_stem :: "pystr list \<Rightarrow> pystr" where
  "path_stem path =
     (let name = (if path = [] then [] else last path);
          front = rev (drop 1 (dropWhile (\<lambda>c. c \<noteq> 46) (rev name))) in
      if List.member name 46 \<and> front \<noteq> [] \<and> last name \<noteq> 46 then front else name)"

text \<open>Walking up to the directory that has a \<^verbatim>\<open>.fv\<close>; a path is its components below the root.\<close>

fun walk_up :: "(pystr list \<Rightarrow> bool) \<Rightarrow> nat \<Rightarrow> pystr list \<Rightarrow> pystr list" where
  "walk_up fv_dir 0 path = path"
| "walk_up fv_dir (Suc n) path =
     (if path = [] \<or> fv_dir path then path else walk_up fv_dir n (butlast path))"

definition default_run_dir :: "(pystr list \<Rightarrow> bool) \<Rightarrow> pystr list \<Rightarrow> pystr \<Rightarrow> pystr list" where
  "default_run_dir fv_dir target rid =
     (let parent = walk_up fv_dir (length target) (butlast target) in
      if fv_dir parent then parent @ [str ''.fv'', str ''attacks'', rid]
      else butlast target @ [str ''attacks-'' @ rid])"

record init_args =
  init_target :: "pystr list"
  target_exists :: bool
  init_voices :: pystr
  init_owners :: pystr
  init_dir :: "pystr list option"
  init_phase :: pystr
  init_synthesis :: pystr

definition voices_named :: "pystr \<Rightarrow> pystr list" where
  "voices_named s = filter (\<lambda>v. v \<noteq> []) (map strip (split_on 44 s))"

definition new_voice :: "(pystr, pystr) dict \<Rightarrow> pystr \<Rightarrow> voice" where
  "new_voice owners v =
     (let h = (case map_of owners v of None \<Rightarrow> [] | Some h \<Rightarrow> h) in
      \<lparr>voice_id = v, harness = h, voice_file = slug_for_voice v h, voice_status = Pending,
       elapsed_s = None, finish_reason = None, error_detail = None, history = []\<rparr>)"

definition roster :: "init_args \<Rightarrow> run_error + voice list" where
  "roster args =
     (let vs = voices_named (init_voices args) in
      if \<not> target_exists args then Inl NoTarget
      else if vs = [] then Inl EmptyVoices
      else if \<not> distinct vs then Inl (RepeatedVoices (repeated vs))
      else rbind (if init_owners args = [] then Inr [] else parse_owners (init_owners args)) (\<lambda>owners.
        case filter (\<lambda>v. map_of owners v = None) vs of
          v # _ \<Rightarrow> Inl (NoOwner v)
        | [] \<Rightarrow> Inr (map (new_voice owners) vs)))"

text \<open>The manifest a run starts with, and the directory it is written to.\<close>

definition cmd_init :: "(pystr list \<Rightarrow> bool) \<Rightarrow> int \<Rightarrow> init_args \<Rightarrow> run_error + pystr list \<times> manifest" where
  "cmd_init fv_dir now args = rbind (roster args) (\<lambda>vs.
     let rid = path_stem (init_target args) @ str ''-'' @ run_stamp now in
     Inr (case init_dir args of Some d \<Rightarrow> d | None \<Rightarrow> default_run_dir fv_dir (init_target args) rid,
       \<lparr>run_id = rid, run_target = str ''/'' @ join (str ''/'') (init_target args), created = now,
        phase = init_phase args, voices = vs, synthesis_file = str ''synthesis.md'',
        synthesis_harness = init_synthesis args, synthesis_status = Pending\<rparr>))"

subsection \<open>The voices' commands\<close>

text \<open>The commands run their body on the manifest loaded under the lock, then save it.\<close>

datatype command =
    CompleteVoice pystr "rat option" "pystr option"
  | ErrorVoice pystr pystr "rat option"
  | ResetVoice pystr

fun command_voice :: "command \<Rightarrow> pystr" where
  "command_voice (CompleteVoice i e f) = i"
| "command_voice (ErrorVoice i d e) = i"
| "command_voice (ResetVoice i) = i"

definition given :: "'a option \<Rightarrow> 'a option \<Rightarrow> 'a option" where
  "given new old = (case new of None \<Rightarrow> old | Some x \<Rightarrow> Some x)"

definition floor_stamp :: "manifest \<Rightarrow> voice \<Rightarrow> int" where
  "floor_stamp mf v = foldl max (created mf) (map reset_at (history v))"

definition do_complete :: "manifest \<Rightarrow> outputs \<Rightarrow> voice \<Rightarrow> rat option \<Rightarrow> pystr option \<Rightarrow> run_error + voice" where
  "do_complete mf out v elapsed finish = (case out (voice_file v) of
       None \<Rightarrow> Inl (NoOutput (voice_file v))
     | Some f \<Rightarrow>
         if content f = Inr [] then Inl (EmptyOutput (voice_file v))
         else if mtime f < of_int (floor_stamp mf v) - 1 then Inl (StaleOutput (voice_file v))
         else Inr (v\<lparr>voice_status := Complete, elapsed_s := given elapsed (elapsed_s v),
           finish_reason := (if finish = None \<or> finish = Some [] then finish_reason v else finish),
           error_detail := None\<rparr>))"

definition do_error :: "voice \<Rightarrow> pystr \<Rightarrow> rat option \<Rightarrow> voice" where
  "do_error v detail elapsed =
     v\<lparr>voice_status := Errored, error_detail := Some detail, elapsed_s := given elapsed (elapsed_s v)\<rparr>"

definition aside_name :: "voice \<Rightarrow> pystr" where
  "aside_name v = voice_file v @ str ''.attempt'' @ decimal (int (length (history v)) + 1)"

definition base_name :: "pystr \<Rightarrow> pystr" where
  "base_name s = last (split_on 47 s)"

definition do_reset :: "int \<Rightarrow> outputs \<Rightarrow> voice \<Rightarrow> voice \<times> outputs" where
  "do_reset now out v =
     (let aside = aside_name v; there = out (voice_file v) \<noteq> None;
          past = \<lparr>past_status = voice_status v, past_elapsed = elapsed_s v, past_finish = finish_reason v,
            past_error = error_detail v, reset_at = now,
            moved_to = (if there then Some (base_name aside) else None)\<rparr> in
      (v\<lparr>voice_status := Pending, elapsed_s := None, finish_reason := None, error_detail := None,
         history := history v @ [past]\<rparr>,
       if there then (out(voice_file v := None))(aside := out (voice_file v)) else out))"

definition run_body :: "rat \<Rightarrow> manifest \<Rightarrow> outputs \<Rightarrow> command \<Rightarrow> run_error + manifest \<times> outputs" where
  "run_body now mf out cmd = rbind (find_voice mf (command_voice cmd)) (\<lambda>v. case cmd of
       CompleteVoice i e f \<Rightarrow> rbind (do_complete mf out v e f) (\<lambda>w. Inr (put_voice mf w, out))
     | ErrorVoice i d e \<Rightarrow> Inr (put_voice mf (do_error v d e), out)
     | ResetVoice i \<Rightarrow> (case do_reset \<lfloor>now\<rfloor> out v of (w, out') \<Rightarrow> Inr (put_voice mf w, out')))"

text \<open>A whole command, as one process alone would run it.\<close>

definition run_command :: "rat \<Rightarrow> command \<Rightarrow> run_dir \<Rightarrow> run_error + run_dir" where
  "run_command now cmd rd = rbind (load_manifest (disk rd)) (\<lambda>mf.
     rbind (run_body now mf (outputs rd) cmd) (\<lambda>(mf', out). Inr \<lparr>disk = Some mf', outputs = out\<rparr>))"

subsection \<open>Reading a run\<close>

definition status_exit :: "run_dir \<Rightarrow> run_error + nat" where
  "status_exit rd = rbind (load_manifest (disk rd)) (\<lambda>mf.
     let statuses = map voice_status (voices mf) in
     Inr (if List.member statuses Errored then 2 else if List.member statuses Pending then 1 else 0))"

definition completed :: "manifest \<Rightarrow> voice list" where
  "completed mf = filter (\<lambda>v. voice_status v = Complete) (voices mf)"

text \<open>One look of \<^verbatim>\<open>wait\<close>: \<open>None\<close> while a voice is pending, else the exit status.\<close>

definition wait_look :: "manifest \<Rightarrow> nat option" where
  "wait_look mf =
     (if List.member (map voice_status (voices mf)) Pending then None
      else if completed mf = [] then Some 2 else Some 0)"

text \<open>The loop of \<^verbatim>\<open>wait\<close>: the deadline is set at \<open>ticks 0\<close>; round \<open>k\<close> reads the monotonic clock, \<open>ticks k\<close>, and the manifest then on
  disk, \<open>seen k\<close>. It need not return when the ticks stands still.\<close>

partial_function (option) wait_from ::
  "(nat \<Rightarrow> rat) \<Rightarrow> (nat \<Rightarrow> manifest option) \<Rightarrow> rat \<Rightarrow> nat \<Rightarrow> (run_error + nat) option" where
  "wait_from ticks seen deadline k =
     (if ticks k < deadline
      then (case load_manifest (seen k) of
          Inl e \<Rightarrow> Some (Inl e)
        | Inr mf \<Rightarrow> (case wait_look mf of
            Some r \<Rightarrow> Some (Inr r)
          | None \<Rightarrow> wait_from ticks seen deadline (Suc k)))
      else Some (Inr 1))"

definition poll_interval :: "rat \<Rightarrow> rat \<Rightarrow> rat" where
  "poll_interval poll timeout = max 2 (min poll timeout)"

definition cmd_wait :: "(nat \<Rightarrow> rat) \<Rightarrow> (nat \<Rightarrow> manifest option) \<Rightarrow> rat \<Rightarrow> (run_error + nat) option" where
  "cmd_wait ticks seen timeout = wait_from ticks seen (ticks 0 + timeout) 1"

subsection \<open>Several harnesses at once\<close>

text \<open>What happens in a run directory: time passes, a harness writes or deletes a file, a command
  returns (with what it refused with, if it did). In a serial run each command is one step.\<close>

datatype event = Tick rat | Write pystr "py_exn + pystr" | Delete pystr | Did command "run_error option"

inductive serial_step :: "run_dir \<times> rat \<Rightarrow> event \<Rightarrow> run_dir \<times> rat \<Rightarrow> bool" where
  tick: "t \<le> t' \<Longrightarrow> serial_step (rd, t) (Tick t') (rd, t')"
| write_file: "serial_step (rd, t) (Write n c) (rd\<lparr>outputs := (outputs rd)(n \<mapsto> \<lparr>content = c, mtime = t\<rparr>)\<rparr>, t)"
| delete_file: "serial_step (rd, t) (Delete n) (rd\<lparr>outputs := (outputs rd)(n := None)\<rparr>, t)"
| accepted: "run_command t cmd rd = Inr rd' \<Longrightarrow> serial_step (rd, t) (Did cmd None) (rd', t)"
| refused: "run_command t cmd rd = Inl e \<Longrightarrow> serial_step (rd, t) (Did cmd (Some e)) (rd, t)"

inductive_cases serial_stepE: "serial_step (rd, t) ev (rd', t')"

inductive serial :: "run_dir \<times> rat \<Rightarrow> event list \<Rightarrow> run_dir \<times> rat \<Rightarrow> bool" where
  start: "serial s [] s"
| later: "serial s evs s' \<Longrightarrow> serial_step s' ev s'' \<Longrightarrow> serial s (evs @ [ev]) s''"

text \<open>In a concurrent run a command takes the lock, loads the manifest, runs its body on what it
  loaded and saves; everything else may happen in between.\<close>

datatype process = Ready command | Locked command | Loaded command manifest | Computed command manifest
  | Ended "run_error option"

record system =
  dir :: run_dir
  clock :: rat
  holder :: "nat option"
  procs :: "nat \<Rightarrow> process option"

inductive concurrent_step :: "system \<Rightarrow> event option \<Rightarrow> system \<Rightarrow> bool" where
  tick: "clock s \<le> t \<Longrightarrow> concurrent_step s (Some (Tick t)) (s\<lparr>clock := t\<rparr>)"
| write_file: "concurrent_step s (Some (Write n c))
    (s\<lparr>dir := (dir s)\<lparr>outputs := (outputs (dir s))(n \<mapsto> \<lparr>content = c, mtime = clock s\<rparr>)\<rparr>\<rparr>)"
| delete_file: "concurrent_step s (Some (Delete n))
    (s\<lparr>dir := (dir s)\<lparr>outputs := (outputs (dir s))(n := None)\<rparr>\<rparr>)"
| lock: "procs s p = Some (Ready cmd) \<Longrightarrow> holder s = None \<Longrightarrow>
    concurrent_step s None (s\<lparr>holder := Some p, procs := (procs s)(p \<mapsto> Locked cmd)\<rparr>)"
| load: "procs s p = Some (Locked cmd) \<Longrightarrow> load_manifest (disk (dir s)) = Inr mf \<Longrightarrow>
    concurrent_step s None (s\<lparr>procs := (procs s)(p \<mapsto> Loaded cmd mf)\<rparr>)"
| load_fails: "procs s p = Some (Locked cmd) \<Longrightarrow> load_manifest (disk (dir s)) = Inl e \<Longrightarrow>
    concurrent_step s (Some (Did cmd (Some e))) (s\<lparr>holder := None, procs := (procs s)(p \<mapsto> Ended (Some e))\<rparr>)"
| body: "procs s p = Some (Loaded cmd mf) \<Longrightarrow> run_body (clock s) mf (outputs (dir s)) cmd = Inr (mf', out) \<Longrightarrow>
    concurrent_step s (Some (Did cmd None))
      (s\<lparr>dir := (dir s)\<lparr>outputs := out\<rparr>, procs := (procs s)(p \<mapsto> Computed cmd mf')\<rparr>)"
| body_fails: "procs s p = Some (Loaded cmd mf) \<Longrightarrow> run_body (clock s) mf (outputs (dir s)) cmd = Inl e \<Longrightarrow>
    concurrent_step s (Some (Did cmd (Some e))) (s\<lparr>holder := None, procs := (procs s)(p \<mapsto> Ended (Some e))\<rparr>)"
| save: "procs s p = Some (Computed cmd mf) \<Longrightarrow>
    concurrent_step s None (s\<lparr>dir := (dir s)\<lparr>disk := Some mf\<rparr>, holder := None, procs := (procs s)(p \<mapsto> Ended None)\<rparr>)"

inductive concurrent :: "system \<Rightarrow> event list \<Rightarrow> system \<Rightarrow> bool" where
  start: "concurrent s [] s"
| later: "concurrent s evs s' \<Longrightarrow> concurrent_step s' ev s'' \<Longrightarrow> concurrent s (evs @ (case ev of None \<Rightarrow> [] | Some e \<Rightarrow> [e])) s''"

text \<open>The directory the run stands for: what the holder of the lock has computed counts as saved.\<close>

fun unsaved :: "process option \<Rightarrow> manifest option" where
  "unsaved (Some (Computed cmd mf)) = Some mf"
| "unsaved _ = None"

definition settled :: "system \<Rightarrow> run_dir" where
  "settled s = (case holder s of
       None \<Rightarrow> dir s
     | Some p \<Rightarrow> (case unsaved (procs s p) of None \<Rightarrow> dir s | Some mf \<Rightarrow> (dir s)\<lparr>disk := Some mf\<rparr>))"

fun inside :: "process option \<Rightarrow> bool" where
  "inside (Some (Locked cmd)) \<longleftrightarrow> True"
| "inside (Some (Loaded cmd mf)) \<longleftrightarrow> True"
| "inside (Some (Computed cmd mf)) \<longleftrightarrow> True"
| "inside _ \<longleftrightarrow> False"

fun up_to_date :: "run_dir \<Rightarrow> process option \<Rightarrow> bool" where
  "up_to_date rd (Some (Loaded cmd mf)) \<longleftrightarrow> load_manifest (disk rd) = Inr mf"
| "up_to_date rd _ \<longleftrightarrow> True"

text \<open>Mutual exclusion, and a loaded manifest is the one on disk.\<close>

definition locked_ok :: "system \<Rightarrow> bool" where
  "locked_ok s \<longleftrightarrow> (\<forall>p. (inside (procs s p) \<longleftrightarrow> holder s = Some p) \<and> up_to_date (dir s) (procs s p))"

lemma up_to_date_disk: "disk rd = disk rd' \<Longrightarrow> up_to_date rd pr = up_to_date rd' pr"
  by (cases "(rd, pr)" rule: up_to_date.cases) auto

lemma up_to_date_outside: "\<not> inside pr \<Longrightarrow> up_to_date rd pr"
  by (cases "(rd, pr)" rule: up_to_date.cases) auto

lemma locked_okI:
  "(\<And>p. inside (procs s p) \<longleftrightarrow> holder s = Some p) \<Longrightarrow> (\<And>p. up_to_date (dir s) (procs s p)) \<Longrightarrow> locked_ok s"
  by (simp add: locked_ok_def)

lemma locked_okD:
  assumes "locked_ok s"
  shows "inside (procs s p) \<longleftrightarrow> holder s = Some p" "up_to_date (dir s) (procs s p)"
  using assms by (auto simp: locked_ok_def)

lemma locked_loaded: "locked_ok s \<Longrightarrow> procs s p = Some (Loaded cmd mf) \<Longrightarrow> load_manifest (disk (dir s)) = Inr mf"
  using locked_okD(2) [of s p] by simp

lemma locked_ok_files:
  assumes "locked_ok s" "procs s' = procs s" "holder s' = holder s" "disk (dir s') = disk (dir s)"
  shows "locked_ok s'"
  using locked_okD [OF assms(1)] up_to_date_disk [OF assms(4)] by (intro locked_okI) (simp_all add: assms)

lemma locked_ok_release:
  assumes "locked_ok s" "inside (procs s p)" "procs s' = (procs s)(p \<mapsto> Ended r)" "holder s' = None"
  shows "locked_ok s'"
proof -
  have p: "holder s = Some p" using assms(2) locked_okD(1) [OF assms(1)] by simp
  have out: "\<not> inside (procs s' q)" for q
    using p locked_okD(1) [OF assms(1), of q] by (simp add: assms(3))
  then show ?thesis by (intro locked_okI) (simp_all add: assms(4) up_to_date_outside)
qed

lemma locked_ok_stay:
  assumes "locked_ok s" "inside (Some x)" "procs s' = (procs s)(p \<mapsto> x)" "holder s' = Some p"
    "holder s = Some p \<or> holder s = None" "disk (dir s') = disk (dir s)" "up_to_date (dir s) (Some x)"
  shows "locked_ok s'"
proof (rule locked_okI)
  show "inside (procs s' q) \<longleftrightarrow> holder s' = Some q" for q
    using locked_okD(1) [OF assms(1), of q] assms(2,5) by (auto simp: assms(3,4))
  show "up_to_date (dir s') (procs s' q)" for q
    using locked_okD(2) [OF assms(1), of q] assms(7) up_to_date_disk [OF assms(6)] by (simp add: assms(3))
qed

lemma locked_ok_step:
  assumes "concurrent_step s ev s'" "locked_ok s"
  shows "locked_ok s'"
  using assms(1)
proof cases
  case (load p cmd mf)
  then have "holder s = Some p" using locked_okD(1) [OF assms(2), of p] by simp
  with load show ?thesis using locked_ok_stay [OF assms(2), of "Loaded cmd mf" s' p] by simp
next
  case (body p cmd mf mf' out)
  then have "holder s = Some p" using locked_okD(1) [OF assms(2), of p] by simp
  with body show ?thesis using locked_ok_stay [OF assms(2), of "Computed cmd mf'" s' p] by simp
next
  case (lock p cmd)
  then show ?thesis using locked_ok_stay [OF assms(2), of "Locked cmd" s' p] by simp
next
  case (load_fails p cmd e)
  then show ?thesis using locked_ok_release [OF assms(2), of p s' "Some e"] by simp
next
  case (body_fails p cmd mf e)
  then show ?thesis using locked_ok_release [OF assms(2), of p s' "Some e"] by simp
next
  case (save p cmd mf)
  then show ?thesis using locked_ok_release [OF assms(2), of p s' None] by simp
qed (use locked_ok_files [OF assms(2)] in simp_all)

lemma serial_one: "serial_step s ev s' \<Longrightarrow> serial s [ev] s'"
  using serial.later [OF serial.start] by fastforce

lemma settled_idle: "unsaved (procs s p) = None \<Longrightarrow> holder s = Some p \<Longrightarrow> settled s = dir s"
  by (simp add: settled_def)

lemma settled_step:
  assumes "concurrent_step s ev s'" "locked_ok s"
  shows "case ev of None \<Rightarrow> settled s' = settled s \<and> clock s' = clock s
    | Some e \<Rightarrow> serial_step (settled s, clock s) e (settled s', clock s')"
  using assms
proof cases
  case (tick t)
  then show ?thesis by (auto simp: settled_def intro: serial_step.tick split: option.splits)
next
  case (write_file n c)
  have "settled s' = (settled s)\<lparr>outputs := (outputs (settled s))(n \<mapsto> \<lparr>content = c, mtime = clock s\<rparr>)\<rparr>"
    unfolding write_file settled_def by (auto split: option.splits)
  then show ?thesis unfolding write_file using serial_step.write_file by simp
next
  case (delete_file n)
  have "settled s' = (settled s)\<lparr>outputs := (outputs (settled s))(n := None)\<rparr>"
    unfolding delete_file settled_def by (auto split: option.splits)
  then show ?thesis unfolding delete_file using serial_step.delete_file by simp
next
  case (lock p cmd)
  then show ?thesis by (auto simp: settled_def)
next
  case (load p cmd mf)
  then show ?thesis using locked_okD(1) [OF assms(2), of p] by (auto simp: settled_def)
next
  case (load_fails p cmd e)
  then have "settled s = dir s" "settled s' = dir s"
    using locked_okD(1) [OF assms(2), of p] by (auto simp: settled_def)
  with load_fails show ?thesis by (auto simp: run_command_def intro: serial_step.refused)
next
  case (body p cmd mf mf' out)
  note loaded = locked_loaded [OF assms(2) body(3)]
  from body have "settled s = dir s" "settled s' = \<lparr>disk = Some mf', outputs = out\<rparr>"
    using locked_okD(1) [OF assms(2), of p] by (auto simp: settled_def)
  with body loaded show ?thesis by (auto simp: run_command_def intro: serial_step.accepted)
next
  case (body_fails p cmd mf e)
  note loaded = locked_loaded [OF assms(2) body_fails(3)]
  from body_fails have "settled s = dir s" "settled s' = dir s"
    using locked_okD(1) [OF assms(2), of p] by (auto simp: settled_def)
  with body_fails loaded show ?thesis by (auto simp: run_command_def intro: serial_step.refused)
next
  case (save p cmd mf)
  then show ?thesis using locked_okD(1) [OF assms(2), of p] by (auto simp: settled_def)
qed

lemma concurrent_serial:
  assumes "concurrent s0 evs s" "locked_ok s0"
  shows "locked_ok s \<and> serial (settled s0, clock s0) evs (settled s, clock s)"
  using assms
proof induction
  case (start s)
  then show ?case by (simp add: serial.start)
next
  case (later s0 evs s' ev s'')
  then have ih: "locked_ok s'" "serial (settled s0, clock s0) evs (settled s', clock s')" by auto
  show ?case
  proof (cases ev)
    case None
    then show ?thesis using ih settled_step [OF later.hyps(2) ih(1)] locked_ok_step [OF later.hyps(2) ih(1)] by simp
  next
    case (Some e)
    then show ?thesis using ih settled_step [OF later.hyps(2) ih(1)] locked_ok_step [OF later.hyps(2) ih(1)]
      by (auto intro: serial.later)
  qed
qed

definition idle :: "system \<Rightarrow> bool" where
  "idle s \<longleftrightarrow> holder s = None \<and> (\<forall>p. \<not> inside (procs s p))"

lemma idle_locked_ok: "idle s \<Longrightarrow> locked_ok s"
  by (simp add: idle_def locked_ok_def up_to_date_outside)

lemma settled_unheld: "holder s = None \<Longrightarrow> settled s = dir s"
  by (simp add: settled_def)

subsection \<open>Invariants of a run\<close>

text \<open>What every step of a serial run keeps holds throughout, and so throughout a concurrent run; the
  invariant may speak of the events so far.\<close>

locale run_invariant =
  fixes I :: "event list \<Rightarrow> run_dir \<Rightarrow> rat \<Rightarrow> bool"
  assumes kept: "I evs rd t \<Longrightarrow> serial_step (rd, t) ev (rd', t') \<Longrightarrow> I (evs @ [ev]) rd' t'"
begin

lemma serial_keeps:
  assumes "serial st evs st'" "I [] (fst st) (snd st)"
  shows "I evs (fst st') (snd st')"
  using assms
proof induction
  case (start s)
  then show ?case by simp
next
  case (later s evs s' ev s'')
  then show ?case using kept [of evs "fst s'" "snd s'" ev "fst s''" "snd s''"] by simp
qed

lemma concurrent_keeps:
  assumes "concurrent s evs s'" "idle s" "I [] (dir s) (clock s)"
  shows "I evs (settled s') (clock s')"
proof -
  have "serial (dir s, clock s) evs (settled s', clock s')"
    using concurrent_serial [OF assms(1) idle_locked_ok [OF assms(2)]] assms(2) settled_unheld [of s]
    by (simp add: idle_def)
  from serial_keeps [OF this] assms(3) show ?thesis by simp
qed

end

lemma find_in_Some: "find_in vs i = Some v \<Longrightarrow> v \<in> set vs \<and> voice_id v = i"
  by (induction vs) (auto split: if_splits)

lemma find_in_None: "find_in vs i = None \<longleftrightarrow> i \<notin> voice_id ` set vs"
  by (induction vs) auto

lemma put_in_map:
  "distinct (map voice_id vs) \<Longrightarrow> put_in vs w = map (\<lambda>v. if voice_id v = voice_id w then w else v) vs"
proof (induction vs)
  case (Cons v vs)
  have "map (\<lambda>v. if voice_id v = voice_id w then w else v) vs = vs" if "voice_id w \<notin> voice_id ` set vs"
    using that by (intro map_idI) (auto simp: image_iff)
  with Cons show ?case by auto
qed simp

lemma load_manifest_Inr [simp]:
  "load_manifest d = Inr mf \<longleftrightarrow> d = Some mf \<and> voices mf \<noteq> [] \<and> distinct (voice_ids mf)"
  by (auto simp: load_manifest_def split: option.splits)

lemma find_voice_Inr [simp]: "find_voice mf i = Inr v \<longleftrightarrow> find_in (voices mf) i = Some v"
  by (simp add: find_voice_def split: option.splits)

text \<open>What a command makes of its voice and of the files.\<close>

definition voice_step :: "rat \<Rightarrow> manifest \<Rightarrow> outputs \<Rightarrow> command \<Rightarrow> voice \<Rightarrow> voice \<Rightarrow> outputs \<Rightarrow> bool" where
  "voice_step t mf out cmd v w out' \<longleftrightarrow> (case cmd of
       CompleteVoice i e f \<Rightarrow> do_complete mf out v e f = Inr w \<and> out' = out
     | ErrorVoice i d e \<Rightarrow> w = do_error v d e \<and> out' = out
     | ResetVoice i \<Rightarrow> do_reset \<lfloor>t\<rfloor> out v = (w, out'))"

lemma run_command_Inr:
  assumes "run_command t cmd rd = Inr rd'"
  shows "\<exists>mf v w. disk rd = Some mf \<and> distinct (voice_ids mf) \<and> v \<in> set (voices mf) \<and>
    voice_id v = command_voice cmd \<and> voice_step t mf (outputs rd) cmd v w (outputs rd') \<and> disk rd' = Some (put_voice mf w)"
proof -
  obtain mf mf' out where mf: "disk rd = Some mf" "distinct (voice_ids mf)"
    "run_body t mf (outputs rd) cmd = Inr (mf', out)" "rd' = \<lparr>disk = Some mf', outputs = out\<rparr>"
    using assms by (auto simp: run_command_def)
  then obtain v where v: "find_in (voices mf) (command_voice cmd) = Some v"
    by (auto simp: run_body_def)
  have "\<exists>w. voice_step t mf (outputs rd) cmd v w out \<and> mf' = put_voice mf w"
    using mf(3) v by (cases cmd) (auto simp: run_body_def voice_step_def split: prod.splits)
  with mf find_in_Some [OF v] show ?thesis by auto
qed

lemma floor_stamp_iff: "floor_stamp mf v \<le> t \<longleftrightarrow> created mf \<le> t \<and> (\<forall>a \<in> set (history v). reset_at a \<le> t)"
proof -
  have "foldl max b xs \<le> t \<longleftrightarrow> b \<le> t \<and> (\<forall>x \<in> set xs. x \<le> t)" for b :: int and xs
    by (induction xs arbitrary: b) auto
  then show ?thesis by (auto simp: floor_stamp_def)
qed

lemma do_complete_Inr:
  "do_complete mf out v e f = Inr w \<longleftrightarrow> (\<exists>r. out (voice_file v) = Some r \<and> content r \<noteq> Inr [] \<and>
     of_int (floor_stamp mf v) - 1 \<le> mtime r \<and>
     w = v\<lparr>voice_status := Complete, elapsed_s := given e (elapsed_s v),
           finish_reason := (if f = None \<or> f = Some [] then finish_reason v else f), error_detail := None\<rparr>)"
  by (auto simp: do_complete_def split: option.splits if_splits)

lemma voice_step_fixed:
  assumes "voice_step t mf out cmd v w out'"
  shows "voice_id w = voice_id v" "harness w = harness v" "voice_file w = voice_file v"
  using assms by (cases cmd; auto simp: voice_step_def do_complete_Inr do_error_def do_reset_def Let_def)+

text \<open>The manifest keeps its voices; the status of each is that of the last command that was
  accepted for it, and its history grows by one attempt with every reset.\<close>

fun event_status :: "pystr \<Rightarrow> voice_status \<Rightarrow> event \<Rightarrow> voice_status" where
  "event_status i s (Did (CompleteVoice j e f) None) = (if i = j then Complete else s)"
| "event_status i s (Did (ErrorVoice j d e) None) = (if i = j then Errored else s)"
| "event_status i s (Did (ResetVoice j) None) = (if i = j then Pending else s)"
| "event_status i s _ = s"

fun is_reset :: "pystr \<Rightarrow> event \<Rightarrow> bool" where
  "is_reset i (Did (ResetVoice j) None) \<longleftrightarrow> i = j"
| "is_reset i _ \<longleftrightarrow> False"

definition tracks :: "event list \<Rightarrow> voice \<Rightarrow> voice \<Rightarrow> bool" where
  "tracks evs v0 v \<longleftrightarrow> voice_id v = voice_id v0 \<and> harness v = harness v0 \<and> voice_file v = voice_file v0 \<and>
     voice_status v = foldl (event_status (voice_id v0)) (voice_status v0) evs \<and>
     take (length (history v0)) (history v) = history v0 \<and>
     length (history v) = length (history v0) + length (filter (is_reset (voice_id v0)) evs)"

definition tracked :: "manifest \<Rightarrow> event list \<Rightarrow> run_dir \<Rightarrow> rat \<Rightarrow> bool" where
  "tracked mf0 evs rd t \<longleftrightarrow> (\<exists>mf. disk rd = Some mf \<and> list_all2 (tracks evs) (voices mf0) (voices mf) \<and>
     run_id mf = run_id mf0 \<and> run_target mf = run_target mf0 \<and> created mf = created mf0 \<and> phase mf = phase mf0)"

lemma tracks_other:
  "tracks evs v0 v \<Longrightarrow> (\<And>s. event_status (voice_id v0) s ev = s) \<Longrightarrow> \<not> is_reset (voice_id v0) ev \<Longrightarrow>
    tracks (evs @ [ev]) v0 v"
  by (simp add: tracks_def)

lemma tracks_step:
  assumes "tracks evs v0 v" "voice_step t mf out cmd v w out'" "voice_id v = command_voice cmd"
  shows "tracks (evs @ [Did cmd None]) v0 w"
  using assms by (cases cmd)
    (auto simp: tracks_def voice_step_def do_complete_Inr do_error_def do_reset_def Let_def)

lemma other_voice:
  "i \<noteq> command_voice cmd \<Longrightarrow> event_status i s (Did cmd None) = s \<and> \<not> is_reset i (Did cmd None)"
  by (cases cmd) auto

lemma tracked_step:
  assumes "tracked mf0 evs rd t" "serial_step (rd, t) ev (rd', t')"
  shows "tracked mf0 (evs @ [ev]) rd' t'"
proof -
  obtain mf where mf: "disk rd = Some mf" "list_all2 (tracks evs) (voices mf0) (voices mf)"
    "run_id mf = run_id mf0" "run_target mf = run_target mf0" "created mf = created mf0" "phase mf = phase mf0"
    using assms(1) by (auto simp: tracked_def)
  have quiet: "list_all2 (tracks (evs @ [ev])) (voices mf0) (voices mf)"
    if "\<And>i s. event_status i s ev = s" "\<And>i. \<not> is_reset i ev"
    using mf(2) by (rule list_all2_mono) (simp add: tracks_other that)
  from assms(2) show ?thesis
  proof cases
    case (accepted cmd)
    then obtain mf1 v w where v: "disk rd = Some mf1" "distinct (voice_ids mf1)" "v \<in> set (voices mf1)"
      "voice_id v = command_voice cmd" "voice_step t mf1 (outputs rd) cmd v w (outputs rd')"
      "disk rd' = Some (put_voice mf1 w)"
      using run_command_Inr [of t cmd rd rd'] by blast
    have w: "voices (put_voice mf w) = map (\<lambda>u. if voice_id u = voice_id w then w else u) (voices mf)"
      using v(1,2) mf(1) by (simp add: put_voice_def put_in_map voice_ids_def)
    have one: "tracks (evs @ [ev]) v0 (if voice_id u = voice_id w then w else u)"
      if "tracks evs v0 u" "u \<in> set (voices mf)" for v0 u
    proof (cases "voice_id u = voice_id w")
      case True
      then have "voice_id u = voice_id v" using voice_step_fixed(1) [OF v(5)] by simp
      then have "u = v" using that(2) v(1-3) mf(1) by (auto simp: voice_ids_def distinct_map dest: inj_onD)
      with True that(1) v(4,5) accepted show ?thesis using tracks_step by simp
    next
      case False
      then have "voice_id v0 \<noteq> command_voice cmd" using that(1) v(4) voice_step_fixed(1) [OF v(5)]
        by (auto simp: tracks_def)
      with that(1) False accepted show ?thesis using other_voice by (auto intro: tracks_other)
    qed
    have "list_all2 (tracks (evs @ [ev])) (voices mf0) (voices (put_voice mf w))"
      unfolding w list_all2_map2 using mf(2) one by (auto simp: list_all2_conv_all_nth)
    then show ?thesis using v(1,6) mf by (auto simp: tracked_def put_voice_def)
  qed (use quiet mf in \<open>auto simp: tracked_def\<close>)
qed

interpretation tracking: run_invariant "tracked mf0" for mf0
  by unfold_locales (rule tracked_step)

text \<open>A report that stands for a voice was written in the attempt it stands for: not before the last
  reset, and, once accepted, not before the run (to the second the stamps are kept to).\<close>

definition fresh_voice :: "int \<Rightarrow> outputs \<Rightarrow> rat \<Rightarrow> voice \<Rightarrow> bool" where
  "fresh_voice c out t v \<longleftrightarrow> last (voice_file v) = 100 \<and> (\<forall>a \<in> set (history v). of_int (reset_at a) \<le> t) \<and>
     (\<forall>f. out (voice_file v) = Some f \<longrightarrow> (\<forall>a \<in> set (history v). of_int (reset_at a) \<le> mtime f) \<and>
        (voice_status v = Complete \<longrightarrow> of_int c - 1 \<le> mtime f))"

definition fresh :: "event list \<Rightarrow> run_dir \<Rightarrow> rat \<Rightarrow> bool" where
  "fresh evs rd t \<longleftrightarrow> (\<exists>mf. disk rd = Some mf \<and> of_int (created mf) \<le> t \<and>
     (\<forall>v \<in> set (voices mf). fresh_voice (created mf) (outputs rd) t v))"

lemma last_digits: "0 \<le> i \<Longrightarrow> digits_of (Suc k) i \<noteq> [] \<and> 48 \<le> last (digits_of (Suc k) i) \<and> last (digits_of (Suc k) i) \<le> 57"
  using pos_mod_bound [of 10 i] by auto

lemma last_aside: "last (aside_name v) \<noteq> 100"
proof -
  define d where "d = decimal (int (length (history v)) + 1)"
  have d: "d \<noteq> [] \<and> last d \<le> 57"
    using last_digits [of "int (length (history v)) + 1" "nat (int (length (history v)) + 1)"]
    unfolding d_def decimal_def by (simp del: digits_of.simps)
  then have "last (aside_name v) = last d" by (simp add: aside_name_def d_def [symmetric])
  with d show ?thesis by simp
qed

lemma reset_outputs:
  "do_reset now out v = (w, out') \<Longrightarrow> last (voice_file u) = 100 \<Longrightarrow>
    out' (voice_file u) = (if voice_file u = voice_file v then None else out (voice_file u))"
  using last_aside [of v] by (auto simp: do_reset_def Let_def split: if_splits)

lemma voice_step_outputs:
  assumes "voice_step t mf out cmd v w out'" "last (voice_file u) = 100"
  shows "out' (voice_file u) = None \<or> out' (voice_file u) = out (voice_file u)"
  using assms reset_outputs [of "\<lfloor>t\<rfloor>" out v w out' u] by (cases cmd) (auto simp: voice_step_def)

lemma fresh_other:
  "voice_step t mf out cmd v w out' \<Longrightarrow> fresh_voice c out t u \<Longrightarrow> fresh_voice c out' t u"
  using voice_step_outputs [of t mf out cmd v w out' u] by (auto simp: fresh_voice_def)

lemma fresh_step_voice:
  assumes "voice_step t mf out cmd v w out'" "fresh_voice (created mf) out t v"
  shows "fresh_voice (created mf) out' t w"
proof (cases cmd)
  case (CompleteVoice i e f)
  then show ?thesis using assms floor_stamp_iff [of mf v "floor_stamp mf v"]
    by (auto simp: voice_step_def do_complete_Inr fresh_voice_def)
next
  case (ErrorVoice i d e)
  then show ?thesis using assms by (auto simp: voice_step_def do_error_def fresh_voice_def)
next
  case (ResetVoice i)
  then have r: "do_reset \<lfloor>t\<rfloor> out v = (w, out')" using assms(1) by (simp add: voice_step_def)
  then have "out' (voice_file v) = None" using reset_outputs [OF r, of v] assms(2) by (simp add: fresh_voice_def)
  moreover have "of_int \<lfloor>t\<rfloor> \<le> t" by simp
  ultimately show ?thesis using r assms(2) by (auto simp: do_reset_def Let_def fresh_voice_def)
qed

lemma fresh_voice_later: "fresh_voice c out t v \<Longrightarrow> t \<le> t' \<Longrightarrow> fresh_voice c out t' v"
  unfolding fresh_voice_def by (meson order_trans)

lemma fresh_voice_written:
  "fresh_voice c out t v \<Longrightarrow> of_int c \<le> t \<Longrightarrow> fresh_voice c (out(n \<mapsto> \<lparr>content = x, mtime = t\<rparr>)) t v"
  by (auto simp: fresh_voice_def)

lemma fresh_voice_deleted: "fresh_voice c out t v \<Longrightarrow> fresh_voice c (out(n := None)) t v"
  by (auto simp: fresh_voice_def)

lemma set_put_in: "set (put_in vs w) \<subseteq> insert w (set vs)"
  by (induction vs) auto

lemma fresh_step:
  assumes "fresh evs rd t" "serial_step (rd, t) ev (rd', t')"
  shows "fresh (evs @ [ev]) rd' t'"
proof -
  obtain mf where mf: "disk rd = Some mf" "of_int (created mf) \<le> t"
    "\<And>v. v \<in> set (voices mf) \<Longrightarrow> fresh_voice (created mf) (outputs rd) t v"
    using assms(1) by (auto simp: fresh_def)
  from assms(2) show ?thesis
  proof cases
    case tick
    with mf show ?thesis by (auto simp: fresh_def intro: fresh_voice_later)
  next
    case (write_file n c)
    with mf show ?thesis by (auto simp: fresh_def intro: fresh_voice_written)
  next
    case (delete_file n)
    with mf show ?thesis by (auto simp: fresh_def intro: fresh_voice_deleted)
  next
    case (accepted cmd)
    then obtain v w where v: "v \<in> set (voices mf)" "voice_step t mf (outputs rd) cmd v w (outputs rd')"
      "disk rd' = Some (put_voice mf w)"
      using run_command_Inr [of t cmd rd rd'] mf(1) by auto
    have "fresh_voice (created mf) (outputs rd') t u" if "u \<in> set (voices (put_voice mf w))" for u
      using that set_put_in [of "voices mf" w] fresh_step_voice [OF v(2) mf(3) [OF v(1)]]
        fresh_other [OF v(2) mf(3)] by (auto simp: put_voice_def)
    with v(3) mf(2) accepted show ?thesis by (simp add: fresh_def put_voice_def)
  next
    case (refused cmd e)
    with assms(1) show ?thesis by (simp add: fresh_def)
  qed
qed

interpretation freshness: run_invariant fresh
  by unfold_locales (rule fresh_step)

subsection \<open>What a run starts with\<close>

lemma no_first_Inr: "(case xs of x # _ \<Rightarrow> Inl (f x) | [] \<Rightarrow> Inr y) = Inr z \<longleftrightarrow> xs = [] \<and> y = z"
  by (cases xs) auto

lemma roster_Inr:
  assumes "roster args = Inr vs"
  shows "vs \<noteq> []" "distinct (map voice_id vs)"
    "v \<in> set vs \<Longrightarrow> voice_file v = slug_for_voice (voice_id v) (harness v) \<and> history v = [] \<and> voice_status v = Pending"
proof -
  obtain owners where o: "voices_named (init_voices args) \<noteq> []" "distinct (voices_named (init_voices args))"
    "vs = map (new_voice owners) (voices_named (init_voices args))"
    using assms by (auto simp: roster_def Let_def no_first_Inr split: if_split_asm)
  have ids: "map voice_id vs = voices_named (init_voices args)"
    unfolding o(3) by (simp add: new_voice_def Let_def comp_def)
  show "vs \<noteq> []" using o by simp
  show "distinct (map voice_id vs)" unfolding ids by (rule o(2))
  show "v \<in> set vs \<Longrightarrow> voice_file v = slug_for_voice (voice_id v) (harness v) \<and> history v = [] \<and> voice_status v = Pending"
    unfolding o(3) by (auto simp: new_voice_def Let_def)
qed

lemma last_slug: "last (slug_for_voice v h) = 100"
  by (simp add: slug_for_voice_def Let_def str_def last_append)

lemma cmd_init_Inr:
  assumes "cmd_init fv_dir now args = Inr (d, mf)"
  shows "load_manifest (Some mf) = Inr mf" "created mf = now" "roster args = Inr (voices mf)"
  using assms roster_Inr [of args] by (auto simp: cmd_init_def Let_def voice_ids_def)

lemma init_fresh:
  assumes "cmd_init fv_dir now args = Inr (d, mf)" "disk rd = Some mf" "of_int now \<le> t"
  shows "fresh [] rd t"
  using assms(2,3) cmd_init_Inr(2) [OF assms(1)] roster_Inr(3) [OF cmd_init_Inr(3) [OF assms(1)]]
  by (auto simp: fresh_def fresh_voice_def last_slug)

text \<open>An owner is read up to the first colon, so no voice whose id has one is ever accepted.\<close>

lemma split_first_clean: "sep \<notin> set (fst (split_first sep s))"
  by (auto simp: split_first_def dest: set_takeWhileD)

lemma owner_names:
  "parse_owners_from out ps = Inr out' \<Longrightarrow> \<forall>k \<in> fst ` set out. 58 \<notin> set k \<Longrightarrow> \<forall>k \<in> fst ` set out'. 58 \<notin> set k"
proof (induction out ps rule: parse_owners_from.induct)
  case (2 out p ps)
  have "58 \<notin> set (strip (fst (split_first 58 p)))"
    using split_first_clean [of 58 p] set_strip [of "fst (split_first 58 p)"] by blast
  moreover have "fst ` set (dset out k x) = insert k (fst ` set out)" for k x
    by (metis (no_types) insert_absorb keys_dset set_append set_map list.set(1,2) Un_insert_right sup_bot_right)
  ultimately show ?case using 2 by (auto split: if_splits)
qed simp

lemma colon_voice_not_owned:
  assumes "roster args = Inr vs" "v \<in> set vs"
  shows "58 \<notin> set (voice_id v)"
proof -
  obtain owners where o: "owners = [] \<or> parse_owners (init_owners args) = Inr owners"
    "filter (\<lambda>v. map_of owners v = None) (voices_named (init_voices args)) = []"
    "vs = map (new_voice owners) (voices_named (init_voices args))"
    using assms(1) by (auto simp: roster_def Let_def no_first_Inr split: if_split_asm)
  have "\<forall>k \<in> fst ` set owners. 58 \<notin> set k"
    using o(1) owner_names [of "[]" "split_on 44 (init_owners args)" owners] by (auto simp: parse_owners_def)
  moreover obtain i where "i \<in> set (voices_named (init_voices args))" "voice_id v = i"
    using assms(2) o(3) by (auto simp: new_voice_def Let_def)
  ultimately show ?thesis using o(2) by (force simp: filter_empty_conv map_of_eq_None_iff)
qed

subsection \<open>Waiting\<close>

text \<open>What \<^verbatim>\<open>wait\<close> returns: the answer of the first round that decides, or 1 when the deadline
  passes first.\<close>

definition decided :: "manifest option \<Rightarrow> (run_error + nat) option" where
  "decided d = (case load_manifest d of
       Inl e \<Rightarrow> Some (Inl e)
     | Inr mf \<Rightarrow> (case wait_look mf of None \<Rightarrow> None | Some r \<Rightarrow> Some (Inr r)))"

lemma wait_from_unfold:
  "wait_from ticks seen deadline k =
     (if ticks k < deadline
      then (case decided (seen k) of None \<Rightarrow> wait_from ticks seen deadline (Suc k) | Some r \<Rightarrow> Some r)
      else Some (Inr 1))"
  by (subst wait_from.simps, cases "load_manifest (seen k)")
    (simp_all add: decided_def del: load_manifest_Inr split: option.split)

lemma wait_from_returns:
  assumes "\<And>j. 0 < j \<Longrightarrow> ticks j + step \<le> ticks (Suc j)" "0 < step" "0 < k"
  shows "\<exists>n. (\<forall>j. k \<le> j \<longrightarrow> j < n \<longrightarrow> ticks j < deadline \<and> decided (seen j) = None) \<and>
    (ticks n < deadline \<longrightarrow> decided (seen n) \<noteq> None) \<and> k \<le> n \<and>
    wait_from ticks seen deadline k = (if ticks n < deadline then decided (seen n) else Some (Inr 1))"
using assms(3)
proof (induction "nat \<lceil>(deadline - ticks k) / step\<rceil>" arbitrary: k rule: less_induct)
  case less
  show ?case
  proof (cases "ticks k < deadline \<and> decided (seen k) = None")
    case True
    have "(deadline - ticks (Suc k)) / step \<le> (deadline - ticks k) / step - 1"
      using divide_right_mono [of "deadline - ticks (Suc k)" "deadline - ticks k - step" step] assms(1) [OF less.prems] assms(2)
      by (simp add: diff_divide_distrib)
    moreover have "0 < (deadline - ticks k) / step" using True assms(2) by simp
    ultimately have "nat \<lceil>(deadline - ticks (Suc k)) / step\<rceil> < nat \<lceil>(deadline - ticks k) / step\<rceil>"
      by linarith
    from less.hyps [OF this] obtain n where n: "\<forall>j. Suc k \<le> j \<longrightarrow> j < n \<longrightarrow> ticks j < deadline \<and> decided (seen j) = None"
      "ticks n < deadline \<longrightarrow> decided (seen n) \<noteq> None" "Suc k \<le> n"
      "wait_from ticks seen deadline (Suc k) = (if ticks n < deadline then decided (seen n) else Some (Inr 1))" by blast
    have "\<forall>j. k \<le> j \<longrightarrow> j < n \<longrightarrow> ticks j < deadline \<and> decided (seen j) = None"
      using n(1) True by (metis Suc_leI le_neq_implies_less)
    then show ?thesis using n True wait_from_unfold [of ticks seen deadline k]
      by (intro exI [of _ n]) auto
  next
    case False
    then show ?thesis using wait_from_unfold [of ticks seen deadline k]
      by (intro exI [of _ k]) (auto split: option.splits)
  qed
qed

lemma ticks_grow:
  assumes "\<And>j. 0 < j \<Longrightarrow> ticks j + step \<le> ticks (Suc j)"
  shows "ticks 1 + of_nat j * step \<le> (ticks (Suc j) :: rat)"
proof (induction j)
  case (Suc j)
  have "ticks 1 + of_nat (Suc j) * step = (ticks 1 + of_nat j * step) + step" by (simp add: algebra_simps)
  with Suc assms [of "Suc j"] show ?case by linarith
qed simp

lemma decided_0:
  assumes "decided d = Some (Inr 0)"
  shows "\<exists>mf. load_manifest d = Inr mf \<and> (\<forall>v \<in> set (voices mf). voice_status v \<noteq> Pending) \<and>
    (\<exists>v \<in> set (voices mf). voice_status v = Complete)"
proof -
  obtain mf where mf: "load_manifest d = Inr mf" "wait_look mf = Some 0"
    using assms by (cases "load_manifest d") (auto simp: decided_def simp del: load_manifest_Inr split: option.splits)
  from mf(2) have "Pending \<notin> set (map voice_status (voices mf))" "completed mf \<noteq> []"
    by (auto simp: wait_look_def split: if_splits)
  then have "\<forall>v \<in> set (voices mf). voice_status v \<noteq> Pending" "\<exists>v \<in> set (voices mf). voice_status v = Complete"
    by (force, auto simp: completed_def filter_empty_conv)
  with mf(1) show ?thesis by blast
qed

subsection \<open>A run, step by step\<close>

text \<open>An executable scheduler: process \<open>p\<close> moves, or the surroundings do.\<close>

datatype move = Move nat | Around event

fun move_process :: "system \<Rightarrow> nat \<Rightarrow> (event option \<times> system) option" where
  "move_process s p = (case procs s p of
       Some (Ready cmd) \<Rightarrow>
         if holder s = None then Some (None, s\<lparr>holder := Some p, procs := (procs s)(p \<mapsto> Locked cmd)\<rparr>) else None
     | Some (Locked cmd) \<Rightarrow> (case load_manifest (disk (dir s)) of
           Inr mf \<Rightarrow> Some (None, s\<lparr>procs := (procs s)(p \<mapsto> Loaded cmd mf)\<rparr>)
         | Inl e \<Rightarrow> Some (Some (Did cmd (Some e)), s\<lparr>holder := None, procs := (procs s)(p \<mapsto> Ended (Some e))\<rparr>))
     | Some (Loaded cmd mf) \<Rightarrow> (case run_body (clock s) mf (outputs (dir s)) cmd of
           Inr (mf', out) \<Rightarrow> Some (Some (Did cmd None),
             s\<lparr>dir := (dir s)\<lparr>outputs := out\<rparr>, procs := (procs s)(p \<mapsto> Computed cmd mf')\<rparr>)
         | Inl e \<Rightarrow> Some (Some (Did cmd (Some e)), s\<lparr>holder := None, procs := (procs s)(p \<mapsto> Ended (Some e))\<rparr>))
     | Some (Computed cmd mf) \<Rightarrow>
         Some (None, s\<lparr>dir := (dir s)\<lparr>disk := Some mf\<rparr>, holder := None, procs := (procs s)(p \<mapsto> Ended None)\<rparr>)
     | _ \<Rightarrow> None)"

fun move_around :: "system \<Rightarrow> event \<Rightarrow> system option" where
  "move_around s (Tick t) = (if clock s \<le> t then Some (s\<lparr>clock := t\<rparr>) else None)"
| "move_around s (Write n c) =
     Some (s\<lparr>dir := (dir s)\<lparr>outputs := (outputs (dir s))(n \<mapsto> \<lparr>content = c, mtime = clock s\<rparr>)\<rparr>\<rparr>)"
| "move_around s (Delete n) = Some (s\<lparr>dir := (dir s)\<lparr>outputs := (outputs (dir s))(n := None)\<rparr>\<rparr>)"
| "move_around s (Did c r) = None"

fun schedule :: "system \<Rightarrow> move list \<Rightarrow> (event list \<times> system) option" where
  "schedule s [] = Some ([], s)"
| "schedule s (Move p # ms) = (case move_process s p of None \<Rightarrow> None | Some (ev, s') \<Rightarrow>
     (case schedule s' ms of None \<Rightarrow> None
      | Some (evs, s'') \<Rightarrow> Some ((case ev of None \<Rightarrow> [] | Some e \<Rightarrow> [e]) @ evs, s'')))"
| "schedule s (Around e # ms) = (case move_around s e of None \<Rightarrow> None | Some s' \<Rightarrow>
     (case schedule s' ms of None \<Rightarrow> None | Some (evs, s'') \<Rightarrow> Some (e # evs, s'')))"

lemma move_process_step: "move_process s p = Some (ev, s') \<Longrightarrow> concurrent_step s ev s'"
proof -
  assume step: "move_process s p = Some (ev, s')"
  then obtain pr where pr: "procs s p = Some pr" by (cases "procs s p") auto
  show ?thesis
  proof (cases pr)
    case (Ready cmd)
    with step pr show ?thesis by (auto intro: concurrent_step.lock split: if_splits)
  next
    case (Locked cmd)
    note at = pr [unfolded Locked]
    show ?thesis
    proof (cases "load_manifest (disk (dir s))")
      case (Inl e)
      from step at Inl show ?thesis using concurrent_step.load_fails [OF at Inl] by auto
    next
      case (Inr mf)
      from step at Inr show ?thesis using concurrent_step.load [OF at Inr] by (auto simp del: load_manifest_Inr)
    qed
  next
    case (Loaded cmd mf)
    note at = pr [unfolded Loaded]
    show ?thesis
    proof (cases "run_body (clock s) mf (outputs (dir s)) cmd")
      case (Inl e)
      from step at Inl show ?thesis using concurrent_step.body_fails [OF at Inl] by auto
    next
      case (Inr r)
      then obtain mf' out where r: "run_body (clock s) mf (outputs (dir s)) cmd = Inr (mf', out)" by (cases r) auto
      from step at r show ?thesis using concurrent_step.body [OF at r] by auto
    qed
  next
    case (Computed cmd mf)
    with step pr show ?thesis by (auto intro: concurrent_step.save)
  next
    case (Ended r)
    with step pr show ?thesis by simp
  qed
qed

lemma move_around_step: "move_around s e = Some s' \<Longrightarrow> concurrent_step s (Some e) s'"
  by (cases "(s, e)" rule: move_around.cases) (auto intro: concurrent_step.intros split: if_splits)

lemma concurrent_first:
  assumes "concurrent s' evs s''" "concurrent_step s ev s'"
  shows "concurrent s ((case ev of None \<Rightarrow> [] | Some e \<Rightarrow> [e]) @ evs) s''"
  using assms
proof (induction arbitrary: ev s)
  case (start s')
  then show ?case using concurrent.later [OF concurrent.start, of s ev s'] by simp
next
  case (later s' evs t ev' t')
  then show ?case using concurrent.later [OF later.IH [OF later.prems] later.hyps(2)] by simp
qed

lemma schedule_concurrent: "schedule s ms = Some (evs, s') \<Longrightarrow> concurrent s evs s'"
proof (induction ms arbitrary: s evs)
  case Nil
  then show ?case by (simp add: concurrent.start)
next
  case (Cons m ms)
  obtain ev t evs' where t: "concurrent_step s ev t" "schedule t ms = Some (evs', s')"
    "evs = (case ev of None \<Rightarrow> [] | Some e \<Rightarrow> [e]) @ evs'"
  proof (cases m)
    case (Move p)
    obtain ev t where m: "move_process s p = Some (ev, t)"
      using Cons.prems Move by (cases "move_process s p") (auto simp del: move_process.simps)
    obtain evs' where "schedule t ms = Some (evs', s')" "evs = (case ev of None \<Rightarrow> [] | Some e \<Rightarrow> [e]) @ evs'"
      using Cons.prems Move m by (cases "schedule t ms") (auto simp del: move_process.simps)
    with that [OF move_process_step [OF m]] show ?thesis .
  next
    case (Around e)
    obtain t where m: "move_around s e = Some t"
      using Cons.prems Around by (cases "move_around s e") auto
    obtain evs' where "schedule t ms = Some (evs', s')" "evs = e # evs'"
      using Cons.prems Around m by (cases "schedule t ms") auto
    with that [OF move_around_step [OF m]] show ?thesis by simp
  qed
  show ?case unfolding t(3) by (rule concurrent_first [OF Cons.IH [OF t(2)] t(1)])
qed

definition sample_init :: "string \<Rightarrow> string \<Rightarrow> init_args" where
  "sample_init vs owners = \<lparr>init_target = map str [''home'', ''proj'', ''docs'', ''intent.md''], target_exists = True,
     init_voices = str vs, init_owners = str owners, init_dir = None, init_phase = str ''attack'',
     init_synthesis = str ''omp''\<rparr>"

definition sample_fv_dir :: "pystr list \<Rightarrow> bool" where
  "sample_fv_dir path \<longleftrightarrow> path = map str [''home'', ''proj'']"

definition sample_start :: "string \<Rightarrow> string \<Rightarrow> manifest option" where
  "sample_start vs owners = (case cmd_init sample_fv_dir 1700000000 (sample_init vs owners) of
       Inl _ \<Rightarrow> None | Inr (_, mf) \<Rightarrow> Some mf)"

definition sample_system :: "string \<Rightarrow> string \<Rightarrow> command list \<Rightarrow> system" where
  "sample_system vs owners cmds = \<lparr>dir = \<lparr>disk = sample_start vs owners, outputs = (\<lambda>_. None)\<rparr>, clock = 1700000000,
     holder = None, procs = (\<lambda>p. if p < length cmds then Some (Ready (cmds ! p)) else None)\<rparr>"

lemma sample_idle: "idle (sample_system vs owners cmds)"
  by (simp add: idle_def sample_system_def)

text \<open>Two commands interleaved: the second waits for the lock while a report is written.\<close>

definition sample_commands :: "command list" where
  "sample_commands = [CompleteVoice (str ''claude'') None None, ErrorVoice (str ''kimi'') (str ''HTTP 408'') None]"

definition sample_moves :: "move list" where
  "sample_moves = [Around (Write (str ''claude.md'') (Inr (str ''VERDICT: SURVIVES''))), Move 0, Move 0,
     Around (Tick 1700000005), Move 0, Move 0, Move 1, Move 1, Move 1, Move 1]"

definition sample_result :: "(event list \<times> system) option" where
  "sample_result = schedule (sample_system ''claude,kimi'' ''claude:omp,kimi:omp'' sample_commands) sample_moves"

lemma sample_result:
  "\<exists>evs s mf. sample_result = Some (evs, s) \<and> disk (dir s) = Some mf \<and>
     map voice_status (voices mf) = [Complete, Errored] \<and> outputs (dir s) (str ''claude.md'') \<noteq> None \<and>
     holder s = None"
proof -
  have run: "case sample_result of Some (evs, s) \<Rightarrow>
      (case disk (dir s) of Some mf \<Rightarrow> map voice_status (voices mf) = [Complete, Errored] | None \<Rightarrow> False) \<and>
      outputs (dir s) (str ''claude.md'') \<noteq> None \<and> holder s = None
    | None \<Rightarrow> False"
    by code_simp
  obtain evs s where s: "sample_result = Some (evs, s)"
    using run by (cases sample_result) auto
  have last: "(case disk (dir s) of Some mf \<Rightarrow> map voice_status (voices mf) = [Complete, Errored] | None \<Rightarrow> False) \<and>
      outputs (dir s) (str ''claude.md'') \<noteq> None \<and> holder s = None"
    using run by (simp only: s option.case prod.case simp_thms)
  then obtain mf where "disk (dir s) = Some mf" by (cases "disk (dir s)") auto
  with s last show ?thesis by (intro exI conjI) auto
qed

lemma idle_unheld: "locked_ok s \<Longrightarrow> holder s = None \<Longrightarrow> idle s"
  by (simp add: idle_def locked_okD(1))

lemma sample_interleaving:
  "\<exists>evs s mf. concurrent (sample_system ''claude,kimi'' ''claude:omp,kimi:omp'' sample_commands) evs s \<and> idle s \<and>
     disk (dir s) = Some mf \<and> map voice_status (voices mf) = [Complete, Errored] \<and>
     outputs (dir s) (str ''claude.md'') \<noteq> None"
proof -
  obtain evs s mf where s: "sample_result = Some (evs, s)" "disk (dir s) = Some mf"
    "map voice_status (voices mf) = [Complete, Errored]" "outputs (dir s) (str ''claude.md'') \<noteq> None" "holder s = None"
    using sample_result by metis
  have run: "concurrent (sample_system ''claude,kimi'' ''claude:omp,kimi:omp'' sample_commands) evs s"
    using schedule_concurrent s(1) unfolding sample_result_def by blast
  have "idle s"
    using concurrent_serial [OF run idle_locked_ok [OF sample_idle]] s(5) idle_unheld by blast
  with s run show ?thesis by (intro exI conjI)
qed

lemma sample_start:
  "\<exists>d mf. cmd_init sample_fv_dir 1700000000 (sample_init ''claude,kimi'' ''claude:omp,kimi:omp'') = Inr (d, mf) \<and>
     sample_start ''claude,kimi'' ''claude:omp,kimi:omp'' = Some mf"
proof -
  have "sample_start ''claude,kimi'' ''claude:omp,kimi:omp'' \<noteq> None" by code_simp
  then show ?thesis by (auto simp: sample_start_def split: sum.splits)
qed

subsection \<open>Properties\<close>

text \<open>C10. The lock serializes. Whatever the interleaving of the processes' accesses to the run
  directory, of the harnesses' writes and of time, a run in which \<^verbatim>\<open>complete\<close>, \<^verbatim>\<open>error\<close> and
  \<^verbatim>\<open>reset\<close> compete is one in which each command that returned ran alone, in the order of the
  events; and at most one process is between taking and releasing the lock.\<close>

theorem lock_serializes:
  assumes "concurrent s evs s'" "idle s"
  shows "serial (dir s, clock s) evs (settled s', clock s') \<and> card {p. inside (procs s' p)} \<le> 1"
proof -
  note ser = concurrent_serial [OF assms(1) idle_locked_ok [OF assms(2)]]
  have "{p. inside (procs s' p)} \<subseteq> set_option (holder s')"
    using ser locked_okD(1) [of s'] by auto
  then have "card {p. inside (procs s' p)} \<le> card (set_option (holder s'))"
    by (rule card_mono [rotated]) simp
  also have "\<dots> \<le> 1" by (cases "holder s'") auto
  finally show ?thesis using ser assms(2) by (simp add: idle_def settled_unheld)
qed

theorem lock_serializes_witness:
  "\<exists>evs s'. serial (dir (sample_system ''claude,kimi'' ''claude:omp,kimi:omp'' sample_commands), 1700000000) evs
     (dir s', clock s') \<and> idle s'"
proof -
  let ?s = "sample_system ''claude,kimi'' ''claude:omp,kimi:omp'' sample_commands"
  obtain evs s' where run: "concurrent ?s evs s'" "idle s'" using sample_interleaving by blast
  then have "serial (dir ?s, clock ?s) evs (settled s', clock s')"
    using lock_serializes [OF run(1) sample_idle] by blast
  moreover have "settled s' = dir s'" "clock ?s = 1700000000"
    using run(2) by (auto simp: idle_def settled_unheld sample_system_def)
  ultimately show ?thesis using run(2) by auto
qed

text \<open>C9. No update is lost. However many commands run at once, once they have returned the manifest
  has the voices it had, in order; the status of each is the one its last accepted command gave
  it; and its history is the old one with one attempt more for every reset.\<close>

theorem no_update_lost:
  assumes "concurrent s evs s'" "idle s" "idle s'" "disk (dir s) = Some mf"
  shows "\<exists>mf'. disk (dir s') = Some mf' \<and> list_all2 (\<lambda>v v'.
      voice_id v' = voice_id v \<and> harness v' = harness v \<and> voice_file v' = voice_file v \<and>
      voice_status v' = foldl (event_status (voice_id v)) (voice_status v) evs \<and>
      take (length (history v)) (history v') = history v \<and>
      length (history v') = length (history v) + length (filter (is_reset (voice_id v)) evs))
    (voices mf) (voices mf')"
proof -
  have "tracked mf [] (dir s) (clock s)"
    using assms(4) by (auto simp: tracked_def tracks_def list.rel_refl)
  from tracking.concurrent_keeps [OF assms(1,2) this] assms(3) show ?thesis
    by (simp add: tracked_def tracks_def [abs_def] idle_def settled_unheld) blast
qed

theorem no_update_lost_witness:
  "\<exists>evs. foldl (event_status (str ''claude'')) Pending evs = Complete \<and> foldl (event_status (str ''kimi'')) Pending evs = Errored"
proof -
  let ?s = "sample_system ''claude,kimi'' ''claude:omp,kimi:omp'' sample_commands"
  obtain evs s' mf' where run: "concurrent ?s evs s'" "idle s'" "disk (dir s') = Some mf'"
    "map voice_status (voices mf') = [Complete, Errored]" using sample_interleaving by metis
  obtain mf where mf: "sample_start ''claude,kimi'' ''claude:omp,kimi:omp'' = Some mf" using sample_start by blast
  have "map voice_id (voices (the (sample_start ''claude,kimi'' ''claude:omp,kimi:omp''))) = map str [''claude'', ''kimi'']"
    "map voice_status (voices (the (sample_start ''claude,kimi'' ''claude:omp,kimi:omp''))) = [Pending, Pending]"
    by code_simp+
  then obtain v w where v: "voices mf = [v, w]" "voice_id v = str ''claude''" "voice_id w = str ''kimi''"
    "voice_status v = Pending" "voice_status w = Pending" by (auto simp: mf)
  show ?thesis
    using no_update_lost [OF run(1) sample_idle run(2), of mf] run(3,4) mf v
    by (auto simp: sample_system_def list_all2_Cons1)
qed

text \<open>C11. Accepted evidence is fresh. In a run started by \<^verbatim>\<open>init\<close>, the file a completed voice
  stands on, if it is still there, was written during the run (to the second) and not before the
  voice's last reset: a report of an earlier attempt is never taken for the present one.\<close>

theorem completed_report_is_fresh:
  assumes "cmd_init fv_dir now args = Inr (d, mf0)" "disk (dir s) = Some mf0" "of_int now \<le> clock s" "idle s"
    "concurrent s evs s'" "idle s'"
    "disk (dir s') = Some mf" "v \<in> set (voices mf)" "outputs (dir s') (voice_file v) = Some f"
  shows "(voice_status v = Complete \<longrightarrow> of_int now - 1 \<le> mtime f) \<and> (\<forall>a \<in> set (history v). of_int (reset_at a) \<le> mtime f)"
proof -
  have "settled s' = dir s'" using assms(6) by (simp add: idle_def settled_unheld)
  moreover have "created mf = now"
    using tracking.concurrent_keeps [OF assms(5,4), of mf0] cmd_init_Inr(2) [OF assms(1)] assms(2,7) calculation
    by (auto simp: tracked_def tracks_def list.rel_refl)
  ultimately show ?thesis
    using freshness.concurrent_keeps [OF assms(5,4) init_fresh [OF assms(1-3)]] assms(7-9)
    by (auto simp: fresh_def fresh_voice_def)
qed

theorem completed_report_is_fresh_witness:
  "\<exists>evs s' f. concurrent (sample_system ''claude,kimi'' ''claude:omp,kimi:omp'' sample_commands) evs s' \<and>
     outputs (dir s') (str ''claude.md'') = Some f \<and> of_int 1700000000 - 1 \<le> mtime f"
proof -
  let ?s = "sample_system ''claude,kimi'' ''claude:omp,kimi:omp'' sample_commands"
  obtain evs s' mf where run: "concurrent ?s evs s'" "idle s'" "disk (dir s') = Some mf"
    "map voice_status (voices mf) = [Complete, Errored]" "outputs (dir s') (str ''claude.md'') \<noteq> None"
    using sample_interleaving by metis
  obtain d mf0 where mf0: "cmd_init sample_fv_dir 1700000000 (sample_init ''claude,kimi'' ''claude:omp,kimi:omp'') = Inr (d, mf0)"
    "sample_start ''claude,kimi'' ''claude:omp,kimi:omp'' = Some mf0" using sample_start by blast
  then have s: "disk (dir ?s) = Some mf0" "of_int 1700000000 \<le> clock ?s" by (simp_all add: sample_system_def)
  have "map voice_file (voices (the (sample_start ''claude,kimi'' ''claude:omp,kimi:omp''))) =
      map str [''claude.md'', ''omp-kimi.md'']" by code_simp
  then have "map voice_file (voices mf) = map str [''claude.md'', ''omp-kimi.md'']"
    using tracking.concurrent_keeps [OF run(1) sample_idle, of mf0] mf0(2) s(1) run(2,3)
    by (auto simp: tracked_def tracks_def list.rel_refl idle_def settled_unheld list_all2_Cons1)
  then obtain v where v: "v \<in> set (voices mf)" "voice_file v = str ''claude.md''" "voice_status v = Complete"
    using run(4) by (cases "voices mf") auto
  obtain f where f: "outputs (dir s') (voice_file v) = Some f" using run(5) v(2) by auto
  have "of_int 1700000000 - 1 \<le> mtime f"
    using completed_report_is_fresh [OF mf0(1) s sample_idle run(1,2,3) v(1) f] v(3) by simp
  with run(1) f v(2) show ?thesis by (intro exI conjI) simp_all
qed

text \<open>C33. Waiting ends. Where the monotonic clock passes the polling interval between two rounds, as
  a sleep of that long makes it, \<^verbatim>\<open>wait\<close> returns, whatever the voices do, within as many
  rounds as two-second steps fit in the timeout; its answer is that of the first round that
  decides, 1 if the deadline comes first; and it is 0 only if that round saw no voice pending and
  one complete.\<close>

theorem wait_returns:
  assumes "\<forall>j. 0 < j \<longrightarrow> ticks j + poll_interval poll timeout \<le> ticks (Suc j)" "ticks 0 \<le> ticks 1"
  shows "\<exists>n. 0 < n \<and> (1 < n \<longrightarrow> of_nat (n - 2) * 2 < timeout) \<and>
    (\<forall>j. 0 < j \<and> j < n \<longrightarrow> ticks j < ticks 0 + timeout \<and> decided (seen j) = None) \<and>
    cmd_wait ticks seen timeout = (if ticks n < ticks 0 + timeout then decided (seen n) else Some (Inr 1)) \<and>
    cmd_wait ticks seen timeout \<noteq> None \<and>
    (cmd_wait ticks seen timeout = Some (Inr 0) \<longrightarrow> (\<exists>mf. load_manifest (seen n) = Inr mf \<and>
       (\<forall>v \<in> set (voices mf). voice_status v \<noteq> Pending) \<and> (\<exists>v \<in> set (voices mf). voice_status v = Complete)))"
proof -
  have poll: "2 \<le> poll_interval poll timeout" by (simp add: poll_interval_def)
  let ?d = "ticks 0 + timeout"
  obtain n where n: "\<forall>j. 1 \<le> j \<longrightarrow> j < n \<longrightarrow> ticks j < ?d \<and> decided (seen j) = None"
    "ticks n < ?d \<longrightarrow> decided (seen n) \<noteq> None" "1 \<le> n"
    "wait_from ticks seen ?d 1 = (if ticks n < ?d then decided (seen n) else Some (Inr 1))"
    using wait_from_returns [of ticks "poll_interval poll timeout" 1 ?d seen] assms(1) poll by fastforce
  have "of_nat (n - 2) * 2 < timeout" if "1 < n"
  proof -
    have "ticks 1 + of_nat (n - 2) * 2 \<le> ticks (Suc (n - 2))"
      using ticks_grow [of ticks 2 "n - 2"] assms(1) poll by (meson add_left_mono order_trans)
    moreover have "ticks (Suc (n - 2)) < ?d" using n(1) that by simp
    ultimately show ?thesis using assms(2) by linarith
  qed
  moreover have "\<exists>mf. load_manifest (seen n) = Inr mf \<and> (\<forall>v \<in> set (voices mf). voice_status v \<noteq> Pending) \<and>
      (\<exists>v \<in> set (voices mf). voice_status v = Complete)" if "cmd_wait ticks seen timeout = Some (Inr 0)"
    using that n(4) decided_0 [of "seen n"] by (simp add: cmd_wait_def split: if_splits)
  ultimately show ?thesis using n
    by (intro exI [of _ n]) (auto simp: cmd_wait_def Suc_le_eq)
qed

definition sample_seen :: "nat \<Rightarrow> manifest option" where
  "sample_seen j = map_option (\<lambda>mf. if j < 3 then mf else mf\<lparr>voices := map (\<lambda>v. v\<lparr>voice_status := Complete\<rparr>) (voices mf)\<rparr>)
     (sample_start ''claude,kimi'' ''claude:omp,kimi:omp'')"

theorem wait_returns_witness: "cmd_wait (\<lambda>j. 10 * of_nat j) sample_seen 3600 \<noteq> None"
  using wait_returns [of "\<lambda>j. 10 * of_nat j" 10 3600 sample_seen] by (force simp: poll_interval_def)

definition one_report :: "manifest option \<Rightarrow> run_error + run_dir" where
  "one_report mf = rbind (run_command 1700000009 (CompleteVoice (str ''org/kimi'') None None)
       \<lparr>disk = mf, outputs = [str ''omp-org-kimi.md'' \<mapsto> \<lparr>content = Inr (str ''VERDICT: SURVIVES''), mtime = 1700000005\<rparr>]\<rparr>)
     (\<lambda>rd. run_command 1700000009 (CompleteVoice (str ''org-kimi'') None None) rd)"

text \<open>One report can count for two voices. Two voices of distinct ids may be given one file, since
  the slug writes a slash as a hyphen: after a single report the run is complete, with as many
  completed voices as it has, and \<^verbatim>\<open>wait\<close> reports success.\<close>

theorem one_report_two_voices:
  "\<exists>mf rd mf'. sample_start ''org/kimi,org-kimi'' ''org/kimi:omp,org-kimi:omp'' = Some mf \<and>
     one_report (Some mf) = Inr rd \<and> disk rd = Some mf' \<and> length (completed mf') = 2 \<and> wait_look mf' = Some 0 \<and>
     card (dom (outputs rd)) = 1"
proof -
  have run: "case one_report (sample_start ''org/kimi,org-kimi'' ''org/kimi:omp,org-kimi:omp'') of
      Inr rd \<Rightarrow> (case disk rd of Some mf' \<Rightarrow> length (completed mf') = 2 \<and> wait_look mf' = Some 0 | None \<Rightarrow> False)
    | Inl e \<Rightarrow> False" by code_simp
  obtain rd where rd: "one_report (sample_start ''org/kimi,org-kimi'' ''org/kimi:omp,org-kimi:omp'') = Inr rd"
    using run by (cases "one_report (sample_start ''org/kimi,org-kimi'' ''org/kimi:omp,org-kimi:omp'')") auto
  obtain mf where mf: "sample_start ''org/kimi,org-kimi'' ''org/kimi:omp,org-kimi:omp'' = Some mf"
    using rd by (cases "sample_start ''org/kimi,org-kimi'' ''org/kimi:omp,org-kimi:omp''")
      (auto simp: one_report_def run_command_def)
  have last: "case disk rd of Some mf' \<Rightarrow> length (completed mf') = 2 \<and> wait_look mf' = Some 0 | None \<Rightarrow> False"
    using run by (simp only: rd sum.case)
  then obtain mf' where mf': "disk rd = Some mf'" by (cases "disk rd") auto
  have kept: "run_command t (CompleteVoice i e f) r = Inr r' \<Longrightarrow> outputs r' = outputs r" for t i e f r r'
    by (auto simp: run_command_def run_body_def)
  have "outputs rd = [str ''omp-org-kimi.md'' \<mapsto> \<lparr>content = Inr (str ''VERDICT: SURVIVES''), mtime = 1700000005\<rparr>]"
    using rd by (auto simp: one_report_def dest!: kept)
  then have "card (dom (outputs rd)) = 1" by simp
  with last mf' rd mf show ?thesis by (intro exI conjI) auto
qed

end
