(* ===== verification/Run_Report.thy ===== *)
theory Run_Report
  imports Run_Manifest
begin

text \<open>
  The synthesis input of \<^verbatim>\<open>scripts/fv_run.py\<close>: the verdict read out of a voice's report and the
  document \<^verbatim>\<open>synthesize\<close> builds. The three patterns are matched as Python's \<^verbatim>\<open>re\<close> does
  (leftmost, greedy with backtracking, and with \<^verbatim>\<open>IGNORECASE\<close> the four letters beyond ASCII that
  fold to I, K and S). What Unicode says of the other code points above 127, whether they
  are word characters and what \<^verbatim>\<open>upper\<close> makes of them, is a parameter.
\<close>

record unicode =
  word_above :: "codepoint \<Rightarrow> bool"
  upper_above :: "codepoint \<Rightarrow> pystr"

definition upper :: "unicode \<Rightarrow> pystr \<Rightarrow> pystr" where
  "upper u s = concat (map (\<lambda>c. if 97 \<le> c \<and> c \<le> 122 then [c - 32] else if 127 < c then upper_above u c else [c]) s)"

subsection \<open>The verdict of a report\<close>

text \<open>A capital of a pattern against a character, ignoring case.\<close>

definition folds_to :: "codepoint \<Rightarrow> codepoint \<Rightarrow> bool" where
  "folds_to p c \<longleftrightarrow> c = p \<or> (65 \<le> p \<and> p \<le> 90 \<and> c = p + 32) \<or> (p = 73 \<and> (c = 304 \<or> c = 305)) \<or>
     (p = 83 \<and> c = 383) \<or> (p = 75 \<and> c = 8490)"

fun word_at :: "pystr \<Rightarrow> pystr \<Rightarrow> bool" where
  "word_at [] s \<longleftrightarrow> True"
| "word_at (p # ps) [] \<longleftrightarrow> False"
| "word_at (p # ps) (c # cs) \<longleftrightarrow> folds_to p c \<and> word_at ps cs"

text \<open>\<^verbatim>\<open>VERDICT[:\s]+([A-Za-z\- ]+(?:\s*\([^)]*\))?)\<close>; the separators give back characters until a
  letter, hyphen or space follows.\<close>

definition separator :: "codepoint \<Rightarrow> bool" where
  "separator c \<longleftrightarrow> c = 58 \<or> py_space c"

definition verdict_char :: "codepoint \<Rightarrow> bool" where
  "verdict_char c \<longleftrightarrow> (65 \<le> c \<and> c \<le> 90) \<or> (97 \<le> c \<and> c \<le> 122) \<or> c = 45 \<or> c = 32 \<or>
     c = 304 \<or> c = 305 \<or> c = 383 \<or> c = 8490"

definition reason_at :: "pystr \<Rightarrow> pystr" where
  "reason_at s =
     (let inner = dropWhile py_space s; body = takeWhile (\<lambda>c. c \<noteq> 41) (drop 1 inner) in
      if starts_with inner (str ''('') \<and> List.member (drop 1 inner) 41
      then take (length s - length inner + length body + 2) s else [])"

fun verdict_after :: "nat \<Rightarrow> pystr \<Rightarrow> pystr option" where
  "verdict_after 0 s = None"
| "verdict_after (Suc j) s =
     (let t = drop (Suc j) s; word = takeWhile verdict_char t in
      if word \<noteq> [] then Some (word @ reason_at (drop (length word) t)) else verdict_after j s)"

definition inline_at :: "pystr \<Rightarrow> pystr option" where
  "inline_at s =
     (if word_at (str ''VERDICT'') s
      then verdict_after (length (takeWhile separator (drop 7 s))) (drop 7 s) else None)"

fun inline_verdict :: "pystr \<Rightarrow> pystr option" where
  "inline_verdict [] = None"
| "inline_verdict (c # cs) = (case inline_at (c # cs) of Some v \<Rightarrow> Some v | None \<Rightarrow> inline_verdict cs)"

text \<open>\<^verbatim>\<open>^#+\s*VERDICT\s*$\<close> on one line.\<close>

definition verdict_header :: "pystr \<Rightarrow> bool" where
  "verdict_header line =
     (let title = dropWhile py_space (dropWhile (\<lambda>c. c = 35) line) in
      starts_with line (str ''#'') \<and> word_at (str ''VERDICT'') title \<and> list_all py_space (drop 7 title))"

text \<open>\<^verbatim>\<open>\b(BREAKS\-?AGAIN|BREAKS|SURVIVES|INDETERMINATE)\b\<close>\<close>

definition keyword_at :: "unicode \<Rightarrow> bool \<Rightarrow> pystr \<Rightarrow> pystr option" where
  "keyword_at u inword s =
     (if inword = word_first (word_above u) s then None
      else case filter (\<lambda>k. word_at k s \<and>
          word_char (word_above u) (s ! (length k - 1)) \<noteq> word_first (word_above u) (drop (length k) s))
        (map str [''BREAKS-AGAIN'', ''BREAKSAGAIN'', ''BREAKS'', ''SURVIVES'', ''INDETERMINATE'']) of
        [] \<Rightarrow> None | k # _ \<Rightarrow> Some (take (length k) s))"

fun keyword_in :: "unicode \<Rightarrow> bool \<Rightarrow> pystr \<Rightarrow> pystr option" where
  "keyword_in u inword [] = None"
| "keyword_in u inword (c # cs) = (case keyword_at u inword (c # cs) of
       Some k \<Rightarrow> Some k | None \<Rightarrow> keyword_in u (word_char (word_above u) c) cs)"

definition template_echo :: "unicode \<Rightarrow> pystr \<Rightarrow> bool" where
  "template_echo u s \<longleftrightarrow>
     List.member s 124 \<and> contains (str ''SURVIVES'') (upper u s) \<and> contains (str ''BREAKS'') (upper u s)"

definition mark_char :: "codepoint \<Rightarrow> bool" where
  "mark_char c \<longleftrightarrow> c = 42 \<or> c = 95 \<or> c = 96"

definition strip_marks :: "pystr \<Rightarrow> pystr" where
  "strip_marks s = rev (dropWhile mark_char (rev (dropWhile mark_char s)))"

fun inline_lines :: "unicode \<Rightarrow> pystr list \<Rightarrow> pystr option" where
  "inline_lines u [] = None"
| "inline_lines u (l # ls) = (case inline_verdict l of
       None \<Rightarrow> inline_lines u ls
     | Some v \<Rightarrow> if template_echo u (strip v) then inline_lines u ls else Some (strip v))"

fun first_words :: "unicode \<Rightarrow> pystr list \<Rightarrow> pystr option" where
  "first_words u [] = None"
| "first_words u (l # ls) =
     (if strip l \<noteq> [] \<and> \<not> template_echo u (strip l) then Some (strip_marks (strip l)) else first_words u ls)"

fun header_lines :: "unicode \<Rightarrow> pystr list \<Rightarrow> pystr option" where
  "header_lines u [] = None"
| "header_lines u (l # ls) =
     (if verdict_header l then (case first_words u ls of Some v \<Rightarrow> Some v | None \<Rightarrow> header_lines u ls)
      else header_lines u ls)"

fun keyword_lines :: "unicode \<Rightarrow> pystr list \<Rightarrow> pystr option" where
  "keyword_lines u [] = None"
| "keyword_lines u (l # ls) =
     (if template_echo u l then keyword_lines u ls
      else case keyword_in u False l of Some k \<Rightarrow> Some (upper u k) | None \<Rightarrow> keyword_lines u ls)"

definition extract_verdict :: "unicode \<Rightarrow> pystr \<Rightarrow> pystr" where
  "extract_verdict u text =
     (let ls = splitlines text in
      case inline_lines u (rev ls) of Some v \<Rightarrow> v | None \<Rightarrow>
      (case header_lines u ls of Some v \<Rightarrow> v | None \<Rightarrow>
      (case keyword_lines u (rev ls) of Some v \<Rightarrow> v | None \<Rightarrow> str ''(no verdict line found)'')))"

datatype direction = Breaks | Indeterminate | Other | Survives

definition direction_of :: "unicode \<Rightarrow> pystr \<Rightarrow> direction" where
  "direction_of u v =
     (let s = upper u v in
      if contains (str ''BREAK'') s then Breaks
      else if contains (str ''SURVIV'') s then Survives
      else if contains (str ''INDETERM'') s then Indeterminate else Other)"

fun direction_name :: "direction \<Rightarrow> pystr" where
  "direction_name Breaks = str ''BREAKS''"
| "direction_name Indeterminate = str ''INDETERMINATE''"
| "direction_name Other = str ''OTHER''"
| "direction_name Survives = str ''SURVIVES''"

subsection \<open>The document\<close>

fun status_name :: "voice_status \<Rightarrow> pystr" where
  "status_name Pending = str ''pending''"
| "status_name Complete = str ''complete''"
| "status_name Errored = str ''error''"
| "status_name Skipped = str ''skipped''"

text \<open>\<^verbatim>\<open>f"{x:.0f}"\<close>: ties go to the even neighbour, and the sign of a negative number stays.\<close>

definition half_even :: "rat \<Rightarrow> int" where
  "half_even r =
     (let f = \<lfloor>r\<rfloor>; d = r - of_int f in
      if d < 1 / 2 then f else if 1 / 2 < d then f + 1 else if even f then f else f + 1)"

definition no_decimals :: "rat \<Rightarrow> pystr" where
  "no_decimals r = (if r < 0 then str ''-'' else []) @ decimal (half_even (abs r))"

definition newline :: pystr where "newline = [10]"
definition dash :: pystr where "dash = str '' '' @ [8212] @ str '' ''"
definition tick :: pystr where "tick = [96]"

definition partial_label :: "voice list \<Rightarrow> pystr" where
  "partial_label vs = str ''> **PARTIAL SYNTHESIS INPUT**'' @ dash @ decimal (int (length vs)) @
     str '' voice(s) did not complete: '' @
     join (str '', '') (map (\<lambda>v. voice_id v @ str '' ('' @ status_name (voice_status v) @ str '')'') vs) @
     str ''. Their absence is a coverage gap, not agreement.'' @ newline @ newline"

definition heading :: "manifest \<Rightarrow> pystr \<Rightarrow> voice list \<Rightarrow> pystr" where
  "heading mf where_run missing =
     str ''# Synthesis input'' @ dash @ run_id mf @ newline @ newline @
     (if missing = [] then [] else partial_label missing) @
     str ''- **Target**: '' @ tick @ run_target mf @ tick @ newline @
     str ''- **Run dir**: '' @ tick @ where_run @ tick @ newline @
     str ''- **Created**: '' @ run_stamp (created mf) @ newline @ newline"

definition read_verdict :: "unicode \<Rightarrow> outputs \<Rightarrow> voice \<Rightarrow> run_error + pystr option" where
  "read_verdict u out v =
     (if voice_status v \<noteq> Complete then Inr None
      else case out (voice_file v) of
          None \<Rightarrow> Inr None
        | Some f \<Rightarrow> (case content f of Inl e \<Rightarrow> Inl (Raised e) | Inr t \<Rightarrow> Inr (Some (extract_verdict u t))))"

definition shown_verdict :: "voice \<Rightarrow> pystr option \<Rightarrow> pystr" where
  "shown_verdict v verdict = (case verdict of
       Some t \<Rightarrow> t
     | None \<Rightarrow> if voice_status v = Errored
         then str ''ERROR: '' @ take 60 (case error_detail v of None \<Rightarrow> [] | Some d \<Rightarrow> d) else str ''-'')"

definition roster_row :: "voice \<Rightarrow> pystr option \<Rightarrow> pystr" where
  "roster_row v verdict =
     str ''| '' @ voice_id v @ str '' | '' @ harness v @ str '' | '' @ status_name (voice_status v) @ str '' | '' @
     (case elapsed_s v of None \<Rightarrow> str ''-'' | Some r \<Rightarrow> no_decimals r @ str ''s'') @ str '' | '' @
     (case finish_reason v of None \<Rightarrow> str ''-'' | Some f \<Rightarrow> if f = [] then str ''-'' else f) @ str '' | '' @
     shown_verdict v verdict @ str '' | '' @ tick @ voice_file v @ tick @ str '' |'' @ newline"

text \<open>The ids that lean each way, in the order of the roster; the tally lists the directions that
  occur by name.\<close>

definition leaning :: "unicode \<Rightarrow> (pystr \<times> pystr) list \<Rightarrow> direction \<Rightarrow> pystr list" where
  "leaning u verdicts d = map fst (filter (\<lambda>(i, v). direction_of u v = d) verdicts)"

definition tally :: "unicode \<Rightarrow> (pystr \<times> pystr) list \<Rightarrow> (direction \<times> pystr list) list" where
  "tally u verdicts = filter (\<lambda>(d, ids). ids \<noteq> []) (map (\<lambda>d. (d, leaning u verdicts d)) [Breaks, Indeterminate, Other, Survives])"

definition tally_line :: "direction \<times> pystr list \<Rightarrow> pystr" where
  "tally_line row = str ''- **'' @ direction_name (fst row) @ str ''**: '' @ decimal (int (length (snd row))) @
     str '' voice(s)'' @ dash @ join (str '', '') (snd row) @ newline"

definition report_section :: "outputs \<Rightarrow> voice \<Rightarrow> run_error + pystr" where
  "report_section out v =
     (if voice_status v \<noteq> Complete then Inr []
      else case out (voice_file v) of
          None \<Rightarrow> Inr []
        | Some f \<Rightarrow> (case content f of
            Inl e \<Rightarrow> Inl (Raised e)
          | Inr t \<Rightarrow> Inr (str ''## Voice: '' @ voice_id v @ str '' (harness: '' @ harness v @ str '')'' @ newline @ newline @
              t @ newline @ newline @ str ''---'' @ newline @ newline)))"

definition verdicts_of :: "voice list \<Rightarrow> pystr option list \<Rightarrow> (pystr \<times> pystr) list" where
  "verdicts_of vs rs = concat (map (\<lambda>(v, r). case r of None \<Rightarrow> [] | Some t \<Rightarrow> [(voice_id v, t)]) (zip vs rs))"

record synthesis =
  document :: pystr
  counted :: "(direction \<times> pystr list) list"

definition overview :: "manifest \<Rightarrow> pystr option list \<Rightarrow> (direction \<times> pystr list) list \<Rightarrow> pystr" where
  "overview mf rs rows =
     str ''## Voice roster'' @ newline @ newline @
     str ''| Voice | Harness | Status | Elapsed | Finish | Verdict | File |'' @ newline @
     str ''|---|---|---|---|---|---|---|'' @ newline @
     concat (map (\<lambda>(v, r). roster_row v r) (zip (voices mf) rs)) @ newline @
     str ''## Verdict tally'' @ newline @ newline @ concat (map tally_line rows) @ newline @
     str ''## Per-voice reports (verbatim)'' @ newline @ newline @ str ''---'' @ newline @ newline"

definition cmd_synthesize :: "unicode \<Rightarrow> pystr \<Rightarrow> bool \<Rightarrow> run_dir \<Rightarrow> run_error + synthesis" where
  "cmd_synthesize u where_run allow_partial rd = rbind (load_manifest (disk rd)) (\<lambda>mf.
     let missing = filter (\<lambda>v. voice_status v \<noteq> Complete) (voices mf) in
     if missing \<noteq> [] \<and> \<not> allow_partial then Inl (NotComplete (map (\<lambda>v. (voice_id v, voice_status v)) missing))
     else if completed mf = [] then Inl NothingComplete
     else rbind (traverse (read_verdict u (outputs rd)) (voices mf)) (\<lambda>rs.
       let rows = tally u (verdicts_of (voices mf) rs) in
       rbind (traverse (report_section (outputs rd)) (voices mf)) (\<lambda>sections.
       Inr \<lparr>document = heading mf where_run missing @ overview mf rs rows @ concat sections, counted = rows\<rparr>)))"

text \<open>The file \<^verbatim>\<open>--out\<close> names then holds the document.\<close>

definition write_synthesis :: "rat \<Rightarrow> pystr \<Rightarrow> synthesis \<Rightarrow> run_dir \<Rightarrow> run_dir" where
  "write_synthesis now name syn rd =
     rd\<lparr>outputs := (outputs rd)(name \<mapsto> \<lparr>content = Inr (document syn), mtime = now\<rparr>)\<rparr>"

definition ascii :: unicode where
  "ascii = \<lparr>word_above = (\<lambda>_. False), upper_above = (\<lambda>c. [c])\<rparr>"

subsection \<open>What the document is made of\<close>

text \<open>The reports of a run that can be read: those of completed voices whose file is there.\<close>

definition report_of :: "outputs \<Rightarrow> voice \<Rightarrow> pystr \<Rightarrow> bool" where
  "report_of out v t \<longleftrightarrow> voice_status v = Complete \<and> (\<exists>f. out (voice_file v) = Some f \<and> content f = Inr t)"

lemma read_verdict_Some: "read_verdict u out v = Inr (Some x) \<Longrightarrow> \<exists>t. report_of out v t \<and> x = extract_verdict u t"
  by (auto simp: read_verdict_def report_of_def split: if_splits option.splits sum.splits)

lemma read_verdict_report: "read_verdict u out v = Inr r \<Longrightarrow> report_of out v t \<Longrightarrow> r = Some (extract_verdict u t)"
  by (auto simp: read_verdict_def report_of_def)

lemma report_of_unique: "report_of out v t \<Longrightarrow> report_of out v t' \<Longrightarrow> t' = t"
  by (auto simp: report_of_def)

lemma verdicts_of_Cons:
  "verdicts_of (v # vs) (r # rs) = (case r of None \<Rightarrow> [] | Some t \<Rightarrow> [(voice_id v, t)]) @ verdicts_of vs rs"
  by (simp add: verdicts_of_def)

lemma set_verdicts_of:
  assumes "list_all2 (\<lambda>v r. read_verdict u out v = Inr r) vs rs"
  shows "(i, x) \<in> set (verdicts_of vs rs) \<longleftrightarrow>
    (\<exists>v \<in> set vs. \<exists>t. voice_id v = i \<and> report_of out v t \<and> x = extract_verdict u t)"
  using assms
proof (induction rule: list_all2_induct)
  case Nil
  then show ?case by (simp add: verdicts_of_def)
next
  case (Cons v vs r rs)
  show ?case
  proof (cases r)
    case None
    then have "\<not> report_of out v t" for t using read_verdict_report [OF Cons(1)] by auto
    with None Cons(3) show ?thesis by (simp add: verdicts_of_Cons)
  next
    case (Some y)
    then obtain t where t: "report_of out v t" "y = extract_verdict u t" using read_verdict_Some Cons(1) by blast
    then have "report_of out v t' \<longleftrightarrow> t' = t" for t' using report_of_unique by blast
    with Some t(2) Cons(3) show ?thesis by (auto simp: verdicts_of_Cons)
  qed
qed

lemma distinct_verdicts_of:
  assumes "length vs = length rs" "distinct (map voice_id vs)"
  shows "distinct (map fst (verdicts_of vs rs))"
proof -
  have sub: "fst ` set (verdicts_of vs rs) \<subseteq> voice_id ` set vs" if "length vs = length rs" for vs rs
    using that
  proof (induction vs rs rule: list_induct2)
    case (Cons v vs r rs)
    then show ?case by (cases r) (auto simp: verdicts_of_Cons)
  qed (simp add: verdicts_of_def)
  from assms show ?thesis
  proof (induction vs rs rule: list_induct2)
    case (Cons v vs r rs)
    then show ?case using sub [OF Cons.hyps] by (cases r) (auto simp: verdicts_of_Cons)
  qed (simp add: verdicts_of_def)
qed

lemma set_leaning: "i \<in> set (leaning u vs d) \<longleftrightarrow> (\<exists>x. (i, x) \<in> set vs \<and> direction_of u x = d)"
  by (force simp: leaning_def)

lemma tally_rows: "(\<exists>ids. (d, ids) \<in> set (tally u vs) \<and> i \<in> set ids) \<longleftrightarrow> i \<in> set (leaning u vs d)"
  by (cases d) (auto simp: tally_def)

lemma tally_ids: "concat (map snd (tally u vs)) =
    leaning u vs Breaks @ leaning u vs Indeterminate @ leaning u vs Other @ leaning u vs Survives"
  by (simp add: tally_def)

lemma leaning_distinct: "distinct (map fst vs) \<Longrightarrow> distinct (leaning u vs d)"
  by (simp add: leaning_def distinct_map_filter)

lemma leaning_disjoint:
  assumes "distinct (map fst vs)" "d \<noteq> d'"
  shows "set (leaning u vs d) \<inter> set (leaning u vs d') = {}"
proof -
  have "x = y" if "(i, x) \<in> set vs" "(i, y) \<in> set vs" for i x y
    by (rule eq_key_imp_eq_value [OF assms(1) that])
  with assms(2) show ?thesis unfolding set_leaning disjoint_iff by blast
qed

lemma tally_distinct: "distinct (map fst vs) \<Longrightarrow> distinct (concat (map snd (tally u vs)))"
  unfolding tally_ids by (simp add: leaning_distinct leaning_disjoint Int_Un_distrib)

lemma contains_trans: "contains p s \<Longrightarrow> contains s t \<Longrightarrow> contains p t"
  unfolding contains_iff by (metis append.assoc)

lemma contains_append: "contains p s \<Longrightarrow> contains p (a @ s)" "contains p s \<Longrightarrow> contains p (s @ b)"
  unfolding contains_iff by (metis append.assoc)+

lemma contains_self [simp]: "contains p p"
  unfolding contains_iff by (metis append_Nil append_Nil2)

lemma contains_concat: "s \<in> set ss \<Longrightarrow> contains s (concat ss)"
  by (induction ss) (auto intro: contains_append)

lemma report_section_contains:
  "report_section out v = Inr s \<Longrightarrow> report_of out v t \<Longrightarrow> contains t s"
proof -
  assume "report_section out v = Inr s" "report_of out v t"
  then have "s = (str ''## Voice: '' @ voice_id v @ str '' (harness: '' @ harness v @ str '')'' @ newline @ newline) @
      t @ (newline @ newline @ str ''---'' @ newline @ newline)"
    by (auto simp: report_section_def report_of_def)
  then show ?thesis unfolding contains_iff by blast
qed

lemma cmd_synthesize_Inr:
  assumes "cmd_synthesize u w allow rd = Inr syn"
  shows "\<exists>mf rs sections front. disk rd = Some mf \<and> distinct (map voice_id (voices mf)) \<and>
    (allow \<or> filter (\<lambda>v. voice_status v \<noteq> Complete) (voices mf) = []) \<and> completed mf \<noteq> [] \<and>
    list_all2 (\<lambda>v r. read_verdict u (outputs rd) v = Inr r) (voices mf) rs \<and>
    list_all2 (\<lambda>v s. report_section (outputs rd) v = Inr s) (voices mf) sections \<and>
    front = overview mf rs (counted syn) \<and> counted syn = tally u (verdicts_of (voices mf) rs) \<and>
    document syn = heading mf w (filter (\<lambda>v. voice_status v \<noteq> Complete) (voices mf)) @ front @ concat sections"
proof -
  define missing where "missing mf = filter (\<lambda>v. voice_status v \<noteq> Complete) (voices mf)" for mf :: manifest
  obtain mf rs sections where parts: "disk rd = Some mf" "distinct (map voice_id (voices mf))"
    "allow \<or> missing mf = []" "completed mf \<noteq> []"
    "list_all2 (\<lambda>v r. read_verdict u (outputs rd) v = Inr r) (voices mf) rs"
    "list_all2 (\<lambda>v s. report_section (outputs rd) v = Inr s) (voices mf) sections"
    "syn = \<lparr>document = heading mf w (missing mf) @ overview mf rs (tally u (verdicts_of (voices mf) rs)) @ concat sections,
       counted = tally u (verdicts_of (voices mf) rs)\<rparr>"
    using assms unfolding cmd_synthesize_def missing_def [symmetric]
    by (auto simp: Let_def traverse_Inr_iff voice_ids_def split: if_splits)
  show ?thesis unfolding missing_def [symmetric]
    by (rule exI [of _ mf], rule exI [of _ rs], rule exI [of _ sections],
      rule exI [of _ "overview mf rs (counted syn)"]) (use parts in simp)
qed

lemma labelled:
  assumes "cmd_synthesize u w allow rd = Inr syn" "disk rd = Some mf" "v \<in> set (voices mf)" "voice_status v \<noteq> Complete"
  shows "contains (str ''> **PARTIAL SYNTHESIS INPUT**'') (document syn)"
proof -
  have "filter (\<lambda>v. voice_status v \<noteq> Complete) (voices mf) \<noteq> []"
    using assms(3,4) by (auto simp: filter_empty_conv)
  then show ?thesis using cmd_synthesize_Inr [OF assms(1)] assms(2)
    by (auto simp: heading_def partial_label_def contains_append)
qed

definition sample_report_dir :: "string \<Rightarrow> run_dir" where
  "sample_report_dir verdict = \<lparr>disk = map_option (\<lambda>mf. mf\<lparr>voices := map (\<lambda>v. v\<lparr>voice_status := Complete\<rparr>) (voices mf)\<rparr>)
       (sample_start ''claude,kimi'' ''claude:omp,kimi:omp''),
     outputs = [str ''claude.md'' \<mapsto> \<lparr>content = Inr (str verdict), mtime = 1700000005\<rparr>]\<rparr>"

lemma sample_report_document:
  "case cmd_synthesize ascii (str ''run'') False (sample_report_dir ''VERDICT: BREAKS | SURVIVES | INDETERMINATE'') of
     Inr syn \<Rightarrow> counted syn = [(Breaks, [str ''claude''])] \<and> \<not> contains (str ''PARTIAL'') (document syn) | Inl e \<Rightarrow> False"
  by code_simp

subsection \<open>Properties\<close>

text \<open>C32. A synthesis input says what was read. Without the override it is only built when every voice
  is complete, and never when none is; with it the document carries the PARTIAL label as soon as
  one is not. Every report that can be read stands in it verbatim, and the tally puts each such
  voice, and no other, exactly once under the direction of the verdict its own report gives.\<close>

theorem synthesis_says_what_was_read:
  assumes "cmd_synthesize u w allow rd = Inr syn" "disk rd = Some mf"
  shows "(allow \<or> (\<forall>v \<in> set (voices mf). voice_status v = Complete)) \<and>
    (\<exists>v \<in> set (voices mf). voice_status v = Complete) \<and>
    ((\<exists>v \<in> set (voices mf). voice_status v \<noteq> Complete) \<longrightarrow> contains (str ''> **PARTIAL SYNTHESIS INPUT**'') (document syn)) \<and>
    (\<forall>v \<in> set (voices mf). \<forall>t. report_of (outputs rd) v t \<longrightarrow> contains t (document syn)) \<and>
    distinct (concat (map snd (counted syn))) \<and>
    (\<forall>d i. (\<exists>ids. (d, ids) \<in> set (counted syn) \<and> i \<in> set ids) \<longleftrightarrow>
      (\<exists>v \<in> set (voices mf). \<exists>t. voice_id v = i \<and> report_of (outputs rd) v t \<and> direction_of u (extract_verdict u t) = d))"
proof -
  obtain rs sections front where parts: "distinct (map voice_id (voices mf))"
    "allow \<or> filter (\<lambda>v. voice_status v \<noteq> Complete) (voices mf) = []" "completed mf \<noteq> []"
    "list_all2 (\<lambda>v r. read_verdict u (outputs rd) v = Inr r) (voices mf) rs"
    "list_all2 (\<lambda>v s. report_section (outputs rd) v = Inr s) (voices mf) sections"
    "counted syn = tally u (verdicts_of (voices mf) rs)"
    "document syn = heading mf w (filter (\<lambda>v. voice_status v \<noteq> Complete) (voices mf)) @ front @ concat sections"
    using cmd_synthesize_Inr [OF assms(1)] assms(2) by auto
  have sections: "contains t (document syn)" if v: "v \<in> set (voices mf)" "report_of (outputs rd) v t" for v t
  proof -
    obtain s where s: "s \<in> set sections" "report_section (outputs rd) v = Inr s"
      using list_all2_partner [OF parts(5) v(1)] by blast
    have "contains t (concat sections)"
      by (rule contains_trans [OF report_section_contains [OF s(2) v(2)] contains_concat [OF s(1)]])
    then show ?thesis unfolding parts(7) by (intro contains_append)
  qed
  have rows: "(\<exists>ids. (d, ids) \<in> set (counted syn) \<and> i \<in> set ids) \<longleftrightarrow>
      (\<exists>v \<in> set (voices mf). \<exists>t. voice_id v = i \<and> report_of (outputs rd) v t \<and> direction_of u (extract_verdict u t) = d)" for d i
    unfolding parts(6) tally_rows set_leaning set_verdicts_of [OF parts(4)] by blast
  have once: "distinct (concat (map snd (counted syn)))"
    unfolding parts(6) by (rule tally_distinct) (simp add: distinct_verdicts_of parts(1) list_all2_lengthD [OF parts(4)])
  have some: "\<exists>v \<in> set (voices mf). voice_status v = Complete"
    using parts(3) by (auto simp: completed_def filter_empty_conv)
  have all: "allow \<or> (\<forall>v \<in> set (voices mf). voice_status v = Complete)"
    using parts(2) by (auto simp: filter_empty_conv)
  show ?thesis
    by (intro conjI allI impI ballI) (use all some once rows sections labelled [OF assms] in simp_all, blast)
qed

theorem synthesis_says_what_was_read_witness:
  "\<exists>syn. cmd_synthesize ascii (str ''run'') False (sample_report_dir ''VERDICT: SURVIVES'') = Inr syn \<and>
     contains (str ''VERDICT: SURVIVES'') (document syn)"
proof -
  let ?rd = "sample_report_dir ''VERDICT: SURVIVES''"
  have run: "case cmd_synthesize ascii (str ''run'') False ?rd of Inr _ \<Rightarrow> True | Inl _ \<Rightarrow> False" by code_simp
  then obtain syn where syn: "cmd_synthesize ascii (str ''run'') False ?rd = Inr syn"
    by (cases "cmd_synthesize ascii (str ''run'') False ?rd") auto
  have "case disk ?rd of Some mf \<Rightarrow> list_ex (\<lambda>v. voice_status v = Complete \<and> voice_file v = str ''claude.md'') (voices mf)
    | None \<Rightarrow> False" by code_simp
  then obtain mf v where mf: "disk ?rd = Some mf" "v \<in> set (voices mf)" "voice_status v = Complete"
    "voice_file v = str ''claude.md''" by (cases "disk ?rd") (auto simp: list_ex_iff)
  have "report_of (outputs ?rd) v (str ''VERDICT: SURVIVES'')"
    using mf(3,4) by (simp add: report_of_def sample_report_dir_def)
  with synthesis_says_what_was_read [OF syn mf(1)] mf(2) syn show ?thesis by blast
qed

text \<open>The guard against a copied menu does not see it on a verdict line: the pattern stops at the
  bar the guard looks for, so a voice that only echoes the menu is counted as BREAKS. Markup after
  the colon makes the pattern give the colon's space back as the whole verdict, which is blank.
  And a completed voice whose report is gone is left out of a document without the PARTIAL label.\<close>

theorem menu_echo_is_counted:
  "extract_verdict ascii (str ''VERDICT: BREAKS | SURVIVES | INDETERMINATE'') = str ''BREAKS'' \<and>
   template_echo ascii (str ''VERDICT: BREAKS | SURVIVES | INDETERMINATE'') \<and>
   extract_verdict ascii (str ''VERDICT: **SURVIVES**'') = [] \<and> direction_of ascii [] = Other"
  by code_simp

theorem missing_report_unlabelled:
  "\<exists>mf syn. disk (sample_report_dir ''VERDICT: BREAKS | SURVIVES | INDETERMINATE'') = Some mf \<and>
     map voice_status (voices mf) = [Complete, Complete] \<and>
     cmd_synthesize ascii (str ''run'') False (sample_report_dir ''VERDICT: BREAKS | SURVIVES | INDETERMINATE'') = Inr syn \<and>
     counted syn = [(Breaks, [str ''claude''])] \<and> \<not> contains (str ''PARTIAL'') (document syn)"
proof -
  let ?rd = "sample_report_dir ''VERDICT: BREAKS | SURVIVES | INDETERMINATE''"
  have "case disk ?rd of Some mf \<Rightarrow> map voice_status (voices mf) = [Complete, Complete] | None \<Rightarrow> False" by code_simp
  then obtain mf where "disk ?rd = Some mf" "map voice_status (voices mf) = [Complete, Complete]"
    by (cases "disk ?rd") auto
  moreover obtain syn where "cmd_synthesize ascii (str ''run'') False ?rd = Inr syn"
    "counted syn = [(Breaks, [str ''claude''])]" "\<not> contains (str ''PARTIAL'') (document syn)"
    using sample_report_document by (cases "cmd_synthesize ascii (str ''run'') False ?rd") auto
  ultimately show ?thesis by (intro exI conjI)
qed

end
