(* ===== verification/Panel_Evidence.thy ===== *)
theory Panel_Evidence
  imports Gate_B Panel_Contract
begin

text \<open>
  The evidence gate of the panel, \<^verbatim>\<open>gate_b_status\<close> and \<^verbatim>\<open>make_evidence_gate\<close> of
  \<^verbatim>\<open>skills/fv-panel/panel_contract.py\<close>: the inputs of Gate B are inspected, archived, compared with
  their sources, and judged in the archive. Sources may change between any two reads, so every
  read is a parameter by the stage it happens at. The process the gate starts is Gate B
  (theory \<open>Gate_B\<close>) on the archive; whether it can be started and returns in time is a parameter. A
  directory of the archive is what was written to it. The mode without an archive, which
  \<^verbatim>\<open>make_evidence_gate\<close> never uses, is not modelled.
\<close>

subsection \<open>Hashing a directory\<close>

type_synonym bytes = "int list"

text \<open>\<^verbatim>\<open>_hash_path\<close> of a directory: its files by path; \<open>None\<close> is a file that cannot be read.\<close>

definition tree_bytes :: "(parts \<times> bytes option) list \<Rightarrow> bytes" where
  "tree_bytes es = concat (map (\<lambda>(p, c). utf8 (posix p) @ [0] @
     (case c of None \<Rightarrow> str ''<unreadable>'' | Some b \<Rightarrow> b) @ [0]) (sort_key fst es))"

definition hash_path :: "(bytes \<Rightarrow> pystr) \<Rightarrow> (parts \<times> bytes option) list \<Rightarrow> py_exn + pystr" where
  "hash_path digest es =
     (if list_ex (\<lambda>(p, c). list_ex (list_ex surrogate) p) es then Inl ValueError
      else Inr (str ''sha256:'' @ digest (tree_bytes es)))"

subsection \<open>The inputs\<close>

datatype stage = Inspect | Parse | Before | Copying | After

datatype source = ManifestSource | RecordSource parts | RawSource parts

datatype record_node = LinkNode | FolderNode | FileNode

text \<open>Paths of records are relative to the directory of records, those of raw artifacts resolved.\<close>

record evidence_world =
  digest :: "bytes \<Rightarrow> pystr"
  decode :: "bytes \<Rightarrow> py_exn + pystr"
  lossy :: "bytes \<Rightarrow> pystr"
  parse :: "pystr \<Rightarrow> json option"
  manifest_regular :: bool
  records_link :: bool
  records_folder :: bool
  listing :: "(parts \<times> record_node) list"
  inside_records :: "parts \<Rightarrow> bool"
  fetch :: "stage \<Rightarrow> source \<Rightarrow> py_exn + bytes"
  tree :: "stage \<Rightarrow> (parts \<times> bytes option) list"
  gate_root :: parts
  resolve_raw :: "pystr \<Rightarrow> py_exn + parts"
  raw_link :: "pystr \<Rightarrow> bool"
  raw_file :: "parts \<Rightarrow> bool"
  archive_fresh :: bool
  launch_failure :: "py_exn option"

datatype evidence_error =
    InvalidManifest
  | UnknownClaims "pystr list"
  | RecordsLinked
  | RecordsNotFolder
  | LinkInInputs parts
  | InputEscapes parts
  | RawEscapes pystr
  | RawInvalid pystr
  | RawMismatch parts
  | IntegrityFailed
  | Failed_With py_exn
  | ReportNotJson

text \<open>What \<^verbatim>\<open>except\<close> catches ends in the result; any other exception leaves the function.\<close>

datatype stop = Caught evidence_error | Escaped py_exn

definition stop_of :: "py_exn \<Rightarrow> stop" where
  "stop_of e = (if e = OSError \<or> e = ValueError then Caught (Failed_With e) else Escaped e)"

definition attempt_to :: "py_exn + 'a \<Rightarrow> stop + 'a" where
  "attempt_to r = (case r of Inl e \<Rightarrow> Inl (stop_of e) | Inr x \<Rightarrow> Inr x)"

definition insist :: "bool \<Rightarrow> evidence_error \<Rightarrow> stop + unit" where
  "insist b e = require_that b (Caught e)"

definition read_json :: "evidence_world \<Rightarrow> bytes \<Rightarrow> stop + json" where
  "read_json w b = rbind (attempt_to (decode w b)) (\<lambda>t. case parse w t of
       None \<Rightarrow> Inl (stop_of ValueError) | Some v \<Rightarrow> Inr v)"

definition mapping_id :: "json \<Rightarrow> pystr option" where
  "mapping_id v = as_str (jsub v ''id'')"

text \<open>\<^verbatim>\<open>manifest_data.get(key, [])\<close>, iterated.\<close>

definition collection_ids :: "json \<Rightarrow> string \<Rightarrow> py_exn + pystr list" where
  "collection_ids doc key = (case doc of
       JObj fs \<Rightarrow> rbind (iter_items (case map_of fs (str key) of None \<Rightarrow> JArr [] | Some v \<Rightarrow> v))
         (\<lambda>xs. Inr (List.map_filter mapping_id xs))
     | _ \<Rightarrow> Inl AttributeError)"

definition inspect_manifest :: "evidence_world \<Rightarrow> pystr list \<Rightarrow> stop + pystr" where
  "inspect_manifest w required =
     rbind (insist (manifest_regular w) InvalidManifest) (\<lambda>_.
     rbind (attempt_to (fetch w Inspect ManifestSource)) (\<lambda>b.
     rbind (attempt_to (fetch w Parse ManifestSource)) (\<lambda>b'. rbind (read_json w b') (\<lambda>doc.
     rbind (attempt_to (collection_ids doc ''invariants'')) (\<lambda>is.
     rbind (attempt_to (collection_ids doc ''witnesses'')) (\<lambda>ws.
     let unknown = sorted_set (filter (\<lambda>c. c \<notin> set is \<and> c \<notin> set ws) required) in
     rbind (insist (unknown = []) (UnknownClaims unknown)) (\<lambda>_. Inr (digest w b))))))))"

fun collect_files :: "evidence_world \<Rightarrow> (parts \<times> record_node) list \<Rightarrow> stop + parts list" where
  "collect_files w [] = Inr []"
| "collect_files w ((p, n) # ps) = (case n of
       LinkNode \<Rightarrow> Inl (Caught (LinkInInputs p))
     | FolderNode \<Rightarrow> collect_files w ps
     | FileNode \<Rightarrow> rbind (insist (inside_records w p) (InputEscapes p)) (\<lambda>_.
         rbind (collect_files w ps) (\<lambda>fs. Inr (p # fs))))"

text \<open>The artifact a record cites: resolved, with the path it gave. Records that are no objects, have
  no bindings or name no artifact are passed over.\<close>

definition raw_of :: "evidence_world \<Rightarrow> json \<Rightarrow> stop + (parts \<times> pystr) option" where
  "raw_of w r = (case (jsub (jsub r ''bindings'') ''raw_output_path'', jsub (jsub r ''bindings'') ''raw_output_hash'') of
       (JStr rel, JStr h) \<Rightarrow>
         rbind (attempt_to (resolve_raw w rel)) (\<lambda>raw.
         rbind (insist (\<not> is_absolute rel \<and> contained (gate_root w) raw) (RawEscapes rel)) (\<lambda>_.
         rbind (insist (\<not> raw_link w rel \<and> raw_file w raw) (RawInvalid rel)) (\<lambda>_.
         rbind (attempt_to (fetch w Inspect (RawSource raw))) (\<lambda>b.
         rbind (insist (digest w b = h) (RawMismatch raw)) (\<lambda>_. Inr (Some (raw, rel)))))))
     | _ \<Rightarrow> Inr None)"

definition raws_in :: "evidence_world \<Rightarrow> parts \<Rightarrow> stop + (parts \<times> pystr) list" where
  "raws_in w p =
     rbind (attempt_to (fetch w Inspect (RecordSource p))) (\<lambda>b. rbind (read_json w b) (\<lambda>v.
     rbind (traverse (raw_of w) (unwrap v)) (\<lambda>rs. Inr (List.map_filter id rs))))"

definition gather_inputs :: "evidence_world \<Rightarrow> stop + parts list \<times> (parts, pystr) dict" where
  "gather_inputs w =
     rbind (insist (\<not> records_link w) RecordsLinked) (\<lambda>_.
     rbind (insist (records_folder w) RecordsNotFolder) (\<lambda>_.
     rbind (collect_files w (sort_key fst (listing w))) (\<lambda>files.
     rbind (traverse (raws_in w) files) (\<lambda>rss.
     Inr (files, foldl (\<lambda>d (raw, rel). dset d raw rel) [] (concat rss))))))"

subsection \<open>The archive\<close>

type_synonym archive = "(parts, bytes) dict"

text \<open>A path below the archive, \<^verbatim>\<open>..\<close> resolved; it may lead out of it.\<close>

definition archive_path :: "pystr \<Rightarrow> parts" where
  "archive_path rel = normalize_from [] [] (path_parts rel)"

definition below :: "parts \<Rightarrow> parts \<Rightarrow> bool" where
  "below p q \<longleftrightarrow> contained p q \<and> p \<noteq> q"

text \<open>A file cannot be written where a directory is, nor below a file.\<close>

definition write_bytes :: "archive \<Rightarrow> parts \<Rightarrow> bytes \<Rightarrow> stop + archive" where
  "write_bytes ar p b =
     (if p = [] \<or> list_ex (\<lambda>(q, _). below p q \<or> below q p) ar then Inl (stop_of OSError) else Inr (dset ar p b))"

fun copy_all :: "(parts \<times> (py_exn + bytes)) list \<Rightarrow> archive \<Rightarrow> stop + archive" where
  "copy_all [] ar = Inr ar"
| "copy_all ((p, b) # cs) ar = rbind (attempt_to b) (\<lambda>b. rbind (write_bytes ar p b) (copy_all cs))"

definition records_name :: pystr where "records_name = str ''records''"
definition manifest_place :: parts where "manifest_place = [str ''.fv'', str ''obligations.json'']"

definition copies :: "evidence_world \<Rightarrow> parts list \<Rightarrow> (parts, pystr) dict \<Rightarrow> (parts \<times> (py_exn + bytes)) list" where
  "copies w files raws =
     map (\<lambda>p. (records_name # p, fetch w Copying (RecordSource p))) files @
     [(manifest_place, fetch w Copying ManifestSource)] @
     map (\<lambda>(raw, rel). (archive_path rel, fetch w Copying (RawSource raw))) raws"

definition archived :: "archive \<Rightarrow> parts \<Rightarrow> stop + bytes" where
  "archived ar p = (case map_of ar p of None \<Rightarrow> Inl (stop_of OSError) | Some b \<Rightarrow> Inr b)"

definition records_tree :: "archive \<Rightarrow> (parts \<times> bytes option) list" where
  "records_tree ar = List.map_filter (\<lambda>(p, b). case p of [] \<Rightarrow> None
     | q # qs \<Rightarrow> if q = records_name then Some (qs, Some b) else None) ar"

definition archive_tree :: "archive \<Rightarrow> (parts \<times> bytes option) list" where
  "archive_tree ar = map (\<lambda>(p, b). (p, Some b)) (filter (\<lambda>(p, b). hd p \<noteq> str ''..'') ar)"

record archiving =
  archive_files :: archive
  records_digest :: pystr
  raw_digests :: "pystr list"
  archive_digest :: pystr
  stable :: bool

definition digests_at :: "evidence_world \<Rightarrow> stage \<Rightarrow> (parts, pystr) dict \<Rightarrow> stop + pystr list" where
  "digests_at w s raws = traverse (\<lambda>(raw, rel). rbind (attempt_to (fetch w s (RawSource raw))) (\<lambda>b. Inr (digest w b))) raws"

definition make_archive :: "evidence_world \<Rightarrow> parts list \<Rightarrow> (parts, pystr) dict \<Rightarrow> stop + archiving" where
  "make_archive w files raws =
     rbind (digests_at w Before raws) (\<lambda>raw_before.
     rbind (attempt_to (hash_path (digest w) (tree w Before))) (\<lambda>records_before.
     rbind (attempt_to (fetch w Before ManifestSource)) (\<lambda>manifest_before.
     rbind (if archive_fresh w then Inr () else Inl (stop_of OSError)) (\<lambda>_.
     rbind (copy_all (copies w files raws) []) (\<lambda>ar.
     rbind (attempt_to (hash_path (digest w) (tree w After))) (\<lambda>records_after.
     rbind (attempt_to (fetch w After ManifestSource)) (\<lambda>manifest_after.
     rbind (attempt_to (hash_path (digest w) (records_tree ar))) (\<lambda>records_kept.
     rbind (archived ar manifest_place) (\<lambda>manifest_kept.
     rbind (digests_at w After raws) (\<lambda>raw_after.
     rbind (traverse (\<lambda>(raw, rel). rbind (archived ar (archive_path rel)) (\<lambda>b. Inr (digest w b))) raws) (\<lambda>raw_kept.
     rbind (attempt_to (hash_path (digest w) (archive_tree ar))) (\<lambda>whole.
     Inr \<lparr>archive_files = ar, records_digest = records_before, raw_digests = sort raw_before, archive_digest = whole,
       stable = (records_before = records_after \<and> records_after = records_kept \<and>
         digest w manifest_before = digest w manifest_after \<and> digest w manifest_after = digest w manifest_kept \<and>
         raw_before = raw_after \<and> raw_after = raw_kept)\<rparr>))))))))))))"

subsection \<open>Gate B on the archive\<close>

text \<open>What Gate B sees with the archive as its root: nothing in it is a link.\<close>

definition archive_env :: "evidence_world \<Rightarrow> archive \<Rightarrow> env" where
  "archive_env w ar = \<lparr>
     inside_root = (\<lambda>s. Inr (\<not> is_absolute s \<and> \<not> (archive_path s \<noteq> [] \<and> hd (archive_path s) = str ''..''))),
     read_file = (\<lambda>s. Inr (map_of ar (archive_path s))),
     sha256 = digest w, decode_text = lossy w, json_loads = parse w\<rparr>"

text \<open>The documents of \<^verbatim>\<open>--records\<close> are the files \<^verbatim>\<open>*.json\<close> directly in the directory.\<close>

definition record_documents :: "evidence_world \<Rightarrow> archive \<Rightarrow> json list option" where
  "record_documents w ar =
     (let files = List.map_filter (\<lambda>(p, b). case p of
            [q, n] \<Rightarrow> if q = records_name \<and> ends_with n (str ''.json'') then Some (n, b) else None | _ \<Rightarrow> None) ar;
          docs = map (\<lambda>(n, b). case decode w b of Inl e \<Rightarrow> None | Inr t \<Rightarrow> parse w t) (sort_key fst files) in
      if list_ex (\<lambda>d. d = None) docs \<or> \<not> list_ex (\<lambda>(p, b). p \<noteq> [] \<and> hd p = records_name) ar then None
      else Some (List.map_filter id docs))"

definition archive_manifest :: "evidence_world \<Rightarrow> archive \<Rightarrow> (pystr \<times> json) option" where
  "archive_manifest w ar = (case map_of ar manifest_place of
       None \<Rightarrow> None
     | Some b \<Rightarrow> (case decode w b of Inl e \<Rightarrow> None | Inr t \<Rightarrow> map_option (Pair (digest w b)) (parse w t)))"

definition panel_args :: "pystr list \<Rightarrow> pystr \<Rightarrow> pystr \<Rightarrow> pystr \<Rightarrow> gate_args" where
  "panel_args required snapshot intent manifest_hash = \<lparr>require = Some (join (str '','') required),
     pin_snapshot = Some snapshot, pin_intent = Some intent, pin_manifest = Some manifest_hash,
     exact = True, allow_unbound = False\<rparr>"

text \<open>Both bindings are pinned, so that nothing is recomputed.\<close>

definition panel_inputs :: "evidence_world \<Rightarrow> archive \<Rightarrow> inputs" where
  "panel_inputs w ar = \<lparr>documents = record_documents w ar, manifest_file = Some (archive_manifest w ar),
     current_snapshot = Inl TargetEmpty, current_intent = Inl TargetEmpty\<rparr>"

fun status_word :: "status \<Rightarrow> pystr" where
  "status_word DuplicateRecord = str ''duplicate-record''"
| "status_word MissingRecord = str ''missing-record''"
| "status_word (InvalidRecord ds) = str ''invalid''"
| "status_word FailStatus = str ''FAIL''"
| "status_word IncompleteStatus = str ''INCOMPLETE''"
| "status_word (UnwaivedAssumption as) = str ''unwaived-assumption''"
| "status_word PassWaived = str ''PASS-waived''"
| "status_word PassStatus = str ''PASS''"

record evidence_result =
  statuses :: "(pystr, pystr) dict"
  gate_status_code :: "nat option"
  manifest_sha256 :: "pystr option"
  records_sha256 :: "pystr option"
  raw_artifacts_sha256 :: "pystr list option"
  archive_sha256 :: "pystr option"
  source_stable :: "bool option"
  failure :: "evidence_error option"

definition no_result :: evidence_result where
  "no_result = \<lparr>statuses = [], gate_status_code = None, manifest_sha256 = None, records_sha256 = None,
     raw_artifacts_sha256 = None, archive_sha256 = None, source_stable = None, failure = None\<rparr>"

definition stopped :: "evidence_result \<Rightarrow> stop \<Rightarrow> py_exn + evidence_result" where
  "stopped res s = (case s of Caught e \<Rightarrow> Inr (res\<lparr>failure := Some e\<rparr>) | Escaped e \<Rightarrow> Inl e)"

text \<open>The report is the only JSON Gate B prints; an error or a traceback is not.\<close>

definition run_gate :: "evidence_world \<Rightarrow> gate_args \<Rightarrow> archive \<Rightarrow> evidence_result \<Rightarrow> evidence_result" where
  "run_gate w args ar res = (case launch_failure w of
       Some e \<Rightarrow> res\<lparr>failure := Some (Failed_With e)\<rparr>
     | None \<Rightarrow>
        (let out = gate_main (archive_env w ar) args (panel_inputs w ar);
             res1 = res\<lparr>gate_status_code := Some (gate_exit out)\<rparr> in
         case out of
           Inr (Inr rep) \<Rightarrow> res1\<lparr>statuses := foldl (\<lambda>d x. dset d (fst x) (status_word (snd x))) [] (per_claim rep)\<rparr>
         | _ \<Rightarrow> res1\<lparr>failure := Some ReportNotJson\<rparr>))"

definition gate_b_status :: "evidence_world \<Rightarrow> pystr list \<Rightarrow> pystr \<Rightarrow> pystr \<Rightarrow> py_exn + evidence_result" where
  "gate_b_status w required snapshot intent = (case inspect_manifest w required of
       Inl s \<Rightarrow> stopped no_result s
     | Inr h \<Rightarrow> (let res1 = no_result\<lparr>manifest_sha256 := Some h\<rparr> in case gather_inputs w of
         Inl s \<Rightarrow> stopped res1 s
       | Inr (files, raws) \<Rightarrow> (case make_archive w files raws of
           Inl s \<Rightarrow> stopped res1 s
         | Inr a \<Rightarrow> (let res2 = res1\<lparr>records_sha256 := Some (records_digest a), raw_artifacts_sha256 := Some (raw_digests a),
               archive_sha256 := Some (archive_digest a), source_stable := Some (stable a)\<rparr> in
             if \<not> stable a then Inr (res2\<lparr>failure := Some IntegrityFailed\<rparr>)
             else Inr (run_gate w (panel_args required snapshot intent h) (archive_files a) res2)))))"

definition intent_binding :: "(bytes \<Rightarrow> pystr) \<Rightarrow> (bytes \<Rightarrow> py_exn + pystr) \<Rightarrow> py_exn + bytes \<Rightarrow> py_exn + pystr \<times> pystr" where
  "intent_binding dig dec file = rbind file (\<lambda>b. rbind (dec b) (\<lambda>t. Inr (t, dig b)))"

definition make_evidence_gate :: "evidence_world \<Rightarrow> pystr list \<Rightarrow> pystr \<Rightarrow> pystr \<Rightarrow> py_exn + evidence_result" where
  "make_evidence_gate w required intent = (\<lambda>snapshot. gate_b_status w required snapshot intent)"

subsection \<open>A passing milestone\<close>

lemma guard_passes:
  assumes "Panel_Contract.verdict (milestone_verdict_guard wanted sts data) = MilestonePass"
  shows "wanted \<noteq> []" "\<And>c. c \<in> set wanted \<Longrightarrow> map_of sts c \<in> {Some (str ''PASS''), Some (str ''PASS-waived'')}"
proof -
  have all: "map (\<lambda>c. criterion_verdict (judge_criterion sts (model_verdicts data) c)) (dedupe wanted) \<noteq> []"
    "\<forall>c \<in> set (dedupe wanted). criterion_verdict (judge_criterion sts (model_verdicts data) c) = MilestonePass"
    using assms unfolding guard_verdict milestone_of_pass by auto
  show "wanted \<noteq> []" using all(1) by (auto simp: dedupe_def)
  show "map_of sts c \<in> {Some (str ''PASS''), Some (str ''PASS-waived'')}" if "c \<in> set wanted" for c
    using all(2) that criterion_pass by auto
qed

lemma status_word_passes: "status_word s \<in> {str ''PASS'', str ''PASS-waived''} \<longleftrightarrow> passed s"
  by (cases s) (simp_all add: passed_def)

lemma statuses_row:
  "map_of (foldl (\<lambda>d x. dset d (fst x) (status_word (snd x))) [] rows) c = Some t \<Longrightarrow> \<exists>s. (c, s) \<in> set rows \<and> t = status_word s"
proof -
  assume look: "map_of (foldl (\<lambda>d x. dset d (fst x) (status_word (snd x))) [] rows) c = Some t"
  from look have "map_of (rev (map (\<lambda>x. (fst x, status_word (snd x))) rows)) c = Some t"
    using alist.look_foldl_store [of fst "status_word \<circ> snd" "[]" rows] by (simp add: comp_def)
  then have "(c, t) \<in> set (rev (map (\<lambda>x. (fst x, status_word (snd x))) rows))" by (rule map_of_SomeD)
  then show ?thesis by auto
qed

lemma gate_row_verified:
  assumes "gate_main env args ins = Inr (Inr rep)" "prepare args ins = Inr p"
    and pass: "\<And>c. c \<in> set ids \<Longrightarrow> \<exists>s. (c, s) \<in> set (per_claim rep) \<and> passed s"
  shows "\<forall>c \<in> set ids. verified_claim env (run_expect p) (run_manifest p) (run_records p) ids c"
proof -
  let ?judge = "\<lambda>required. judge_claim env (run_expect p) (run_manifest p) (judged_of (run_records p) required)"
  have rows: "list_all2 (\<lambda>c row. \<exists>s. ?judge (run_required p) c = Inr s \<and> row = (c, s)) (run_required p) (per_claim rep)"
    using assms(1,2) by (auto simp: gate_main_report judge_run_rows)
  have judged: "c \<in> set (run_required p) \<and> ?judge (run_required p) c = Inr s" if "(c, s) \<in> set (per_claim rep)" for c s
    using rows that by (fastforce simp: list_all2_conv_all_nth in_set_conv_nth)
  have sub: "set ids \<subseteq> set (run_required p)" using pass judged by blast
  have mine: "\<exists>s. ?judge ids c = Inr s \<and> passed s" if "c \<in> set ids" for c
    using pass [OF that] judged judge_claim_subset sub by blast
  then have "\<forall>d \<in> set ids. \<exists>q. records_of d (run_records p) = [q]" using judge_claim_judged by blast
  then show ?thesis using mine judge_passed by blast
qed

definition archived_from :: "evidence_world \<Rightarrow> archive \<Rightarrow> bool" where
  "archived_from w ar \<longleftrightarrow> (\<exists>files raws a. gather_inputs w = Inr (files, raws) \<and> make_archive w files raws = Inr a \<and>
     stable a \<and> archive_files a = ar \<and>
     (\<exists>b b'. fetch w Before ManifestSource = Inr b \<and> map_of ar manifest_place = Some b' \<and> digest w b = digest w b') \<and>
     (\<forall>(raw, rel) \<in> set raws. \<exists>b b'. fetch w Before (RawSource raw) = Inr b \<and>
        map_of ar (archive_path rel) = Some b' \<and> digest w b = digest w b'))"

lemma attempt_to_Inr [simp]: "attempt_to r = Inr x \<longleftrightarrow> r = Inr x"
  by (cases r) (simp_all add: attempt_to_def)

lemma archived_Inr [simp]: "archived ar p = Inr b \<longleftrightarrow> map_of ar p = Some b"
  by (auto simp: archived_def split: option.splits)

lemma traverse_agree:
  assumes "traverse f xs = Inr ys" "traverse g xs = Inr ys" "x \<in> set xs"
  shows "\<exists>y. f x = Inr y \<and> g x = Inr y"
  using assms by (induction xs arbitrary: ys) auto

lemma make_archive_kept:
  assumes "gather_inputs w = Inr (files, raws)" "make_archive w files raws = Inr a" "stable a"
  shows "archived_from w (archive_files a)"
proof -
  obtain rb mb mk rk where parts: "digests_at w Before raws = Inr rb" "fetch w Before ManifestSource = Inr mb"
    "map_of (archive_files a) manifest_place = Some mk"
    "traverse (\<lambda>(raw, rel). rbind (archived (archive_files a) (archive_path rel)) (\<lambda>b. Inr (digest w b))) raws = Inr rk"
    and same: "digest w mb = digest w mk" "rb = rk"
    using assms(2,3) by (auto simp: make_archive_def)
  have "\<exists>b b'. fetch w Before (RawSource raw) = Inr b \<and> map_of (archive_files a) (archive_path rel) = Some b' \<and> digest w b = digest w b'"
    if "(raw, rel) \<in> set raws" for raw rel
    using traverse_agree [OF parts(1) [unfolded digests_at_def] _ that] parts(4) same(2) by fastforce
  with assms parts same show ?thesis unfolding archived_from_def by blast
qed

lemma gate_b_status_rows:
  assumes "gate_b_status w ids snapshot intent = Inr res" "statuses res \<noteq> []"
  shows "\<exists>h ar rep. inspect_manifest w ids = Inr h \<and> manifest_sha256 res = Some h \<and> archived_from w ar \<and>
    gate_main (archive_env w ar) (panel_args ids snapshot intent h) (panel_inputs w ar) = Inr (Inr rep) \<and>
    statuses res = foldl (\<lambda>d x. dset d (fst x) (status_word (snd x))) [] (per_claim rep) \<and> failure res = None \<and>
    source_stable res = Some True"
proof -
  have none: "statuses r = [] \<Longrightarrow> stopped r s = Inr res \<Longrightarrow> False" for r s
    using assms(2) by (auto simp: stopped_def split: stop.splits)
  obtain h where h: "inspect_manifest w ids = Inr h"
    using assms(1) none [of no_result] by (cases "inspect_manifest w ids") (auto simp: gate_b_status_def no_result_def)
  let ?r1 = "no_result\<lparr>manifest_sha256 := Some h\<rparr>"
  have r1: "statuses ?r1 = []" by (simp add: no_result_def)
  obtain files raws where g: "gather_inputs w = Inr (files, raws)"
    using assms(1) h none [OF r1] by (cases "gather_inputs w") (auto simp: gate_b_status_def)
  obtain a where a: "make_archive w files raws = Inr a"
    using assms(1) h g none [OF r1] by (cases "make_archive w files raws") (auto simp: gate_b_status_def)
  define r2 where "r2 = ?r1\<lparr>records_sha256 := Some (records_digest a), raw_artifacts_sha256 := Some (raw_digests a),
    archive_sha256 := Some (archive_digest a), source_stable := Some (stable a)\<rparr>"
  have r2: "statuses r2 = []" "failure r2 = None" "source_stable r2 = Some (stable a)" "manifest_sha256 r2 = Some h"
    by (simp_all add: r2_def no_result_def)
  have run: "res = (if \<not> stable a then r2\<lparr>failure := Some IntegrityFailed\<rparr>
      else run_gate w (panel_args ids snapshot intent h) (archive_files a) r2)"
    using assms(1) h g a by (simp add: gate_b_status_def r2_def Let_def split: if_splits)
  then have ok: "stable a" "launch_failure w = None"
    using assms(2) r2(1) by (auto simp: run_gate_def split: if_splits option.splits)
  obtain rep where rep: "gate_main (archive_env w (archive_files a)) (panel_args ids snapshot intent h)
      (panel_inputs w (archive_files a)) = Inr (Inr rep)"
    using run assms(2) r2(1) ok by (auto simp: run_gate_def Let_def split: sum.splits)
  show ?thesis
    using h make_archive_kept [OF g a ok(1)] rep run ok r2
    by (intro exI [of _ h] exI [of _ "archive_files a"] exI [of _ rep]) (simp add: run_gate_def Let_def)
qed

text \<open>C7. A passing milestone rests on Gate B. When the guard, given the statuses of the evidence gate,
  says PASS, whatever the model said, then the inputs of Gate B were archived from sources that
  did not change meanwhile, by their digests; Gate B judged the archive, bound to exactly the
  given snapshot, intent and manifest; and every criterion has exactly one record there, sound
  and passing in every respect Gate B checks.\<close>

theorem milestone_rests_on_gate_b:
  assumes "gate_b_status w ids snapshot intent = Inr res"
    and "Panel_Contract.verdict (milestone_verdict_guard ids (statuses res) data) = MilestonePass"
  shows "ids \<noteq> [] \<and> failure res = None \<and> source_stable res = Some True \<and>
    (\<exists>h ar p. manifest_sha256 res = Some h \<and> archived_from w ar \<and>
       prepare (panel_args ids snapshot intent h) (panel_inputs w ar) = Inr p \<and>
       expect_snapshot (run_expect p) = Some snapshot \<and> snapshot_exact (run_expect p) \<and>
       expect_intent (run_expect p) = Some intent \<and> expect_manifest (run_expect p) = Some h \<and>
       (\<forall>c \<in> set ids. verified_claim (archive_env w ar) (run_expect p) (run_manifest p) (run_records p) ids c))"
proof -
  note pass = guard_passes [OF assms(2)]
  have "statuses res \<noteq> []" using pass by (cases ids) (force simp: assms)+
  then obtain h ar rep where g: "manifest_sha256 res = Some h" "archived_from w ar"
    "gate_main (archive_env w ar) (panel_args ids snapshot intent h) (panel_inputs w ar) = Inr (Inr rep)"
    "statuses res = foldl (\<lambda>d x. dset d (fst x) (status_word (snd x))) [] (per_claim rep)"
    "failure res = None" "source_stable res = Some True" using gate_b_status_rows [OF assms(1)] by blast
  obtain p where p: "prepare (panel_args ids snapshot intent h) (panel_inputs w ar) = Inr p"
    using g(3) by (auto simp: gate_main_report)
  obtain k where bound: "bind_inputs (panel_args ids snapshot intent h) (panel_inputs w ar) k
      (map_option manifest_required (run_manifest p)) = Inr (run_expect p)"
    using prepare_Inr [OF p] by blast
  then have "run_expect p = \<lparr>expect_snapshot = Some snapshot, expect_intent = Some intent, expect_manifest = Some h,
      snapshot_exact = True, expect_intent_path = None,
      expect_required_targets = map_option manifest_required (run_manifest p)\<rparr>"
    by (simp add: bind_inputs_def panel_args_def)
  then have ex: "expect_snapshot (run_expect p) = Some snapshot \<and> snapshot_exact (run_expect p) \<and>
      expect_intent (run_expect p) = Some intent \<and> expect_manifest (run_expect p) = Some h"
    by simp
  have "\<exists>s. (c, s) \<in> set (per_claim rep) \<and> passed s" if c: "c \<in> set ids" for c
  proof -
    obtain t where "map_of (statuses res) c = Some t" "t \<in> {str ''PASS'', str ''PASS-waived''}" using pass(2) [OF c] by auto
    then obtain s where s: "(c, s) \<in> set (per_claim rep)" "status_word s \<in> {str ''PASS'', str ''PASS-waived''}"
      using statuses_row [of "per_claim rep" c t] g(4) by auto
    have "passed s" using s(2) unfolding status_word_passes .
    with s(1) show ?thesis by blast
  qed
  from gate_row_verified [OF g(3) p this] show ?thesis using pass(1) g p ex by blast
qed

subsection \<open>Instances\<close>

text \<open>A project with one record of one or two executions, a manifest and nothing that changes. Texts
  stand for the documents they are read as.\<close>

definition lone_record :: json where
  "lone_record = obj [(''claim_id'', jtext ''INV-1''), (''required'', JBool True),
     (''evidence_class'', jtext ''code-enforced''), (''result'', jtext ''PASS''), (''scope'', jtext ''all paths''),
     (''bindings'', obj [(''source_snapshot'', jtext ''snap''), (''intent_hash'', jtext ''intent''),
        (''obligation_manifest_hash'', jtext ''manifest''), (''profile'', JStr producer_profile),
        (''required_targets'', JArr [jtext ''INV-1'']), (''environment_policy'', jtext ''host''),
        (''toolchain_digests'', sample_toolchain), (''command'', JArr [jtext ''kani'', jtext ''kani'']),
        (''configuration'', obj [(''cwd'', jtext ''.'')]), (''seeds'', JNull),
        (''raw_output_hash'', JStr (replicate 64 48)),
        (''raw_output_path'', JStr (producer_artifact (str ''INV-1'') (str ''r1''))),
        (''parser_schema_version'', jtext ''fv-evidence-run/v3''), (''run_id'', jtext ''r1''),
        (''intent_path'', jtext ''.fv/intent.md''),
        (''executions'', JArr [sample_execution ''INV-1'' ''kani'' ''r1''])]),
     (''waiver'', JNull)]"

definition sample_world :: "json \<Rightarrow> evidence_world" where
  "sample_world rec = \<lparr>digest = (\<lambda>b. if b = str ''M'' then str ''manifest'' else replicate 64 48),
     decode = Inr, lossy = id,
     parse = (\<lambda>t. if t = str ''M'' then Some (obj [(''invariants'', JArr [obj [(''id'', jtext ''INV-1'')]])])
       else if t = str ''R'' then Some rec else None),
     manifest_regular = True, records_link = False, records_folder = True,
     listing = [([str ''r.json''], FileNode)], inside_records = (\<lambda>_. True),
     fetch = (\<lambda>s src. Inr (case src of ManifestSource \<Rightarrow> str ''M'' | RecordSource p \<Rightarrow> str ''R'' | RawSource p \<Rightarrow> sample_log)),
     tree = (\<lambda>s. [([str ''r.json''], Some (str ''R''))]), gate_root = [str ''/'', str ''p''],
     resolve_raw = (\<lambda>s. Inr ([str ''/'', str ''p''] @ path_parts s)), raw_link = (\<lambda>_. False), raw_file = (\<lambda>_. True),
     archive_fresh = True, launch_failure = None\<rparr>"

definition sample_synthesis_pass :: json where
  "sample_synthesis_pass = obj [(''criteria'', JArr [obj [(''id'', jtext ''INV-1''), (''verdict'', jtext ''PASS'')]]),
     (''verdict'', jtext ''PASS'')]"

definition panel_verdict :: "json \<Rightarrow> (pystr \<times> pystr) list \<times> milestone option" where
  "panel_verdict rec = (case gate_b_status (sample_world rec) [str ''INV-1''] (str ''snap'') (str ''intent'') of
       Inl e \<Rightarrow> ([], None)
     | Inr res \<Rightarrow> (statuses res, Some (Panel_Contract.verdict
         (milestone_verdict_guard [str ''INV-1''] (statuses res) sample_synthesis_pass))))"

lemma lone_record_passes: "panel_verdict lone_record = ([(str ''INV-1'', str ''PASS'')], Some MilestonePass)"
  by code_simp

text \<open>The record of two executions that Gate B accepts in the project itself.\<close>

theorem cohort_lost_in_archive:
  "panel_verdict (sample_record ''INV-1'' [''INV-1'']) = ([(str ''INV-1'', str ''invalid'')], Some MilestoneIncomplete)"
  by code_simp

theorem milestone_rests_on_gate_b_witness:
  "\<exists>ar (p :: prepared). archived_from (sample_world lone_record) ar \<and>
     verified_claim (archive_env (sample_world lone_record) ar) (run_expect p) (run_manifest p) (run_records p)
       [str ''INV-1''] (str ''INV-1'')"
proof -
  obtain res where res: "gate_b_status (sample_world lone_record) [str ''INV-1''] (str ''snap'') (str ''intent'') = Inr res"
    "Panel_Contract.verdict (milestone_verdict_guard [str ''INV-1''] (statuses res) sample_synthesis_pass) = MilestonePass"
    using lone_record_passes
    by (cases "gate_b_status (sample_world lone_record) [str ''INV-1''] (str ''snap'') (str ''intent'')")
      (auto simp: panel_verdict_def)
  have here: "str ''INV-1'' \<in> set [str ''INV-1'']" by simp
  obtain ar and p :: prepared where arp: "archived_from (sample_world lone_record) ar"
    "\<forall>c \<in> set [str ''INV-1'']. verified_claim (archive_env (sample_world lone_record) ar) (run_expect p) (run_manifest p)
       (run_records p) [str ''INV-1''] c"
    using milestone_rests_on_gate_b [OF res] by blast
  show ?thesis using arp(1) bspec [OF arp(2) here] by blast
qed

text \<open>A digest of a directory that stands for two: names and contents are separated by NUL bytes, and a
  content may hold them.\<close>

theorem hash_path_ambiguous:
  "\<exists>es fs. es \<noteq> fs \<and> (\<forall>dig. hash_path dig es = hash_path dig fs)"
proof (intro exI conjI allI)
  let ?es = "[([str ''a''], Some (str ''x'')), ([str ''b''], Some (str ''y''))]"
  let ?fs = "[([str ''a''], Some (str ''x'' @ [0] @ str ''b'' @ [0] @ str ''y''))]"
  show "?es \<noteq> ?fs" by simp
  have "tree_bytes ?es = tree_bytes ?fs" "list_ex (\<lambda>(p, c). list_ex (list_ex surrogate) p) ?es = list_ex (\<lambda>(p, c). list_ex (list_ex surrogate) p) ?fs"
    by code_simp+
  then show "hash_path dig ?es = hash_path dig ?fs" for dig by (simp only: hash_path_def)
qed

text \<open>A path that leaves the archive: it resolves inside the project, whose directory it names again,
  and is written beside the archive.\<close>

theorem archive_path_escapes:
  "\<exists>rel. normalize_path (under [str ''/'', str ''p''] (path_parts rel)) = [str ''/'', str ''p'', str ''raw''] \<and>
     \<not> is_absolute rel \<and> archive_path rel = [str ''..'', str ''p'', str ''raw'']"
proof (intro exI conjI)
  show "normalize_path (under [str ''/'', str ''p''] (path_parts (str ''../p/raw''))) = [str ''/'', str ''p'', str ''raw'']"
    "\<not> is_absolute (str ''../p/raw'')" "archive_path (str ''../p/raw'') = [str ''..'', str ''p'', str ''raw'']"
    by code_simp+
qed

text \<open>A manifest that is no object ends the panel with an exception the function does not catch.\<close>

theorem manifest_array_escapes:
  "gate_b_status (sample_world lone_record\<lparr>parse := \<lambda>_. Some (JArr [])\<rparr>) [] snapshot intent = Inl AttributeError"
  by code_simp

end
