(* ===== verification/Lean_Gate.thy ===== *)
theory Lean_Gate
  imports Py_Json
begin

text \<open>
  The axiom audit of \<^verbatim>\<open>scripts/lean_axiom_gate.py\<close>: build the Lake project, have Lean print the
  axioms of every named theorem, and judge what it printed. The four processes the gate runs are
  parameters (what each returns, or raises); the audit file is the text Lean is given. The messages
  of the record are constructors, the lists they name are kept.
\<close>

subsection \<open>What Lean prints\<close>

text \<open>\<^verbatim>\<open>'([^']+)'\<close> at the front of a text: the name and what follows the second quote.\<close>

definition quoted_at :: "pystr \<Rightarrow> (pystr \<times> pystr) option" where
  "quoted_at s =
     (let name = takeWhile (\<lambda>c. c \<noteq> 39) (drop 1 s); rest = drop (1 + length name) s in
      if starts_with s [39] \<and> name \<noteq> [] \<and> rest \<noteq> [] then Some (name, drop 1 rest) else None)"

definition clean_tail :: pystr where "clean_tail = str '' does not depend on any axioms''"
definition depends_tail :: pystr where "depends_tail = str '' depends on axioms: [''"

definition clean_at :: "pystr \<Rightarrow> pystr option" where
  "clean_at s = (case quoted_at s of
       Some (name, rest) \<Rightarrow> if starts_with rest clean_tail then Some name else None
     | None \<Rightarrow> None)"

definition depends_at :: "pystr \<Rightarrow> (pystr \<times> pystr) option" where
  "depends_at s = (case quoted_at s of
       Some (name, rest) \<Rightarrow>
         (let axs = drop (length depends_tail) rest in
          if starts_with rest depends_tail \<and> List.member axs 93
          then Some (name, takeWhile (\<lambda>c. c \<noteq> 93) axs) else None)
     | None \<Rightarrow> None)"

text \<open>\<^verbatim>\<open>re.search\<close>: the first place where the pattern matches.\<close>

fun search :: "(pystr \<Rightarrow> 'a option) \<Rightarrow> pystr \<Rightarrow> 'a option" where
  "search p [] = p []"
| "search p (c # cs) = (case p (c # cs) of Some x \<Rightarrow> Some x | None \<Rightarrow> search p cs)"

definition axiom_names :: "pystr \<Rightarrow> pystr list" where
  "axiom_names s = filter (\<lambda>a. a \<noteq> []) (map strip (split_on 44 s))"

definition read_line :: "pystr \<Rightarrow> (pystr \<times> pystr list) option" where
  "read_line l = (case search clean_at l of
       Some name \<Rightarrow> Some (name, [])
     | None \<Rightarrow> (case search depends_at l of
         Some (name, axs) \<Rightarrow> Some (name, axiom_names axs)
       | None \<Rightarrow> None))"

definition readings :: "pystr \<Rightarrow> (pystr \<times> pystr list) list" where
  "readings out = List.map_filter read_line (splitlines out)"

definition axioms_by_theorem :: "pystr \<Rightarrow> (pystr, pystr list) dict" where
  "axioms_by_theorem out = foldl (\<lambda>d r. dset d (fst r) (snd r)) [] (readings out)"

text \<open>\<^verbatim>\<open>s.count(p)\<close>: occurrences that do not overlap; \<open>k\<close> characters of the last one are left.\<close>

fun occurrences :: "pystr \<Rightarrow> nat \<Rightarrow> pystr \<Rightarrow> nat" where
  "occurrences p k [] = 0"
| "occurrences p (Suc k) (c # cs) = occurrences p k cs"
| "occurrences p 0 (c # cs) =
     (if starts_with (c # cs) p then Suc (occurrences p (length p - 1) cs) else occurrences p 0 cs)"

subsection \<open>The gate\<close>

text \<open>The processes, in the order they are run.\<close>

record lean_tools =
  lean_version :: "py_exn + process_result"
  lake_version :: "py_exn + process_result"
  lake_build :: "py_exn + process_result"
  lean_audit :: "pystr \<Rightarrow> py_exn + process_result"

record lean_args =
  lean_module :: pystr
  theorem_list :: pystr
  allow_axiom :: "pystr list"

datatype lean_outcome =
    BuildFailed pystr
  | AuditFailed pystr
  | NoAuditOutput "pystr list"
  | SorryAdmitted "pystr list"
  | NonstandardAxioms "(pystr \<times> pystr list) list"
  | AxiomClean

record lean_record =
  asked :: "pystr list"
  allowed_axioms :: "pystr list"
  versions :: "pystr \<times> pystr"
  sorry_warnings :: nat
  audited :: "(pystr, pystr list) dict option"
  outcome :: lean_outcome

definition base_axioms :: "pystr list" where
  "base_axioms = map str [''Classical.choice'', ''propext'', ''Quot.sound'']"

definition sorry_axiom :: pystr where "sorry_axiom = str ''sorryAx''"

definition asked_theorems :: "lean_args \<Rightarrow> pystr list" where
  "asked_theorems args = filter (\<lambda>t. t \<noteq> []) (map strip (split_on 44 (theorem_list args)))"

definition allowed_set :: "lean_args \<Rightarrow> pystr list" where
  "allowed_set args = base_axioms @ allow_axiom args"

definition audit_source :: "lean_args \<Rightarrow> pystr" where
  "audit_source args = str ''import '' @ lean_module args @ [10] @
     concat (map (\<lambda>t. str ''#print axioms '' @ t @ [10]) (asked_theorems args))"

definition last_chars :: "nat \<Rightarrow> pystr \<Rightarrow> pystr" where
  "last_chars n s = drop (length s - n) s"

definition judge_axioms :: "pystr list \<Rightarrow> pystr list \<Rightarrow> (pystr, pystr list) dict \<Rightarrow> lean_outcome" where
  "judge_axioms ts allowed found =
     (let missing = filter (\<lambda>t. map_of found t = None) ts;
          incomplete = map fst (filter (\<lambda>(t, axs). sorry_axiom \<in> set axs) found);
          nonstandard = filter (\<lambda>(t, axs). axs \<noteq> [])
            (map (\<lambda>(t, axs). (t, sorted_set (filter (\<lambda>a. a \<notin> set allowed \<and> a \<noteq> sorry_axiom) axs))) found) in
      if missing \<noteq> [] then NoAuditOutput missing
      else if incomplete \<noteq> [] then SorryAdmitted (sort incomplete)
      else if nonstandard \<noteq> [] then NonstandardAxioms nonstandard
      else AxiomClean)"

definition lean_gate :: "lean_tools \<Rightarrow> lean_args \<Rightarrow> py_exn + lean_record" where
  "lean_gate tools args =
     (let ts = asked_theorems args; warning = str ''declaration uses `sorry`'' in
      rbind (lean_version tools) (\<lambda>v1. rbind (lake_version tools) (\<lambda>v2. rbind (lake_build tools) (\<lambda>build.
      let rec = (\<lambda>found out. \<lparr>asked = ts, allowed_axioms = sorted_set (allowed_set args),
        versions = (strip (stdout v1), strip (stdout v2)),
        sorry_warnings = occurrences warning 0 (stdout build) + occurrences warning 0 (stderr build),
        audited = found, outcome = out\<rparr>) in
      if status_code build \<noteq> 0 then Inr (rec None (BuildFailed (last_chars 2000 (stderr build))))
      else rbind (lean_audit tools (audit_source args)) (\<lambda>audit.
        if status_code audit \<noteq> 0 then Inr (rec None (AuditFailed (last_chars 2000 (stdout audit @ stderr audit))))
        else let found = axioms_by_theorem (stdout audit) in
          Inr (rec (Some found) (judge_axioms ts (allowed_set args) found)))))))"

fun lean_exit :: "lean_outcome \<Rightarrow> nat" where
  "lean_exit AxiomClean = 0"
| "lean_exit (SorryAdmitted ts) = 1"
| "lean_exit (NonstandardAxioms ts) = 1"
| "lean_exit (BuildFailed e) = 2"
| "lean_exit (AuditFailed e) = 2"
| "lean_exit (NoAuditOutput ts) = 2"

subsection \<open>What Lean prints is read back\<close>

text \<open>The line of \<^verbatim>\<open>#print axioms\<close>, as Lean documents it.\<close>

definition lean_line :: "pystr \<times> pystr list \<Rightarrow> pystr" where
  "lean_line r = [39] @ fst r @ [39] @
     (if snd r = [] then clean_tail else depends_tail @ join (str '', '') (snd r) @ str '']'')"

definition lean_output :: "(pystr \<times> pystr list) list \<Rightarrow> pystr" where
  "lean_output rs = concat (map (\<lambda>r. lean_line r @ [10]) rs)"

text \<open>A name the reader can tell apart from what surrounds it.\<close>

definition plain_name :: "pystr \<Rightarrow> bool" where
  "plain_name n \<longleftrightarrow> n \<noteq> [] \<and> list_all (\<lambda>c. c \<noteq> 39 \<and> c \<noteq> 44 \<and> c \<noteq> 93 \<and> \<not> py_space c) n"

lemma plain_space: "plain_name n \<Longrightarrow> c \<in> set n \<Longrightarrow> \<not> py_space c"
  by (auto simp: plain_name_def list_all_iff)

lemma strip_plain: "plain_name n \<Longrightarrow> strip n = n"
  by (rule strip_id) (auto simp: plain_name_def list_all_iff)

lemma strip_space_plain: "plain_name n \<Longrightarrow> strip (32 # n) = n"
  using strip_plain [of n] by (simp add: strip_def lstrip_def py_space_def)

lemma split_axioms:
  "list_all plain_name axs \<Longrightarrow> axs \<noteq> [] \<Longrightarrow>
    split_on 44 (join (str '', '') axs) = hd axs # map (\<lambda>a. 32 # a) (tl axs)"
proof (induction axs)
  case (Cons a axs)
  have clean: "44 \<notin> set a" using Cons.prems by (auto simp: plain_name_def list_all_iff)
  show ?case
  proof (cases "axs = []")
    case False
    have "split_on 44 (a @ 44 # 32 # join (str '', '') axs) = a # split_on 44 (32 # join (str '', '') axs)"
      using clean by (simp add: split_on_append_sep del: split_on.simps)
    also have "\<dots> = a # map (\<lambda>a. 32 # a) axs"
      using Cons False by (cases axs) (auto simp: list_all_iff)
    finally show ?thesis using False by (simp add: join_Cons str_def)
  qed (use clean in simp)
qed simp

lemma axiom_names_join: "list_all plain_name axs \<Longrightarrow> axiom_names (join (str '', '') axs) = axs"
proof (cases axs)
  case Nil
  then show ?thesis by (simp add: axiom_names_def)
next
  case (Cons a rest)
  assume plain: "list_all plain_name axs"
  have "map strip (map (\<lambda>a. 32 # a) rest) = rest" "filter (\<lambda>a. a \<noteq> []) rest = rest" "a \<noteq> []" "strip a = a"
    using plain Cons by (auto simp: list_all_iff strip_space_plain strip_plain plain_name_def map_idI)
  then show ?thesis using plain Cons split_axioms [OF plain] by (simp add: axiom_names_def)
qed

lemma quoted_line: "39 \<notin> set n \<Longrightarrow> n \<noteq> [] \<Longrightarrow> quoted_at (39 # n @ 39 # r) = Some (n, r)"
  by (simp add: quoted_at_def starts_with_def takeWhile_until Let_def)

lemma quoted_twice: "quoted_at s = Some r \<Longrightarrow> 2 \<le> count_list s 39"
proof -
  assume some: "quoted_at s = Some r"
  then obtain t where s: "s = 39 # t" by (auto simp: quoted_at_def Let_def starts_with_iff split: if_splits)
  have "39 \<in> set t"
  proof (rule ccontr)
    assume "39 \<notin> set t"
    then have "takeWhile (\<lambda>c. c \<noteq> 39) t = t" by (simp add: takeWhile_eq_all_conv) blast
    with some s show False by (simp add: quoted_at_def Let_def)
  qed
  then show ?thesis using s count_list_0_iff [of t 39] by (simp add: Suc_le_eq)
qed

lemma search_None: "(\<And>i. p (drop i s) = None) \<Longrightarrow> search p s = None"
proof (induction s)
  case Nil
  then show ?case using Nil [of 0] by simp
next
  case (Cons c s)
  have "p (drop i s) = None" for i using Cons.prems [of "Suc i"] by simp
  then show ?case using Cons.IH Cons.prems [of 0] by simp
qed

lemma count_list_drop: "count_list (drop i s) x \<le> count_list s x"
  using arg_cong [OF append_take_drop_id [of i s], of "\<lambda>l. count_list l x"] by (metis count_list_append le_add2)

lemma search_past:
  assumes "p s = None" "count_list (drop 1 s) 39 < 2" "\<And>t. quoted_at t = None \<Longrightarrow> p t = None"
  shows "search p s = None"
proof (rule search_None)
  fix i show "p (drop i s) = None"
  proof (cases i)
    case (Suc j)
    have "\<not> 2 \<le> count_list (drop i s) 39"
      using count_list_drop [of j "drop 1 s" 39] assms(2) Suc by (simp add: drop_drop)
    then show ?thesis using assms(3) quoted_twice by fastforce
  qed (use assms(1) in simp)
qed

lemma search_first: "p s = Some x \<Longrightarrow> search p s = Some x"
  by (cases s) auto

lemma no_quote: "list_all plain_name ns \<Longrightarrow> 39 \<notin> set (join (str '', '') ns)"
proof (induction ns)
  case (Cons n ns)
  then show ?case by (cases "ns = []") (auto simp: join_Cons plain_name_def list_all_iff str_def)
qed simp

lemma no_bracket: "list_all plain_name ns \<Longrightarrow> 93 \<notin> set (join (str '', '') ns)"
proof (induction ns)
  case (Cons n ns)
  then show ?case by (cases "ns = []") (auto simp: join_Cons plain_name_def list_all_iff str_def)
qed simp

lemma read_lean_line:
  assumes n: "plain_name n" and axs: "list_all plain_name axs"
  shows "read_line (lean_line (n, axs)) = Some (n, axs)"
proof -
  have q: "39 \<notin> set n" "n \<noteq> []" using n by (auto simp: plain_name_def list_all_iff)
  note quoted = quoted_line [OF q]
  show ?thesis
  proof (cases "axs = []")
    case True
    have "clean_at (39 # n @ 39 # clean_tail) = Some n" by (simp add: clean_at_def quoted starts_with_def)
    then show ?thesis using True search_first by (simp add: read_line_def lean_line_def)
  next
    case False
    define r where "r = depends_tail @ join (str '', '') axs @ str '']''"
    have line: "lean_line (n, axs) = 39 # n @ 39 # r" using False by (simp add: lean_line_def r_def)
    have quiet: "39 \<notin> set r" using no_quote [OF axs] by (simp add: r_def depends_tail_def str_def)
    have "clean_at (39 # n @ 39 # r) = None"
      by (simp add: clean_at_def quoted r_def starts_with_def clean_tail_def depends_tail_def str_def)
    moreover have "count_list (drop 1 (39 # n @ 39 # r)) 39 < 2"
      using q(1) quiet by (simp add: count_list_0_iff)
    ultimately have "search clean_at (39 # n @ 39 # r) = None"
      by (rule search_past) (simp add: clean_at_def)
    moreover have "depends_at (39 # n @ 39 # r) = Some (n, join (str '', '') axs)"
      using no_bracket [OF axs]
      by (simp add: depends_at_def quoted r_def starts_with_def Let_def takeWhile_until [of 93 _ "[]"] str_def)
    ultimately show ?thesis
      by (simp add: line read_line_def search_first axiom_names_join [OF axs])
  qed
qed

lemma one_line_plain: "plain_name n \<Longrightarrow> one_line n"
  by (auto simp: plain_name_def list_all_iff dest: line_break_space)

lemma one_line_join: "list_all plain_name ns \<Longrightarrow> one_line (join (str '', '') ns)"
proof (induction ns)
  case (Cons n ns)
  have "one_line (str '', '')" by code_simp
  with Cons show ?case by (cases "ns = []") (auto simp: join_Cons one_line_plain)
qed simp

lemma one_line_lean: "plain_name n \<Longrightarrow> list_all plain_name axs \<Longrightarrow> one_line (lean_line (n, axs))"
proof -
  have "one_line (str '']'')" "one_line clean_tail" "one_line depends_tail" "\<not> line_break 39" by code_simp+
  then show "plain_name n \<Longrightarrow> list_all plain_name axs \<Longrightarrow> one_line (lean_line (n, axs))"
    by (simp add: lean_line_def one_line_plain one_line_join)
qed

lemma readings_output:
  "list_all (\<lambda>(n, axs). plain_name n \<and> list_all plain_name axs) rs \<Longrightarrow> readings (lean_output rs) = rs"
proof (induction rs)
  case Nil
  then show ?case by (simp add: readings_def lean_output_def splitlines_def List.map_filter_simps)
next
  case (Cons r rs)
  obtain n axs where r: "r = (n, axs)" by force
  have "readings (lean_output ((n, axs) # rs)) = (n, axs) # readings (lean_output rs)"
    using Cons.prems r splitlines_line [OF one_line_lean [of n axs], of "lean_output rs"]
    by (simp add: readings_def lean_output_def read_lean_line List.map_filter_simps)
  with Cons r show ?case by simp
qed

subsection \<open>The verdict\<close>

lemma map_of_tabulate: "map_of (map (\<lambda>t. (t, f t)) ts) t = (if t \<in> set ts then Some (f t) else None)"
  by (induction ts) auto

lemma map_of_axioms: "map_of (axioms_by_theorem out) = map_of (rev (readings out))"
  unfolding axioms_by_theorem_def using alist.look_foldl_store [of fst snd "[]" "readings out"] by simp

lemma distinct_axioms: "distinct (map fst (axioms_by_theorem out))"
proof -
  have "distinct (map fst d) \<Longrightarrow> distinct (map fst (foldl (\<lambda>d r. dset d (fst r) (snd r)) d rs))"
    for d and rs :: "(pystr \<times> pystr list) list"
    by (induction rs arbitrary: d) (auto simp: distinct_keys_dset)
  then show ?thesis by (simp add: axioms_by_theorem_def)
qed

lemma judge_clean:
  assumes "distinct (map fst found)"
  shows "judge_axioms ts allowed found = AxiomClean \<longleftrightarrow>
    (\<forall>t \<in> set ts. map_of found t \<noteq> None) \<and>
    (\<forall>t axs. map_of found t = Some axs \<longrightarrow> sorry_axiom \<notin> set axs \<and> set axs \<subseteq> set allowed)"
proof -
  have empty: "sorted_set ys = [] \<longleftrightarrow> ys = []" for ys :: "pystr list"
    by (metis set_sorted_set set_empty)
  have "judge_axioms ts allowed found = AxiomClean \<longleftrightarrow> (\<forall>t \<in> set ts. map_of found t \<noteq> None) \<and>
      (\<forall>(t, axs) \<in> set found. sorry_axiom \<notin> set axs) \<and>
      (\<forall>(t, axs) \<in> set found. \<forall>a \<in> set axs. a \<in> set allowed \<or> a = sorry_axiom)"
    by (auto simp: judge_axioms_def Let_def filter_empty_conv empty split: prod.splits)
  also have "\<dots> \<longleftrightarrow> (\<forall>t \<in> set ts. map_of found t \<noteq> None) \<and>
      (\<forall>(t, axs) \<in> set found. sorry_axiom \<notin> set axs \<and> set axs \<subseteq> set allowed)"
    by (intro conj_cong refl) fastforce
  finally show ?thesis by (simp add: map_of_eq_Some_iff [OF assms]) auto
qed

lemma lean_exit_0: "lean_exit out = 0 \<longleftrightarrow> out = AxiomClean"
  by (cases out) auto

lemma lean_gate_clean:
  assumes "lean_gate tools args = Inr rec"
  shows "outcome rec = AxiomClean \<longleftrightarrow> (\<exists>build audit. lake_build tools = Inr build \<and> status_code build = 0 \<and>
    lean_audit tools (audit_source args) = Inr audit \<and> status_code audit = 0 \<and>
    judge_axioms (asked_theorems args) (allowed_set args) (axioms_by_theorem (stdout audit)) = AxiomClean)"
  using assms by (auto simp: lean_gate_def Let_def split: if_splits)

text \<open>C27. Axiom-clean is earned. The gate exits with 0 exactly when the project builds, the audit file
  elaborates, Lean's output reports on every theorem asked for, and no theorem it last reports on
  depends on \<^verbatim>\<open>sorryAx\<close> or on an axiom outside the allowed set; in particular
  \<^verbatim>\<open>--allow-axiom sorryAx\<close> does not admit an unfinished proof.\<close>

theorem axiom_clean_is_earned:
  assumes "lean_gate tools args = Inr rec"
  shows "lean_exit (outcome rec) = 0 \<longleftrightarrow> (\<exists>build audit. lake_build tools = Inr build \<and> status_code build = 0 \<and>
    lean_audit tools (audit_source args) = Inr audit \<and> status_code audit = 0 \<and>
    (\<forall>t \<in> set (asked_theorems args). \<exists>axs. map_of (rev (readings (stdout audit))) t = Some axs) \<and>
    (\<forall>t axs. map_of (rev (readings (stdout audit))) t = Some axs \<longrightarrow>
      sorry_axiom \<notin> set axs \<and> set axs \<subseteq> set (allowed_set args)))"
  unfolding lean_exit_0 lean_gate_clean [OF assms] judge_clean [OF distinct_axioms] map_of_axioms by simp

text \<open>The gate judges what Lean knows. Where the build succeeds and Lean prints for each theorem
  asked for the line it documents, with the axioms the theorem rests on, the gate exits with 0 if
  all of them are allowed and none is \<^verbatim>\<open>sorryAx\<close>, and with 1 otherwise.\<close>

theorem lean_gate_sound:
  assumes runs: "lean_version tools = Inr v1" "lake_version tools = Inr v2" "lake_build tools = Inr build"
      "status_code build = 0" "lean_audit tools (audit_source args) = Inr audit" "status_code audit = 0"
    and prints: "stdout audit = lean_output (map (\<lambda>t. (t, axioms t)) (asked_theorems args))"
    and names: "\<And>t. t \<in> set (asked_theorems args) \<Longrightarrow> plain_name t \<and> list_all plain_name (axioms t)"
  shows "\<exists>rec. lean_gate tools args = Inr rec \<and> lean_exit (outcome rec) =
    (if \<forall>t \<in> set (asked_theorems args). sorry_axiom \<notin> set (axioms t) \<and> set (axioms t) \<subseteq> set (allowed_set args)
     then 0 else 1)"
proof -
  let ?rs = "map (\<lambda>t. (t, axioms t)) (asked_theorems args)"
  have "readings (stdout audit) = ?rs"
    unfolding prints by (rule readings_output) (use names in \<open>auto simp: list_all_iff\<close>)
  then have found: "map_of (axioms_by_theorem (stdout audit)) t = (if t \<in> set (asked_theorems args) then Some (axioms t) else None)" for t
    by (simp add: map_of_axioms rev_map map_of_tabulate)
  let ?out = "judge_axioms (asked_theorems args) (allowed_set args) (axioms_by_theorem (stdout audit))"
  have "?out = AxiomClean \<longleftrightarrow> (\<forall>t \<in> set (asked_theorems args). sorry_axiom \<notin> set (axioms t) \<and> set (axioms t) \<subseteq> set (allowed_set args))"
    unfolding judge_clean [OF distinct_axioms] by (auto simp: found)
  moreover have "lean_exit ?out \<le> 1"
    using found by (auto simp: judge_axioms_def Let_def filter_empty_conv)
  moreover have "\<exists>rec. lean_gate tools args = Inr rec \<and> outcome rec = ?out"
    using runs by (simp add: lean_gate_def Let_def)
  ultimately show ?thesis
    by (metis One_nat_def lean_exit_0 le_SucE le_zero_eq)
qed

definition sample_lean :: "string \<Rightarrow> string \<Rightarrow> lean_tools" where
  "sample_lean t line = \<lparr>
     lean_version = Inr \<lparr>status_code = 0, stdout = str ''4.1'', stderr = []\<rparr>,
     lake_version = Inr \<lparr>status_code = 0, stdout = str ''5.0'', stderr = []\<rparr>,
     lake_build = Inr \<lparr>status_code = 0, stdout = [], stderr = []\<rparr>,
     lean_audit = (\<lambda>src. Inr \<lparr>status_code = 0,
       stdout = (if src = str ''import '' @ str ''Main'' @ [10] @ str ''#print axioms '' @ str t @ [10] then str line @ [10] else []), stderr = []\<rparr>)\<rparr>"

definition sample_lean_args :: "string \<Rightarrow> lean_args" where
  "sample_lean_args ts = \<lparr>lean_module = str ''Main'', theorem_list = str ts, allow_axiom = []\<rparr>"
definition sample_axioms :: "pystr list" where
  "sample_axioms = map str [''propext'', ''Quot.sound'']"

theorem axiom_clean_is_earned_witness:
  "\<exists>rec. lean_gate (sample_lean ''Foo.bar'' ''Foo.bar depends on no line'') (sample_lean_args ''Foo.bar'') = Inr rec \<and>
     lean_exit (outcome rec) \<noteq> 0"
proof -
  have read: "readings (str ''Foo.bar depends on no line'' @ [10]) = []" by code_simp
  have asks: "asked_theorems (sample_lean_args ''Foo.bar'') = [str ''Foo.bar'']" by code_simp
  have audit: "lean_audit (sample_lean ''Foo.bar'' ''Foo.bar depends on no line'') (audit_source (sample_lean_args ''Foo.bar'')) =
      Inr \<lparr>status_code = 0, stdout = str ''Foo.bar depends on no line'' @ [10], stderr = []\<rparr>"
    by (simp add: audit_source_def asks) (simp add: sample_lean_def sample_lean_args_def)
  obtain rec where rec: "lean_gate (sample_lean ''Foo.bar'' ''Foo.bar depends on no line'') (sample_lean_args ''Foo.bar'') = Inr rec"
    using audit by (auto simp: lean_gate_def Let_def) (simp add: sample_lean_def Let_def)
  show ?thesis using axiom_clean_is_earned [OF rec] rec audit asks read by auto
qed

theorem lean_gate_sound_witness:
  "\<exists>rec. lean_gate (sample_lean ''Foo.bar'' ([CHR 39] @ ''Foo.bar'' @ [CHR 39] @ '' depends on axioms: [propext, Quot.sound]''))
     (sample_lean_args ''Foo.bar'') = Inr rec \<and> lean_exit (outcome rec) = 0"
proof -
  let ?tools = "sample_lean ''Foo.bar'' ([CHR 39] @ ''Foo.bar'' @ [CHR 39] @ '' depends on axioms: [propext, Quot.sound]'')"
  let ?args = "sample_lean_args ''Foo.bar''"
  have asks: "asked_theorems ?args = [str ''Foo.bar'']" by code_simp
  have src: "audit_source ?args = str ''import '' @ str ''Main'' @ [10] @ str ''#print axioms '' @ str ''Foo.bar'' @ [10]"
    by (simp add: audit_source_def asks) (simp add: sample_lean_args_def str_append)
  have line: "lean_output [(str ''Foo.bar'', sample_axioms)] =
      str ([CHR 39] @ ''Foo.bar'' @ [CHR 39] @ '' depends on axioms: [propext, Quot.sound]'') @ [10]"
    by code_simp
  have plain: "plain_name (str ''Foo.bar'') \<and> list_all plain_name sample_axioms" by code_simp
  have good: "sorry_axiom \<notin> set sample_axioms \<and> set sample_axioms \<subseteq> set (allowed_set ?args)"
    by (simp add: sample_axioms_def sorry_axiom_def allowed_set_def base_axioms_def)
  have tools: "lean_version ?tools = Inr \<lparr>status_code = 0, stdout = str ''4.1'', stderr = []\<rparr>"
      "lake_version ?tools = Inr \<lparr>status_code = 0, stdout = str ''5.0'', stderr = []\<rparr>"
      "lake_build ?tools = Inr \<lparr>status_code = 0, stdout = [], stderr = []\<rparr>"
    by (simp_all add: sample_lean_def)
  have audit: "lean_audit ?tools (audit_source ?args) =
      Inr \<lparr>status_code = 0, stdout = lean_output [(str ''Foo.bar'', sample_axioms)], stderr = []\<rparr>"
    unfolding src line by (simp add: sample_lean_def)
  show ?thesis
    using lean_gate_sound [OF tools(1) tools(2) tools(3) _ audit, of "\<lambda>_. sample_axioms"] asks plain good by simp
qed

text \<open>Two limits of the gate. Asked for no theorem at all it reports axiom-clean; and a name that
  ends in a prime, as Lean's own libraries have many, is never found in Lean's output.\<close>

theorem no_theorem_is_clean:
  "\<exists>rec. lean_gate (sample_lean '''' '''') (sample_lean_args '','') = Inr rec \<and> asked rec = [] \<and> lean_exit (outcome rec) = 0"
proof -
  have "case lean_gate (sample_lean '''' '''') (sample_lean_args '','') of Inl e \<Rightarrow> False
      | Inr r \<Rightarrow> asked r = [] \<and> lean_exit (outcome r) = 0" by code_simp
  then show ?thesis by (auto split: sum.splits)
qed

theorem primed_name_unread: "read_line (lean_line (str ''two_mul'' @ [39], sample_axioms)) = None"
  by code_simp

end
