(* ===== verification/Obligation_Check.thy ===== *)
theory Obligation_Check
  imports Project Run_Manifest
begin

text \<open>
  The obligation checker, \<^verbatim>\<open>scripts/obligation_check.py\<close>: it re-runs every obligation of the
  frozen manifest on a proposed Quint specification and, on request, pins the definitions it
  accepted. The manifest is the JSON value it is, read where the script reads it, so that a missing
  or ill-typed field is an exception at that point. Parameters are the \<^verbatim>\<open>quint\<close> processes (which
  may depend on the calls before), the file contents, SHA-256, \<^verbatim>\<open>Path.resolve\<close>, Python's
  \<^verbatim>\<open>str()\<close> of a value that is not a string, and the word characters above ASCII. The detail
  messages of the records are left out, and writing the pinned manifest back does not fail.
\<close>

subsection \<open>Reading a specification\<close>

text \<open>\<^verbatim>\<open>re.sub(r"/\*.*?\*/", " ", text, flags=re.DOTALL)\<close>: a comment that is not closed stays.\<close>

datatype scan = Code | Opening | Inside | Closing

fun strip_blocks :: "scan \<Rightarrow> pystr \<Rightarrow> pystr" where
  "strip_blocks m [] = []"
| "strip_blocks Code (c # cs) =
     (if c = 47 \<and> starts_with cs (str ''*'') \<and> contains (str ''*/'') (drop 1 cs) then strip_blocks Opening cs
      else c # strip_blocks Code cs)"
| "strip_blocks Opening (c # cs) = strip_blocks Inside cs"
| "strip_blocks Inside (c # cs) =
     (if c = 42 \<and> starts_with cs (str ''/'') then 32 # strip_blocks Closing cs else strip_blocks Inside cs)"
| "strip_blocks Closing (c # cs) = strip_blocks Code cs"

text \<open>\<^verbatim>\<open>re.sub(r"//[^\n]*", "", text)\<close>\<close>

fun strip_lines :: "bool \<Rightarrow> pystr \<Rightarrow> pystr" where
  "strip_lines b [] = []"
| "strip_lines True (c # cs) = (if c = 10 then 10 # strip_lines False cs else strip_lines True cs)"
| "strip_lines False (c # cs) =
     (if c = 47 \<and> starts_with cs (str ''/'') then strip_lines True cs else c # strip_lines False cs)"

definition strip_comments :: "pystr \<Rightarrow> pystr" where
  "strip_comments s = strip_lines False (strip_blocks Code s)"

text \<open>A keyword of the declaration patterns at the front of a line, and what follows it;
  \<^verbatim>\<open>pure\s+def\<close> is one.\<close>

definition after_word :: "string \<Rightarrow> pystr \<Rightarrow> pystr option" where
  "after_word k s = (if starts_with s (str k) then Some (drop (length k) s) else None)"

definition after_pure_def :: "pystr \<Rightarrow> pystr option" where
  "after_pure_def s = (case after_word ''pure'' s of
       None \<Rightarrow> None
     | Some r \<Rightarrow> if r = [] \<or> \<not> py_space (hd r) then None else after_word ''def'' (lstrip r))"

definition boundary :: "(codepoint \<Rightarrow> bool) \<Rightarrow> bool \<Rightarrow> pystr \<Rightarrow> bool" where
  "boundary w inword s \<longleftrightarrow> inword \<noteq> word_first w s"

text \<open>\<^verbatim>\<open>^\s*(?:pure\s+def|val|def)\s+{name}\b\<close> on one line; the spaces before the name give back
  characters to a name that starts with some.\<close>

definition defines_name :: "(codepoint \<Rightarrow> bool) \<Rightarrow> pystr \<Rightarrow> pystr \<Rightarrow> bool" where
  "defines_name w name line =
     list_ex (\<lambda>after. case after of None \<Rightarrow> False | Some r \<Rightarrow>
         list_ex (\<lambda>k. starts_with (drop k r) name \<and>
             boundary w (name \<noteq> [] \<and> word_char w (last name)) (drop (k + length name) r))
           [1..<Suc (length (takeWhile py_space r))])
       [after_pure_def (lstrip line), after_word ''val'' (lstrip line), after_word ''def'' (lstrip line)]"

text \<open>\<^verbatim>\<open>^\s*(?:pure\s+def|val|def|action|var|const|import|module|})\b\<close>: after the brace the
  boundary asks for a word character.\<close>

definition next_declaration :: "(codepoint \<Rightarrow> bool) \<Rightarrow> pystr \<Rightarrow> bool" where
  "next_declaration w line \<longleftrightarrow>
     list_ex (\<lambda>after. case after of None \<Rightarrow> False | Some r \<Rightarrow> boundary w True r)
       (after_pure_def (lstrip line) #
        map (\<lambda>k. after_word k (lstrip line)) [''val'', ''def'', ''action'', ''var'', ''const'', ''import'', ''module'']) \<or>
     (case after_word ''}'' (lstrip line) of None \<Rightarrow> False | Some r \<Rightarrow> boundary w False r)"

definition normalized :: "pystr list \<Rightarrow> pystr" where
  "normalized ls = join (str '' '') (py_words [] (strip_comments (join [10] ls)))"

definition definition_lines :: "(codepoint \<Rightarrow> bool) \<Rightarrow> pystr list \<Rightarrow> pystr list" where
  "definition_lines w ls = hd ls # takeWhile (\<lambda>l. \<not> next_declaration w l) (tl ls)"

definition extract_definition :: "(codepoint \<Rightarrow> bool) \<Rightarrow> pystr \<Rightarrow> pystr \<Rightarrow> pystr option" where
  "extract_definition w spec name =
     (let found = dropWhile (\<lambda>l. \<not> defines_name w name l) (splitlines spec) in
      if found = [] then None else Some (normalized (definition_lines w found)))"

text \<open>\<^verbatim>\<open>VAR_RE.findall\<close>: \<^verbatim>\<open>^\s*var\s+(\w+)\s*:\<close> at the front of the text and behind each newline.\<close>

definition variable_at :: "(codepoint \<Rightarrow> bool) \<Rightarrow> pystr \<Rightarrow> pystr option" where
  "variable_at w s = (case after_word ''var'' (lstrip s) of
       None \<Rightarrow> None
     | Some r \<Rightarrow>
        (let name = takeWhile (word_char w) (lstrip r); rest = lstrip (dropWhile (word_char w) (lstrip r)) in
         if r \<noteq> [] \<and> py_space (hd r) \<and> name \<noteq> [] \<and> starts_with rest (str '':'') then Some name else None))"

fun variables_from :: "(codepoint \<Rightarrow> bool) \<Rightarrow> bool \<Rightarrow> pystr \<Rightarrow> pystr list" where
  "variables_from w front [] = []"
| "variables_from w front (c # cs) =
     (case if front then variable_at w (c # cs) else None of
         Some v \<Rightarrow> v # variables_from w (c = 10) cs
       | None \<Rightarrow> variables_from w (c = 10) cs)"

text \<open>\<^verbatim>\<open>re.findall(r"\b(\w+)\b", s)\<close>\<close>

fun words_from :: "(codepoint \<Rightarrow> bool) \<Rightarrow> pystr \<Rightarrow> pystr \<Rightarrow> pystr list" where
  "words_from w acc [] = (if acc = [] then [] else [rev acc])"
| "words_from w acc (c # cs) =
     (if word_char w c then words_from w (c # acc) cs
      else if acc = [] then words_from w [] cs else rev acc # words_from w [] cs)"

text \<open>A definition with those of the names it mentions, one level deep; it is vacuous when none of the
  words is a state variable, or when it is \<^verbatim>\<open>true\<close>.\<close>

definition expanded :: "(codepoint \<Rightarrow> bool) \<Rightarrow> pystr \<Rightarrow> pystr \<Rightarrow> pystr \<Rightarrow> pystr" where
  "expanded w spec name body = body @ concat (map (\<lambda>other.
     if other = name then [] else case extract_definition w spec other of None \<Rightarrow> [] | Some d \<Rightarrow> 32 # d)
       (words_from w [] body))"

text \<open>\<^verbatim>\<open>(?:pure def|val|def)\s+{name}(?:\s*:\s*bool)?\s*=\s*true\<close>, all of the text.\<close>

definition equals_true :: "pystr \<Rightarrow> bool" where
  "equals_true s = (let t = lstrip s; u = lstrip (drop 1 t) in starts_with t (str ''='') \<and> u = str ''true'')"

definition literally_true :: "pystr \<Rightarrow> pystr \<Rightarrow> bool" where
  "literally_true name body =
     list_ex (\<lambda>k. case after_word k body of None \<Rightarrow> False | Some r \<Rightarrow>
         list_ex (\<lambda>i. starts_with (drop i r) name \<and>
             (let s = drop (i + length name) r; t = lstrip s in
              equals_true s \<or> starts_with t (str '':'') \<and>
                (case after_word ''bool'' (lstrip (drop 1 t)) of None \<Rightarrow> False | Some v \<Rightarrow> equals_true v)))
           [1..<Suc (length (takeWhile py_space r))])
       [''pure def'', ''val'', ''def'']"

definition vacuous :: "(codepoint \<Rightarrow> bool) \<Rightarrow> pystr \<Rightarrow> pystr \<Rightarrow> pystr \<Rightarrow> bool" where
  "vacuous w spec name body \<longleftrightarrow> literally_true name body \<or>
     \<not> list_ex (\<lambda>v. List.member (words_from w [] (expanded w spec name body)) v)
         (variables_from w True (strip_comments spec))"

subsection \<open>The obligations\<close>

text \<open>A call of \<^verbatim>\<open>quint\<close> in the working copy, where only the probe file changes.\<close>

record quint_call =
  quint_args :: "pystr list"
  probe :: "pystr option"

record workshop =
  quint :: "quint_call list \<Rightarrow> quint_call \<Rightarrow> py_exn + process_result"
  sha256_hex :: "pystr \<Rightarrow> pystr"
  manifest_dir :: parts
  resolved :: "pystr \<Rightarrow> py_exn + parts"
  intent_text :: "py_exn + pystr"
  spec_texts :: "py_exn + pystr list"
  wide_word :: "codepoint \<Rightarrow> bool"
  shown :: "json \<Rightarrow> pystr"

datatype obligation = IntentFrozen | Typecheck | Presence | Frozen | Vacuity | Safety | Reachability | Enabledness

datatype evidence_kind = HashPinned | Mechanical | Textual | Heuristic | BoundedChecked pystr | WitnessedRun | WitnessedVerify

record obligation_result =
  obligation :: obligation
  about :: json
  met :: bool
  evidence :: evidence_kind

record proposal_diff =
  changed_invariant :: pystr
  pinned_sha256 :: json
  proposed_sha256 :: pystr
  proposed_definition :: pystr

record check_state =
  calls :: "quint_call list"
  results :: "obligation_result list"
  diffs :: "proposal_diff list"

definition note_result :: "obligation \<Rightarrow> json \<Rightarrow> bool \<Rightarrow> evidence_kind \<Rightarrow> check_state \<Rightarrow> check_state" where
  "note_result ob x b ev st =
     st\<lparr>results := results st @ [\<lparr>obligation = ob, about = x, met = b, evidence = ev\<rparr>]\<rparr>"

definition ask :: "workshop \<Rightarrow> pystr option \<Rightarrow> pystr list \<Rightarrow> check_state \<Rightarrow> py_exn + process_result \<times> check_state" where
  "ask ws p args st =
     (let c = \<lparr>quint_args = args, probe = p\<rparr> in
      rbind (quint ws (calls st) c) (\<lambda>r. Inr (r, st\<lparr>calls := calls st @ [c]\<rparr>)))"

text \<open>\<^verbatim>\<open>x[k]\<close>, \<^verbatim>\<open>x.get(k, d)\<close>, and a value in an f-string.\<close>

definition item :: "json \<Rightarrow> string \<Rightarrow> py_exn + json" where
  "item x k = (case x of
       JObj fs \<Rightarrow> (case map_of fs (str k) of None \<Rightarrow> Inl KeyError | Some v \<Rightarrow> Inr v)
     | _ \<Rightarrow> Inl TypeError)"

definition get_or :: "fields \<Rightarrow> string \<Rightarrow> json \<Rightarrow> json" where
  "get_or fs k d = (case map_of fs (str k) of None \<Rightarrow> d | Some v \<Rightarrow> v)"

definition formatted :: "workshop \<Rightarrow> json \<Rightarrow> pystr" where
  "formatted ws v = (case v of JStr s \<Rightarrow> s | _ \<Rightarrow> shown ws v)"

definition as_path :: "json \<Rightarrow> py_exn + pystr" where
  "as_path v = (case v of JStr s \<Rightarrow> Inr s | _ \<Rightarrow> Inl TypeError)"

definition depth :: "workshop \<Rightarrow> fields \<Rightarrow> pystr" where
  "depth ws b = formatted ws (get_or b ''max_steps'' (JInt 20))"

definition bound_args :: "workshop \<Rightarrow> fields \<Rightarrow> bool \<Rightarrow> pystr list" where
  "bound_args ws b samples =
     [str ''--max-steps='' @ depth ws b] @
     (if samples then [str ''--max-samples='' @ formatted ws (get_or b ''max_samples'' (JInt 1000))] @
        (if truthy (jget b ''seed'') then [str ''--seed='' @ formatted ws (jget b ''seed'')] else []) else [])"

definition with_bounds :: "json \<Rightarrow> (fields \<Rightarrow> py_exn + 'a) \<Rightarrow> py_exn + 'a" where
  "with_bounds bounds f = (case bounds of JObj b \<Rightarrow> f b | _ \<Rightarrow> Inl AttributeError)"

definition invariant_option :: "pystr \<Rightarrow> pystr" where
  "invariant_option name = str ''--invariant='' @ name"

text \<open>The last component of \<^verbatim>\<open>spec_copy / main_file\<close>.\<close>

definition main_name :: "pystr \<Rightarrow> pystr" where
  "main_name s = (case rev (components s) of [] \<Rightarrow> if is_absolute s then [] else str ''spec'' | p # ps \<Rightarrow> p)"

text \<open>A name that is not a string reaches the pattern only when the specification has a line.\<close>

definition find_definition :: "workshop \<Rightarrow> pystr \<Rightarrow> json \<Rightarrow> py_exn + (pystr \<times> pystr) option" where
  "find_definition ws spec nm = (case nm of
       JStr name \<Rightarrow> Inr (map_option (Pair name) (extract_definition (wide_word ws) spec name))
     | _ \<Rightarrow> if splitlines spec = [] then Inr None else Inl TypeError)"

definition check_frozen :: "workshop \<Rightarrow> json \<Rightarrow> pystr \<Rightarrow> pystr \<Rightarrow> check_state \<Rightarrow> check_state" where
  "check_frozen ws pin name body st =
     (let h = sha256_hex ws body; ok = (pin = JStr h) in
      if \<not> truthy pin then st
      else note_result Frozen (JStr name) ok HashPinned (if ok then st else
        st\<lparr>diffs := diffs st @ [\<lparr>changed_invariant = name, pinned_sha256 = pin, proposed_sha256 = h,
          proposed_definition = body\<rparr>]\<rparr>))"

definition observed_key :: pystr where "observed_key = str ''_observed_sha256''"

definition check_invariant :: "workshop \<Rightarrow> pystr \<Rightarrow> pystr \<Rightarrow> json \<Rightarrow> json \<Rightarrow> check_state \<Rightarrow> py_exn + json \<times> check_state" where
  "check_invariant ws spec main bounds iv st =
     rbind (item iv ''name'') (\<lambda>nm. rbind (find_definition ws spec nm) (\<lambda>found.
     let st1 = note_result Presence nm (found \<noteq> None) Textual st in
     case (found, iv) of
       (Some (name, body), JObj fs) \<Rightarrow>
         (let st2 = check_frozen ws (jget fs ''definition_sha256'') name body st1;
              st3 = note_result Vacuity nm (\<not> vacuous (wide_word ws) spec name body) Heuristic st2 in
          with_bounds bounds (\<lambda>b.
          rbind (ask ws None ([str ''verify'', invariant_option name] @ bound_args ws b False @ [main]) st3) (\<lambda>(r, st4).
          Inr (JObj (dset fs observed_key (JStr (sha256_hex ws body))),
            note_result Safety nm (status_code r = 0) (BoundedChecked (depth ws b)) st4))))
     | _ \<Rightarrow> Inr (iv, st1)))"

fun check_invariants :: "workshop \<Rightarrow> pystr \<Rightarrow> pystr \<Rightarrow> json \<Rightarrow> json list \<Rightarrow> check_state \<Rightarrow> py_exn + json list \<times> check_state" where
  "check_invariants ws spec main bounds [] st = Inr ([], st)"
| "check_invariants ws spec main bounds (iv # ivs) st =
     rbind (check_invariant ws spec main bounds iv st) (\<lambda>(iv', st').
     rbind (check_invariants ws spec main bounds ivs st') (\<lambda>(ivs', st'').
     Inr (iv' # ivs', st'')))"

text \<open>\<^verbatim>\<open>"violat" in (stdout + stderr).lower()\<close>; the pattern is ASCII, and no other character of it
  comes out of lowering.\<close>

definition lower_ascii :: "pystr \<Rightarrow> pystr" where
  "lower_ascii s = map (\<lambda>c. if 65 \<le> c \<and> c \<le> 90 then c + 32 else c) s"

definition violated :: "process_result \<Rightarrow> bool" where
  "violated r \<longleftrightarrow> status_code r \<noteq> 0 \<and> contains (str ''violat'') (lower_ascii (stdout r @ stderr r))"

text \<open>A search for a run that violates the invariant, and the escalation to \<^verbatim>\<open>verify\<close>.\<close>

definition seek :: "workshop \<Rightarrow> pystr option \<Rightarrow> pystr list \<Rightarrow> pystr \<Rightarrow> json \<Rightarrow> obligation \<Rightarrow> json \<Rightarrow> check_state \<Rightarrow>
    py_exn + check_state" where
  "seek ws p words file bounds ob x st = with_bounds bounds (\<lambda>b.
     rbind (ask ws p (str ''run'' # words @ bound_args ws b True @ [file]) st) (\<lambda>(r, st1).
     if violated r then Inr (note_result ob x True WitnessedRun st1)
     else rbind (ask ws p (str ''verify'' # words @ bound_args ws b False @ [file]) st1) (\<lambda>(v, st2).
       Inr (if status_code v = 0 then note_result ob x False (BoundedChecked (depth ws b)) st2
            else note_result ob x True WitnessedVerify st2))))"

definition check_witness :: "workshop \<Rightarrow> pystr \<Rightarrow> pystr \<Rightarrow> json \<Rightarrow> json \<Rightarrow> check_state \<Rightarrow> py_exn + check_state" where
  "check_witness ws spec main bounds wit st =
     rbind (item wit ''name'') (\<lambda>nm. rbind (find_definition ws spec nm) (\<lambda>found.
     let st1 = note_result Presence nm (found \<noteq> None) Textual st in
     case found of
       None \<Rightarrow> Inr st1
     | Some (name, body) \<Rightarrow> seek ws None [invariant_option name] main bounds Reachability nm st1))"

definition probe_text :: "pystr \<Rightarrow> pystr \<Rightarrow> pystr \<Rightarrow> pystr \<Rightarrow> pystr \<Rightarrow> pystr" where
  "probe_text lib stem init step t = concat (map (\<lambda>l. l @ [10])
     [str ''module __obligation_probe {'',
      str ''  import '' @ lib @ str ''.* from '' @ [34] @ str ''./'' @ stem @ [34],
      str ''  var __fired: bool'',
      str ''  action __init = all { '' @ init @ str '', __fired'' @ [39] @ str '' = false }'',
      str ''  action __step = any {'',
      str ''    all { '' @ t @ str '', __fired'' @ [39] @ str '' = true },'',
      str ''    all { '' @ step @ str '', __fired'' @ [39] @ str '' = __fired },'',
      str ''  }'',
      str ''  val __unfired = not(__fired)'',
      str ''}''])"

definition check_transition :: "workshop \<Rightarrow> pystr \<Rightarrow> pystr \<Rightarrow> pystr \<Rightarrow> pystr \<Rightarrow> json \<Rightarrow> json \<Rightarrow> check_state \<Rightarrow> py_exn + check_state" where
  "check_transition ws lib stem init step bounds t st =
     seek ws (Some (probe_text lib stem init step (formatted ws t)))
       (map str [''--init=__init'', ''--step=__step'', ''--invariant=__unfired'']) (str ''__obligation_probe.qnt'')
       bounds Enabledness t st"

fun check_each :: "(json \<Rightarrow> check_state \<Rightarrow> py_exn + check_state) \<Rightarrow> json list \<Rightarrow> check_state \<Rightarrow> py_exn + check_state" where
  "check_each f [] st = Inr st"
| "check_each f (x # xs) st = rbind (f x st) (\<lambda>st'. check_each f xs st')"

definition check_intent :: "workshop \<Rightarrow> fields \<Rightarrow> check_state \<Rightarrow> py_exn + check_state" where
  "check_intent ws m st =
     (if \<not> truthy (jget m ''intent_sha256'') then Inr st
      else rbind (intent_text ws) (\<lambda>t.
        Inr (note_result IntentFrozen (jget m ''intent_path'') (jget m ''intent_sha256'' = JStr (sha256_hex ws t)) HashPinned st)))"

text \<open>The invariants come back with the hashes observed.\<close>

definition run_obligations :: "workshop \<Rightarrow> fields \<Rightarrow> check_state \<Rightarrow> py_exn + json list \<times> check_state" where
  "run_obligations ws m st0 =
     rbind (spec_texts ws) (\<lambda>texts.
     rbind (item (JObj m) ''main_file'') (\<lambda>mf. rbind (as_path mf) (\<lambda>file.
     let spec = join [10] texts; main = main_name file; bounds = get_or m ''bounds'' (JObj []) in
     rbind (check_intent ws m st0) (\<lambda>st1.
     rbind (ask ws None [str ''typecheck'', main] st1) (\<lambda>(tc, st2).
     let st3 = note_result Typecheck (JStr main) (status_code tc = 0) Mechanical st2 in
     if status_code tc \<noteq> 0 then Inr ([], st3)
     else rbind (iter_items (get_or m ''invariants'' (JArr []))) (\<lambda>ivs.
       rbind (check_invariants ws spec main bounds ivs st3) (\<lambda>(ivs', st4).
       rbind (iter_items (get_or m ''witnesses'' (JArr []))) (\<lambda>wits.
       rbind (check_each (check_witness ws spec main bounds) wits st4) (\<lambda>st5.
       rbind (item (JObj m) ''module'') (\<lambda>lib.
       rbind (iter_items (get_or m ''transitions'' (JArr []))) (\<lambda>ts.
       rbind (check_each (check_transition ws (formatted ws lib) (path_stem (components file))
           (formatted ws (get_or m ''init'' (JStr (str ''init'')))) (formatted ws (get_or m ''step'' (JStr (str ''step'')))) bounds)
         ts st5) (\<lambda>st6.
       Inr (ivs', st6)))))))))))))"

subsection \<open>The checker\<close>

datatype check_stop = CheckRaised py_exn | EscapesTree

record check_report =
  quint_version :: pystr
  checked :: check_state
  accepted :: bool
  pinned_manifest :: "json option"

definition raises :: "py_exn + 'a \<Rightarrow> check_stop + 'a" where
  "raises r = (case r of Inl e \<Rightarrow> Inl (CheckRaised e) | Inr x \<Rightarrow> Inr x)"

text \<open>\<^verbatim>\<open>Checker.__init__\<close>\<close>

definition open_manifest :: "workshop \<Rightarrow> py_exn + json \<Rightarrow> check_stop + fields" where
  "open_manifest ws text =
     rbind (raises text) (\<lambda>v. rbind (raises (item v ''spec_dir'')) (\<lambda>d. rbind (raises (as_path d)) (\<lambda>s.
     rbind (raises (resolved ws s)) (\<lambda>dir.
     if \<not> contained (butlast (manifest_dir ws)) dir \<and> \<not> contained (manifest_dir ws) dir then Inl EscapesTree
     else rbind (raises (item v ''intent_path'')) (\<lambda>i. rbind (raises (as_path i)) (\<lambda>p. rbind (raises (resolved ws p)) (\<lambda>_.
       case v of JObj m \<Rightarrow> Inr m | _ \<Rightarrow> Inl (CheckRaised AttributeError))))))))"

text \<open>What \<^verbatim>\<open>--pin\<close> writes: each observed hash becomes the pin.\<close>

definition pin_one :: "json \<Rightarrow> json" where
  "pin_one iv = (case iv of
       JObj fs \<Rightarrow> (case map_of fs observed_key of
           None \<Rightarrow> iv
         | Some h \<Rightarrow> JObj (dset (filter (\<lambda>f. fst f \<noteq> observed_key) fs) (str ''definition_sha256'') h))
     | _ \<Rightarrow> iv)"

definition pin_manifest :: "fields \<Rightarrow> json list \<Rightarrow> json" where
  "pin_manifest m ivs =
     (if as_arr (jget m ''invariants'') = None then JObj m
      else JObj (dset m (str ''invariants'') (JArr (map pin_one ivs))))"

definition obligation_check :: "workshop \<Rightarrow> bool \<Rightarrow> py_exn + json \<Rightarrow> check_stop + check_report" where
  "obligation_check ws pin text =
     rbind (open_manifest ws text) (\<lambda>m.
     rbind (raises (ask ws None [str ''--version''] \<lparr>calls = [], results = [], diffs = []\<rparr>)) (\<lambda>(v, st0).
     rbind (raises (run_obligations ws m st0)) (\<lambda>(ivs, st).
     let ok = list_all met (results st) in
     Inr \<lparr>quint_version = strip (stdout v), checked = st, accepted = ok,
       pinned_manifest = (if ok \<and> pin then Some (pin_manifest m ivs) else None)\<rparr>)))"

text \<open>\<^verbatim>\<open>sys.exit\<close> with a message is the status 1.\<close>

definition check_exit :: "check_stop + check_report \<Rightarrow> nat" where
  "check_exit r = (case r of
       Inl (CheckRaised e) \<Rightarrow> 2 | Inl EscapesTree \<Rightarrow> 1 | Inr rep \<Rightarrow> if accepted rep then 0 else 1)"

subsection \<open>What an accepted proposal has shown\<close>

text \<open>A call made, in a list of calls, and what it returned.\<close>

definition called :: "workshop \<Rightarrow> quint_call list \<Rightarrow> pystr option \<Rightarrow> pystr list \<Rightarrow> process_result \<Rightarrow> bool" where
  "called ws cs p args r \<longleftrightarrow> (\<exists>past later. cs = past @ \<lparr>quint_args = args, probe = p\<rparr> # later \<and>
     quint ws past \<lparr>quint_args = args, probe = p\<rparr> = Inr r)"

definition grew :: "check_state \<Rightarrow> check_state \<Rightarrow> bool" where
  "grew st st' \<longleftrightarrow> (\<exists>cs rs. calls st' = calls st @ cs \<and> results st' = results st @ rs)"

definition safe_invariant :: "workshop \<Rightarrow> pystr \<Rightarrow> pystr \<Rightarrow> json \<Rightarrow> quint_call list \<Rightarrow> json \<Rightarrow> bool" where
  "safe_invariant ws spec main bounds cs iv \<longleftrightarrow> (\<exists>name body b r.
     item iv ''name'' = Inr (JStr name) \<and> extract_definition (wide_word ws) spec name = Some body \<and>
     (truthy (jsub iv ''definition_sha256'') \<longrightarrow> jsub iv ''definition_sha256'' = JStr (sha256_hex ws body)) \<and>
     \<not> vacuous (wide_word ws) spec name body \<and> bounds = JObj b \<and>
     called ws cs None ([str ''verify'', invariant_option name] @ bound_args ws b False @ [main]) r \<and> status_code r = 0)"

definition found_violation :: "workshop \<Rightarrow> pystr option \<Rightarrow> pystr list \<Rightarrow> pystr \<Rightarrow> json \<Rightarrow> quint_call list \<Rightarrow> bool" where
  "found_violation ws p words file bounds cs \<longleftrightarrow> (\<exists>b r. bounds = JObj b \<and>
     (called ws cs p (str ''run'' # words @ bound_args ws b True @ [file]) r \<and> violated r \<or>
      called ws cs p (str ''verify'' # words @ bound_args ws b False @ [file]) r \<and> status_code r \<noteq> 0))"

definition reached_witness :: "workshop \<Rightarrow> pystr \<Rightarrow> pystr \<Rightarrow> json \<Rightarrow> quint_call list \<Rightarrow> json \<Rightarrow> bool" where
  "reached_witness ws spec main bounds cs wit \<longleftrightarrow> (\<exists>name body. item wit ''name'' = Inr (JStr name) \<and>
     extract_definition (wide_word ws) spec name = Some body \<and>
     found_violation ws None [invariant_option name] main bounds cs)"

definition fired_transition :: "workshop \<Rightarrow> pystr \<Rightarrow> pystr \<Rightarrow> pystr \<Rightarrow> pystr \<Rightarrow> json \<Rightarrow> quint_call list \<Rightarrow> json \<Rightarrow> bool" where
  "fired_transition ws lib stem init step bounds cs t \<longleftrightarrow>
     found_violation ws (Some (probe_text lib stem init step (formatted ws t)))
       (map str [''--init=__init'', ''--step=__step'', ''--invariant=__unfired'']) (str ''__obligation_probe.qnt'') bounds cs"

lemma grew_refl [simp]: "grew st st"
  by (simp add: grew_def)

lemma grew_trans: "grew a b \<Longrightarrow> grew b c \<Longrightarrow> grew a c"
  by (auto simp: grew_def)

lemma grew_note [simp]: "grew st (note_result ob x b ev st)"
  by (simp add: grew_def note_result_def)

lemma grew_met: "grew st st' \<Longrightarrow> list_all met (results st') \<Longrightarrow> list_all met (results st)"
  by (auto simp: grew_def)

lemma called_grew: "called ws (calls st) p args r \<Longrightarrow> grew st st' \<Longrightarrow> called ws (calls st') p args r"
  by (fastforce simp: called_def grew_def)

lemma ask_Inr: "ask ws p args st = Inr (r, st') \<Longrightarrow> called ws (calls st') p args r \<and> grew st st' \<and> results st' = results st"
  by (auto simp: ask_def called_def grew_def Let_def) (rule exI [of _ "calls st"], auto)

lemma note_results [simp]:
  "results (note_result ob x b ev st) = results st @ [\<lparr>obligation = ob, about = x, met = b, evidence = ev\<rparr>]"
  "calls (note_result ob x b ev st) = calls st"
  by (simp_all add: note_result_def)

text \<open>A check of the list: it only adds calls and results, and where all it notes is met, what it
  stands for holds of the calls made.\<close>

locale obligation_step =
  fixes check :: "json \<Rightarrow> check_state \<Rightarrow> py_exn + check_state"
    and holds :: "quint_call list \<Rightarrow> json \<Rightarrow> bool"
  assumes check_grew: "check x st = Inr st' \<Longrightarrow> grew st st'"
    and check_holds: "check x st = Inr st' \<Longrightarrow> list_all met (results st') \<Longrightarrow> holds (calls st') x"
    and holds_grew: "holds (calls st) x \<Longrightarrow> grew st st' \<Longrightarrow> holds (calls st') x"
begin

lemma each_grew: "check_each check xs st = Inr st' \<Longrightarrow> grew st st'"
  by (induction xs arbitrary: st) (auto dest: check_grew intro: grew_trans)

lemma each_holds:
  assumes "check_each check xs st = Inr st'" "list_all met (results st')" "x \<in> set xs"
  shows "holds (calls st') x"
  using assms
proof (induction xs arbitrary: st)
  case (Cons y xs)
  then obtain s where s: "check y st = Inr s" "check_each check xs s = Inr st'" by auto
  have "holds (calls st') y"
    using check_holds [OF s(1) grew_met [OF each_grew [OF s(2)] Cons.prems(2)]] holds_grew each_grew [OF s(2)] by blast
  with Cons s show ?case by auto
qed simp

end

lemma found_violation_grew: "found_violation ws p words file bounds (calls st) \<Longrightarrow> grew st st' \<Longrightarrow>
    found_violation ws p words file bounds (calls st')"
  unfolding found_violation_def using called_grew by blast

lemma seek_grew: "seek ws p words file bounds ob x st = Inr st' \<Longrightarrow> grew st st'"
  by (auto simp: seek_def with_bounds_def split: json.splits if_splits dest!: ask_Inr)
    (blast intro: grew_trans grew_note)+

lemma seek_met:
  assumes "seek ws p words file bounds ob x st = Inr st'" "list_all met (results st')"
  shows "found_violation ws p words file bounds (calls st')"
proof -
  obtain b where b: "bounds = JObj b" using assms(1) by (cases bounds) (auto simp: seek_def with_bounds_def)
  obtain r st1 where run: "ask ws p (str ''run'' # words @ bound_args ws b True @ [file]) st = Inr (r, st1)"
    and rest: "(if violated r then Inr (note_result ob x True WitnessedRun st1)
     else rbind (ask ws p (str ''verify'' # words @ bound_args ws b False @ [file]) st1) (\<lambda>(v, st2).
       Inr (if status_code v = 0 then note_result ob x False (BoundedChecked (depth ws b)) st2
            else note_result ob x True WitnessedVerify st2))) = Inr st'"
    using assms(1) by (auto simp: seek_def with_bounds_def b)
  show ?thesis
  proof (cases "violated r")
    case True
    then show ?thesis using ask_Inr [OF run] rest b unfolding found_violation_def by auto
  next
    case False
    then obtain v st2 where "ask ws p (str ''verify'' # words @ bound_args ws b False @ [file]) st1 = Inr (v, st2)"
      "st' = (if status_code v = 0 then note_result ob x False (BoundedChecked (depth ws b)) st2
            else note_result ob x True WitnessedVerify st2)" using rest by auto
    then show ?thesis using ask_Inr assms(2) b unfolding found_violation_def by (fastforce split: if_splits)
  qed
qed

interpretation witness: obligation_step "check_witness ws spec main bounds" "reached_witness ws spec main bounds"
  for ws spec main bounds
proof unfold_locales
  fix x st st' assume run: "check_witness ws spec main bounds x st = Inr st'"
  then obtain nm found where nm: "item x ''name'' = Inr nm" "find_definition ws spec nm = Inr found"
    by (auto simp: check_witness_def)
  show "grew st st'"
    using run nm by (auto simp: check_witness_def Let_def split: option.splits dest!: seek_grew intro: grew_trans [OF grew_note])
  assume "list_all met (results st')"
  then show "reached_witness ws spec main bounds (calls st') x"
    using run nm seek_met
    by (fastforce simp: check_witness_def reached_witness_def find_definition_def Let_def split: option.splits json.splits if_splits)
next
  show "reached_witness ws spec main bounds (calls st) x \<Longrightarrow> grew st st' \<Longrightarrow> reached_witness ws spec main bounds (calls st') x"
    for st st' x unfolding reached_witness_def using found_violation_grew by blast
qed

interpretation transition: obligation_step "check_transition ws lib stem init step bounds"
    "fired_transition ws lib stem init step bounds" for ws lib stem init step bounds
  by unfold_locales
    (auto simp: check_transition_def fired_transition_def intro: seek_grew seek_met found_violation_grew)

abbreviation invariant_step :: "workshop \<Rightarrow> pystr \<Rightarrow> pystr \<Rightarrow> json \<Rightarrow> json \<Rightarrow> check_state \<Rightarrow> py_exn + check_state" where
  "invariant_step ws spec main bounds iv st \<equiv> rbind (check_invariant ws spec main bounds iv st) (\<lambda>(iv', st'). Inr st')"

text \<open>An invariant as it is kept: with the hash of its definition.\<close>

definition hashed :: "workshop \<Rightarrow> pystr \<Rightarrow> json \<Rightarrow> json \<Rightarrow> bool" where
  "hashed ws spec iv iv' \<longleftrightarrow> (\<exists>fs name body. iv = JObj fs \<and> item iv ''name'' = Inr (JStr name) \<and>
     extract_definition (wide_word ws) spec name = Some body \<and> iv' = JObj (dset fs observed_key (JStr (sha256_hex ws body))))"

lemma item_Inr: "item x k = Inr v \<longleftrightarrow> (\<exists>fs. x = JObj fs \<and> map_of fs (str k) = Some v)"
  by (cases x) (auto simp: item_def split: option.splits)

lemma find_definition_Some: "find_definition ws spec nm = Inr (Some (name, body)) \<longleftrightarrow>
    nm = JStr name \<and> extract_definition (wide_word ws) spec name = Some body"
  by (cases nm) (auto simp: find_definition_def)

lemma check_frozen_spec:
  "grew st (check_frozen ws pin name body st)"
  "list_all met (results (check_frozen ws pin name body st)) \<Longrightarrow> truthy pin \<Longrightarrow> pin = JStr (sha256_hex ws body)"
  by (auto simp: check_frozen_def Let_def grew_def note_result_def split: if_splits)

lemma check_invariant_spec:
  assumes "check_invariant ws spec main bounds iv st = Inr (iv', st')"
  shows "grew st st'"
    and "list_all met (results st') \<Longrightarrow> safe_invariant ws spec main bounds (calls st') iv \<and> hashed ws spec iv iv'"
proof -
  obtain nm found where nm: "item iv ''name'' = Inr nm" "find_definition ws spec nm = Inr found"
    using assms by (auto simp: check_invariant_def)
  obtain fs where fs: "iv = JObj fs" using nm by (auto simp: item_Inr)
  have "grew st st' \<and> (list_all met (results st') \<longrightarrow>
      safe_invariant ws spec main bounds (calls st') iv \<and> hashed ws spec iv iv')"
  proof (cases found)
    case None
    then have "st' = note_result Presence nm False Textual st"
      using assms nm by (simp add: check_invariant_def)
    then show ?thesis by simp
  next
    case (Some d)
    obtain name body where d: "found = Some (name, body)" using Some by (cases d) auto
    define st2 where "st2 = check_frozen ws (jget fs ''definition_sha256'') name body (note_result Presence nm True Textual st)"
    define st3 where "st3 = note_result Vacuity nm (\<not> vacuous (wide_word ws) spec name body) Heuristic st2"
    obtain b where b: "bounds = JObj b"
      using assms nm d fs by (cases bounds) (auto simp: check_invariant_def with_bounds_def Let_def)
    obtain r st4 where ask: "ask ws None ([str ''verify'', invariant_option name] @ bound_args ws b False @ [main]) st3 = Inr (r, st4)"
      and out: "iv' = JObj (dset fs observed_key (JStr (sha256_hex ws body)))"
        "st' = note_result Safety nm (status_code r = 0) (BoundedChecked (depth ws b)) st4"
      using assms nm d fs by (auto simp: check_invariant_def with_bounds_def Let_def b st2_def st3_def)
    note made = ask_Inr [OF ask]
    have "grew st st2" unfolding st2_def by (rule grew_trans [OF grew_note check_frozen_spec(1)])
    then have "grew st st'"
      using made grew_note grew_trans unfolding st3_def out(2) by blast
    moreover have "safe_invariant ws spec main bounds (calls st') iv" if ok: "list_all met (results st')"
    proof -
      have "list_all met (results st2)" "\<not> vacuous (wide_word ws) spec name body" "status_code r = 0"
        using ok made by (auto simp: out(2) st3_def)
      then show ?thesis
        using check_frozen_spec(2) [of ws "jget fs ''definition_sha256''" name body] nm d b made out(2)
        by (fastforce simp: safe_invariant_def fs st2_def find_definition_Some)
    qed
    moreover have "hashed ws spec iv iv'"
      using nm d out(1) fs by (auto simp: hashed_def find_definition_Some)
    ultimately show ?thesis by blast
  qed
  then show "grew st st'"
    and "list_all met (results st') \<Longrightarrow> safe_invariant ws spec main bounds (calls st') iv \<and> hashed ws spec iv iv'" by auto
qed

interpretation invariant: obligation_step "invariant_step ws spec main bounds" "safe_invariant ws spec main bounds"
  for ws spec main bounds
proof unfold_locales
  show "safe_invariant ws spec main bounds (calls st) x \<Longrightarrow> grew st st' \<Longrightarrow> safe_invariant ws spec main bounds (calls st') x"
    for st st' x unfolding safe_invariant_def using called_grew by blast
qed (auto dest: check_invariant_spec)

lemma check_invariants_each:
  assumes "check_invariants ws spec main bounds ivs st = Inr (ivs', st')"
  shows "check_each (invariant_step ws spec main bounds) ivs st = Inr st'"
    and "list_all met (results st') \<Longrightarrow> list_all2 (hashed ws spec) ivs ivs'"
proof -
  have "check_each (invariant_step ws spec main bounds) ivs st = Inr st' \<and>
      (list_all met (results st') \<longrightarrow> list_all2 (hashed ws spec) ivs ivs')"
    using assms
  proof (induction ivs arbitrary: st ivs')
    case (Cons iv ivs)
    then obtain iv' s js where s: "check_invariant ws spec main bounds iv st = Inr (iv', s)"
      "check_invariants ws spec main bounds ivs s = Inr (js, st')" "ivs' = iv' # js" by auto
    note IH = Cons.IH [OF s(2)]
    have "grew s st'" using IH invariant.each_grew by blast
    then show ?case using IH s check_invariant_spec(2) [OF s(1)] grew_met by auto
  qed simp
  then show "check_each (invariant_step ws spec main bounds) ivs st = Inr st'"
    and "list_all met (results st') \<Longrightarrow> list_all2 (hashed ws spec) ivs ivs'" by auto
qed

text \<open>The obligations of a kind the manifest lists.\<close>

definition items_of :: "fields \<Rightarrow> string \<Rightarrow> json list" where
  "items_of m k = (case iter_items (get_or m k (JArr [])) of Inl e \<Rightarrow> [] | Inr xs \<Rightarrow> xs)"

definition bounds_of :: "fields \<Rightarrow> json" where
  "bounds_of m = get_or m ''bounds'' (JObj [])"

lemma met_noted: "list_all met (results (note_result ob x b ev st)) \<longleftrightarrow> b \<and> list_all met (results st)"
  by auto

text \<open>A run to its end, with what it found at each step.\<close>

lemma run_obligations_met:
  assumes run: "run_obligations ws m st0 = Inr (ivs', st)" and ok: "list_all met (results st)"
  shows "\<exists>texts fname lib tc. spec_texts ws = Inr texts \<and> map_of m (str ''main_file'') = Some (JStr fname) \<and>
    map_of m (str ''module'') = Some lib \<and>
    (truthy (jget m ''intent_sha256'') \<longrightarrow> (\<exists>t. intent_text ws = Inr t \<and> jget m ''intent_sha256'' = JStr (sha256_hex ws t))) \<and>
    called ws (calls st) None [str ''typecheck'', main_name fname] tc \<and> status_code tc = 0 \<and>
    (\<forall>iv \<in> set (items_of m ''invariants''). safe_invariant ws (join [10] texts) (main_name fname) (bounds_of m) (calls st) iv) \<and>
    (\<forall>wit \<in> set (items_of m ''witnesses''). reached_witness ws (join [10] texts) (main_name fname) (bounds_of m) (calls st) wit) \<and>
    (\<forall>t \<in> set (items_of m ''transitions''). fired_transition ws (formatted ws lib) (path_stem (components fname))
       (formatted ws (get_or m ''init'' (JStr (str ''init'')))) (formatted ws (get_or m ''step'' (JStr (str ''step''))))
       (bounds_of m) (calls st) t) \<and>
    list_all2 (hashed ws (join [10] texts)) (items_of m ''invariants'') ivs'"
proof -
  obtain texts mf fname where texts: "spec_texts ws = Inr texts" "item (JObj m) ''main_file'' = Inr mf" "as_path mf = Inr fname"
    using run by (auto simp: run_obligations_def)
  define spec where "spec = join [10] texts"
  define main where "main = main_name fname"
  obtain st1 tc st2 where head: "check_intent ws m st0 = Inr st1" "ask ws None [str ''typecheck'', main] st1 = Inr (tc, st2)"
    using run texts by (auto simp: run_obligations_def main_def Let_def)
  define st3 where "st3 = note_result Typecheck (JStr main) (status_code tc = 0) Mechanical st2"
  have tc: "status_code tc = 0"
  proof (rule ccontr)
    assume "status_code tc \<noteq> 0"
    then have "st = st3" using run texts head by (simp add: run_obligations_def main_def Let_def st3_def)
    then show False using ok \<open>status_code tc \<noteq> 0\<close> by (simp add: st3_def)
  qed
  obtain ivs wits ts st4 st5 lib where body:
    "iter_items (get_or m ''invariants'' (JArr [])) = Inr ivs"
    "check_invariants ws spec main (bounds_of m) ivs st3 = Inr (ivs', st4)"
    "iter_items (get_or m ''witnesses'' (JArr [])) = Inr wits"
    "check_each (check_witness ws spec main (bounds_of m)) wits st4 = Inr st5"
    "item (JObj m) ''module'' = Inr lib"
    "iter_items (get_or m ''transitions'' (JArr [])) = Inr ts"
    "check_each (check_transition ws (formatted ws lib) (path_stem (components fname))
       (formatted ws (get_or m ''init'' (JStr (str ''init'')))) (formatted ws (get_or m ''step'' (JStr (str ''step''))))
       (bounds_of m)) ts st5 = Inr st"
    using run texts head tc by (auto simp: run_obligations_def main_def spec_def bounds_of_def Let_def st3_def)
  note steps = check_invariants_each [OF body(2)]
  have grew: "grew st5 st" "grew st4 st5" "grew st3 st4"
    by (rule transition.each_grew [OF body(7)] witness.each_grew [OF body(4)] invariant.each_grew [OF steps(1)])+
  have met: "list_all met (results st5)" "list_all met (results st4)" "list_all met (results st3)"
    using grew_met [OF grew(1) ok] grew_met [OF grew(2)] grew_met [OF grew(3)] by simp_all
  note made = ask_Inr [OF head(2)]
  have first: "list_all met (results st1)" using met(3) made by (simp add: st3_def)
  have intent: "truthy (jget m ''intent_sha256'') \<longrightarrow> (\<exists>t. intent_text ws = Inr t \<and> jget m ''intent_sha256'' = JStr (sha256_hex ws t))"
    using head(1) first by (auto simp: check_intent_def split: if_splits)
  have late: "grew st4 st" by (rule grew_trans [OF grew(2) grew(1)])
  have "grew st2 st3" unfolding st3_def by (rule grew_note)
  then have "grew st2 st" by (rule grew_trans [OF _ grew_trans [OF grew(3) late]])
  then have "called ws (calls st) None [str ''typecheck'', main] tc" using made called_grew by blast
  moreover have "safe_invariant ws spec main (bounds_of m) (calls st) iv" if "iv \<in> set ivs" for iv
    using invariant.holds_grew [OF invariant.each_holds [OF steps(1) met(2) that] late] .
  moreover have "reached_witness ws spec main (bounds_of m) (calls st) wit" if "wit \<in> set wits" for wit
    using witness.holds_grew [OF witness.each_holds [OF body(4) met(1) that] grew(1)] .
  moreover note transition.each_holds [OF body(7) ok] steps(2) [OF met(2)]
  moreover have "mf = JStr fname" using texts(3) by (cases mf) (auto simp: as_path_def)
  ultimately show ?thesis
    using texts intent tc body(1,3,5,6) by (simp add: items_of_def item_Inr spec_def main_def) blast
qed

lemma raises_Inr [simp]: "raises r = Inr x \<longleftrightarrow> r = Inr x"
  by (cases r) (simp_all add: raises_def)

lemma obligation_check_Inr:
  assumes "obligation_check ws pin text = Inr rep"
  shows "\<exists>m ivs st0. open_manifest ws text = Inr m \<and> run_obligations ws m st0 = Inr (ivs, checked rep) \<and>
    accepted rep = list_all met (results (checked rep)) \<and>
    pinned_manifest rep = (if accepted rep \<and> pin then Some (pin_manifest m ivs) else None)"
  using assms by (auto simp: obligation_check_def Let_def) blast+

lemma open_manifest_Inr: "open_manifest ws text = Inr m \<Longrightarrow> text = Inr (JObj m)"
  by (auto simp: open_manifest_def item_Inr split: if_splits json.splits)

text \<open>C25. An accepted proposal met every obligation. When the checker accepts, the intent has the
  hash the manifest froze; the specification typechecked; every required invariant is defined in
  it, has the pinned hash where there is one, is not vacuous by the checker's test and passed a
  \<^verbatim>\<open>quint verify\<close> at the manifest's bounds; every witness is defined and, like every listed
  transition, was reached: a run reported a violation of it, or \<^verbatim>\<open>verify\<close> did not succeed.\<close>

theorem accepted_proposal_met:
  assumes "obligation_check ws pin (Inr (JObj m)) = Inr rep" "accepted rep"
  shows "\<exists>texts fname lib tc cs. spec_texts ws = Inr texts \<and> map_of m (str ''main_file'') = Some (JStr fname) \<and>
    map_of m (str ''module'') = Some lib \<and> cs = calls (checked rep) \<and>
    (truthy (jget m ''intent_sha256'') \<longrightarrow> (\<exists>t. intent_text ws = Inr t \<and> jget m ''intent_sha256'' = JStr (sha256_hex ws t))) \<and>
    called ws cs None [str ''typecheck'', main_name fname] tc \<and> status_code tc = 0 \<and>
    (\<forall>iv \<in> set (items_of m ''invariants''). safe_invariant ws (join [10] texts) (main_name fname) (bounds_of m) cs iv) \<and>
    (\<forall>wit \<in> set (items_of m ''witnesses''). reached_witness ws (join [10] texts) (main_name fname) (bounds_of m) cs wit) \<and>
    (\<forall>t \<in> set (items_of m ''transitions''). fired_transition ws (formatted ws lib) (path_stem (components fname))
       (formatted ws (get_or m ''init'' (JStr (str ''init'')))) (formatted ws (get_or m ''step'' (JStr (str ''step''))))
       (bounds_of m) cs t)"
proof -
  obtain m' ivs st0 where m': "open_manifest ws (Inr (JObj m)) = Inr m'" "run_obligations ws m' st0 = Inr (ivs, checked rep)"
    "accepted rep = list_all met (results (checked rep))" using obligation_check_Inr [OF assms(1)] by blast
  have "m' = m" using open_manifest_Inr [OF m'(1)] by simp
  then show ?thesis using run_obligations_met [OF m'(2)] m'(3) assms(2) by simp blast
qed

lemma pin_one_hashed:
  assumes "hashed ws spec iv iv'"
  shows "\<exists>name body. item iv ''name'' = Inr (JStr name) \<and> item (pin_one iv') ''name'' = Inr (JStr name) \<and>
    extract_definition (wide_word ws) spec name = Some body \<and>
    jsub (pin_one iv') ''definition_sha256'' = JStr (sha256_hex ws body)"
proof -
  obtain fs name body where h: "iv = JObj fs" "item iv ''name'' = Inr (JStr name)"
    "extract_definition (wide_word ws) spec name = Some body" "iv' = JObj (dset fs observed_key (JStr (sha256_hex ws body)))"
    using assms by (auto simp: hashed_def)
  have out: "map_of (filter (\<lambda>f. fst f \<noteq> k) d) j = (if j = k then None else map_of d j)" for k j and d :: fields
    by (induction d) auto
  have "pin_one iv' = JObj (dset (filter (\<lambda>f. fst f \<noteq> observed_key) (dset fs observed_key (JStr (sha256_hex ws body))))
      (str ''definition_sha256'') (JStr (sha256_hex ws body)))"
    by (simp add: pin_one_def h(4) map_of_dset)
  moreover have "observed_key \<noteq> str ''name''" by (simp add: observed_key_def)
  ultimately have "item (pin_one iv') ''name'' = Inr (JStr name)"
      "jsub (pin_one iv') ''definition_sha256'' = JStr (sha256_hex ws body)"
    using h(1,2) by (simp_all add: item_Inr map_of_dset out jget_def)
  with h show ?thesis by blast
qed

text \<open>C26. A pinned definition stays. Once a check has pinned the manifest, a later check of that
  manifest accepts no specification in which a required invariant is defined otherwise: each has
  a definition with the hash of the one that was pinned, whatever specification, tools and intent
  the later check is given.\<close>

theorem pinned_definitions_stay:
  assumes first: "obligation_check ws True (Inr (JObj m)) = Inr rep" "pinned_manifest rep = Some (JObj m')"
    and later: "obligation_check ws' pin (Inr (JObj m')) = Inr rep'" "accepted rep'"
    and texts: "spec_texts ws = Inr old" "spec_texts ws' = Inr new"
    and digest: "sha256_hex ws' = sha256_hex ws" "\<And>s. sha256_hex ws s \<noteq> []"
    and required: "iv \<in> set (items_of m ''invariants'')"
  shows "\<exists>name body body'. item iv ''name'' = Inr (JStr name) \<and>
    extract_definition (wide_word ws) (join [10] old) name = Some body \<and>
    extract_definition (wide_word ws') (join [10] new) name = Some body' \<and> sha256_hex ws body' = sha256_hex ws body"
proof -
  obtain k ivs st0 where k: "open_manifest ws (Inr (JObj m)) = Inr k" "run_obligations ws k st0 = Inr (ivs, checked rep)"
    "accepted rep = list_all met (results (checked rep))"
    "pinned_manifest rep = (if accepted rep \<and> True then Some (pin_manifest k ivs) else None)"
    using obligation_check_Inr [OF first(1)] by blast
  have km: "k = m" using open_manifest_Inr [OF k(1)] by simp
  have met: "list_all met (results (checked rep))" and pinned: "pin_manifest m ivs = JObj m'"
    using k first(2) km by (auto split: if_splits)
  have kept: "list_all2 (hashed ws (join [10] old)) (items_of m ''invariants'') ivs"
    using run_obligations_met [OF k(2) met] texts(1) km by auto
  then obtain iv' where iv': "iv' \<in> set ivs" "hashed ws (join [10] old) iv iv'"
    using list_all2_partner required by meson
  obtain name body where body: "item iv ''name'' = Inr (JStr name)" "item (pin_one iv') ''name'' = Inr (JStr name)"
    "extract_definition (wide_word ws) (join [10] old) name = Some body"
    "jsub (pin_one iv') ''definition_sha256'' = JStr (sha256_hex ws body)" using pin_one_hashed [OF iv'(2)] by blast
  have "\<exists>xs. jget m ''invariants'' = JArr xs"
    using required iv'(2) by (auto simp: items_of_def iter_items_def get_or_def jget_def hashed_def split: option.splits json.splits)
  then have "m' = dset m (str ''invariants'') (JArr (map pin_one ivs))"
    using pinned by (auto simp: pin_manifest_def)
  then have "pin_one iv' \<in> set (items_of m' ''invariants'')"
    using iv'(1) by (simp add: items_of_def get_or_def map_of_dset iter_items_def)
  moreover obtain k' js st' where k': "open_manifest ws' (Inr (JObj m')) = Inr k'"
    "run_obligations ws' k' st' = Inr (js, checked rep')" "accepted rep' = list_all met (results (checked rep'))"
    using obligation_check_Inr [OF later(1)] by blast
  moreover have "k' = m'" using open_manifest_Inr [OF k'(1)] by simp
  ultimately obtain main bounds cs where "safe_invariant ws' (join [10] new) main bounds cs (pin_one iv')"
    using run_obligations_met [of ws' k' st' js "checked rep'"] later(2) texts(2) by auto
  then show ?thesis
    using body digest by (auto simp: safe_invariant_def)
qed

subsection \<open>Instances\<close>

text \<open>Tools that answer by the command alone: \<open>run_status\<close> and \<open>verify_status\<close>, and a report of a
  violation whenever \<^verbatim>\<open>run\<close> fails with 1.\<close>

definition sample_shop :: "int \<Rightarrow> int \<Rightarrow> string list \<Rightarrow> workshop" where
  "sample_shop run_status verify_status spec = \<lparr>
     quint = (\<lambda>past c. Inr (
       if quint_args c \<noteq> [] \<and> hd (quint_args c) = str ''run''
         then \<lparr>status_code = run_status, stdout = (if run_status = 1 then str ''Violation'' else []), stderr = []\<rparr>
       else \<lparr>status_code = (if quint_args c \<noteq> [] \<and> hd (quint_args c) = str ''verify'' then verify_status else 0),
         stdout = [], stderr = []\<rparr>)),
     sha256_hex = (\<lambda>s. 104 # s), manifest_dir = [str ''/'', str ''p'', str ''.fv''],
     resolved = (\<lambda>s. Inr [str ''/'', str ''p'', s]), intent_text = Inr (str ''intent''),
     spec_texts = Inr [join [10] (map str spec)], wide_word = (\<lambda>_. False), shown = (\<lambda>_. [])\<rparr>"

definition sample_spec :: "string list" where
  "sample_spec = [''module m {'', '' var x: int'', '' val i = x > 0 // positive'', '' val w = x < 5'', ''}'']"

definition sample_manifest :: "string list \<Rightarrow> string list \<Rightarrow> string list \<Rightarrow> fields" where
  "sample_manifest is ws ts = [(str ''spec_dir'', jtext ''specs''), (str ''intent_path'', jtext ''intent.md''),
     (str ''main_file'', jtext ''m.qnt''), (str ''module'', jtext ''m''),
     (str ''invariants'', JArr (map (\<lambda>n. obj [(''name'', jtext n)]) is)),
     (str ''witnesses'', JArr (map (\<lambda>n. obj [(''name'', jtext n)]) ws)), (str ''transitions'', JArr (map jtext ts))]"

lemma case_Inr: "(case r of Inl e \<Rightarrow> False | Inr x \<Rightarrow> P x) \<longleftrightarrow> (\<exists>x. r = Inr x \<and> P x)"
  by (cases r) auto

lemma sample_accepted: "\<exists>rep m'. obligation_check (sample_shop 1 0 sample_spec) True (Inr (JObj (sample_manifest [''i''] [''w''] [''grow'']))) =
    Inr rep \<and> accepted rep \<and> pinned_manifest rep = Some (JObj m') \<and>
    (\<exists>rep'. obligation_check (sample_shop 1 0 sample_spec) False (Inr (JObj m')) = Inr rep' \<and> accepted rep')"
proof -
  have "case obligation_check (sample_shop 1 0 sample_spec) True (Inr (JObj (sample_manifest [''i''] [''w''] [''grow'']))) of
      Inl e \<Rightarrow> False
    | Inr rep \<Rightarrow> accepted rep \<and> (case pinned_manifest rep of Some (JObj m') \<Rightarrow>
        (case obligation_check (sample_shop 1 0 sample_spec) False (Inr (JObj m')) of Inl e \<Rightarrow> False | Inr rep' \<Rightarrow> accepted rep')
      | _ \<Rightarrow> False)" by code_simp
  then obtain rep where rep: "obligation_check (sample_shop 1 0 sample_spec) True (Inr (JObj (sample_manifest [''i''] [''w''] [''grow'']))) = Inr rep"
      "accepted rep" and again: "case pinned_manifest rep of Some (JObj m') \<Rightarrow>
        (case obligation_check (sample_shop 1 0 sample_spec) False (Inr (JObj m')) of Inl e \<Rightarrow> False | Inr rep' \<Rightarrow> accepted rep')
      | _ \<Rightarrow> False" unfolding case_Inr by blast
  obtain v where v: "pinned_manifest rep = Some v" using again by (cases "pinned_manifest rep") auto
  obtain m' where m': "v = JObj m'" using again unfolding v option.case by (cases v) auto
  have "pinned_manifest rep = Some (JObj m')" by (simp only: v m')
  moreover have "\<exists>rep'. obligation_check (sample_shop 1 0 sample_spec) False (Inr (JObj m')) = Inr rep' \<and> accepted rep'"
    using again unfolding v m' option.case json.case case_Inr .
  ultimately show ?thesis using rep by blast
qed

theorem accepted_proposal_met_witness:
  "\<exists>tc cs. called (sample_shop 1 0 sample_spec) cs None [str ''typecheck'', str ''m.qnt''] tc \<and> status_code tc = 0"
proof -
  obtain rep where rep: "obligation_check (sample_shop 1 0 sample_spec) True
      (Inr (JObj (sample_manifest [''i''] [''w''] [''grow'']))) = Inr rep" "accepted rep"
    using sample_accepted by blast
  have "main_name (str ''m.qnt'') = str ''m.qnt''" by code_simp
  then show ?thesis
    using accepted_proposal_met [OF rep] by (auto simp: sample_manifest_def jtext_def)
qed

theorem pinned_definitions_stay_witness:
  "\<exists>body body'. extract_definition (\<lambda>_. False) (join [10] (map str sample_spec)) (str ''i'') = Some body \<and>
    extract_definition (\<lambda>_. False) (join [10] (map str sample_spec)) (str ''i'') = Some body' \<and> body = body'"
proof -
  let ?ws = "sample_shop 1 0 sample_spec"
  obtain rep m' rep' where rep: "obligation_check ?ws True (Inr (JObj (sample_manifest [''i''] [''w''] [''grow'']))) = Inr rep"
    "pinned_manifest rep = Some (JObj m')" "obligation_check ?ws False (Inr (JObj m')) = Inr rep'" "accepted rep'"
    using sample_accepted by blast
  have texts: "spec_texts ?ws = Inr [join [10] (map str sample_spec)]" by (simp add: sample_shop_def)
  have "obj [(''name'', jtext ''i'')] \<in> set (items_of (sample_manifest [''i''] [''w''] [''grow'']) ''invariants'')"
    by (simp add: items_of_def sample_manifest_def get_or_def iter_items_def)
  from pinned_definitions_stay [OF rep(1,2) rep(3,4) texts texts refl _ this]
  show ?thesis by (auto simp: sample_shop_def item_Inr obj_def jtext_def)
qed

text \<open>Three ways past the checker. A \<^verbatim>\<open>verify\<close> that does not run at all, after a \<^verbatim>\<open>run\<close> that did
  not either, counts as the counterexample that shows a witness reachable; a specification
  directory outside the project stops the checker with the status of a proposal, not of an error;
  and the text of a declaration the pattern does not know, here a test, is taken into the
  definition before it, where its state variable hides that the invariant is \<^verbatim>\<open>true\<close>.\<close>

theorem crashed_tools_are_witnesses:
  "\<exists>rep. obligation_check (sample_shop 127 127 sample_spec) True (Inr (JObj (sample_manifest [] [''w''] [''grow'']))) = Inr rep \<and>
     accepted rep"
proof -
  have "case obligation_check (sample_shop 127 127 sample_spec) True (Inr (JObj (sample_manifest [] [''w''] [''grow'']))) of
      Inl e \<Rightarrow> False | Inr rep \<Rightarrow> accepted rep" by code_simp
  then show ?thesis by (simp add: case_Inr)
qed

theorem escape_reads_as_proposal:
  "check_exit (obligation_check (sample_shop 1 0 []\<lparr>resolved := \<lambda>s. Inr [str ''/'', s]\<rparr>) False
     (Inr (JObj (sample_manifest [] [] [])))) = 1"
  by code_simp

theorem absorbed_text_hides_vacuity:
  "\<exists>spec. extract_definition (\<lambda>_. False) spec (str ''i'') = Some (str ''val i = true run t = x }'') \<and>
     literally_true (str ''i'') (str ''val i = true'') \<and>
     \<not> vacuous (\<lambda>_. False) spec (str ''i'') (str ''val i = true run t = x }'')"
proof (intro exI conjI)
  let ?spec = "join [10] (map str [''module m {'', '' var x: int'', '' val i = true'', '' run t = x'', ''}''])"
  have "case extract_definition (\<lambda>_. False) ?spec (str ''i'') of None \<Rightarrow> False | Some d \<Rightarrow> d = str ''val i = true run t = x }''"
    by code_simp
  then show "extract_definition (\<lambda>_. False) ?spec (str ''i'') = Some (str ''val i = true run t = x }'')"
    by (simp split: option.splits)
  show "\<not> vacuous (\<lambda>_. False) ?spec (str ''i'') (str ''val i = true run t = x }'')" by code_simp
qed code_simp

end
