(* ===== verification/Evidence_Wire.thy ===== *)
theory Evidence_Wire
  imports Py_Json Utf8
begin

text \<open>
  The wire grammar and the canonical identities of execution evidence v4
  (\<^verbatim>\<open>scripts/fv_evidence_v4_schema.py\<close>, up to the shape table): the strict JSON
  subset (\<open>grammar\<close>, \<open>parse_json\<close> over a model of \<^verbatim>\<open>json.loads\<close> with the four hooks the
  script installs), the canonical bytes \<open>canonical\<close>, the digests \<open>digest\<close> and
  \<open>domain_digest\<close>, and the scalar checks \<open>v4_path\<close>, \<open>sorted_unique\<close> and \<open>v4_utc\<close>.

  SHA-256 is the parameter \<open>sha\<close>, the hexadecimal digest of some bytes. How deeply arrays
  and objects may nest before the JSON scanner (\<open>cap\<close>) or the recursive checks
  (\<open>stack\<close>) give up is a parameter too, as the script turns both failures into errors.
\<close>

definition max_integer :: int where
  "max_integer = 9007199254740991"

datatype v4_error =
    NonScalar
  | IntegerRange
  | UnsupportedValue
  | NoncanonicalInteger pystr
  | UnsafeInteger
  | NonintegerToken pystr
  | DuplicateKey pystr
  | InvalidJson
  | NestingCapacity
  | OutOfFuel
  | CanonicalRange
  | UnsupportedCanonical
  | UnsafePath pystr
  | UnsortedSet
  | InvalidUtc
  | BadShape pystr
  | Inconsistent string
  | PyError py_exn

text \<open>A loop whose body may raise.\<close>

fun each :: "('a \<Rightarrow> 'e + unit) \<Rightarrow> 'a list \<Rightarrow> 'e + unit" where
  "each f [] = Inr ()"
| "each f (x # xs) = rbind (f x) (\<lambda>_. each f xs)"

lemma each_cong [fundef_cong]:
  "xs = ys \<Longrightarrow> (\<And>x. x \<in> set ys \<Longrightarrow> f x = g x) \<Longrightarrow> each f xs = each g ys"
proof (induction ys arbitrary: xs)
  case (Cons y ys)
  then have "f y = g y" "each f ys = each g ys" by simp_all
  with Cons.prems(1) show ?case by simp
qed simp

lemma each_Inr_iff: "each f xs = Inr u \<longleftrightarrow> (\<forall>x \<in> set xs. f x = Inr ())"
  by (induction xs) auto

lemma traverse_cong [fundef_cong]:
  "xs = ys \<Longrightarrow> (\<And>x. x \<in> set ys \<Longrightarrow> f x = g x) \<Longrightarrow> traverse f xs = traverse g ys"
proof (induction ys arbitrary: xs)
  case (Cons y ys)
  then have "f y = g y" "traverse f ys = traverse g ys" by simp_all
  with Cons.prems(1) show ?case by simp
qed simp

subsection \<open>The grammar\<close>

fun v4_scalar :: "json \<Rightarrow> v4_error + pystr" where
  "v4_scalar (JStr s) = (if list_ex surrogate s then Inl NonScalar else Inr s)"
| "v4_scalar _ = Inl NonScalar"

fun grammar :: "pystr option \<Rightarrow> json \<Rightarrow> v4_error + unit" where
  "grammar field JNull = Inr ()"
| "grammar field (JBool b) = Inr ()"
| "grammar field (JInt i) =
     (if \<bar>i\<bar> > max_integer \<or> i < 0 \<and> field \<noteq> Some (str ''exit_code'') then Inl IntegerRange else Inr ())"
| "grammar field (JReal r) = Inl UnsupportedValue"
| "grammar field (JStr s) = rbind (v4_scalar (JStr s)) (\<lambda>_. Inr ())"
| "grammar field (JArr xs) = each (\<lambda>x. grammar None x) xs"
| "grammar field (JObj fs) =
     each (\<lambda>(k, x). rbind (v4_scalar (JStr k)) (\<lambda>_. grammar (Some k) x)) fs"

text \<open>How deeply a value nests.\<close>

fun nesting :: "json \<Rightarrow> nat" where
  "nesting (JArr xs) = Suc (foldr max (map nesting xs) 0)"
| "nesting (JObj fs) = Suc (foldr max (map (\<lambda>(k, x). nesting x) fs) 0)"
| "nesting _ = 0"

subsection \<open>Decoding\<close>

text \<open>\<^verbatim>\<open>bytes.decode("utf-8", errors="strict")\<close>: \<open>None\<close> is \<^verbatim>\<open>UnicodeDecodeError\<close>.\<close>

definition continuation :: "int \<Rightarrow> bool" where
  "continuation b \<longleftrightarrow> 128 \<le> b \<and> b < 192"

fun utf8_decode :: "int list \<Rightarrow> pystr option" where
  "utf8_decode [] = Some []"
| "utf8_decode (b # bs) =
     (if 0 \<le> b \<and> b < 128 then map_option ((#) b) (utf8_decode bs)
      else case bs of
        [] \<Rightarrow> None
      | c1 # r1 \<Rightarrow>
          if \<not> continuation c1 then None
          else if 194 \<le> b \<and> b < 224 then
            map_option ((#) ((b - 192) * 64 + (c1 - 128))) (utf8_decode r1)
          else case r1 of
            [] \<Rightarrow> None
          | c2 # r2 \<Rightarrow>
              if \<not> continuation c2 then None
              else if 224 \<le> b \<and> b < 240 then
                let u = (b - 224) * 4096 + (c1 - 128) * 64 + (c2 - 128) in
                if u < 2048 \<or> surrogate u then None else map_option ((#) u) (utf8_decode r2)
              else case r2 of
                [] \<Rightarrow> None
              | c3 # r3 \<Rightarrow>
                  if \<not> continuation c3 \<or> b < 240 \<or> 244 < b then None
                  else
                    let u = (b - 240) * 262144 + (c1 - 128) * 4096 + (c2 - 128) * 64 + (c3 - 128) in
                    if u < 65536 \<or> 1114112 \<le> u then None else map_option ((#) u) (utf8_decode r3))"

text \<open>The tokens of \<^verbatim>\<open>json.loads\<close>.\<close>

definition json_space :: "codepoint \<Rightarrow> bool" where
  "json_space c \<longleftrightarrow> c = 32 \<or> c = 9 \<or> c = 10 \<or> c = 13"

definition skip_space :: "pystr \<Rightarrow> pystr" where
  "skip_space s = dropWhile json_space s"

definition ascii_digit :: "codepoint \<Rightarrow> bool" where
  "ascii_digit c \<longleftrightarrow> 48 \<le> c \<and> c \<le> 57"

definition hex_value :: "codepoint \<Rightarrow> int option" where
  "hex_value c =
     (if 48 \<le> c \<and> c \<le> 57 then Some (c - 48)
      else if 97 \<le> c \<and> c \<le> 102 then Some (c - 87)
      else if 65 \<le> c \<and> c \<le> 70 then Some (c - 55)
      else None)"

text \<open>Four hexadecimal digits, and what follows them.\<close>

fun hex4 :: "pystr \<Rightarrow> (int \<times> pystr) option" where
  "hex4 (a # b # c # d # r) =
     (case (hex_value a, hex_value b, hex_value c, hex_value d) of
        (Some x, Some y, Some z, Some w) \<Rightarrow> Some (x * 4096 + y * 256 + z * 16 + w, r)
      | _ \<Rightarrow> None)"
| "hex4 _ = None"

definition plain_escapes :: "(codepoint \<times> codepoint) list" where
  "plain_escapes = [(34, 34), (92, 92), (47, 47), (98, 8), (102, 12), (110, 10), (114, 13), (116, 9)]"

text \<open>What follows a backslash: the character it stands for. A high surrogate escape that is
  followed by a low one stands for the pair's character.\<close>

definition scan_escape :: "pystr \<Rightarrow> v4_error + codepoint \<times> pystr" where
  "scan_escape s = (case s of
       [] \<Rightarrow> Inl InvalidJson
     | e # r \<Rightarrow>
         if e = 117 then
           (case hex4 r of
              None \<Rightarrow> Inl InvalidJson
            | Some (u, r1) \<Rightarrow>
                if 55296 \<le> u \<and> u \<le> 56319 \<and> take 2 r1 = [92, 117] then
                  (case hex4 (drop 2 r1) of
                     None \<Rightarrow> Inl InvalidJson
                   | Some (v, r2) \<Rightarrow>
                       if 56320 \<le> v \<and> v \<le> 57343 then
                         Inr (65536 + (u - 55296) * 1024 + (v - 56320), r2)
                       else Inr (u, r1))
                else Inr (u, r1))
         else (case map_of plain_escapes e of None \<Rightarrow> Inl InvalidJson | Some c \<Rightarrow> Inr (c, r)))"

lemma hex4_length: "hex4 s = Some (u, r) \<Longrightarrow> length r \<le> length s"
  by (induction s rule: hex4.induct) (auto split: option.splits)

lemma scan_escape_length: "scan_escape s = Inr (c, r) \<Longrightarrow> length r \<le> length s"
  by (cases s) (auto simp: scan_escape_def split: if_splits option.splits dest!: hex4_length)

function scan_string :: "pystr \<Rightarrow> v4_error + pystr \<times> pystr" where
  "scan_string [] = Inl InvalidJson"
| "scan_string (c # s) =
     (if c = 34 then Inr ([], s)
      else if c < 32 then Inl InvalidJson
      else if c = 92 then
        rbind (scan_escape s) (\<lambda>(d, r). rbind (scan_string r) (\<lambda>(t, r'). Inr (d # t, r')))
      else rbind (scan_string s) (\<lambda>(t, r). Inr (c # t, r)))"
  by pat_completeness auto
termination by (relation "measure length") (auto dest: scan_escape_length)

text \<open>The integer hook.\<close>

definition digits_value :: "pystr \<Rightarrow> int" where
  "digits_value ds = foldl (\<lambda>v d. 10 * v + (d - 48)) 0 ds"

definition canonical_digits :: "pystr \<Rightarrow> bool" where
  "canonical_digits ds \<longleftrightarrow> ds = [48] \<or> ds \<noteq> [] \<and> hd ds \<noteq> 48 \<and> list_all ascii_digit ds"

definition integer_hook :: "pystr \<Rightarrow> v4_error + int" where
  "integer_hook token =
     (let digits = (if take 1 token = [45] then drop 1 token else token);
          v = (if take 1 token = [45] then - digits_value digits else digits_value digits)
      in if token = str ''-0'' \<or> \<not> canonical_digits digits then Inl (NoncanonicalInteger token)
         else if 16 < length (dropWhile (\<lambda>c. c = 45) token) then Inl UnsafeInteger
         else if \<bar>v\<bar> > max_integer then Inl UnsafeInteger
         else Inr v)"

text \<open>A number token: sign, digits, and the fraction and exponent that make it a float.\<close>

definition scan_fraction :: "pystr \<Rightarrow> pystr \<times> pystr" where
  "scan_fraction s = (case s of
       c # d # r \<Rightarrow> if c = 46 \<and> ascii_digit d
                    then (c # takeWhile ascii_digit (d # r), dropWhile ascii_digit (d # r)) else ([], s)
     | _ \<Rightarrow> ([], s))"

definition scan_exponent :: "pystr \<Rightarrow> pystr \<times> pystr" where
  "scan_exponent s = (case s of
       [] \<Rightarrow> ([], s)
     | e # r \<Rightarrow>
         let sign = (if take 1 r = [43] \<or> take 1 r = [45] then take 1 r else []);
             ds = drop (length sign) r
         in if (e = 101 \<or> e = 69) \<and> ds \<noteq> [] \<and> ascii_digit (hd ds)
            then (e # sign @ takeWhile ascii_digit ds, dropWhile ascii_digit ds) else ([], s))"

definition scan_number :: "pystr \<Rightarrow> v4_error + json \<times> pystr" where
  "scan_number s =
     (let sign = (if take 1 s = [45] then [45] else []);
          body = drop (length sign) s;
          digits = (if take 1 body = [48] then [48] else takeWhile ascii_digit body)
      in if digits = [] then Inl InvalidJson
         else
           let (frac, r1) = scan_fraction (drop (length digits) body);
               (expo, r2) = scan_exponent r1;
               token = sign @ digits @ frac @ expo
           in if frac \<noteq> [] \<or> expo \<noteq> [] then Inl (NonintegerToken token)
              else rbind (integer_hook token) (\<lambda>i. Inr (JInt i, r2)))"

definition scan_atom :: "pystr \<Rightarrow> v4_error + json \<times> pystr" where
  "scan_atom s =
     (if starts_with s (str ''null'') then Inr (JNull, drop 4 s)
      else if starts_with s (str ''true'') then Inr (JBool True, drop 4 s)
      else if starts_with s (str ''false'') then Inr (JBool False, drop 5 s)
      else if starts_with s (str ''NaN'') then Inl (NonintegerToken (str ''NaN''))
      else if starts_with s (str ''Infinity'') then Inl (NonintegerToken (str ''Infinity''))
      else if starts_with s (str ''-Infinity'') then Inl (NonintegerToken (str ''-Infinity''))
      else scan_number s)"

text \<open>The object hook.\<close>

fun pairs_hook :: "fields \<Rightarrow> fields \<Rightarrow> v4_error + fields" where
  "pairs_hook d [] = Inr d"
| "pairs_hook d ((k, v) # fs) =
     (if map_of d k \<noteq> None then Inl (DuplicateKey k) else pairs_hook (dset d k v) fs)"

text \<open>The scanner; its first argument bounds the calls, \<open>parse_json\<close> supplies enough.\<close>

fun scan_value :: "nat \<Rightarrow> nat \<Rightarrow> pystr \<Rightarrow> v4_error + json \<times> pystr"
  and scan_items :: "nat \<Rightarrow> nat \<Rightarrow> pystr \<Rightarrow> v4_error + json list \<times> pystr"
  and scan_members :: "nat \<Rightarrow> nat \<Rightarrow> pystr \<Rightarrow> v4_error + fields \<times> pystr" where
  "scan_value 0 cap s = Inl OutOfFuel"
| "scan_value (Suc n) cap s = (case s of
       [] \<Rightarrow> Inl InvalidJson
     | c # r \<Rightarrow>
         if c = 34 then rbind (scan_string r) (\<lambda>(t, r'). Inr (JStr t, r'))
         else if c = 91 then
           (if cap = 0 then Inl InvalidJson
            else if take 1 (skip_space r) = [93] then Inr (JArr [], drop 1 (skip_space r))
            else rbind (scan_items n (cap - 1) (skip_space r)) (\<lambda>(xs, r'). Inr (JArr xs, r')))
         else if c = 123 then
           (if cap = 0 then Inl InvalidJson
            else if take 1 (skip_space r) = [125] then Inr (JObj [], drop 1 (skip_space r))
            else rbind (scan_members n (cap - 1) (skip_space r)) (\<lambda>(fs, r').
                 rbind (pairs_hook [] fs) (\<lambda>d. Inr (JObj d, r'))))
         else scan_atom s)"
| "scan_items 0 cap s = Inl OutOfFuel"
| "scan_items (Suc n) cap s = rbind (scan_value n cap s) (\<lambda>(x, r). (case skip_space r of
       [] \<Rightarrow> Inl InvalidJson
     | c # r' \<Rightarrow>
         if c = 93 then Inr ([x], r')
         else if c = 44 then rbind (scan_items n cap (skip_space r')) (\<lambda>(xs, r''). Inr (x # xs, r''))
         else Inl InvalidJson))"
| "scan_members 0 cap s = Inl OutOfFuel"
| "scan_members (Suc n) cap s = (case s of
       [] \<Rightarrow> Inl InvalidJson
     | q # r \<Rightarrow>
         if q \<noteq> 34 then Inl InvalidJson
         else rbind (scan_string r) (\<lambda>(k, r1). (case skip_space r1 of
             [] \<Rightarrow> Inl InvalidJson
           | c # r2 \<Rightarrow>
               if c \<noteq> 58 then Inl InvalidJson
               else rbind (scan_value n cap (skip_space r2)) (\<lambda>(x, r3). (case skip_space r3 of
                   [] \<Rightarrow> Inl InvalidJson
                 | c' # r4 \<Rightarrow>
                     if c' = 125 then Inr ([(k, x)], r4)
                     else if c' = 44 then
                       rbind (scan_members n cap (skip_space r4)) (\<lambda>(fs, r5). Inr ((k, x) # fs, r5))
                     else Inl InvalidJson)))))"

definition parse_json :: "nat \<Rightarrow> nat \<Rightarrow> int list \<Rightarrow> v4_error + json" where
  "parse_json cap stack data = (case utf8_decode data of
       None \<Rightarrow> Inl InvalidJson
     | Some s \<Rightarrow>
         rbind (scan_value (2 * length s + 1) cap (skip_space s)) (\<lambda>(v, r).
         if skip_space r \<noteq> [] then Inl InvalidJson
         else if stack < nesting v then Inl NestingCapacity
         else rbind (grammar None v) (\<lambda>_. Inr v)))"

subsection \<open>The canonical bytes\<close>

definition hex_digit_of :: "int \<Rightarrow> codepoint" where
  "hex_digit_of d = (if d < 10 then 48 + d else 87 + d)"

definition escape_char :: "codepoint \<Rightarrow> pystr" where
  "escape_char c =
     (if c = 34 then [92, 34]
      else if c = 92 then [92, 92]
      else if c < 32 then [92, 117, 48, 48, hex_digit_of (c div 16), hex_digit_of (c mod 16)]
      else [c])"

definition quoted :: "pystr \<Rightarrow> pystr" where
  "quoted s = 34 # concat (map escape_char s) @ [34]"

function encode :: "json \<Rightarrow> v4_error + pystr" where
  "encode JNull = Inr (str ''null'')"
| "encode (JBool b) = Inr (if b then str ''true'' else str ''false'')"
| "encode (JInt i) = (if \<bar>i\<bar> > max_integer then Inl CanonicalRange else Inr (decimal i))"
| "encode (JReal r) = Inl UnsupportedCanonical"
| "encode (JStr s) = rbind (v4_scalar (JStr s)) (\<lambda>t. Inr (quoted t))"
| "encode (JArr xs) = rbind (traverse (\<lambda>x. encode x) xs) (\<lambda>ts. Inr (91 # join [44] ts @ [93]))"
| "encode (JObj fs) =
     rbind (each (\<lambda>(k, x). rbind (v4_scalar (JStr k)) (\<lambda>_. Inr ())) fs) (\<lambda>_.
     rbind (traverse (\<lambda>(k, x). rbind (v4_scalar (JStr k)) (\<lambda>t. rbind (encode x) (\<lambda>u.
                Inr (quoted t @ 58 # u)))) (sort_key (\<lambda>(k, x). utf8 k) fs)) (\<lambda>ts.
     Inr (123 # join [44] ts @ [125])))"
  by pat_completeness auto
termination
proof (relation "measure size", goal_cases)
  case (3 fs u kx k x t)
  then have "(k, x) \<in> set fs" by simp
  then have "size x < size_list (size_prod (\<lambda>_. 0) size) fs + 1"
    by (induction fs) auto
  then show ?case by simp
qed (auto simp: less_Suc_eq_le intro: size_list_estimation')

definition canonical :: "json \<Rightarrow> v4_error + int list" where
  "canonical v = rbind (grammar None v) (\<lambda>_. rbind (encode v) (\<lambda>t. Inr (utf8 t)))"

definition digest :: "(int list \<Rightarrow> pystr) \<Rightarrow> int list \<Rightarrow> pystr" where
  "digest sha data = str ''sha256:'' @ sha data"

definition domain_digest :: "(int list \<Rightarrow> pystr) \<Rightarrow> pystr \<Rightarrow> json \<Rightarrow> v4_error + pystr" where
  "domain_digest sha lab v =
     rbind (canonical v) (\<lambda>bs. Inr (digest sha (utf8 (str ''fv-evidence-v4/'' @ lab) @ [0] @ bs)))"

section \<open>Reading back what is written\<close>

definition scalar_char :: "codepoint \<Rightarrow> bool" where
  "scalar_char c \<longleftrightarrow> code_ok c \<and> \<not> surrogate c"

lemma utf8_decode_bytes:
  assumes "0 \<le> b" "b < 64" "0 \<le> c" "c < 64" "0 \<le> d" "d < 64"
  shows "2 \<le> a \<Longrightarrow> a < 32 \<Longrightarrow>
      utf8_decode ((192 + a) # (128 + b) # bs) = map_option ((#) (a * 64 + b)) (utf8_decode bs)"
    and "0 \<le> a \<Longrightarrow> a < 16 \<Longrightarrow> 2048 \<le> a * 4096 + b * 64 + c \<Longrightarrow> \<not> surrogate (a * 4096 + b * 64 + c) \<Longrightarrow>
      utf8_decode ((224 + a) # (128 + b) # (128 + c) # bs) =
        map_option ((#) (a * 4096 + b * 64 + c)) (utf8_decode bs)"
    and "0 \<le> a \<Longrightarrow> a < 5 \<Longrightarrow> 65536 \<le> a * 262144 + b * 4096 + c * 64 + d \<Longrightarrow>
      a * 262144 + b * 4096 + c * 64 + d < 1114112 \<Longrightarrow>
      utf8_decode ((240 + a) # (128 + b) # (128 + c) # (128 + d) # bs) =
        map_option ((#) (a * 262144 + b * 4096 + c * 64 + d)) (utf8_decode bs)"
  using assms by (simp_all add: continuation_def Let_def)

lemma recompose:
  fixes c :: int
  shows "q * 64 + m2 = p \<Longrightarrow> p * 64 + m1 = c \<Longrightarrow> q * 4096 + m2 * 64 + m1 = c"
    and "r * 64 + m3 = q \<Longrightarrow> q * 64 + m2 = p \<Longrightarrow> p * 64 + m1 = c \<Longrightarrow>
      r * 262144 + m3 * 4096 + m2 * 64 + m1 = c"
  by linarith+

lemma utf8_decode_code:
  assumes "scalar_char c"
  shows "utf8_decode (utf8_code c @ bs) = map_option ((#) c) (utf8_decode bs)"
proof -
  have c: "0 \<le> c" "c < 1114112" "\<not> surrogate c"
    using assms by (simp_all add: scalar_char_def code_ok_def)
  have m: "0 \<le> x mod 64" "x mod 64 < 64" for x :: int by simp_all
  have q: "c div 4096 = c div 64 div 64" "c div 262144 = c div 64 div 64 div 64"
    by (simp_all add: div_mult2_eq [symmetric])
  have e: "x div 64 * 64 + x mod 64 = x" for x :: int by simp
  note bytes = utf8_decode_bytes [OF m [of "c div 4096"] m [of "c div 64"] m [of c]]
    utf8_decode_bytes [OF m [of "c div 64"] m [of c] m [of c]]
    utf8_decode_bytes [OF m [of c] m [of c] m [of c]]
  consider "c < 128" | "128 \<le> c" "c < 2048" | "2048 \<le> c" "c < 65536" | "65536 \<le> c" by linarith
  then show ?thesis
  proof cases
    case 1
    then show ?thesis using c by (simp add: utf8_code_def)
  next
    case 2
    then have "2 \<le> c div 64" "c div 64 < 32" by simp_all
    from bytes(7) [OF this, of bs] show ?thesis using 2 e [of c] by (simp add: utf8_code_def)
  next
    case 3
    then have a: "0 \<le> c div 4096" "c div 4096 < 16" by simp_all
    have v: "c div 4096 * 4096 + c div 64 mod 64 * 64 + c mod 64 = c"
      unfolding q by (rule recompose(1) [OF e e])
    have "utf8_code c = [224 + c div 4096, 128 + c div 64 mod 64, 128 + c mod 64]"
      using 3 by (simp add: utf8_code_def)
    then show ?thesis using bytes(5) [OF a, of bs, unfolded v, OF 3(1) c(3)]
      by (simp only: append_Cons append_Nil)
  next
    case 4
    then have a: "0 \<le> c div 262144" "c div 262144 < 5" using c by simp_all
    have v: "c div 262144 * 262144 + c div 4096 mod 64 * 4096 + c div 64 mod 64 * 64 + c mod 64 = c"
      unfolding q by (rule recompose(2) [OF e e e])
    have "utf8_code c =
        [240 + c div 262144, 128 + c div 4096 mod 64, 128 + c div 64 mod 64, 128 + c mod 64]"
      using 4 by (simp add: utf8_code_def)
    then show ?thesis using bytes(3) [OF a, of bs, unfolded v, OF 4 c(2)]
      by (simp only: append_Cons append_Nil)
  qed
qed

lemma utf8_decode_utf8: "list_all scalar_char s \<Longrightarrow> utf8_decode (utf8 s) = Some s"
  by (induction s) (simp_all add: utf8_Cons utf8_decode_code)

subsection \<open>Numbers\<close>

lemma digits_of_spec:
  assumes "0 \<le> i" "nat i < k"
  shows "digits_of k i \<noteq> [] \<and> list_all ascii_digit (digits_of k i) \<and> digits_value (digits_of k i) = i \<and>
     (0 < i \<longrightarrow> hd (digits_of k i) \<noteq> 48)"
  using assms
proof (induction k i rule: digits_of.induct)
  case (2 k i)
  show ?case
  proof (cases "i < 10")
    case True
    then show ?thesis using 2 by (simp add: ascii_digit_def digits_value_def)
  next
    case False
    then have "0 \<le> i div 10" "nat (i div 10) < k" "0 < i div 10" using 2 by simp_all
    then have IH: "digits_of k (i div 10) \<noteq> []" "list_all ascii_digit (digits_of k (i div 10))"
        "digits_value (digits_of k (i div 10)) = i div 10" "hd (digits_of k (i div 10)) \<noteq> 48"
      using 2(1) [OF False] by simp_all
    have "0 \<le> i mod 10" "i mod 10 < 10" by simp_all
    then have "ascii_digit (48 + i mod 10)" unfolding ascii_digit_def by linarith
    with IH False show ?thesis by (simp add: digits_value_def)
  qed
qed simp

lemma digits_of_length:
  "0 \<le> i \<Longrightarrow> i < 10 ^ m \<Longrightarrow> 0 < m \<Longrightarrow> length (digits_of k i) \<le> m"
proof (induction k i arbitrary: m rule: digits_of.induct)
  case (2 k i)
  show ?case
  proof (cases "i < 10")
    case False
    then obtain n where m: "m = Suc n" and n: "0 < n"
      using "2.prems" by (cases m; cases "m - 1") auto
    then have "i div 10 < 10 ^ n" using "2.prems" by simp
    with 2(1) [OF False, of n] n m "2.prems" False show ?thesis by simp
  qed (use 2 in auto)
qed simp

lemma takeWhile_digits:
  "list_all ascii_digit ds \<Longrightarrow> r = [] \<or> \<not> ascii_digit (hd r) \<Longrightarrow>
   takeWhile ascii_digit (ds @ r) = ds \<and> dropWhile ascii_digit (ds @ r) = r"
  by (induction ds) (cases r; auto)+

text \<open>What follows a value in a canonical document.\<close>

definition stops :: "pystr \<Rightarrow> bool" where
  "stops r \<longleftrightarrow> r = [] \<or> hd r = 44 \<or> hd r = 93 \<or> hd r = 125"

lemma stops_simps [simp]: "stops []" "stops (44 # r)" "stops (93 # r)" "stops (125 # r)"
  by (simp_all add: stops_def)

lemma stops_not_digit: "stops r \<Longrightarrow> r = [] \<or> \<not> ascii_digit (hd r)"
  by (auto simp: stops_def ascii_digit_def)

lemma stops_integer: "stops r \<Longrightarrow> scan_fraction r = ([], r) \<and> scan_exponent r = ([], r)"
  by (cases r; cases "tl r") (auto simp: stops_def scan_fraction_def scan_exponent_def Let_def)

lemma decimal_digits:
  "\<exists>c ds. decimal i = (if i < 0 then 45 # c # ds else c # ds) \<and> ascii_digit c \<and> list_all ascii_digit ds \<and>
     digits_value (c # ds) = \<bar>i\<bar> \<and> (c = 48 \<longrightarrow> i = 0 \<and> ds = []) \<and>
     (\<bar>i\<bar> \<le> max_integer \<longrightarrow> length ds < 16)"
proof -
  define xs where "xs = digits_of (Suc (nat \<bar>i\<bar>)) \<bar>i\<bar>"
  have spec: "xs \<noteq> []" "list_all ascii_digit xs" "digits_value xs = \<bar>i\<bar>" "0 < \<bar>i\<bar> \<Longrightarrow> hd xs \<noteq> 48"
    using digits_of_spec [of "\<bar>i\<bar>" "Suc (nat \<bar>i\<bar>)"] by (simp_all add: xs_def)
  have len: "length xs \<le> 16" if "\<bar>i\<bar> \<le> max_integer"
    unfolding xs_def by (rule digits_of_length) (use that in \<open>simp_all add: max_integer_def\<close>)
  have "decimal i = (if i < 0 then 45 # xs else xs)" "i = 0 \<Longrightarrow> xs = [48]"
    by (simp_all add: decimal_def xs_def abs_if)
  with spec len show ?thesis by (cases xs) auto
qed

lemma integer_hook_digits:
  assumes "ascii_digit c" "list_all ascii_digit ds" "c = 48 \<longrightarrow> ds = []" "length ds < 16"
    "digits_value (c # ds) \<le> max_integer" "0 \<le> digits_value (c # ds)"
  shows "integer_hook (c # ds) = Inr (digits_value (c # ds))"
    and "0 < digits_value (c # ds) \<Longrightarrow> integer_hook (45 # c # ds) = Inr (- digits_value (c # ds))"
proof -
  have c: "c \<noteq> 45" using assms(1) by (auto simp: ascii_digit_def)
  have ok: "canonical_digits (c # ds)" using assms by (auto simp: canonical_digits_def)
  show "integer_hook (c # ds) = Inr (digits_value (c # ds))"
    using c ok assms(4-) by (simp add: integer_hook_def str_def)
  show "integer_hook (45 # c # ds) = Inr (- digits_value (c # ds))" if "0 < digits_value (c # ds)"
  proof -
    have "45 # c # ds \<noteq> str ''-0''" using that by (auto simp: str_def digits_value_def)
    with c ok assms(4-) show ?thesis by (simp add: integer_hook_def)
  qed
qed

lemma scan_number_digits:
  assumes "ascii_digit c" "list_all ascii_digit ds" "c = 48 \<longrightarrow> ds = []" "stops r"
    "sign = [] \<or> sign = [45]"
  shows "scan_number (sign @ c # ds @ r) = rbind (integer_hook (sign @ c # ds)) (\<lambda>i. Inr (JInt i, r))"
proof -
  have c: "c \<noteq> 45" using assms(1) by (auto simp: ascii_digit_def)
  have run: "takeWhile ascii_digit (ds @ r) = ds" "dropWhile ascii_digit (ds @ r) = r"
    using takeWhile_digits [OF assms(2) stops_not_digit [OF assms(4)]] by simp_all
  have digits: "(if take 1 (c # ds @ r) = [48] then [48] else takeWhile ascii_digit (c # ds @ r)) = c # ds"
    using run assms(1,3) by auto
  have sign: "(if take 1 (sign @ c # ds @ r) = [45] then [45] else []) = sign"
    using assms(5) c by auto
  have body: "drop (length sign) (sign @ c # ds @ r) = c # ds @ r" by simp
  show ?thesis
    unfolding scan_number_def sign body digits Let_def
    using stops_integer [OF assms(4)] by simp
qed

lemma starts_with_Cons: "starts_with (c # s) (d # p) \<longleftrightarrow> c = d \<and> starts_with s p"
  by (auto simp: starts_with_def)

lemma not_word:
  assumes "ascii_digit c \<or> c = 45 \<and> take 1 t \<noteq> [73]"
  shows "scan_atom (c # t) = scan_number (c # t)"
proof -
  have "\<not> starts_with t (73 # p)" if "c = 45" for p
    using assms that by (cases t) (simp_all add: ascii_digit_def starts_with_def)
  moreover have "c \<noteq> 110" "c \<noteq> 116" "c \<noteq> 102" "c \<noteq> 78" "c \<noteq> 73"
    using assms by (auto simp: ascii_digit_def)
  moreover have "str ''null'' = 110 # str ''ull''" "str ''true'' = 116 # str ''rue''"
      "str ''false'' = 102 # str ''alse''" "str ''NaN'' = 78 # str ''aN''"
      "str ''Infinity'' = 73 # str ''nfinity''" "str ''-Infinity'' = 45 # 73 # str ''nfinity''"
    by (simp_all add: str_def)
  ultimately show ?thesis by (auto simp: scan_atom_def starts_with_Cons)
qed

lemma scan_atom_decimal:
  assumes "\<bar>i\<bar> \<le> max_integer" "stops r"
  shows "scan_atom (decimal i @ r) = Inr (JInt i, r)"
proof -
  obtain c ds where d: "decimal i = (if i < 0 then 45 # c # ds else c # ds)" "ascii_digit c"
      "list_all ascii_digit ds" "digits_value (c # ds) = \<bar>i\<bar>" "c = 48 \<longrightarrow> ds = []" "length ds < 16"
    using decimal_digits [of i] assms(1) by blast
  note number = scan_number_digits [OF d(2,3,5) assms(2)]
  note hook = integer_hook_digits [OF d(2,3,5,6)]
  show ?thesis
  proof (cases "i < 0")
    case True
    have "scan_atom (45 # c # ds @ r) = scan_number (45 # c # ds @ r)"
      by (rule not_word) (use d(2) in \<open>auto simp: ascii_digit_def\<close>)
    then show ?thesis using True d(1,4) assms(1) number [of "[45]"] hook(2) by simp
  next
    case False
    have "scan_atom (c # ds @ r) = scan_number (c # ds @ r)"
      by (rule not_word) (use d(2) in simp)
    then show ?thesis using False d(1,4) assms(1) number [of "[]"] hook(1) by simp
  qed
qed

lemma decimal_first: "\<exists>c t. decimal i = c # t \<and> (ascii_digit c \<or> c = 45)"
  using decimal_digits [of i] by (auto split: if_splits)

subsection \<open>Strings\<close>

lemma hex_value_digit: "0 \<le> d \<Longrightarrow> d < 16 \<Longrightarrow> hex_value (hex_digit_of d) = Some d"
  by (auto simp: hex_value_def hex_digit_of_def)

lemma scan_escape_control:
  assumes "0 \<le> c" "c < 32"
  shows "scan_escape (117 # 48 # 48 # hex_digit_of (c div 16) # hex_digit_of (c mod 16) # r) = Inr (c, r)"
proof -
  have "0 \<le> c div 16" "c div 16 < 16" "0 \<le> c mod 16" "c mod 16 < 16" using assms by simp_all
  then have "hex4 (48 # 48 # hex_digit_of (c div 16) # hex_digit_of (c mod 16) # r) = Some (c, r)"
    using hex_value_digit [of "c div 16"] hex_value_digit [of "c mod 16"]
    by (simp add: hex_value_def [of 48])
  then show ?thesis using assms by (simp add: scan_escape_def)
qed

lemma scan_string_escaped:
  "list_all scalar_char s \<Longrightarrow> scan_string (concat (map escape_char s) @ 34 # r) = Inr (s, r)"
proof (induction s)
  case (Cons c s)
  then have IH: "scan_string (concat (map escape_char s) @ 34 # r) = Inr (s, r)"
    and c: "0 \<le> c" by (simp_all add: scalar_char_def code_ok_def)
  consider "c = 34" | "c = 92" | "c < 32" | "c \<noteq> 34" "c \<noteq> 92" "32 \<le> c" by linarith
  then show ?case
  proof cases
    case 3
    note control = scan_escape_control [OF c 3, of "concat (map escape_char s) @ 34 # r"]
    have "escape_char c = [92, 117, 48, 48, hex_digit_of (c div 16), hex_digit_of (c mod 16)]"
      using 3 by (simp add: escape_char_def)
    with control IH show ?thesis by simp
  qed (use IH in \<open>simp_all add: escape_char_def [of 34] escape_char_def [of 92] escape_char_def [of c] scan_escape_def plain_escapes_def\<close>)
qed simp

subsection \<open>Values\<close>

text \<open>The values the canonical bytes spell out, and their spelling without the sort.\<close>

fun wire :: "json \<Rightarrow> bool" where
  "wire (JInt i) \<longleftrightarrow> \<bar>i\<bar> \<le> max_integer"
| "wire (JReal r) \<longleftrightarrow> False"
| "wire (JStr s) \<longleftrightarrow> list_all scalar_char s"
| "wire (JArr xs) \<longleftrightarrow> list_all wire xs"
| "wire (JObj fs) \<longleftrightarrow> distinct (map fst fs) \<and> list_all (\<lambda>(k, x). list_all scalar_char k \<and> wire x) fs"
| "wire _ \<longleftrightarrow> True"

fun render :: "json \<Rightarrow> pystr" where
  "render JNull = str ''null''"
| "render (JBool b) = (if b then str ''true'' else str ''false'')"
| "render (JInt i) = decimal i"
| "render (JReal r) = []"
| "render (JStr s) = quoted s"
| "render (JArr xs) = 91 # join [44] (map render xs) @ [93]"
| "render (JObj fs) = 123 # join [44] (map (\<lambda>(k, x). quoted k @ 58 # render x) fs) @ [125]"

lemma render_first:
  assumes "wire w"
  shows "\<exists>c t. render w = c # t \<and> \<not> json_space c \<and> c \<noteq> 93 \<and> c \<noteq> 125"
proof (cases w)
  case (JInt i)
  obtain c t where "decimal i = c # t" "ascii_digit c \<or> c = 45" using decimal_first by blast
  then show ?thesis using JInt by (auto simp: json_space_def ascii_digit_def)
qed (use assms in \<open>auto simp: json_space_def str_def quoted_def\<close>)

lemma skip_render: "wire w \<Longrightarrow> skip_space (render w @ r) = render w @ r"
  using render_first [of w] by (auto simp: skip_space_def)

lemma stops_skip: "stops r \<Longrightarrow> skip_space r = r"
  by (cases r) (auto simp: stops_def skip_space_def json_space_def)

lemma pairs_hook_distinct:
  "distinct (map fst (d @ fs)) \<Longrightarrow> pairs_hook d fs = Inr (d @ fs)"
proof (induction fs arbitrary: d)
  case (Cons kx fs)
  obtain k x where kx: "kx = (k, x)" by force
  have "k \<notin> fst ` set d" using Cons.prems kx by auto
  then have "map_of d k = None" "dset d k x = d @ [(k, x)]"
    by (simp add: map_of_eq_None_iff, induction d k x rule: dset.induct) auto
  then show ?case using Cons.IH [of "d @ [(k, x)]"] Cons.prems kx by simp
qed simp

text \<open>The loops over array elements and object members, given what the scanner does on each.\<close>

lemma max_nesting:
  "x \<in> set xs \<Longrightarrow> nesting x \<le> foldr max (map nesting xs) 0"
  by (induction xs) auto

lemma max_nesting_fields:
  "(k, x) \<in> set fs \<Longrightarrow> nesting x \<le> foldr max (map (\<lambda>(k, x). nesting x) fs) 0"
  by (induction fs) auto

lemma scan_items_render:
  assumes "\<And>x m r. x \<in> set xs \<Longrightarrow> stops r \<Longrightarrow> 2 * length (render x @ r) + 1 \<le> m \<Longrightarrow>
      scan_value m cap (render x @ r) = Inr (x, r)"
    and "list_all wire xs" "xs \<noteq> []"
    and "2 * length (join [44] (map render xs) @ 93 # r) + 2 \<le> n"
  shows "scan_items n cap (join [44] (map render xs) @ 93 # r) = Inr (xs, r)"
  using assms
proof (induction xs arbitrary: n)
  case (Cons x xs)
  obtain m where n: "n = Suc m" using Cons.prems(4) by (cases n) auto
  show ?case
  proof (cases "xs = []")
    case True
    have "scan_value m cap (render x @ 93 # r) = Inr (x, 93 # r)"
      by (rule Cons.prems(1)) (use Cons.prems(4) True n in auto)
    with True n show ?thesis by (simp add: stops_skip)
  next
    case False
    then obtain y ys where xs: "xs = y # ys" by (cases xs) auto
    let ?rest = "join [44] (map render xs) @ 93 # r"
    have spelt: "join [44] (map render (x # xs)) @ 93 # r = render x @ 44 # ?rest"
      using False by (simp add: join_Cons)
    have len: "2 * length (render x @ 44 # ?rest) + 2 \<le> Suc m"
      using Cons.prems(4) unfolding spelt n .
    have first: "scan_value m cap (render x @ 44 # ?rest) = Inr (x, 44 # ?rest)"
      by (rule Cons.prems(1)) (use len in auto)
    have rest: "scan_items m cap ?rest = Inr (xs, r)"
      by (rule Cons.IH) (use Cons.prems(1,2) False len in auto)
    have "wire y" using Cons.prems(2) xs by simp
    then obtain c t where "render y = c # t" "\<not> json_space c" using render_first by blast
    then have "skip_space ?rest = ?rest" using xs by (cases ys) (simp_all add: skip_space_def)
    with first rest show ?thesis unfolding spelt n by (simp add: stops_skip)
  qed
qed simp

abbreviation member_text :: "pystr \<times> json \<Rightarrow> pystr" where
  "member_text \<equiv> \<lambda>(k, x). quoted k @ 58 # render x"

lemma scan_members_render:
  assumes "\<And>k x m r. (k, x) \<in> set fs \<Longrightarrow> stops r \<Longrightarrow> 2 * length (render x @ r) + 1 \<le> m \<Longrightarrow>
      scan_value m cap (render x @ r) = Inr (x, r)"
    and "list_all (\<lambda>(k, x). list_all scalar_char k \<and> wire x) fs" "fs \<noteq> []"
    and "2 * length (join [44] (map member_text fs) @ 125 # r) + 2 \<le> n"
  shows "scan_members n cap (join [44] (map member_text fs) @ 125 # r) = Inr (fs, r)"
  using assms
proof (induction fs arbitrary: n)
  case (Cons kx fs)
  obtain k x where kx: "kx = (k, x)" by force
  obtain m where n: "n = Suc m" using Cons.prems(4) by (cases n) auto
  have k: "list_all scalar_char k" and x: "wire x" using Cons.prems(2) kx by simp_all
  have key: "scan_string (concat (map escape_char k) @ 34 # s) = Inr (k, s)" for s
    by (rule scan_string_escaped [OF k])
  have colon: "skip_space (58 # s) = 58 # s" for s by (simp add: skip_space_def json_space_def)
  show ?case
  proof (cases "fs = []")
    case True
    have "scan_value m cap (render x @ 125 # r) = Inr (x, 125 # r)"
      by (rule Cons.prems(1)) (use Cons.prems(4) True n kx in \<open>auto simp: quoted_def\<close>)
    with True n kx show ?thesis
      by (simp add: quoted_def key colon skip_render [OF x] stops_skip)
  next
    case False
    then obtain j y ys where fs: "fs = (j, y) # ys" by (cases fs) auto
    let ?rest = "join [44] (map member_text fs) @ 125 # r"
    have spelt: "join [44] (map member_text (kx # fs)) @ 125 # r = quoted k @ 58 # render x @ 44 # ?rest"
      using False kx by (simp add: join_Cons)
    have len: "2 * length (quoted k @ 58 # render x @ 44 # ?rest) + 2 \<le> Suc m"
      using Cons.prems(4) unfolding spelt n .
    have first: "scan_value m cap (render x @ 44 # ?rest) = Inr (x, 44 # ?rest)"
      by (rule Cons.prems(1)) (use len kx in auto)
    have rest: "scan_members m cap ?rest = Inr (fs, r)"
      by (rule Cons.IH) (use Cons.prems(1,2) False len in auto)
    have "skip_space ?rest = ?rest"
      using fs by (cases ys) (simp_all add: skip_space_def quoted_def json_space_def)
    with first rest show ?thesis unfolding spelt n
      by (simp add: quoted_def key colon skip_render [OF x] stops_skip kx)
  qed
qed simp

lemma scan_value_render:
  assumes "wire w" "stops r" "nesting w \<le> cap" "2 * length (render w @ r) + 1 \<le> n"
  shows "scan_value n cap (render w @ r) = Inr (w, r)"
  using assms
proof (induction w arbitrary: n cap r)
  case (JStr s)
  then obtain m where "n = Suc m" by (cases n) auto
  with JStr show ?case by (simp add: quoted_def scan_string_escaped)
next
  case (JInt i)
  obtain c t where d: "decimal i = c # t" "ascii_digit c \<or> c = 45" using decimal_first by blast
  obtain m where "n = Suc m" using JInt by (cases n) auto
  moreover have "c \<noteq> 34" "c \<noteq> 91" "c \<noteq> 123" using d(2) by (auto simp: ascii_digit_def)
  ultimately show ?case using scan_atom_decimal [of i r] JInt d(1) by simp
next
  case (JArr xs)
  obtain m where n: "n = Suc m" using JArr by (cases n) auto
  obtain c where cap: "cap = Suc c" using JArr by (cases cap) auto
  show ?case
  proof (cases xs)
    case Nil
    then show ?thesis using n cap by (simp add: skip_space_def json_space_def)
  next
    case (Cons y ys)
    let ?body = "join [44] (map render xs) @ 93 # r"
    have "wire y" using JArr.prems Cons by simp
    then obtain d t where y: "render y = d # t" "\<not> json_space d" "d \<noteq> 93"
      using render_first by blast
    then have open_: "skip_space ?body = ?body" "take 1 ?body \<noteq> [93]"
      using Cons by (cases ys; simp add: skip_space_def)+
    have "scan_items m c ?body = Inr (xs, r)"
    proof (rule scan_items_render)
      fix x m r
      assume "x \<in> set xs" "stops r" "2 * length (render x @ r) + 1 \<le> m"
      then show "scan_value m c (render x @ r) = Inr (x, r)"
        using JArr cap max_nesting [of x xs] by (force simp: list_all_iff)
    qed (use JArr Cons n in auto)
    with n cap open_ show ?thesis by simp
  qed
next
  case (JObj fs)
  obtain m where n: "n = Suc m" using JObj by (cases n) auto
  obtain c where cap: "cap = Suc c" using JObj by (cases cap) auto
  show ?case
  proof (cases fs)
    case Nil
    then show ?thesis using n cap by (simp add: skip_space_def json_space_def)
  next
    case (Cons ky ys)
    obtain k y where ky: "ky = (k, y)" by force
    let ?body = "join [44] (map member_text fs) @ 125 # r"
    have open_: "skip_space ?body = ?body" "take 1 ?body \<noteq> [125]"
      using Cons ky by (cases ys; simp add: skip_space_def quoted_def json_space_def)+
    have "scan_members m c ?body = Inr (fs, r)"
    proof (rule scan_members_render)
      fix k x m r
      assume "(k, x) \<in> set fs" "stops r" "2 * length (render x @ r) + 1 \<le> m"
      then show "scan_value m c (render x @ r) = Inr (x, r)"
        using JObj cap max_nesting_fields [of k x fs] by (force simp: list_all_iff)
    qed (use JObj Cons n in auto)
    moreover have "pairs_hook [] fs = Inr fs"
      using pairs_hook_distinct [of "[]" fs] JObj.prems(1) by simp
    ultimately show ?thesis using n cap open_ by simp
  qed
qed (simp_all, (case_tac n; simp add: scan_atom_def starts_with_def str_def)+)

subsection \<open>The canonical text is the text of the sorted value\<close>

declare scan_value.simps [simp del] scan_items.simps [simp del] scan_members.simps [simp del]

text \<open>A value with the members of every object in the byte order of their names.\<close>

fun normal :: "json \<Rightarrow> json" where
  "normal (JArr xs) = JArr (map normal xs)"
| "normal (JObj fs) = JObj (sort_key (\<lambda>(k, x). utf8 k) (map (\<lambda>(k, x). (k, normal x)) fs))"
| "normal v = v"

text \<open>What Python guarantees of a value: code points, and no key of a dictionary twice.\<close>

fun py_value :: "json \<Rightarrow> bool" where
  "py_value (JStr s) \<longleftrightarrow> list_all code_ok s"
| "py_value (JArr xs) \<longleftrightarrow> list_all py_value xs"
| "py_value (JObj fs) \<longleftrightarrow>
     distinct (map fst fs) \<and> list_all (\<lambda>(k, x). list_all code_ok k \<and> py_value x) fs"
| "py_value _ \<longleftrightarrow> True"

lemma scalar_Inr [simp]:
  "v4_scalar v = Inr s \<longleftrightarrow> v = JStr s \<and> \<not> list_ex surrogate s"
  by (cases v) auto

lemma scalar_chars: "list_all code_ok s \<Longrightarrow> \<not> list_ex surrogate s \<Longrightarrow> list_all scalar_char s"
  by (induction s) (auto simp: scalar_char_def)

lemma scalar_char_imp: "list_all scalar_char s \<Longrightarrow> list_all code_ok s \<and> \<not> list_ex surrogate s"
  by (induction s) (auto simp: scalar_char_def)

lemma grammar_wire: "grammar f v = Inr () \<Longrightarrow> py_value v \<Longrightarrow> wire v"
proof (induction v arbitrary: f)
  case (JInt i)
  then show ?case by (simp split: if_splits)
next
  case (JStr s)
  then show ?case by (simp add: scalar_chars split: if_splits)
next
  case (JArr xs)
  then show ?case by (fastforce simp: each_Inr_iff list_all_iff)
next
  case (JObj fs)
  have "wire x \<and> list_all scalar_char k" if "(k, x) \<in> set fs" for k x
  proof -
    have "rbind (v4_scalar (JStr k)) (\<lambda>_. grammar (Some k) x) = Inr ()"
      using JObj.prems(1) that by (auto simp only: grammar.simps each_Inr_iff)
    then have "grammar (Some k) x = Inr ()" "\<not> list_ex surrogate k" by (simp_all only: rbind_Inr_iff scalar_Inr) blast+
    moreover have "list_all code_ok k" "py_value x" using JObj.prems(2) that by (auto simp: list_all_iff)
    ultimately show ?thesis using JObj.IH [OF that, of x] scalar_chars by simp
  qed
  with JObj.prems show ?case by (auto simp: list_all_iff)
qed auto

lemma insort_key_map:
  "insort_key f (g x) (map g xs) = map g (insort_key (f \<circ> g) x xs)"
  by (induction xs) auto

lemma sort_key_map: "sort_key f (map g xs) = map g (sort_key (f \<circ> g) xs)"
  by (induction xs) (simp_all add: insort_key_map comp_def)

lemma normal_fields:
  "normal (JObj fs) = JObj (map (\<lambda>(k, x). (k, normal x)) (sort_key (\<lambda>(k, x). utf8 k) fs))"
  by (simp add: sort_key_map comp_def case_prod_unfold)

lemma distinct_keys_sort: "distinct (map fst (sort_key f fs)) \<longleftrightarrow> distinct (map fst fs)"
  by (simp add: distinct_map)

lemma wire_normal: "wire v \<Longrightarrow> wire (normal v)"
proof (induction v)
  case (JArr xs)
  then show ?case by (simp add: list_all_iff)
next
  case (JObj fs)
  have "map fst (map (\<lambda>(k, x). (k, normal x)) gs) = map fst gs" for gs :: fields
    by (induction gs) auto
  then have "distinct (map fst (map (\<lambda>(k, x). (k, normal x)) (sort_key (\<lambda>(k, x). utf8 k) fs)))"
    using JObj.prems by (simp only: distinct_keys_sort wire.simps)
  moreover have "\<forall>(k, x) \<in> set fs. list_all scalar_char k \<and> wire (normal x)"
    using JObj by (fastforce simp: list_all_iff)
  ultimately show ?case unfolding normal_fields by (auto simp: list_all_iff)
qed auto

lemma normal_normal: "normal (normal v) = normal v"
proof (induction v)
  case (JObj fs)
  let ?key = "(\<lambda>(k, x). utf8 k) :: pystr \<times> json \<Rightarrow> int list"
    and ?n = "(\<lambda>(k, x). (k, normal x)) :: pystr \<times> json \<Rightarrow> pystr \<times> json"
  have "map ?key (map ?n hs) = map ?key hs" for hs by (induction hs) auto
  then have "sorted (map ?key (map ?n (sort_key ?key fs)))" by (simp only: sorted_sort_key)
  then have "sort_key ?key (map ?n (sort_key ?key fs)) = map ?n (sort_key ?key fs)"
    by (rule sort_key_id_if_sorted)
  moreover have "map (?n \<circ> ?n) (sort_key ?key fs) = map ?n (sort_key ?key fs)"
    using JObj by (intro map_cong refl) fastforce
  ultimately show ?case unfolding normal_fields by (simp only: map_map)
qed simp_all

lemma foldr_max_set: "foldr max xs (0::nat) = Max (insert 0 (set xs))"
proof (induction xs)
  case (Cons x xs)
  have "Max (insert 0 (insert x (set xs))) = max x (Max (insert 0 (set xs)))"
    by (subst insert_commute, subst Max_insert) auto
  with Cons show ?case by simp
qed simp

lemma nesting_normal: "nesting (normal v) = nesting v"
proof (induction v)
  case (JArr xs)
  have "map (nesting \<circ> normal) xs = map nesting xs" using JArr by simp
  then show ?case by (simp only: normal.simps nesting.simps map_map)
next
  case (JObj fs)
  have "nesting ` normal ` snd ` set fs = nesting ` snd ` set fs"
    using JObj by (force simp: image_image intro!: image_cong)
  then show ?case unfolding normal_fields
    by (simp add: foldr_max_set image_image case_prod_unfold)
qed auto

lemma traverse_pure: "(\<And>x. x \<in> set xs \<Longrightarrow> f x = Inr (g x)) \<Longrightarrow> traverse f xs = Inr (map g xs)"
  by (induction xs) auto

lemma encode_render: "wire v \<Longrightarrow> encode v = Inr (render (normal v))"
proof (induction v)
  case (JStr s)
  then show ?case by (simp add: scalar_char_imp)
next
  case (JArr xs)
  then have "traverse (\<lambda>x. encode x) xs = Inr (map (\<lambda>x. render (normal x)) xs)"
    by (intro traverse_pure) (simp add: list_all_iff)
  then show ?case by (simp add: comp_def)
next
  case (JObj fs)
  let ?sorted = "sort_key (\<lambda>(k, x). utf8 k) fs"
  have keys: "each (\<lambda>(k, x). rbind (v4_scalar (JStr k)) (\<lambda>_. Inr ())) fs = Inr ()"
    using JObj.prems scalar_char_imp by (fastforce simp: each_Inr_iff list_all_iff)
  have "traverse (\<lambda>(k, x). rbind (v4_scalar (JStr k)) (\<lambda>t. rbind (encode x) (\<lambda>u.
          Inr (quoted t @ 58 # u)))) ?sorted = Inr (map (\<lambda>(k, x). quoted k @ 58 # render (normal x)) ?sorted)"
  proof (rule traverse_pure)
    fix kx
    assume "kx \<in> set ?sorted"
    then obtain k x where kx: "kx = (k, x)" "(k, x) \<in> set fs" by (metis set_sort surj_pair)
    then have "encode x = Inr (render (normal x))" "\<not> list_ex surrogate k"
      using JObj scalar_char_imp by (fastforce simp: list_all_iff)+
    with kx show "(case kx of (k, x) \<Rightarrow> rbind (v4_scalar (JStr k)) (\<lambda>t. rbind (encode x) (\<lambda>u.
        Inr (quoted t @ 58 # u)))) = Inr (case kx of (k, x) \<Rightarrow> quoted k @ 58 # render (normal x))"
      by simp
  qed
  with keys show ?case unfolding normal_fields by (simp add: comp_def case_prod_unfold)
qed (auto simp: max_integer_def)

lemma ascii_scalar: "0 \<le> c \<Longrightarrow> c < 128 \<Longrightarrow> scalar_char c"
  by (simp add: scalar_char_def code_ok_def surrogate_def)

lemma escape_scalar: "scalar_char c \<Longrightarrow> list_all scalar_char (escape_char c)"
  by (auto simp: escape_char_def ascii_scalar hex_digit_of_def scalar_char_def code_ok_def surrogate_def)

lemma quoted_scalar: "list_all scalar_char s \<Longrightarrow> list_all scalar_char (quoted s)"
  by (induction s) (simp_all add: quoted_def ascii_scalar escape_scalar)

lemma join_scalar:
  "\<forall>t \<in> set ts. list_all scalar_char t \<Longrightarrow> list_all scalar_char (join [44] ts)"
  by (induction "[44::int]" ts rule: join.induct) (simp_all add: ascii_scalar)

lemma render_scalar: "wire w \<Longrightarrow> list_all scalar_char (render w)"
proof (induction w)
  case (JInt i)
  obtain c ds where "decimal i = (if i < 0 then 45 # c # ds else c # ds)" "ascii_digit c"
      "list_all ascii_digit ds" using decimal_digits [of i] by blast
  moreover have "ascii_digit d \<Longrightarrow> scalar_char d" for d
    by (simp add: ascii_digit_def scalar_char_def code_ok_def surrogate_def)
  ultimately show ?case
    by (auto simp: list_all_iff scalar_char_def code_ok_def surrogate_def)
next
  case (JStr s)
  then show ?case by (simp add: quoted_scalar)
next
  case (JArr xs)
  then have "\<forall>t \<in> set (map render xs). list_all scalar_char t" by (auto simp: list_all_iff)
  then show ?case by (simp add: join_scalar ascii_scalar)
next
  case (JObj fs)
  then have "\<forall>t \<in> set (map member_text fs). list_all scalar_char t"
    by (fastforce simp: list_all_iff quoted_scalar [unfolded list_all_iff] ascii_scalar)
  then show ?case by (simp add: join_scalar ascii_scalar)
qed (simp_all add: str_def ascii_scalar)

lemma canonical_render:
  assumes "py_value v" "grammar None v = Inr ()"
  shows "canonical v = Inr (utf8 (render (normal v)))"
  using assms encode_render [OF grammar_wire [OF assms(2,1)]] by (simp add: canonical_def)

lemma canonical_Inr:
  assumes "py_value v"
  shows "canonical v = Inr bs \<longleftrightarrow> grammar None v = Inr () \<and> bs = utf8 (render (normal v))"
  using canonical_render [OF assms] by (auto simp: canonical_def)

lemma parse_render:
  assumes "wire w" "nesting w \<le> cap" "nesting w \<le> stack" "grammar None w = Inr ()"
  shows "parse_json cap stack (utf8 (render w)) = Inr w"
proof -
  have "scan_value (2 * length (render w) + 1) cap (render w) = Inr (w, [])"
    using scan_value_render [OF assms(1) _ assms(2), of "[]" "2 * length (render w) + 1"] by simp
  moreover have "skip_space (render w) = render w" using skip_render [OF assms(1), of "[]"] by simp
  ultimately show ?thesis
    using assms(3,4) utf8_decode_utf8 [OF render_scalar [OF assms(1)]]
    by (simp add: parse_json_def skip_space_def)
qed

lemma grammar_normal: "grammar f v = Inr () \<Longrightarrow> grammar f (normal v) = Inr ()"
proof (induction v arbitrary: f)
  case (JArr xs)
  then show ?case by (simp add: each_Inr_iff)
next
  case (JObj fs)
  then show ?case unfolding normal_fields by (fastforce simp: each_Inr_iff)
qed auto

subsection \<open>The same value\<close>

text \<open>JSON equality: an object is the map from its keys to its members.\<close>

inductive same :: "json \<Rightarrow> json \<Rightarrow> bool" where
  same_null: "same JNull JNull"
| same_bool: "same (JBool b) (JBool b)"
| same_int: "same (JInt i) (JInt i)"
| same_real: "same (JReal r) (JReal r)"
| same_str: "same (JStr s) (JStr s)"
| same_arr: "list_all2 same xs ys \<Longrightarrow> same (JArr xs) (JArr ys)"
| same_obj: "(\<And>k. rel_option same (map_of fs k) (map_of gs k)) \<Longrightarrow> same (JObj fs) (JObj gs)"

lemma insort_key_set: "set (insort_key f x xs) = insert x (set xs)"
  by (induction xs) auto

lemma strict_sorted_equal:
  fixes f :: "'a \<Rightarrow> 'b::linorder"
  assumes "sorted_wrt (\<lambda>x y. f x < f y) xs" "sorted_wrt (\<lambda>x y. f x < f y) ys" "set xs = set ys"
  shows "xs = ys"
  using assms
proof (induction xs arbitrary: ys)
  case (Cons x xs)
  then obtain y zs where ys: "ys = y # zs" by (cases ys) auto
  have "x = y"
  proof (rule ccontr)
    assume "x \<noteq> y"
    then have "x \<in> set zs" "y \<in> set xs" using Cons.prems ys by auto
    then have "f y < f x" "f x < f y" using Cons.prems ys by auto
    then show False by simp
  qed
  moreover have "set xs = set zs"
    using Cons.prems ys \<open>x = y\<close> by auto
  ultimately show ?case using Cons ys by simp
qed simp

lemma sorted_key_strict:
  fixes fs :: fields
  assumes "distinct (map fst fs)" "\<forall>k \<in> fst ` set fs. list_all code_ok k"
  shows "sorted_wrt (\<lambda>(j, x) (k, y). utf8 j < utf8 k) (sort_key (\<lambda>(k, x). utf8 k) fs)"
proof -
  let ?s = "sort_key (\<lambda>(k, x). utf8 k) fs"
  have "inj_on (\<lambda>kx. utf8 (fst kx)) (set ?s)"
  proof (rule inj_onI)
    fix a b
    assume "a \<in> set ?s" "b \<in> set ?s" "utf8 (fst a) = utf8 (fst b)"
    then have "a \<in> set fs" "b \<in> set fs" "fst a = fst b"
      using assms(2) utf8_inj [of "fst a" "fst b"] by auto
    then show "a = b" using assms(1) by (auto simp: distinct_map inj_on_def)
  qed
  then have "distinct (map (\<lambda>kx. utf8 (fst kx)) ?s)"
    using assms(1) by (simp add: distinct_map)
  moreover have "sorted (map (\<lambda>kx. utf8 (fst kx)) ?s)"
    using sorted_sort_key [of "\<lambda>kx. utf8 (fst kx)" fs] by (simp add: case_prod_unfold)
  ultimately have "sorted_wrt (<) (map (\<lambda>kx. utf8 (fst kx)) ?s)"
    by (intro strict_sorted_iff [THEN iffD2] conjI)
  then show ?thesis by (simp add: sorted_wrt_map case_prod_unfold)
qed

lemma py_value_obj:
  assumes "py_value (JObj fs)"
  shows "distinct (map fst fs)" "\<forall>k \<in> fst ` set fs. list_all code_ok k"
    "(k, x) \<in> set fs \<Longrightarrow> py_value x"
  using assms by (auto simp: list_all_iff)

lemma same_normal: "same v w \<Longrightarrow> py_value v \<Longrightarrow> py_value w \<Longrightarrow> normal v = normal w"
proof (induction rule: same.induct)
  case (same_arr xs ys)
  have "map normal xs = map normal ys"
    using same_arr by (induction xs ys rule: list_all2_induct) auto
  then show ?case by simp
next
  case (same_obj fs gs)
  let ?n = "(\<lambda>(k, x). (k, normal x)) :: pystr \<times> json \<Rightarrow> pystr \<times> json"
    and ?key = "(\<lambda>(k, x). utf8 k) :: pystr \<times> json \<Rightarrow> int list"
  have half: "?n ` set fs \<subseteq> ?n ` set gs"
    if rel: "\<And>k. rel_option (\<lambda>x y. py_value x \<longrightarrow> py_value y \<longrightarrow> normal x = normal y) (map_of fs k) (map_of gs k)"
      and fs: "py_value (JObj fs)" and gs: "py_value (JObj gs)" for fs gs :: fields
  proof
    fix z
    assume "z \<in> ?n ` set fs"
    then obtain k x where kx: "(k, x) \<in> set fs" "z = (k, normal x)" by auto
    then have "map_of fs k = Some x" using py_value_obj(1) [OF fs] by simp
    then obtain y where y: "map_of gs k = Some y" "py_value x \<longrightarrow> py_value y \<longrightarrow> normal x = normal y"
      using rel [of k] by (cases "map_of gs k") auto
    then have "(k, y) \<in> set gs" by (simp add: map_of_SomeD)
    then have "normal x = normal y"
      using y(2) kx(1) py_value_obj(3) [OF fs] py_value_obj(3) [OF gs] by blast
    with kx(2) \<open>(k, y) \<in> set gs\<close> show "z \<in> ?n ` set gs" by force
  qed
  have fwd: "rel_option (\<lambda>x y. py_value x \<longrightarrow> py_value y \<longrightarrow> normal x = normal y) (map_of fs k) (map_of gs k)" for k
    using same_obj(1) [of k] by (cases "map_of fs k"; cases "map_of gs k") auto
  have bwd: "rel_option (\<lambda>x y. py_value x \<longrightarrow> py_value y \<longrightarrow> normal x = normal y) (map_of gs k) (map_of fs k)" for k
    using fwd [of k] by (cases "map_of fs k"; cases "map_of gs k") auto
  have sets: "?n ` set fs = ?n ` set gs"
    using half [OF fwd same_obj.prems] half [OF bwd same_obj.prems(2,1)] by (rule equalityI)
  have strict: "sorted_wrt (\<lambda>x y. utf8 (fst x) < utf8 (fst y)) (map ?n (sort_key ?key hs))"
    if "py_value (JObj hs)" for hs
    using sorted_key_strict [OF py_value_obj(1,2) [OF that]]
    by (simp add: sorted_wrt_map case_prod_unfold)
  have "map ?n (sort_key ?key fs) = map ?n (sort_key ?key gs)"
    by (rule strict_sorted_equal [of "utf8 \<circ> fst"])
      (use strict [OF same_obj.prems(1)] strict [OF same_obj.prems(2)] sets in \<open>simp_all add: comp_def\<close>)
  then show ?case by (simp only: normal_fields)
qed auto

lemma normal_same: "normal v = normal w \<Longrightarrow> py_value v \<Longrightarrow> py_value w \<Longrightarrow> same v w"
proof (induction v arbitrary: w)
  case (JArr xs)
  obtain ys where w: "w = JArr ys" "map normal xs = map normal ys" using JArr.prems(1) by (cases w) auto
  have "list_all2 same xs ys"
  proof (rule list_all2_all_nthI)
    show "length xs = length ys" using w(2) by (rule map_eq_imp_length_eq)
    fix i
    assume i: "i < length xs"
    then have "normal (xs ! i) = normal (ys ! i)" "i < length ys"
      using w(2) \<open>length xs = length ys\<close> by (metis nth_map)+
    then show "same (xs ! i) (ys ! i)"
      using JArr i w(1) by (simp add: list_all_length)
  qed
  with w show ?case by (simp add: same_arr)
next
  case (JObj fs)
  let ?n = "(\<lambda>(k, x). (k, normal x)) :: pystr \<times> json \<Rightarrow> pystr \<times> json"
    and ?key = "(\<lambda>(k, x). utf8 k) :: pystr \<times> json \<Rightarrow> int list"
  obtain gs where w: "w = JObj gs" using JObj.prems(1) by (cases w) auto
  have eq: "map ?n (sort_key ?key fs) = map ?n (sort_key ?key gs)"
    using JObj.prems(1) unfolding w normal_fields by simp
  have read: "map_of (map ?n (sort_key ?key hs)) k = map_option normal (map_of hs k)"
    if "distinct (map fst hs)" for hs :: fields and k
  proof -
    have "map_of (sort_key ?key hs) = map_of hs"
      by (rule map_of_inject_set [THEN iffD2]) (use that in \<open>simp_all add: distinct_keys_sort\<close>)
    then show ?thesis by (simp add: map_of_map)
  qed
  have "rel_option same (map_of fs k) (map_of gs k)" for k
  proof -
    have opts: "map_option normal (map_of fs k) = map_option normal (map_of gs k)"
      using read [of fs k] read [of gs k] eq py_value_obj(1) JObj.prems w by metis
    show ?thesis
    proof (cases "map_of fs k")
      case None
      with opts show ?thesis by simp
    next
      case (Some x)
      then obtain y where y: "map_of gs k = Some y" "normal x = normal y"
        using opts by (metis map_option_eq_Some option.simps(9))
      have "(k, x) \<in> set fs" "(k, y) \<in> set gs" using Some y(1) by (simp_all add: map_of_SomeD)
      then have "same x y"
        using JObj.IH [of "(k, x)" x y] y(2) py_value_obj(3) JObj.prems(2,3) w by simp
      with Some y(1) show ?thesis by simp
    qed
  qed
  then show ?case unfolding w by (rule same_obj)
next
  case (JStr s)
  from JStr.prems(1) show ?case by (cases w) (auto intro: same.intros)
next
  case (JInt i)
  from JInt.prems(1) show ?case by (cases w) (auto intro: same.intros)
next
  case (JReal r)
  from JReal.prems(1) show ?case by (cases w) (auto intro: same.intros)
next
  case (JBool b)
  from JBool.prems(1) show ?case by (cases w) (auto intro: same.intros)
next
  case JNull
  from JNull.prems(1) show ?case by (cases w) (auto intro: same.intros)
qed

lemma normal_iff_same: "py_value v \<Longrightarrow> py_value w \<Longrightarrow> normal v = normal w \<longleftrightarrow> same v w"
  using normal_same same_normal by blast

lemma render_inj:
  assumes "wire v" "wire w" "render v = render w"
  shows "v = w"
proof -
  let ?cap = "max (nesting v) (nesting w)" and ?n = "2 * length (render v) + 1"
  have "scan_value ?n ?cap (render v) = Inr (v, [])" "scan_value ?n ?cap (render w) = Inr (w, [])"
    using scan_value_render [OF assms(1), of "[]" ?cap ?n] scan_value_render [OF assms(2), of "[]" ?cap ?n]
      assms(3) by simp_all
  with assms(3) show ?thesis by simp
qed

lemma canonical_eq_iff:
  assumes "py_value v" "py_value w" "canonical v = Inr a" "canonical w = Inr b"
  shows "a = b \<longleftrightarrow> same v w"
proof -
  have g: "grammar None v = Inr ()" "grammar None w = Inr ()"
    and ab: "a = utf8 (render (normal v))" "b = utf8 (render (normal w))"
    using assms canonical_Inr by blast+
  have wire: "wire (normal v)" "wire (normal w)"
    using g assms(1,2) by (blast intro: wire_normal grammar_wire)+
  have "a = b \<longleftrightarrow> render (normal v) = render (normal w)"
    unfolding ab using utf8_inj [OF _ _] render_scalar [OF wire(1)] render_scalar [OF wire(2)]
      scalar_char_imp by metis
  also have "\<dots> \<longleftrightarrow> normal v = normal w" using render_inj [OF wire] by auto
  also have "\<dots> \<longleftrightarrow> same v w" by (rule normal_iff_same [OF assms(1,2)])
  finally show ?thesis .
qed

subsection \<open>What the scanner returns\<close>

lemma scan_string_length: "scan_string s = Inr (t, r) \<Longrightarrow> length r < length s"
proof (induction s arbitrary: t r rule: scan_string.induct)
  case (2 c s)
  show ?case
  proof (cases "c = 34 \<or> c < 32")
    case True
    with 2 show ?thesis by (auto split: if_splits)
  next
    case False
    show ?thesis
    proof (cases "c = 92")
      case True
      then obtain d r1 t1 where "scan_escape s = Inr (d, r1)" "scan_string r1 = Inr (t1, r)"
        using "2.prems" by auto
      then show ?thesis using 2(1) [of "(d, r1)" d r1 t1 r] True scan_escape_length [of s d r1] by simp
    next
      case neq: False
      with False "2.prems" obtain t1 where "scan_string s = Inr (t1, r)" by auto
      then show ?thesis using 2(2) [of t1 r] neq False by simp
    qed
  qed
qed simp

lemma length_dropWhile_le': "length (dropWhile P s) \<le> length s"
  by (induction s) auto

lemma skip_space_length: "length (skip_space s) \<le> length s"
  by (simp add: skip_space_def length_dropWhile_le')

lemma fraction_length: "scan_fraction s = (f, r) \<Longrightarrow> length r \<le> length s \<and> set r \<subseteq> set s"
  by (auto simp: scan_fraction_def length_dropWhile_le' le_SucI split: list.splits if_splits
      dest!: set_dropWhileD)

lemma exponent_length:
  assumes "scan_exponent s = (f, r)"
  shows "length r \<le> length s \<and> set r \<subseteq> set s"
proof (cases "r = s")
  case False
  then obtain e t where s1: "s = e # t" using assms by (cases s) (auto simp: scan_exponent_def)
  define sign where "sign = (if take 1 t = [43::int] \<or> take 1 t = [45] then take 1 t else [])"
  define n where "n = length sign"
  have "r = dropWhile ascii_digit (drop n t)"
    using assms False unfolding s1 scan_exponent_def list.case sign_def [symmetric] Let_def n_def
    by (simp split: if_splits)
  note s = s1 this
  have "length r \<le> length (drop n t)" unfolding s by (rule length_dropWhile_le')
  moreover have "set r \<subseteq> set t" unfolding s by (auto dest!: set_dropWhileD in_set_dropD)
  ultimately show ?thesis using s(1) by auto
qed simp

lemma scan_number_length:
  assumes "scan_number s = Inr (v, r)"
  shows "length r < length s \<and> set r \<subseteq> set s \<and> (\<exists>i. v = JInt i)"
proof -
  define sign where "sign = (if take 1 s = [45::int] then [45::int] else [])"
  define body where "body = drop (length sign) s"
  define digits where "digits = (if take 1 body = [48] then [48] else takeWhile ascii_digit body)"
  obtain f r1 where F: "scan_fraction (drop (length digits) body) = (f, r1)" by fastforce
  obtain e r2 where E: "scan_exponent r1 = (e, r2)" by fastforce
  have num: "scan_number s = (if digits = [] then Inl InvalidJson
      else if f \<noteq> [] \<or> e \<noteq> [] then Inl (NonintegerToken (sign @ digits @ f @ e))
      else rbind (integer_hook (sign @ digits @ f @ e)) (\<lambda>i. Inr (JInt i, r2)))"
    unfolding scan_number_def sign_def [symmetric] body_def [symmetric] digits_def [symmetric] Let_def F
      prod.case E ..
  have "digits \<noteq> []" "r = r2" "\<exists>i. v = JInt i"
    using assms [unfolded num] by (auto split: if_splits)
  moreover have "digits \<noteq> [] \<Longrightarrow> body \<noteq> []" by (auto simp: digits_def)
  ultimately have "length (drop (length digits) body) < length body" by simp
  moreover have "length body \<le> length s" by (simp add: body_def)
  moreover have "set (drop (length digits) body) \<subseteq> set s"
    unfolding body_def by (auto dest!: in_set_dropD)
  ultimately have "length r2 < length s \<and> set r2 \<subseteq> set s"
    using fraction_length [OF F] exponent_length [OF E] by (meson le_less_trans less_le_trans order_trans)
  with \<open>r = r2\<close> \<open>\<exists>i. v = JInt i\<close> show ?thesis by blast
qed

lemma scan_atom_result:
  assumes "scan_atom s = Inr (v, r)"
  shows "length r < length s \<and> set r \<subseteq> set s \<and> nesting v = 0 \<and> py_value v"
proof -
  have "s \<noteq> []" if "starts_with s (str p)" "p \<noteq> []" for p using that by (auto simp: starts_with_iff)
  then show ?thesis
    using assms scan_number_length [of s v r] in_set_dropD [of _ _ s]
    by (auto simp: scan_atom_def split: if_splits)
qed

lemma pairs_hook_result:
  "pairs_hook d fs = Inr e \<Longrightarrow> distinct (map fst d) \<Longrightarrow> distinct (map fst e) \<and> set e \<subseteq> set d \<union> set fs"
proof (induction d fs rule: pairs_hook.induct)
  case (2 d k v fs)
  then have fresh: "k \<notin> fst ` set d" by (auto simp: map_of_eq_None_iff split: if_splits)
  have "dset d k v = d @ [(k, v)]" using fresh by (induction d k v rule: dset.induct) auto
  with 2 fresh show ?case by (auto split: if_splits)
qed simp

lemma scan_value_Inr:
  assumes "scan_value (Suc n) cap s = Inr (v, r)"
  obtains (str) t u where "s = 34 # t" "scan_string t = Inr (u, r)" "v = JStr u"
  | (arr_Nil) t where "s = 91 # t" "skip_space t = 93 # r" "v = JArr []" "0 < cap"
  | (arr) t xs where "s = 91 # t" "scan_items n (cap - 1) (skip_space t) = Inr (xs, r)" "v = JArr xs" "0 < cap"
  | (obj_Nil) t where "s = 123 # t" "skip_space t = 125 # r" "v = JObj []" "0 < cap"
  | (obj) t fs d where "s = 123 # t" "scan_members n (cap - 1) (skip_space t) = Inr (fs, r)"
      "pairs_hook [] fs = Inr d" "v = JObj d" "0 < cap"
  | (atom) "scan_atom s = Inr (v, r)"
proof -
  obtain c t where s: "s = c # t" using assms by (cases s) (auto simp: scan_value.simps)
  have first: "take 1 u = [d] \<Longrightarrow> u = d # drop 1 u" for u and d :: int by (cases u) auto
  consider "c = 34" | "c = 91" "take 1 (skip_space t) = [93]" | "c = 91" "take 1 (skip_space t) \<noteq> [93]"
    | "c = 123" "take 1 (skip_space t) = [125]" | "c = 123" "take 1 (skip_space t) \<noteq> [125]"
    | "c \<noteq> 34" "c \<noteq> 91" "c \<noteq> 123" by blast
  then show ?thesis
  proof cases
    case 1
    then show ?thesis using assms s str by (auto simp: scan_value.simps)
  next
    case 2
    then have "v = JArr []" "r = drop 1 (skip_space t)" "0 < cap"
      using assms s by (simp_all add: scan_value.simps split: if_splits)
    with first [OF 2(2)] 2(1) s show ?thesis using arr_Nil by simp
  next
    case 3
    then show ?thesis using assms s arr by (auto simp: scan_value.simps split: if_splits)
  next
    case 4
    then have "v = JObj []" "r = drop 1 (skip_space t)" "0 < cap"
      using assms s by (simp_all add: scan_value.simps split: if_splits)
    with first [OF 4(2)] 4(1) s show ?thesis using obj_Nil by simp
  next
    case 5
    then show ?thesis using assms s obj by (auto simp: scan_value.simps split: if_splits)
  next
    case 6
    then show ?thesis using assms s atom by (simp add: scan_value.simps)
  qed
qed

lemma scan_items_Inr:
  assumes "scan_items (Suc n) cap s = Inr (xs, r)"
  obtains (last) x r1 where "scan_value n cap s = Inr (x, r1)" "skip_space r1 = 93 # r" "xs = [x]"
  | (more) x r1 r2 ys where "scan_value n cap s = Inr (x, r1)" "skip_space r1 = 44 # r2"
      "scan_items n cap (skip_space r2) = Inr (ys, r)" "xs = x # ys"
proof -
  obtain x r1 where x: "scan_value n cap s = Inr (x, r1)" using assms by (auto simp: scan_items.simps)
  obtain c r2 where "skip_space r1 = c # r2"
    using assms x by (cases "skip_space r1") (simp_all add: scan_items.simps)
  then show ?thesis using assms x that by (auto simp: scan_items.simps split: if_splits)
qed

lemma scan_members_Inr:
  assumes "scan_members (Suc n) cap s = Inr (fs, r)"
  obtains (member) t k r1 r2 x r3 where "s = 34 # t" "scan_string t = Inr (k, r1)" "skip_space r1 = 58 # r2"
      "scan_value n cap (skip_space r2) = Inr (x, r3)"
      "skip_space r3 = 125 # r \<and> fs = [(k, x)] \<or>
       (\<exists>r4 gs. skip_space r3 = 44 # r4 \<and> scan_members n cap (skip_space r4) = Inr (gs, r) \<and> fs = (k, x) # gs)"
proof -
  obtain t where s: "s = 34 # t"
    using assms by (cases s) (auto simp: scan_members.simps split: if_splits)
  obtain k r1 where k: "scan_string t = Inr (k, r1)" using assms s by (auto simp: scan_members.simps)
  obtain r2 where r2: "skip_space r1 = 58 # r2"
    using assms s k by (cases "skip_space r1") (simp_all add: scan_members.simps split: if_splits)
  obtain x r3 where x: "scan_value n cap (skip_space r2) = Inr (x, r3)"
    using assms s k r2 by (auto simp: scan_members.simps)
  obtain c r4 where "skip_space r3 = c # r4"
    using assms s k r2 x by (cases "skip_space r3") (simp_all add: scan_members.simps)
  then show ?thesis using assms s k r2 x member by (auto simp: scan_members.simps split: if_splits)
qed

lemma skip_space_set: "list_all P s \<Longrightarrow> list_all P (skip_space s)"
  by (auto simp: skip_space_def list_all_iff dest: set_dropWhileD)

lemma hex4_range: "hex4 s = Some (u, r) \<Longrightarrow> 0 \<le> u \<and> u < 65536 \<and> (list_all P s \<longrightarrow> list_all P r)"
proof (induction s rule: hex4.induct)
  case (1 a b c d r')
  have range: "hex_value e = Some x \<Longrightarrow> 0 \<le> x \<and> x < 16" for e x
    by (auto simp: hex_value_def split: if_splits)
  obtain w x y z where d: "hex_value a = Some w" "hex_value b = Some x" "hex_value c = Some y"
      "hex_value d = Some z" "u = w * 4096 + x * 256 + y * 16 + z" "r = r'"
    using 1 by (auto split: option.splits)
  then show ?case using range [OF d(1)] range [OF d(2)] range [OF d(3)] range [OF d(4)] by simp
qed auto

lemma scan_escape_ok:
  assumes "scan_escape s = Inr (c, r)" "list_all code_ok s"
  shows "code_ok c \<and> list_all code_ok r"
proof -
  obtain e t where s: "s = e # t" using assms(1) by (cases s) (auto simp: scan_escape_def)
  show ?thesis
  proof (cases "e = 117")
    case False
    then have "map_of plain_escapes e = Some c" "r = t"
      using assms(1) s by (auto simp: scan_escape_def split: option.splits)
    then show ?thesis using assms(2) s by (auto simp: plain_escapes_def code_ok_def split: if_splits)
  next
    case True
    then obtain u r1 where u: "hex4 t = Some (u, r1)"
      using assms(1) s by (auto simp: scan_escape_def split: option.splits)
    then have r1: "0 \<le> u" "u < 65536" "list_all code_ok r1"
      using hex4_range [of t u r1 code_ok] assms(2) s by auto
    then have tail: "list_all code_ok (drop 2 r1)" by (auto simp: list_all_iff dest: in_set_dropD)
    show ?thesis
    proof (cases "c = u \<and> r = r1")
      case True
      with r1 show ?thesis by (simp add: code_ok_def)
    next
      case no: False
      let ?pair = "55296 \<le> u \<and> u \<le> 56319 \<and> take 2 r1 = [92, 117]"
      have step: "(if ?pair then (case hex4 (drop 2 r1) of None \<Rightarrow> Inl InvalidJson
            | Some (v, r2) \<Rightarrow> if 56320 \<le> v \<and> v \<le> 57343 then Inr (65536 + (u - 55296) * 1024 + (v - 56320), r2)
                else Inr (u, r1)) else Inr (u, r1)) = Inr (c, r)"
        using assms(1) unfolding s scan_escape_def True by (simp add: u)
      have pair: "?pair"
      proof (rule ccontr)
        assume "\<not> ?pair"
        with step no show False by simp
      qed
      obtain v r2 where v: "hex4 (drop 2 r1) = Some (v, r2)"
        using step pair by (cases "hex4 (drop 2 r1)") auto
      have "56320 \<le> v \<and> v \<le> 57343" "r2 = r" "c = 65536 + (u - 55296) * 1024 + (v - 56320)"
        using step pair v no by (auto split: if_splits)
      with v pair have v: "hex4 (drop 2 r1) = Some (v, r)"
          "56320 \<le> v" "v \<le> 57343" "55296 \<le> u" "u \<le> 56319" "c = 65536 + (u - 55296) * 1024 + (v - 56320)"
        by simp_all
      then show ?thesis using hex4_range [of "drop 2 r1" v r code_ok] tail by (simp add: code_ok_def)
    qed
  qed
qed

lemma scan_string_ok:
  "scan_string s = Inr (t, r) \<Longrightarrow> list_all code_ok s \<Longrightarrow> list_all code_ok t \<and> list_all code_ok r"
proof (induction s arbitrary: t r rule: scan_string.induct)
  case (2 c s)
  consider "c = 34" | "c \<noteq> 34" "c \<noteq> 92" | "c = 92" by blast
  then show ?case
  proof cases
    case 3
    then obtain d r1 t1 where "scan_escape s = Inr (d, r1)" "scan_string r1 = Inr (t1, r)" "t = d # t1"
      using "2.prems" by auto
    then show ?thesis using 2(1) [of "(d, r1)" d r1 t1 r] 3 scan_escape_ok [of s d r1] "2.prems"(2) by simp
  next
    case 2
    then obtain t1 where "\<not> c < 32" "scan_string s = Inr (t1, r)" "t = c # t1"
      using "2.prems"(1) by (auto split: if_splits)
    then show ?thesis using "2.IH"(2) [of t1 r] 2 "2.prems"(2) by simp
  qed (use 2 in auto)
qed simp

text \<open>The results of the scanner: shorter rest, bounded nesting, and well-formed values.\<close>

lemma list_all_drop: "list_all P (a # s) \<Longrightarrow> list_all P s"
  by simp

lemma scan_results:
  "scan_value n cap s = Inr (v, r) \<Longrightarrow>
     length r < length s \<and> nesting v \<le> cap \<and> (list_all code_ok s \<longrightarrow> py_value v \<and> list_all code_ok r)"
  "scan_items n cap s = Inr (xs, r) \<Longrightarrow>
     length r < length s \<and> (\<forall>x \<in> set xs. nesting x \<le> cap) \<and>
     (list_all code_ok s \<longrightarrow> list_all py_value xs \<and> list_all code_ok r)"
  "scan_members n cap s = Inr (fs, r) \<Longrightarrow>
     length r < length s \<and> (\<forall>(k, x) \<in> set fs. nesting x \<le> cap) \<and>
     (list_all code_ok s \<longrightarrow> list_all (\<lambda>(k, x). list_all code_ok k \<and> py_value x) fs \<and> list_all code_ok r)"
proof (induction n arbitrary: cap s v xs fs r)
  case (Suc n)
  {
    case 1
    have deeper: "Suc (foldr max ns 0) \<le> cap" if "0 < cap" "\<forall>m \<in> set ns. m \<le> cap - 1" for ns
    proof -
      have "m < cap" if "m \<in> set ns" for m using that \<open>0 < cap\<close> \<open>\<forall>m \<in> set ns. m \<le> cap - 1\<close> by fastforce
      with \<open>0 < cap\<close> show ?thesis by (simp add: foldr_max_set Suc_le_eq)
    qed
    from 1 show ?case
    proof (cases rule: scan_value_Inr)
      case (str t u)
      then show ?thesis using scan_string_length [of t u r] scan_string_ok [of t u r] by simp
    next
      case (arr_Nil t)
      have "length (93 # r) \<le> length t" using skip_space_length [of t] arr_Nil(2) by simp
      moreover have "list_all code_ok t \<longrightarrow> list_all code_ok (93 # r)"
        using skip_space_set [of code_ok t] arr_Nil(2) by simp
      ultimately show ?thesis using arr_Nil by simp
    next
      case (arr t xs)
      then show ?thesis
        using Suc.IH(2) [OF arr(2)] skip_space_length [of t] skip_space_set [of code_ok t]
          deeper [of "map nesting xs"] by auto
    next
      case (obj_Nil t)
      have "length (125 # r) \<le> length t" using skip_space_length [of t] obj_Nil(2) by simp
      moreover have "list_all code_ok t \<longrightarrow> list_all code_ok (125 # r)"
        using skip_space_set [of code_ok t] obj_Nil(2) by simp
      ultimately show ?thesis using obj_Nil by simp
    next
      case (obj t fs d)
      have d: "distinct (map fst d)" "set d \<subseteq> set fs" using pairs_hook_result [OF obj(3)] by simp_all
      note inner = Suc.IH(3) [OF obj(2)]
      have "\<forall>m \<in> set (map (\<lambda>(k, x). nesting x) d). m \<le> cap - 1" using inner d(2) by auto
      then have "nesting v \<le> cap" using deeper obj by simp
      moreover have "list_all P fs \<Longrightarrow> list_all P d" for P using d(2) by (auto simp: list_all_iff)
      then have "list_all code_ok (skip_space t) \<longrightarrow> py_value v"
        using inner d(1) obj(4) by simp
      ultimately show ?thesis using inner obj(1) skip_space_length [of t] skip_space_set [of code_ok t] by auto
    next
      case atom
      then show ?thesis using scan_atom_result [OF atom] by (auto simp: list_all_iff)
    qed
  next
    case 2
    then show ?case
    proof (cases rule: scan_items_Inr)
      case (last x r1)
      have "length (93 # r) \<le> length r1" using skip_space_length [of r1] last(2) by simp
      moreover have "list_all code_ok r1 \<longrightarrow> list_all code_ok (93 # r)"
        using skip_space_set [of code_ok r1] last(2) by simp
      ultimately show ?thesis using Suc.IH(1) [OF last(1)] last(3) by auto
    next
      case (more x r1 r2 ys)
      have "length (44 # r2) \<le> length r1" using skip_space_length [of r1] more(2) by simp
      moreover have "list_all code_ok r1 \<longrightarrow> list_all code_ok (44 # r2)"
        using skip_space_set [of code_ok r1] more(2) by simp
      ultimately show ?thesis
        using Suc.IH(1) [OF more(1)] Suc.IH(2) [OF more(3)] more(4) skip_space_length [of r2]
          skip_space_set [of code_ok r2] by auto
    qed
  next
    case 3
    then show ?case
    proof (cases rule: scan_members_Inr)
      case (member t k r1 r2 x r3)
      have k: "length r1 < length t" "list_all code_ok t \<longrightarrow> list_all code_ok k \<and> list_all code_ok r1"
        using scan_string_length [OF member(2)] scan_string_ok [OF member(2)] by auto
      have r2: "length r2 < length r1" "list_all code_ok r1 \<longrightarrow> list_all code_ok (skip_space r2)"
        using skip_space_length [of r1] skip_space_set [of code_ok r1] skip_space_set [of code_ok r2] member(3)
        by auto
      note x = Suc.IH(1) [OF member(4)]
      have head: "length r3 < length s" "nesting x \<le> cap"
          "list_all code_ok s \<longrightarrow> list_all code_ok k \<and> py_value x \<and> list_all code_ok r3"
        using k r2 x skip_space_length [of r2] member(1) by auto
      show ?thesis using member(5)
      proof
        assume "skip_space r3 = 125 # r \<and> fs = [(k, x)]"
        then show ?thesis using head skip_space_length [of r3] skip_space_set [of code_ok r3] by auto
      next
        assume "\<exists>r4 gs. skip_space r3 = 44 # r4 \<and> scan_members n cap (skip_space r4) = Inr (gs, r) \<and> fs = (k, x) # gs"
        then obtain r4 gs where more: "skip_space r3 = 44 # r4"
            "scan_members n cap (skip_space r4) = Inr (gs, r)" "fs = (k, x) # gs" by blast
        have "length r4 < length r3" "list_all code_ok r3 \<longrightarrow> list_all code_ok (skip_space r4)"
          using skip_space_length [of r3] skip_space_set [of code_ok r3] skip_space_set [of code_ok r4] more(1)
          by auto
        then show ?thesis using head Suc.IH(3) [OF more(2)] more(3) skip_space_length [of r4] by auto
      qed
    qed
  }
qed (simp_all add: scan_value.simps scan_items.simps scan_members.simps)

subsection \<open>The scanner always has fuel\<close>

lemma scan_string_fuel: "scan_string s \<noteq> Inl OutOfFuel"
proof (induction s rule: scan_string.induct)
  case (2 c s)
  have "scan_escape s \<noteq> Inl OutOfFuel"
    by (auto simp: scan_escape_def split: list.splits option.splits)
  with 2 show ?case by (auto simp: rbind_Inl_iff split: if_splits)
qed simp

lemma scan_atom_fuel: "scan_atom s \<noteq> Inl OutOfFuel"
proof -
  have "integer_hook d \<noteq> Inl OutOfFuel" for d by (simp add: integer_hook_def Let_def)
  then have "scan_number t \<noteq> Inl OutOfFuel" for t
    by (simp add: scan_number_def Let_def rbind_Inl_iff split: prod.split)
  then show ?thesis by (simp add: scan_atom_def)
qed

lemma pairs_hook_fuel: "pairs_hook d fs \<noteq> Inl OutOfFuel"
  by (induction d fs rule: pairs_hook.induct) (auto split: if_splits)

lemma scan_fuel:
  "2 * length s + 1 \<le> n \<Longrightarrow> scan_value n cap s \<noteq> Inl OutOfFuel"
  "2 * length s + 2 \<le> n \<Longrightarrow> scan_items n cap s \<noteq> Inl OutOfFuel"
  "2 * length s + 2 \<le> n \<Longrightarrow> scan_members n cap s \<noteq> Inl OutOfFuel"
proof (induction n arbitrary: cap s)
  case (Suc n)
  {
    case 1
    show ?case
    proof (cases s)
      case (Cons c t)
      have "2 * length (skip_space t) + 2 \<le> n" using 1 Cons skip_space_length [of t] by simp
      note inner = Suc.IH(2,3) [OF this, of "cap - 1"]
      show ?thesis unfolding Cons scan_value.simps list.case
        using inner scan_string_fuel [of t] scan_atom_fuel [of "c # t"] pairs_hook_fuel
        by (simp add: rbind_Inl_iff)
    qed (simp add: scan_value.simps)
  next
    case 2
    have "2 * length s + 1 \<le> n" using 2 by simp
    note first = Suc.IH(1) [OF this, of cap]
    have rest: "scan_items n cap (skip_space r2) \<noteq> Inl OutOfFuel"
      if "scan_value n cap s = Inr (x, r1)" "skip_space r1 = c # r2" for x r1 c r2
    proof (rule Suc.IH(2))
      have "length r2 < length r1" using skip_space_length [of r1] that(2) by simp
      then show "2 * length (skip_space r2) + 2 \<le> n"
        using 2 scan_results(1) [OF that(1)] skip_space_length [of r2] by linarith
    qed
    show ?case unfolding scan_items.simps
      using first rest by (auto simp: rbind_Inl_iff split: list.splits if_splits)
  next
    case 3
    show ?case
    proof (cases s)
      case (Cons q t)
      have val: "scan_value n cap (skip_space r2) \<noteq> Inl OutOfFuel"
        if "scan_string t = Inr (k, r1)" "skip_space r1 = c # r2" for k r1 c r2
      proof (rule Suc.IH(1))
        show "2 * length (skip_space r2) + 1 \<le> n"
          using 3 Cons scan_string_length [OF that(1)] skip_space_length [of r1] skip_space_length [of r2] that(2)
          by simp
      qed
      have rest: "scan_members n cap (skip_space r4) \<noteq> Inl OutOfFuel"
        if "scan_string t = Inr (k, r1)" "skip_space r1 = c # r2"
          "scan_value n cap (skip_space r2) = Inr (x, r3)" "skip_space r3 = c' # r4" for k r1 c r2 x r3 c' r4
      proof (rule Suc.IH(3))
        show "2 * length (skip_space r4) + 2 \<le> n"
          using 3 Cons scan_string_length [OF that(1)] skip_space_length [of r1] skip_space_length [of r2]
            skip_space_length [of r3] skip_space_length [of r4] scan_results(1) [OF that(3)] that(2,4) by simp
      qed
      show ?thesis unfolding Cons scan_members.simps list.case
        using scan_string_fuel [of t] val rest
        by (auto simp: rbind_Inl_iff split: list.splits if_splits)
    qed (simp add: scan_members.simps)
  }
qed simp_all

lemma utf8_decode_code_ok: "utf8_decode bs = Some s \<Longrightarrow> list_all code_ok s"
proof (induction bs arbitrary: s rule: utf8_decode.induct)
  case (2 b bs)
  note run = "2.prems" and IH = "2.IH"
  show ?case
  proof (cases "0 \<le> b \<and> b < 128")
    case True
    then obtain t where "s = b # t" "utf8_decode bs = Some t" using run by auto
    then show ?thesis using IH(1) True by (simp add: code_ok_def)
  next
    case a: False
    obtain c1 r1 where bs: "bs = c1 # r1" using run a by (cases bs) (simp_all split: if_splits)
    have c1: "continuation c1" using run a bs by (simp split: if_splits)
    show ?thesis
    proof (cases "194 \<le> b \<and> b < 224")
      case True
      then obtain t where "s = ((b - 192) * 64 + (c1 - 128)) # t" "utf8_decode r1 = Some t"
        using run a bs c1 by auto
      then show ?thesis using IH(2) [OF a bs] c1 True by (simp add: code_ok_def continuation_def)
    next
      case b: False
      obtain c2 r2 where r1: "r1 = c2 # r2" using run a bs c1 b by (cases r1) (simp_all split: if_splits)
      have c2: "continuation c2" using run a bs c1 b r1 by (simp split: if_splits)
      show ?thesis
      proof (cases "224 \<le> b \<and> b < 240")
        case True
        define u where "u = (b - 224) * 4096 + (c1 - 128) * 64 + (c2 - 128)"
        have "(if u < 2048 \<or> surrogate u then None else map_option ((#) u) (utf8_decode r2)) = Some s"
          using run a bs c1 b r1 c2 True by (auto simp: u_def Let_def split: if_splits)
        then obtain t where "s = u # t" "utf8_decode r2 = Some t" "2048 \<le> u" "\<not> surrogate u" by (auto split: if_splits)
        moreover have "u < 1114112" using c1 c2 True by (simp add: u_def continuation_def)
        ultimately show ?thesis using IH(3) [OF a bs _ b r1 _ True u_def] c1 c2 by (auto simp: code_ok_def)
      next
        case d: False
        obtain c3 r3 where r2: "r2 = c3 # r3"
          using run a bs c1 b r1 c2 d by (cases r2) (simp_all split: if_splits)
        define u where "u = (b - 240) * 262144 + (c1 - 128) * 4096 + (c2 - 128) * 64 + (c3 - 128)"
        have "(if \<not> continuation c3 \<or> b < 240 \<or> 244 < b then None
            else if u < 65536 \<or> 1114112 \<le> u then None else map_option ((#) u) (utf8_decode r3)) = Some s"
          using run a bs c1 b r1 c2 d r2 by (auto simp: u_def Let_def split: if_splits)
        then obtain t where t: "s = u # t" "utf8_decode r3 = Some t" "65536 \<le> u" "u < 1114112"
            and c3: "\<not> (\<not> continuation c3 \<or> b < 240 \<or> 244 < b)" by (auto split: if_splits)
        show ?thesis using IH(4) [OF a bs _ b r1 _ d r2 c3 u_def] c1 c2 t by (auto simp: code_ok_def)
      qed
    qed
  qed
qed simp

lemma parse_json_Inr:
  assumes "parse_json cap stack bs = Inr v"
  shows "py_value v \<and> grammar None v = Inr () \<and> nesting v \<le> cap \<and> nesting v \<le> stack"
proof -
  obtain s r where s: "utf8_decode bs = Some s" "scan_value (2 * length s + 1) cap (skip_space s) = Inr (v, r)"
      "\<not> stack < nesting v" "grammar None v = Inr ()"
    using assms by (auto simp: parse_json_def split: option.splits if_splits)
  have "list_all code_ok (skip_space s)" using utf8_decode_code_ok [OF s(1)] by (rule skip_space_set)
  with scan_results(1) [OF s(2)] s(3,4) show ?thesis by simp
qed

section \<open>The claims\<close>

text \<open>C3. Canonical bytes are read back. Whatever document the v4 reader accepts has canonical
  bytes, the reader accepts those bytes too, and reads them as the same value with the
  members of every object in the byte order of their names; that value has the same
  canonical bytes. So an identity computed from a stored document does not depend on how
  the document was spaced, escaped or ordered when it was stored.\<close>

theorem canonical_bytes_read_back:
  assumes "parse_json cap stack data = Inr v"
  shows "\<exists>bs. canonical v = Inr bs \<and> parse_json cap stack bs = Inr (normal v) \<and>
     same (normal v) v \<and> canonical (normal v) = Inr bs"
proof -
  note v = parse_json_Inr [OF assms]
  then have wire: "wire (normal v)" by (blast intro: wire_normal grammar_wire)
  have read: "parse_json cap stack (utf8 (render (normal v))) = Inr (normal v)"
    using parse_render [OF wire] v grammar_normal by (simp add: nesting_normal)
  note n = parse_json_Inr [OF read]
  have "canonical v = Inr (utf8 (render (normal v)))" "canonical (normal v) = Inr (utf8 (render (normal v)))"
    using canonical_render v n by (simp_all add: normal_normal)
  moreover have "same (normal v) v" using normal_same [OF normal_normal] v n by blast
  ultimately show ?thesis using read by blast
qed

lemma canonical_bytes_read_back_witness:
  "\<exists>v bs. parse_json 2 2 (str ''{ \"b\" : [true], \"a\":7}'') = Inr v \<and> canonical v = Inr bs \<and>
     parse_json 2 2 bs = Inr (JObj [(str ''a'', JInt 7), (str ''b'', JArr [JBool True])])"
proof -
  have parsed: "parse_json 2 2 (str ''{ \"b\" : [true], \"a\":7}'') =
      Inr (JObj [(str ''b'', JArr [JBool True]), (str ''a'', JInt 7)])" (is "_ = Inr ?v")
    by code_simp
  have "normal ?v = JObj [(str ''a'', JInt 7), (str ''b'', JArr [JBool True])]" by code_simp
  then show ?thesis using canonical_bytes_read_back [OF parsed] parsed by auto
qed

text \<open>C15. Canonical bytes identify a value. Two values Python can hold have the same canonical bytes
  exactly when they are the same JSON value, objects compared as maps from their keys.\<close>

theorem canonical_bytes_identify:
  assumes "py_value v" "py_value w" "canonical v = Inr a" "canonical w = Inr b"
  shows "a = b \<longleftrightarrow> same v w"
  using assms by (rule canonical_eq_iff)

lemma canonical_bytes_identify_witness:
  "canonical (JObj [(str ''b'', JNull), (str ''a'', JInt 1)]) = Inr (str ''{\"a\":1,\"b\":null}'') \<and>
   same (JObj [(str ''b'', JNull), (str ''a'', JInt 1)]) (JObj [(str ''a'', JInt 1), (str ''b'', JNull)])"
proof -
  have c: "canonical (JObj [(str ''b'', JNull), (str ''a'', JInt 1)]) = Inr (str ''{\"a\":1,\"b\":null}'')"
    "canonical (JObj [(str ''a'', JInt 1), (str ''b'', JNull)]) = Inr (str ''{\"a\":1,\"b\":null}'')"
    by code_simp+
  have "py_value (JObj [(str ''b'', JNull), (str ''a'', JInt 1)])"
    "py_value (JObj [(str ''a'', JInt 1), (str ''b'', JNull)])" by code_simp+
  from canonical_bytes_identify [OF this c] c(1) show ?thesis by simp
qed

text \<open>The byte string a domain digest hashes.\<close>

definition digest_input :: "pystr \<Rightarrow> json \<Rightarrow> v4_error + int list" where
  "digest_input lab v = rbind (canonical v) (\<lambda>bs. Inr (utf8 (str ''fv-evidence-v4/'' @ lab) @ [0] @ bs))"

lemma domain_digest_input:
  "digest_input l v = Inr x \<Longrightarrow> domain_digest sha l v = Inr (str ''sha256:'' @ sha x)"
  by (auto simp: digest_input_def domain_digest_def digest_def rbind_Inr_iff)

lemma digest_input_inject:
  assumes "digest_input l v = Inr x" "digest_input m w = Inr x" "py_value v" "py_value w"
    "list_all code_ok l" "list_all code_ok m" "0 \<notin> set l" "0 \<notin> set m"
  shows "l = m \<and> same v w"
proof -
  obtain a b where ab: "canonical v = Inr a" "canonical w = Inr b"
      "utf8 (str ''fv-evidence-v4/'' @ l) @ [0] @ a = utf8 (str ''fv-evidence-v4/'' @ m) @ [0] @ b"
    using assms(1,2) by (auto simp: digest_input_def rbind_Inr_iff)
  have nul: "0 \<notin> set (utf8 l)" "0 \<notin> set (utf8 m)" using utf8_ascii_byte [of 0] assms(7,8) by auto
  have eq: "utf8 l @ 0 # a = utf8 m @ 0 # b" using ab(3) by (simp add: utf8_append)
  then have "utf8 l = utf8 m" using nul by (metis takeWhile_until)
  with eq have "l = m" "a = b" using utf8_inj [OF assms(5,6)] by simp_all
  then show ?thesis using canonical_eq_iff [OF assms(3,4) ab(1,2)] by simp
qed

text \<open>C29. Domain digests are separated. Where SHA-256 does not map the two byte strings hashed, if
  they are different, to one value, two domain digests are equal exactly when the labels are equal
  and the values are the same JSON value, objects compared as maps. So no value hashed under one
  label can stand for a value hashed under another. A label is text without NUL, as all the labels
  of the scripts are.\<close>

theorem domain_digest_separates:
  assumes "py_value v" "py_value w" "list_all code_ok l" "list_all code_ok m" "0 \<notin> set l" "0 \<notin> set m"
    and "digest_input l v = Inr x" "digest_input m w = Inr y" "sha x = sha y \<longrightarrow> x = y"
  shows "domain_digest sha l v = domain_digest sha m w \<longleftrightarrow> l = m \<and> same v w"
proof
  assume "domain_digest sha l v = domain_digest sha m w"
  then have "x = y" using assms(9) domain_digest_input [OF assms(7)] domain_digest_input [OF assms(8)] by simp
  then show "l = m \<and> same v w" using digest_input_inject assms by blast
next
  assume "l = m \<and> same v w"
  then have "x = y"
    using canonical_eq_iff [OF assms(1,2)] assms(7,8) by (auto simp: digest_input_def rbind_Inr_iff)
  then show "domain_digest sha l v = domain_digest sha m w"
    using domain_digest_input [OF assms(7)] domain_digest_input [OF assms(8)] by simp
qed

text \<open>At a hash of fixed length: one object with its members in either order, and the same object
  under another label.\<close>

definition sample_sum :: "int list \<Rightarrow> pystr" where
  "sample_sum bs = (let n = foldl (\<lambda>h b. (31 * h + b) mod 65536) 7 bs in [n div 256, n mod 256])"

lemma domain_digest_separates_witness:
  "domain_digest sample_sum (str ''policy'') (JObj [(str ''b'', JNull), (str ''a'', JInt 1)]) =
   domain_digest sample_sum (str ''policy'') (JObj [(str ''a'', JInt 1), (str ''b'', JNull)]) \<and>
   domain_digest sample_sum (str ''policy'') (JObj [(str ''b'', JNull), (str ''a'', JInt 1)]) \<noteq>
   domain_digest sample_sum (str ''cargo-package'') (JObj [(str ''a'', JInt 1), (str ''b'', JNull)])"
proof -
  have v: "py_value (JObj [(str ''b'', JNull), (str ''a'', JInt 1)])"
    "py_value (JObj [(str ''a'', JInt 1), (str ''b'', JNull)])" by code_simp+
  have l: "list_all code_ok (str ''policy'')" "list_all code_ok (str ''cargo-package'')"
    "0 \<notin> set (str ''policy'')" "0 \<notin> set (str ''cargo-package'')" by code_simp+
  let ?x = "utf8 (str ''fv-evidence-v4/policy'') @ 0 # str ''{\"a\":1,\"b\":null}''"
  let ?y = "utf8 (str ''fv-evidence-v4/cargo-package'') @ 0 # str ''{\"a\":1,\"b\":null}''"
  have i: "digest_input (str ''policy'') (JObj [(str ''b'', JNull), (str ''a'', JInt 1)]) = Inr ?x"
    "digest_input (str ''policy'') (JObj [(str ''a'', JInt 1), (str ''b'', JNull)]) = Inr ?x"
    "digest_input (str ''cargo-package'') (JObj [(str ''a'', JInt 1), (str ''b'', JNull)]) = Inr ?y"
    by code_simp+
  have h: "sample_sum ?x = sample_sum ?y \<longrightarrow> ?x = ?y" by code_simp
  have s: "same (JObj [(str ''b'', JNull), (str ''a'', JInt 1)]) (JObj [(str ''a'', JInt 1), (str ''b'', JNull)])"
    using digest_input_inject [OF i(1,2) v l(1,1,3,3)] by simp
  show ?thesis
    using domain_digest_separates [OF v l(1,1,3,3) i(1,2), of sample_sum]
      domain_digest_separates [OF v l(1,2,3,4) i(1,3) h] s by (simp add: str_def)
qed

text \<open>Where a value sits inside another, and the member name it has there.\<close>

inductive inside_as :: "pystr option \<Rightarrow> json \<Rightarrow> json \<Rightarrow> bool" where
  whole: "inside_as None v v"
| element: "inside_as f (JArr xs) v \<Longrightarrow> x \<in> set xs \<Longrightarrow> inside_as None x v"
| member: "inside_as f (JObj fs) v \<Longrightarrow> (k, x) \<in> set fs \<Longrightarrow> inside_as (Some k) x v"

lemma inside_grammar:
  "inside_as f x v \<Longrightarrow> grammar None v = Inr () \<Longrightarrow> py_value v \<Longrightarrow> grammar f x = Inr () \<and> py_value x"
proof (induction rule: inside_as.induct)
  case (element f xs v x)
  then show ?case by (simp add: each_Inr_iff list_all_iff)
next
  case (member f fs v k x)
  then have g: "grammar f (JObj fs) = Inr ()" "py_value (JObj fs)" by blast+
  then have "rbind (v4_scalar (JStr k)) (\<lambda>_. grammar (Some k) x) = Inr ()"
    using member.hyps(2) by (auto simp only: grammar.simps each_Inr_iff)
  then have "grammar (Some k) x = Inr ()" by (simp only: rbind_Inr_iff) blast
  then show ?case using py_value_obj(3) [OF g(2) member.hyps(2)] by blast
qed simp

definition within_grammar :: "pystr option \<Rightarrow> json \<Rightarrow> bool" where
  "within_grammar f x \<longleftrightarrow> (case x of
       JReal r \<Rightarrow> False
     | JInt i \<Rightarrow> \<bar>i\<bar> \<le> 9007199254740991 \<and> (0 \<le> i \<or> f = Some (str ''exit_code''))
     | JStr s \<Rightarrow> list_all scalar_char s
     | JObj fs \<Rightarrow> distinct (map fst fs) \<and> list_all (\<lambda>(k, x). list_all scalar_char k) fs
     | _ \<Rightarrow> True)"

lemma grammar_within: "grammar f x = Inr () \<Longrightarrow> py_value x \<Longrightarrow> within_grammar f x"
proof (cases x)
  case (JObj fs)
  assume "grammar f x = Inr ()" "py_value x"
  then have "wire (JObj fs)" using grammar_wire JObj by blast
  then show ?thesis using JObj by (auto simp: within_grammar_def list_all_iff)
qed (auto simp: within_grammar_def max_integer_def scalar_chars split: if_splits)

lemma each_Inl: "each f xs = Inl e \<Longrightarrow> \<exists>x \<in> set xs. f x = Inl e"
  by (induction xs) (auto simp: rbind_Inl_iff)

lemma v4_scalar_Inl: "v4_scalar v = Inl e \<Longrightarrow> e = NonScalar"
  by (cases v) (auto split: if_splits)

lemma grammar_fuel: "grammar f v \<noteq> Inl OutOfFuel"
proof (induction v arbitrary: f)
  case (JStr s)
  then show ?case using v4_scalar_Inl [of "JStr s"] by (auto simp: rbind_Inl_iff simp del: v4_scalar.simps)
next
  case (JArr xs)
  then show ?case by (auto dest!: each_Inl)
next
  case (JObj fs)
  show ?case
  proof
    assume "grammar f (JObj fs) = Inl OutOfFuel"
    then obtain k x where "(k, x) \<in> set fs" "rbind (v4_scalar (JStr k)) (\<lambda>_. grammar (Some k) x) = Inl OutOfFuel"
      using each_Inl by fastforce
    then show False using JObj.IH [of "(k, x)" x "Some k"] v4_scalar_Inl [of "JStr k"]
      by (auto simp: rbind_Inl_iff simp del: v4_scalar.simps)
  qed
qed auto

text \<open>C18. Accepted documents stay within the wire grammar. Wherever a value sits inside a document the
  v4 reader accepts, it is no float; an integer is at most 9007199254740991 in size, and
  negative only as the member \<^verbatim>\<open>exit_code\<close>; text holds Unicode scalar values only; and an
  object names no member twice. The nesting is within what the scanner and the checks can hold.\<close>

theorem parsed_within_grammar:
  assumes "parse_json cap stack data = Inr v"
  shows "nesting v \<le> min cap stack \<and> (\<forall>f x. inside_as f x v \<longrightarrow> within_grammar f x)"
  using parse_json_Inr [OF assms] inside_grammar grammar_within by auto

lemma parsed_within_grammar_witness:
  "parse_json 1 1 (str ''{\"exit_code\":-9}'') = Inr (JObj [(str ''exit_code'', JInt (-9))]) \<and>
   within_grammar (Some (str ''exit_code'')) (JInt (-9))"
proof -
  have parsed: "parse_json 1 1 (str ''{\"exit_code\":-9}'') = Inr (JObj [(str ''exit_code'', JInt (-9))])"
    by code_simp
  have "inside_as (Some (str ''exit_code'')) (JInt (-9)) (JObj [(str ''exit_code'', JInt (-9))])"
    by (rule inside_as.member [OF inside_as.whole]) simp
  then show ?thesis using parsed parsed_within_grammar [OF parsed] by blast
qed

text \<open>Whatever bytes it is handed, the reader returns a value or one of its errors:
  the calls the model allows the scanner are always enough.\<close>

lemma parse_json_returns: "parse_json cap stack data \<noteq> Inl OutOfFuel"
proof -
  have "scan_value (2 * length s + 1) cap (skip_space s) \<noteq> Inl OutOfFuel" for s
    using scan_fuel(1) [of "skip_space s"] skip_space_length [of s] by simp
  then show ?thesis
    using grammar_fuel by (auto simp: parse_json_def rbind_Inl_iff split: option.splits if_splits)
qed

end
