(* ===== verification/Evidence_Shape.thy ===== *)
theory Evidence_Shape
  imports Evidence_Wire Project
begin

text \<open>
  The shape interpreter of \<^verbatim>\<open>scripts/fv_evidence_v4_schema.py\<close>: shapes (\<open>shape\<close>; a
  \<^verbatim>\<open>str\<close> naming an entry of the table \<^verbatim>\<open>S\<close> is \<open>Named\<close> with that entry, so that the
  acyclic table needs no lookup), the scalar kinds (\<open>base\<close>), and \<open>validate_shape\<close>, the function
  \<^verbatim>\<open>_validate\<close>. A key that ends in a question mark is optional.

  \<^verbatim>\<open>\d\<close> and \<^verbatim>\<open>int\<close> accept every Unicode decimal digit; the value of those above 127 is
  the parameter \<open>ud\<close>.
\<close>

subsection \<open>Scalars\<close>

definition control_char :: "codepoint \<Rightarrow> bool" where
  "control_char c \<longleftrightarrow> c < 32 \<or> 127 \<le> c \<and> c \<le> 159"

definition v4_path :: "bool \<Rightarrow> bool \<Rightarrow> json \<Rightarrow> v4_error + unit" where
  "v4_path cwd prefix v = rbind (v4_scalar v) (\<lambda>s.
     if cwd \<and> s = str ''.'' then Inr ()
     else
       let name = (if prefix \<and> ends_with s [slash] then butlast s else s) in
       if name = [] \<or> starts_with name [slash] \<or> starts_with name (str ''~'') \<or> List.member name 92 \<or>
          list_ex control_char name \<or>
          list_ex (\<lambda>p. p = [] \<or> p = str ''.'' \<or> p = str ''..'') (split_on slash name)
       then Inl (UnsafePath s) else Inr ())"

text \<open>\<^verbatim>\<open>sorted_unique\<close>, given the key of each entry as a tuple of texts.\<close>

definition sorted_unique :: "pystr list list \<Rightarrow> v4_error + unit" where
  "sorted_unique keys =
     (let encoded = map (map utf8) keys in
      if encoded \<noteq> sort encoded \<or> length (remdups keys) \<noteq> length keys then Inl UnsortedSet else Inr ())"

definition digit_of :: "(codepoint \<Rightarrow> int option) \<Rightarrow> codepoint \<Rightarrow> int option" where
  "digit_of ud c = (if ascii_digit c then Some (c - 48) else if 127 < c then ud c else None)"

text \<open>Matching against a template, in which \<^verbatim>\<open>d\<close> stands for a digit.\<close>

definition utc_match :: "(codepoint \<Rightarrow> int option) \<Rightarrow> pystr \<Rightarrow> bool" where
  "utc_match ud s \<longleftrightarrow>
     list_all2 (\<lambda>t c. if t = 100 then digit_of ud c \<noteq> None else c = t)
       (str ''dddd-dd-ddTdd:dd:dd.dddZ'') s"

definition leap_year :: "int \<Rightarrow> bool" where
  "leap_year y \<longleftrightarrow> y mod 4 = 0 \<and> (y mod 100 \<noteq> 0 \<or> y mod 400 = 0)"

definition days_in_month :: "int \<Rightarrow> int \<Rightarrow> int" where
  "days_in_month y m =
     (if m = 2 then (if leap_year y then 29 else 28)
      else if m = 4 \<or> m = 6 \<or> m = 9 \<or> m = 11 then 30 else 31)"

definition number_at :: "(codepoint \<Rightarrow> int option) \<Rightarrow> pystr \<Rightarrow> nat \<Rightarrow> nat \<Rightarrow> int" where
  "number_at ud s i n = foldl (\<lambda>v c. 10 * v + (case digit_of ud c of Some d \<Rightarrow> d | None \<Rightarrow> 0)) 0 (take n (drop i s))"

text \<open>What \<^verbatim>\<open>datetime.strptime\<close> accepts of a text that matches the template: the expressions of its
  directives take any digit for the year and after a free leading digit, ASCII ones elsewhere.\<close>

definition calendar_ok :: "(codepoint \<Rightarrow> int option) \<Rightarrow> pystr \<Rightarrow> bool" where
  "calendar_ok ud s \<longleftrightarrow>
     (let ascii = (\<lambda>i. ascii_digit (s ! i));
          y = number_at ud s 0 4; mo = number_at ud s 5 2; d = number_at ud s 8 2;
          h = number_at ud s 11 2; mi = number_at ud s 14 2; se = number_at ud s 17 2
      in 1 \<le> y \<and>
         ascii 5 \<and> ascii 6 \<and> 1 \<le> mo \<and> mo \<le> 12 \<and>
         ascii 8 \<and> (s ! 8 = 49 \<or> s ! 8 = 50 \<or> ascii 9) \<and> 1 \<le> d \<and> d \<le> days_in_month y mo \<and>
         ascii 11 \<and> (s ! 11 = 48 \<or> s ! 11 = 49 \<or> ascii 12) \<and> h \<le> 23 \<and>
         ascii 14 \<and> mi \<le> 59 \<and>
         ascii 17 \<and> se \<le> 59 \<and>
         ascii 20 \<and> ascii 21 \<and> ascii 22)"

definition v4_utc :: "(codepoint \<Rightarrow> int option) \<Rightarrow> json \<Rightarrow> v4_error + unit" where
  "v4_utc ud v = (case v of
       JStr s \<Rightarrow> if utc_match ud s \<and> calendar_ok ud s then Inr () else Inl InvalidUtc
     | _ \<Rightarrow> Inl InvalidUtc)"

subsection \<open>Shapes\<close>

datatype base =
    KStr | KText | KNonempty | KResource | KId | KTool | KHash | KUuid | KEnvname | KHex64 | KRevision
  | KPath | KCwd | KPrefix | KUtc | KPointer
  | KUint | KPos | KExit | KBool | KCmd | KObject | KEnvmap

datatype shape =
    Base base
  | Named string shape
  | Obj "(string \<times> shape) list"
  | Enum "json list"
  | Array shape nat
  | Nullable shape
  | Union "shape list"

definition optional_key :: "string \<Rightarrow> bool" where
  "optional_key k \<longleftrightarrow> k \<noteq> [] \<and> last k = CHR ''?''"

text \<open>\<^verbatim>\<open>key.rstrip("?")\<close>\<close>

definition bare_key :: "string \<Rightarrow> string" where
  "bare_key k = rev (dropWhile (\<lambda>c. c = CHR ''?'') (rev k))"

text \<open>The regular expressions.\<close>

definition uuid_match :: "pystr \<Rightarrow> bool" where
  "uuid_match s \<longleftrightarrow>
     list_all2 (\<lambda>t c. if t = 120 then hex_digit c
                      else if t = 121 then List.member (str ''89ab'') c else c = t)
       (str ''xxxxxxxx-xxxx-4xxx-yxxx-xxxxxxxxxxxx'') s"

definition envname_match :: "pystr \<Rightarrow> bool" where
  "envname_match s \<longleftrightarrow> (case s of [] \<Rightarrow> False
     | c # cs \<Rightarrow> (ascii_alnum c \<or> c = 95) \<and> \<not> ascii_digit c \<and> list_all (\<lambda>d. ascii_alnum d \<or> d = 95) cs)"

definition hash_match :: "pystr \<Rightarrow> bool" where
  "hash_match s \<longleftrightarrow> starts_with s (str ''sha256:'') \<and> hex64 (drop 7 s)"

text \<open>No tilde that is not followed by 0 or 1.\<close>

fun tilde_escaped :: "pystr \<Rightarrow> bool" where
  "tilde_escaped [] \<longleftrightarrow> True"
| "tilde_escaped (c # s) \<longleftrightarrow> (c = 126 \<longrightarrow> take 1 s = [48] \<or> take 1 s = [49]) \<and> tilde_escaped s"

definition valid_text :: "base \<Rightarrow> pystr \<Rightarrow> bool" where
  "valid_text k s \<longleftrightarrow> (case k of
       KText \<Rightarrow> s \<noteq> [] \<and> \<not> List.member s 0
     | KNonempty \<Rightarrow> s \<noteq> []
     | KResource \<Rightarrow> s \<noteq> [] \<and> \<not> list_ex control_char s
     | KId \<Rightarrow> id_match (str ''._-'') s
     | KTool \<Rightarrow> id_match (str ''._:+/-'') s
     | KHash \<Rightarrow> hash_match s
     | KUuid \<Rightarrow> uuid_match s
     | KEnvname \<Rightarrow> envname_match s
     | KHex64 \<Rightarrow> hex64 s
     | KRevision \<Rightarrow> length s = 40 \<and> list_all hex_digit s \<or> hex64 s
     | KPointer \<Rightarrow> s = [] \<or> starts_with s [slash] \<and> tilde_escaped s
     | _ \<Rightarrow> True)"

definition validate_text :: "(codepoint \<Rightarrow> int option) \<Rightarrow> base \<Rightarrow> json \<Rightarrow> pystr \<Rightarrow> v4_error + unit" where
  "validate_text ud k v lab = rbind (v4_scalar v) (\<lambda>s. case k of
       KPath \<Rightarrow> v4_path False False v
     | KCwd \<Rightarrow> v4_path True False v
     | KPrefix \<Rightarrow> v4_path False True v
     | KUtc \<Rightarrow> v4_utc ud v
     | _ \<Rightarrow> require_that (valid_text k s) (BadShape lab))"

definition int_within :: "int \<Rightarrow> json \<Rightarrow> bool" where
  "int_within low v \<longleftrightarrow> (case v of JInt i \<Rightarrow> low \<le> i \<and> i \<le> max_integer | _ \<Rightarrow> False)"

definition validate_base :: "(codepoint \<Rightarrow> int option) \<Rightarrow> base \<Rightarrow> json \<Rightarrow> pystr \<Rightarrow> v4_error + unit" where
  "validate_base ud k v lab = (case k of
       KUint \<Rightarrow> require_that (int_within 0 v) (BadShape lab)
     | KPos \<Rightarrow> require_that (int_within 1 v) (BadShape lab)
     | KExit \<Rightarrow> require_that (int_within (- max_integer) v) (BadShape lab)
     | KBool \<Rightarrow> require_that (case v of JBool _ \<Rightarrow> True | _ \<Rightarrow> False) (BadShape lab)
     | KCmd \<Rightarrow> (case v of
           JArr (x # xs) \<Rightarrow> each (\<lambda>e. validate_text ud KText e lab) (x # xs)
         | _ \<Rightarrow> Inl (BadShape lab))
     | KObject \<Rightarrow> require_that (as_obj v \<noteq> None) (BadShape lab)
     | KEnvmap \<Rightarrow> (case v of
           JObj fs \<Rightarrow>
             rbind (each (\<lambda>(n, e). rbind (validate_text ud KEnvname (JStr n) lab) (\<lambda>_.
                                    validate_text ud KStr e lab)) fs) (\<lambda>_.
             require_that (list_all (\<lambda>(n, e). case e of JStr t \<Rightarrow> \<not> List.member t 0 | _ \<Rightarrow> True) fs) (BadShape lab))
         | _ \<Rightarrow> Inl (BadShape lab))
     | _ \<Rightarrow> validate_text ud k v lab)"

fun validate_shape :: "(codepoint \<Rightarrow> int option) \<Rightarrow> shape \<Rightarrow> json \<Rightarrow> pystr \<Rightarrow> v4_error + unit" where
  "validate_shape ud (Base k) v lab = validate_base ud k v lab"
| "validate_shape ud (Named n sh) v lab = validate_shape ud sh v lab"
| "validate_shape ud (Obj decls) v lab = (case v of
       JObj fs \<Rightarrow>
         let required = filter (\<lambda>k. \<not> optional_key k) (map fst decls);
             allowed = map (\<lambda>k. str (bare_key k)) (map fst decls)
         in if \<not> list_all (\<lambda>k. map_of fs (str k) \<noteq> None) required \<or>
               \<not> list_all (\<lambda>(k, x). List.member allowed k) fs
            then Inl (BadShape lab)
            else each (\<lambda>(k, sh). case map_of fs (str (bare_key k)) of
                     None \<Rightarrow> Inr ()
                   | Some x \<Rightarrow> validate_shape ud sh x (lab @ 46 # str (bare_key k))) decls
     | _ \<Rightarrow> Inl (BadShape lab))"
| "validate_shape ud (Enum entries) v lab = require_that (List.member entries v) (BadShape lab)"
| "validate_shape ud (Array sh least) v lab = (case v of
       JArr xs \<Rightarrow>
         if length xs < least then Inl (BadShape lab)
         else each (\<lambda>(i, x). validate_shape ud sh x (lab @ 91 # decimal (int i) @ [93])) (enumerate 0 xs)
     | _ \<Rightarrow> Inl (BadShape lab))"
| "validate_shape ud (Nullable sh) v lab = (if v \<noteq> JNull then validate_shape ud sh v lab else Inr ())"
| "validate_shape ud (Union shapes) v lab =
     (if list_ex (\<lambda>sh. validate_shape ud sh v lab = Inr ()) shapes then Inr () else Inl (BadShape lab))"

text \<open>A time whose year is written in Arabic-Indic digits passes.\<close>

lemma foreign_year_accepted:
  "v4_utc (\<lambda>c. if 1632 \<le> c \<and> c \<le> 1641 then Some (c - 1632) else None)
     (JStr ([1634, 1632, 1634, 1638] @ str ''-01-01T00:00:00.000Z'')) = Inr ()"
  by code_simp

section \<open>Paths\<close>

lemma normalize_from_plain:
  "\<forall>p \<in> set ps. p \<noteq> str ''.'' \<and> p \<noteq> str ''..'' \<Longrightarrow> normalize_from a acc ps = rev acc @ ps"
  by (induction ps arbitrary: acc) auto

lemma normalize_path_plain:
  assumes "\<forall>p \<in> set ps. p \<noteq> str ''.'' \<and> p \<noteq> str ''..''"
  shows "normalize_path ps = ps"
  unfolding normalize_path_def Let_def normalize_from_plain [OF assms] by simp

lemma split_on_first_char:
  "starts_with (hd (split_on sep s)) (c # p) \<Longrightarrow> starts_with s [c]"
proof (cases s)
  case (Cons d t)
  assume "starts_with (hd (split_on sep s)) (c # p)"
  then show ?thesis using Cons
    by (cases "split_on sep t") (auto simp: starts_with_iff split: if_splits)
qed (simp add: starts_with_def)

text \<open>The name a path stands for: a prefix may end in a slash.\<close>

abbreviation path_name :: "bool \<Rightarrow> pystr \<Rightarrow> pystr" where
  "path_name prefix s \<equiv> (if prefix \<and> ends_with s [slash] then butlast s else s)"

lemma v4_path_name:
  assumes "v4_path cwd prefix (JStr s) = Inr ()"
  shows "cwd \<and> s = str ''.'' \<or> \<not> starts_with (path_name prefix s) [slash] \<and>
     \<not> starts_with (path_name prefix s) (str ''~'') \<and> path_name prefix s \<noteq> [] \<and>
     (\<forall>p \<in> set (split_on slash (path_name prefix s)). p \<noteq> [] \<and> p \<noteq> str ''.'' \<and> p \<noteq> str ''..'')"
proof (cases "cwd \<and> s = str ''.''")
  case False
  let ?bad = "path_name prefix s = [] \<or> starts_with (path_name prefix s) [slash] \<or>
      starts_with (path_name prefix s) (str ''~'') \<or> List.member (path_name prefix s) 92 \<or>
      list_ex control_char (path_name prefix s) \<or>
      list_ex (\<lambda>p. p = [] \<or> p = str ''.'' \<or> p = str ''..'') (split_on slash (path_name prefix s))"
  obtain u where u: "v4_scalar (JStr s) = Inr u" "(if cwd \<and> u = str ''.'' then Inr ()
       else let name = (if prefix \<and> ends_with u [slash] then butlast u else u) in
         if name = [] \<or> starts_with name [slash] \<or> starts_with name (str ''~'') \<or> List.member name 92 \<or>
            list_ex control_char name \<or>
            list_ex (\<lambda>p. p = [] \<or> p = str ''.'' \<or> p = str ''..'') (split_on slash name)
         then Inl (UnsafePath u) else Inr ()) = Inr ()"
    using assms unfolding v4_path_def rbind_Inr_iff by blast
  then have "u = s" by (simp only: scalar_Inr json.inject)
  then have "(if ?bad then Inl (UnsafePath s) else Inr ()) = Inr ()"
    using u(2) unfolding Let_def by (simp only: if_not_P [OF False])
  then have "\<not> ?bad" by (auto split: if_splits)
  then show ?thesis by (auto simp: list_ex_iff)
qed simp

lemma path_name_components:
  assumes "\<forall>p \<in> set (split_on slash (path_name prefix s)). p \<noteq> [] \<and> p \<noteq> str ''.'' \<and> p \<noteq> str ''..''"
  shows "components s = split_on slash (path_name prefix s)"
proof (cases "prefix \<and> ends_with s [slash]")
  case True
  then have "s = butlast s @ slash # []" by (auto simp: ends_with_iff)
  then have "split_on slash s = split_on slash (butlast s) @ [[]]"
    by (metis split_on.simps(1) split_on_append_sep)
  with True assms show ?thesis by (simp add: components_def)
next
  case False
  then have name: "path_name prefix s = s" by auto
  show ?thesis using assms unfolding components_def name by (intro filter_True) blast
qed

lemma path_resolves:
  assumes "v4_path cwd prefix (JStr s) = Inr ()" "resolved_root base"
  shows "\<exists>ws. path_parts s = ws \<and> expanduser home s = Inr ws \<and> normalize_path (under base ws) = base @ ws \<and>
     str ''..'' \<notin> set (base @ ws) \<and> posix ws = path_name prefix s"
proof -
  have base: "\<forall>p \<in> set base. p \<noteq> str ''.'' \<and> p \<noteq> str ''..''"
    using assms(2) by (auto simp: resolved_root_def)
  then have dots: "str ''..'' \<notin> set base" by blast
  show ?thesis
  proof (cases "cwd \<and> s = str ''.''")
    case True
    have "path_parts s = []" "ends_with s [slash] = False"
      using True by (auto simp: path_parts_def is_absolute_def components_def starts_with_def str_def slash_def
          ends_with_def)
    then show ?thesis using True base dots
      by (simp add: expanduser_def posix_def under_def normalize_path_plain)
  next
    case False
    let ?n = "path_name prefix s" and ?ws = "split_on slash (path_name prefix s)"
    have n: "\<not> starts_with ?n [slash]" "\<not> starts_with ?n (str ''~'')" "?n \<noteq> []"
        and ws: "\<forall>p \<in> set ?ws. p \<noteq> [] \<and> p \<noteq> str ''.'' \<and> p \<noteq> str ''..''"
      using v4_path_name [OF assms(1)] False by blast+
    have "\<not> is_absolute s"
    proof
      assume "is_absolute s"
      then obtain r where "s = slash # r" by (auto simp: is_absolute_def starts_with_iff str_def slash_def)
      then have "starts_with ?n [slash] \<or> ?n = []" by (cases r) (auto simp: starts_with_def)
      with n show False by blast
    qed
    then have parts: "path_parts s = ?ws"
      using path_name_components [OF ws] by (simp add: path_parts_def)
    have "\<not> starts_with (hd ?ws) (str ''~'')"
      using n(2) split_on_first_char [of slash ?n 126 "[]"] by (auto simp: str_def)
    then have home: "expanduser home s = Inr ?ws" by (simp add: expanduser_def parts Let_def)
    have "slash \<notin> set (hd ?ws)" by (rule split_on_no_sep [OF hd_in_set [OF split_on_ne]])
    moreover have "slash \<in> set (str ''/'')" "slash \<in> set (str ''//'')" by (simp_all add: str_def slash_def)
    ultimately have "hd ?ws \<noteq> str ''/''" "hd ?ws \<noteq> str ''//''" by metis+
    then have "under base ?ws = base @ ?ws" by (simp add: under_def)
    moreover have "\<forall>p \<in> set ?ws. p \<noteq> str ''.'' \<and> p \<noteq> str ''..''" using ws by blast
    then have "\<forall>p \<in> set (base @ ?ws). p \<noteq> str ''.'' \<and> p \<noteq> str ''..''"
      using base unfolding set_append ball_Un by (rule conjI [rotated])
    then have "normalize_path (base @ ?ws) = base @ ?ws" by (rule normalize_path_plain)
    ultimately have resolved: "normalize_path (under base ?ws) = base @ ?ws" by simp
    have "str ''/'' = [slash]" by (simp add: str_def slash_def)
    then have written: "posix ?ws = ?n" by (simp add: posix_def)
    have "str ''..'' \<notin> set ?ws" using ws by blast
    with dots have no_dots: "str ''..'' \<notin> set (base @ ?ws)" by (simp only: set_append Un_iff not_False_eq_True simp_thms)
    show ?thesis by (intro exI [of _ ?ws] conjI parts home resolved no_dots written)
  qed
qed

section \<open>Ordered sets\<close>

lemma code_order_lift:
  "list_all (list_all code_ok) a \<Longrightarrow> list_all (list_all code_ok) b \<Longrightarrow> map utf8 a \<le> map utf8 b \<longleftrightarrow> a \<le> b"
proof (induction a arbitrary: b)
  case (Cons x a)
  show ?case
  proof (cases b)
    case (Cons y b')
    with Cons.IH [of b'] Cons.prems show ?thesis
      using utf8_less_iff [of x y] utf8_inj [of x y] by auto
  qed simp
qed simp

lemma sorted_unique_iff:
  assumes "list_all (list_all (list_all code_ok)) keys"
  shows "sorted_unique keys = Inr () \<longleftrightarrow> sorted_wrt (<) keys"
proof -
  have "sorted (map (map utf8) keys) \<longleftrightarrow> sorted keys"
    using assms
  proof (induction keys)
    case (Cons k ks)
    then show ?case by (auto simp: list_all_iff code_order_lift [unfolded list_all_iff])
  qed simp
  moreover have "sort (map (map utf8) keys) = map (map utf8) keys \<longleftrightarrow> sorted (map (map utf8) keys)"
    by (metis sorted_sort sort_key_id_if_sorted list.map_ident)
  moreover have "length (remdups keys) = length keys \<longleftrightarrow> distinct keys"
    by (metis length_remdups_card_conv card_distinct distinct_card)
  ultimately show ?thesis
    unfolding sorted_unique_def Let_def strict_sorted_iff by auto
qed

section \<open>Shapes as a specification\<close>

text \<open>What it means that a value has a shape, without labels, order of checks or early returns.\<close>

inductive conforms :: "(codepoint \<Rightarrow> int option) \<Rightarrow> shape \<Rightarrow> json \<Rightarrow> bool" for ud where
  conforms_base: "validate_base ud k v [] = Inr () \<Longrightarrow> conforms ud (Base k) v"
| conforms_named: "conforms ud sh v \<Longrightarrow> conforms ud (Named n sh) v"
| conforms_obj: "(\<And>k sh x. (k, sh) \<in> set decls \<Longrightarrow> map_of fs (str (bare_key k)) = Some x \<Longrightarrow> conforms ud sh x) \<Longrightarrow>
    (\<And>k sh. (k, sh) \<in> set decls \<Longrightarrow> map_of fs (str (bare_key k)) = None \<Longrightarrow> optional_key k) \<Longrightarrow>
    fst ` set fs \<subseteq> (\<lambda>(k, sh). str (bare_key k)) ` set decls \<Longrightarrow>
    conforms ud (Obj decls) (JObj fs)"
| conforms_enum: "v \<in> set entries \<Longrightarrow> conforms ud (Enum entries) v"
| conforms_array: "least \<le> length xs \<Longrightarrow> (\<And>x. x \<in> set xs \<Longrightarrow> conforms ud sh x) \<Longrightarrow>
    conforms ud (Array sh least) (JArr xs)"
| conforms_null: "conforms ud (Nullable sh) JNull"
| conforms_nullable: "conforms ud sh v \<Longrightarrow> conforms ud (Nullable sh) v"
| conforms_union: "sh \<in> set shapes \<Longrightarrow> conforms ud sh v \<Longrightarrow> conforms ud (Union shapes) v"

inductive_cases conforms_baseE: "conforms ud (Base k) v"
inductive_cases conforms_namedE: "conforms ud (Named n sh) v"
inductive_cases conforms_objE: "conforms ud (Obj decls) v"
inductive_cases conforms_enumE: "conforms ud (Enum entries) v"
inductive_cases conforms_arrayE: "conforms ud (Array sh least) v"
inductive_cases conforms_nullableE: "conforms ud (Nullable sh) v"
inductive_cases conforms_unionE: "conforms ud (Union shapes) v"

lemma bare_key_required: "\<not> optional_key k \<Longrightarrow> bare_key k = k"
  by (cases k rule: rev_cases) (auto simp: optional_key_def bare_key_def)

lemma validate_text_label: "validate_text ud k v l = Inr () \<longleftrightarrow> validate_text ud k v m = Inr ()"
  by (cases k) (auto simp: validate_text_def)

lemma validate_base_label: "validate_base ud k v l = Inr () \<longleftrightarrow> validate_base ud k v m = Inr ()"
proof -
  have "each (\<lambda>e. validate_text ud KText e l) xs = Inr () \<longleftrightarrow> each (\<lambda>e. validate_text ud KText e m) xs = Inr ()" for xs
    by (simp add: each_Inr_iff validate_text_label [of _ _ _ l m])
  then show ?thesis
    using validate_text_label [of ud _ _ l m]
    by (cases k) (auto simp: validate_base_def each_Inr_iff case_prod_unfold split: json.splits list.splits)
qed

lemma guard_Inr: "(if \<not> a \<or> \<not> b then Inl e else c) = Inr u \<longleftrightarrow> a \<and> b \<and> c = Inr u"
  by auto

lemma validate_obj:
  "validate_shape ud (Obj decls) (JObj fs) lab = Inr () \<longleftrightarrow>
     (\<forall>(k, sh) \<in> set decls. \<not> optional_key k \<longrightarrow> map_of fs (str k) \<noteq> None) \<and>
     fst ` set fs \<subseteq> (\<lambda>(k, sh). str (bare_key k)) ` set decls \<and>
     (\<forall>(k, sh) \<in> set decls. \<forall>x. map_of fs (str (bare_key k)) = Some x \<longrightarrow>
        validate_shape ud sh x (lab @ 46 # str (bare_key k)) = Inr ())"
proof -
  have req: "list_all (\<lambda>k. map_of fs (str k) \<noteq> None) (filter (\<lambda>k. \<not> optional_key k) (map fst decls)) \<longleftrightarrow>
      (\<forall>(k, sh) \<in> set decls. \<not> optional_key k \<longrightarrow> map_of fs (str k) \<noteq> None)"
    by (auto simp: list_all_iff)
  have allowed: "list_all (\<lambda>(k, x). List.member (map (\<lambda>k. str (bare_key k)) (map fst decls)) k) fs \<longleftrightarrow>
      fst ` set fs \<subseteq> (\<lambda>(k, sh). str (bare_key k)) ` set decls"
    unfolding list_all_iff by (simp add: case_prod_unfold image_image image_subset_iff)
  have inner: "each (\<lambda>(k, sh). case map_of fs (str (bare_key k)) of None \<Rightarrow> Inr ()
        | Some x \<Rightarrow> validate_shape ud sh x (lab @ 46 # str (bare_key k))) decls = Inr () \<longleftrightarrow>
      (\<forall>(k, sh) \<in> set decls. \<forall>x. map_of fs (str (bare_key k)) = Some x \<longrightarrow>
         validate_shape ud sh x (lab @ 46 # str (bare_key k)) = Inr ())"
    unfolding each_Inr_iff by (intro ball_cong refl) (simp split: prod.split option.split)
  have step: "validate_shape ud (Obj decls) (JObj fs) lab =
      (if \<not> list_all (\<lambda>k. map_of fs (str k) \<noteq> None) (filter (\<lambda>k. \<not> optional_key k) (map fst decls)) \<or>
          \<not> list_all (\<lambda>(k, x). List.member (map (\<lambda>k. str (bare_key k)) (map fst decls)) k) fs
       then Inl (BadShape lab)
       else each (\<lambda>(k, sh). case map_of fs (str (bare_key k)) of None \<Rightarrow> Inr ()
        | Some x \<Rightarrow> validate_shape ud sh x (lab @ 46 # str (bare_key k))) decls)"
    unfolding validate_shape.simps json.case Let_def ..
  show ?thesis unfolding step guard_Inr req allowed inner ..
qed

lemma shape_conforms: "conforms ud sh v \<Longrightarrow> validate_shape ud sh v lab = Inr ()"
proof (induction arbitrary: lab rule: conforms.induct)
  case (conforms_base k v)
  then show ?case using validate_base_label [of ud k v lab "[]"] by simp
next
  case (conforms_obj decls fs)
  show ?case unfolding validate_obj
    using conforms_obj.hyps(2,3) conforms_obj.IH bare_key_required by (fastforce simp del: validate_shape.simps)
next
  case (conforms_array least xs sh)
  then show ?case by (auto simp: each_Inr_iff in_set_enumerate_eq)
next
  case (conforms_union sh shapes v)
  then show ?case by (auto simp: list_ex_iff)
qed auto

lemma conforms_shape: "validate_shape ud sh v lab = Inr () \<Longrightarrow> conforms ud sh v"
proof (induction ud sh v lab rule: validate_shape.induct)
  case (1 ud k v lab)
  then show ?case using validate_base_label [of ud k v lab "[]"] by (simp add: conforms.intros)
next
  case (3 ud decls v lab)
  then obtain fs where v: "v = JObj fs" by (cases v) auto
  note fields = "3.prems" [unfolded v validate_obj]
  have req: "optional_key k" if "(k, sh) \<in> set decls" "map_of fs (str (bare_key k)) = None" for k sh
    using fields that bare_key_required [of k] by fastforce
  have ok: "\<not> (\<not> list_all (\<lambda>k. map_of fs (str k) \<noteq> None) (filter (\<lambda>k. \<not> optional_key k) (map fst decls)) \<or>
      \<not> list_all (\<lambda>(k, x). List.member (map (\<lambda>k. str (bare_key k)) (map fst decls)) k) fs)"
    using "3.prems" unfolding v validate_shape.simps json.case Let_def by (auto split: if_splits)
  have inner: "conforms ud sh x" if "(k, sh) \<in> set decls" "map_of fs (str (bare_key k)) = Some x" for k sh x
    using fields "3.IH" [OF v refl refl ok that(1) refl that(2)] that by fastforce
  show ?case unfolding v
    by (rule conforms_obj [OF inner req fields [THEN conjunct2, THEN conjunct1]])
next
  case (5 ud sh least v lab)
  then obtain xs where v: "v = JArr xs" by (cases v) auto
  then have len: "least \<le> length xs" and
    each: "each (\<lambda>(i, x). validate_shape ud sh x (lab @ 91 # decimal (int i) @ [93])) (enumerate 0 xs) = Inr ()"
    using "5.prems" by (auto split: if_splits)
  have "conforms ud sh x" if "x \<in> set xs" for x
  proof -
    obtain i where "i < length xs" "xs ! i = x" using \<open>x \<in> set xs\<close> by (auto simp: in_set_conv_nth)
    then have i: "(i, x) \<in> set (enumerate 0 xs)" by (simp add: in_set_enumerate_eq)
    then have "validate_shape ud sh x (lab @ 91 # decimal (int i) @ [93]) = Inr ()"
      using each by (fastforce simp: each_Inr_iff)
    then show ?thesis using "5.IH" [OF v _ i refl] len by simp
  qed
  then show ?case unfolding v using len by (simp add: conforms_array)
qed (auto simp: list_ex_iff intro: conforms.intros split: if_splits)

text \<open>C17. The shape interpreter decides conformance: under any label it accepts a value exactly when
  the value has the shape, so the order of the checks, the early returns of alternatives and
  the labels of the messages decide nothing.\<close>

theorem validate_decides_conformance: "validate_shape ud sh v lab = Inr () \<longleftrightarrow> conforms ud sh v"
  using conforms_shape shape_conforms by blast

text \<open>C16. A path of a record names one place of the project, the root or below it. A path the v4
  grammar accepts (for a prefix: up to its last slash) is already the repository-relative name
  the resolution of \<^verbatim>\<open>fv_project\<close> would give it: below any resolved root it normalises to the root
  and its own parts, without a parent step, whatever the home directories are. Nothing is said of
  what exists there.\<close>

theorem v4_path_is_canonical:
  assumes "v4_path cwd prefix (JStr s) = Inr ()" "resolved_root base"
  shows "repo_relative home base s = Inr (path_name prefix s) \<and>
    (\<exists>ws. normalize_path (candidate_parts base s) = base @ ws \<and> str ''..'' \<notin> set (base @ ws) \<and>
       posix ws = path_name prefix s)"
proof -
  obtain ws where ws: "path_parts s = ws" "expanduser home s = Inr ws" "normalize_path (under base ws) = base @ ws"
      "str ''..'' \<notin> set (base @ ws)" "posix ws = path_name prefix s"
    using path_resolves [OF assms, of home] by blast
  then have "repo_relative home base s = Inr (path_name prefix s)"
    by (simp add: repo_relative_def contained_def Let_def)
  with ws show ?thesis by blast
qed

theorem v4_path_is_canonical_witness:
  "repo_relative (\<lambda>h. h) (map str [''/'', ''p'']) (str ''quint/specs/'') = Inr (str ''quint/specs'')"
proof -
  have a: "v4_path False True (JStr (str ''quint/specs/'')) = Inr ()" by code_simp
  have b: "resolved_root (map str [''/'', ''p''])" by (auto simp: resolved_root_def str_def slash_def)
  have c: "path_name True (str ''quint/specs/'') = str ''quint/specs''" by code_simp
  show ?thesis using v4_path_is_canonical [OF a b, of "\<lambda>h. h"] unfolding c by (rule conjunct1)
qed

end
