(* ===== verification/Evidence_Records.thy ===== *)
theory Evidence_Records
  imports Evidence_Shape
begin

text \<open>
  The shape table \<^verbatim>\<open>S\<close> of \<^verbatim>\<open>scripts/fv_evidence_v4_schema.py\<close>, entry by entry under the
  entry's own name, with the shapes the script names by constants. An entry precedes its
  uses here; in the script names are looked up when a value is validated.
\<close>

definition evidence_classes :: "json list" where
  "evidence_classes = [jtext ''code-enforced'',
     jtext ''proof-discharged'',
     jtext ''bounded-checked'',
     jtext ''test-witnessed'',
     jtext ''conformance-tested'']"

definition adapters :: "json list" where
  "adapters = [jtext ''python-runtime'',
     jtext ''quint-backends'',
     jtext ''cargo-toolchain'',
     jtext ''kani-toolchain'',
     jtext ''lean-toolchain'',
     jtext ''darwin-native'',
     jtext ''node-toolchain'']"

definition member_shape :: shape where
  "member_shape = Obj [(''claim_id'', Base KId), (''slot_id'', Base KId), (''tool'', Base KTool)]"

definition slot_shape :: shape where
  "slot_shape = Obj [(''claim_id'', Base KId), (''slot_id'', Base KId)]"

definition binding_shape :: shape where
  "binding_shape = Obj [(''path'', Base KPath), (''pointer'', Base KPointer)]"

definition state_shape :: shape where
  "state_shape = Enum [jtext ''PASS'', jtext ''FAIL'', jtext ''ERROR'', jtext ''CANCELLED'', jtext ''MISSING'']"

definition result_shape :: shape where
  "result_shape = Enum [jtext ''PASS'', jtext ''FAIL'', jtext ''ERROR'', jtext ''CANCELLED'']"

definition termination_shape :: shape where
  "termination_shape = Obj [
     (''exit_code'', Nullable (Base KExit)),
     (''signal'', Nullable (Base KText)),
     (''timed_out'', Base KBool),
     (''cancelled'', Base KBool)]"

definition locator_shape :: shape where
  "locator_shape = Named ''Locator'' (
    Union [Obj [
           (''mode'', Enum [jtext ''command'', jtext ''path'']),
           (''value'', Base KText)],
        Obj [
           (''mode'', Enum [jtext ''command-relative'']),
           (''value'', Base KText),
           (''parent_levels'', Base KUint),
           (''subpath'', Base KCwd)],
        Obj [
           (''mode'', Enum [jtext ''adapter'']),
           (''value'', Enum adapters),
           (''cwd'', Base KCwd),
           (''subject'', Base KCmd)]])"

definition producer_locator_shape :: shape where
  "producer_locator_shape = Named ''ProducerLocator'' (
    Obj [
       (''mode'', Enum [jtext ''adapter'']),
       (''value'', Enum [jtext ''producer-runtime'']),
       (''cwd'', Enum [jtext ''.'']),
       (''subject'', Enum [JArr [jtext ''fv_evidence_run'']])])"

definition trust_assumptions_shape :: shape where
  "trust_assumptions_shape = Named ''TrustAssumptions'' (
    Obj [
       (''no_concurrent_mutation'', Enum [JBool True]),
       (''build_cache_integrity'', Enum [jtext ''upstream-build-system'']),
       (''retained_history_integrity'', Enum [jtext ''trusted-producer-store''])])"

definition check_shape :: shape where
  "check_shape = Named ''Check'' (
    Obj [
       (''id'', Base KId),
       (''command'', Base KCmd),
       (''cwd'', Base KCwd),
       (''resources'', Array (Base KResource) 0),
       (''toolchain'', Array (Base KId) 0),
       (''timeout_seconds'', Nullable (Base KPos))])"

definition tool_declaration_shape :: shape where
  "tool_declaration_shape = Named ''ToolDeclaration'' (
    Obj [
       (''id'', Base KId),
       (''kind'', Enum [jtext ''executable'', jtext ''file'', jtext ''tree'']),
       (''locator'', locator_shape),
       (''version_command'', Nullable (Base KCmd)),
       (''version_cwd'', Nullable (Base KCwd)),
       (''requires'', Array (Base KId) 0),
       (''accept'', Obj [
           (''sha256'', Array (Base KHash) 0),
           (''version_contains'', Array (Base KNonempty) 0)])])"

definition recipe_shape :: shape where
  "recipe_shape = Named ''Recipe'' (
    Obj [
       (''recipe_id'', Base KId),
       (''command'', Base KCmd),
       (''cwd'', Base KCwd),
       (''evidence_class'', Enum evidence_classes),
       (''pass_marker'', Nullable (Base KNonempty)),
       (''timeout_seconds'', Nullable (Base KPos)),
       (''determinism'', Obj [
           (''mode'', Enum [jtext ''fixed'', jtext ''distinct'']),
           (''rationale'', Base KNonempty)]),
       (''source_closure'', Obj [
           (''mode'', Enum [jtext ''prefixes'', jtext ''verified-inputs'']),
           (''prefixes'', Array (Base KPrefix) 0),
           (''basis'', Array (Base KPath) 0)]),
       (''toolchain'', Array (Base KId) 0),
       (''resources'', Array (Base KResource) 0),
       (''exclusive'', Base KBool),
       (''bounds'', Obj [
           (''samples'', Nullable (Base KPos)),
           (''max_steps'', Nullable (Base KPos)),
           (''seed'', Nullable (Base KStr))]),
       (''attestation'', Nullable (Obj [
             (''path'', Base KPath),
             (''pointer'', Base KPointer),
             (''validation'', Enum [jtext ''collector-transitive''])])),
       (''build_cache'', Nullable (Obj [
             (''mode'', Enum [jtext ''upstream-integrity'']),
             (''system'', Enum [jtext ''cargo'', jtext ''lake'', jtext ''node'', jtext ''replay'']),
             (''configuration'', Array (Base KPath) 0),
             (''resources'', Array (Base KResource) 0)])),
       (''ownership_protocol'', Nullable (Enum [jtext ''dossier-quint-private-pipes/v1''])),
       (''retained_environment'', Array (Base KEnvname) 0)])"

definition policy_record_shape :: shape where
  "policy_record_shape = Named ''PolicyRecord'' (
    Obj [
       (''claim_id'', Base KId),
       (''required'', Base KBool),
       (''evidence_class'', Enum evidence_classes),
       (''scope'', Base KNonempty),
       (''executions'', Array (Obj [
             (''slot_id'', Base KId),
             (''recipe_id'', Base KId),
             (''tool'', Base KTool),
             (''observation_binding'', binding_shape)]) 1)])"

definition policy_shape :: shape where
  "policy_shape = Named ''Policy'' (
    Obj [
       (''schema_version'', Enum [jtext ''fv-execution-policy/v1'']),
       (''policy_id'', Base KId),
       (''verified_inputs'', Enum [jtext ''.fv/verified-inputs.txt'']),
       (''intent_path'', Base KPath),
       (''manifest_path'', Enum [jtext ''.fv/obligations.json'']),
       (''definition_files'', Array (Base KPath) 0),
       (''environment'', Obj [
           (''mode'', Enum [jtext ''sanitized'']),
           (''platforms'', Array (Obj [(''os'', Base KText), (''arch'', Base KText)]) 1),
           (''inherit'', Array (Base KEnvname) 0),
           (''set'', Base KEnvmap),
           (''identity'', Array (Base KEnvname) 0)]),
       (''toolchains'', Array (tool_declaration_shape) 0),
       (''preflight'', Array (check_shape) 0),
       (''claim_checker'', check_shape),
       (''recipes'', Array (recipe_shape) 1),
       (''records'', Array (policy_record_shape) 1),
       (''jobs'', Obj [(''default'', Enum [JInt 2]), (''max'', Base KPos)]),
       (''trust_assumptions'', trust_assumptions_shape)])"

definition source_file_shape :: shape where
  "source_file_shape = Named ''SourceFile'' (
    Obj [
       (''path'', Base KPath),
       (''hash'', Base KHash),
       (''size'', Base KUint),
       (''executable'', Base KBool)])"

definition input_state_shape :: shape where
  "input_state_shape = Named ''InputState'' (
    Obj [
       (''verified_inputs_policy_hash'', Base KHash),
       (''inventory_hash'', Base KHash),
       (''source_snapshot'', Base KHash),
       (''clean'', Base KBool),
       (''files'', Array (source_file_shape) 0)])"

definition closure_shape :: shape where
  "closure_shape = Named ''Closure'' (
    Obj [
       (''mode'', Enum [jtext ''prefixes'', jtext ''verified-inputs'']),
       (''prefixes'', Array (Base KPrefix) 0),
       (''basis'', Array (Base KPath) 0),
       (''files'', Array (source_file_shape) 0),
       (''hash'', Base KHash)])"

definition environment_identity_shape :: shape where
  "environment_identity_shape = Named ''EnvironmentIdentity'' (
    Obj [
       (''os'', Base KText),
       (''arch'', Base KText),
       (''release'', Base KText),
       (''variables'', Array (Obj [
             (''name'', Base KEnvname),
             (''present'', Base KBool),
             (''value_hash'', Nullable (Base KHash))]) 0)])"

definition tool_file_shape :: shape where
  "tool_file_shape = Named ''ToolFile'' (
    Union [Obj [
           (''path'', Base KCwd),
           (''kind'', Enum [jtext ''file'']),
           (''hash'', Base KHash),
           (''size'', Base KUint),
           (''executable'', Base KBool)],
        Obj [(''path'', Base KCwd), (''kind'', Enum [jtext ''directory''])],
        Obj [
           (''path'', Base KCwd),
           (''kind'', Enum [jtext ''symlink-file'']),
           (''target'', Base KText),
           (''resolved_path'', Base KCwd),
           (''resolved_hash'', Base KHash),
           (''resolved_size'', Base KUint),
           (''executable'', Base KBool)],
        Obj [
           (''path'', Base KCwd),
           (''kind'', Enum [jtext ''symlink-directory'']),
           (''target'', Base KText),
           (''resolved_path'', Base KCwd),
           (''resolved_hash'', Base KHash)]])"

definition package_identity_shape :: shape where
  "package_identity_shape = Named ''PackageIdentity'' (
    Obj [
       (''name'', Base KNonempty),
       (''version'', Base KNonempty),
       (''source'', Union [Obj [
               (''kind'', Enum [jtext ''registry'']),
               (''id'', Base KNonempty),
               (''checksum'', Base KHex64)],
            Obj [
               (''kind'', Enum [jtext ''git'']),
               (''id'', Base KNonempty),
               (''revision'', Base KRevision)],
            Obj [(''kind'', Enum [jtext ''path'']), (''path'', Base KCwd)]])])"

definition probe_fields :: "(string \<times> shape) list" where
  "probe_fields = [
     (''command'', Base KCmd),
     (''cwd'', Base KCwd),
     (''stdout_hash'', Base KHash),
     (''stderr_hash'', Base KHash),
     (''exit_code'', Base KExit)]"

abbreviation probe_shape :: shape where
  "probe_shape \<equiv> Obj probe_fields"

definition tool_identity_shape :: shape where
  "tool_identity_shape = Named ''ToolIdentity'' (
    Obj [
       (''id'', Base KId),
       (''kind'', Enum [jtext ''executable'', jtext ''file'', jtext ''tree'']),
       (''locator'', Union [locator_shape,
            producer_locator_shape]),
       (''digest'', Base KHash),
       (''files'', Array (tool_file_shape) 1),
       (''packages'', Array (package_identity_shape) 0),
       (''version'', Nullable (Obj (probe_fields @ [(''text'', Base KStr)]))),
       (''discovery'', Array (probe_shape) 0),
       (''system_dependencies'', Obj [
           (''os'', Base KText),
           (''arch'', Base KText),
           (''release'', Base KText),
           (''sdk'', Nullable (Obj [(''version'', Base KText), (''settings_hash'', Base KHash)]))]),
       (''requires'', Array (Base KId) 0)])"

definition build_cache_identity_shape :: shape where
  "build_cache_identity_shape = Named ''BuildCacheIdentity'' (
    Nullable (Obj [
         (''system'', Enum [jtext ''cargo'', jtext ''lake'', jtext ''node'', jtext ''replay'']),
         (''configuration'', Array (Obj [(''path'', Base KPath), (''hash'', Base KHash)]) 0),
         (''namespaces'', Array (Obj [
               (''role'', Base KId),
               (''kind'', Enum [jtext ''selected-path'', jtext ''producer-fresh'']),
               (''identity_hash'', Base KHash)]) 1),
         (''integrity'', Enum [jtext ''upstream-build-system''])]))"

definition common_bindings_shape :: shape where
  "common_bindings_shape = Named ''CommonBindings'' (
    Obj [
       (''policy_path'', Base KPath),
       (''policy_hash'', Base KHash),
       (''intent_path'', Base KPath),
       (''intent_hash'', Base KHash),
       (''manifest_path'', Base KPath),
       (''manifest_hash'', Base KHash),
       (''definition_files'', Array (Obj [(''path'', Base KPath), (''hash'', Base KHash)]) 0),
       (''dispatch_hash'', Nullable (Base KHash)),
       (''required_targets'', Array (Base KId) 0)])"

definition execution_descriptor_shape :: shape where
  "execution_descriptor_shape = Named ''ExecutionDescriptor'' (
    Obj [
       (''schema_version'', Enum [jtext ''fv-execution-descriptor/v1'']),
       (''common'', common_bindings_shape),
       (''recipe'', recipe_shape),
       (''members'', Array (member_shape) 1),
       (''distinct_slot'', Nullable (slot_shape)),
       (''verified_inputs_policy_hash'', Base KHash),
       (''inventory_hash'', Base KHash),
       (''closure'', closure_shape),
       (''environment'', environment_identity_shape),
       (''toolchain'', Array (tool_identity_shape) 1),
       (''build_cache'', build_cache_identity_shape)])"

definition file_ref_shape :: shape where
  "file_ref_shape = Named ''FileRef'' (
    Obj [(''path'', Base KPath), (''hash'', Base KHash), (''size'', Base KUint)])"

definition producer_shape :: shape where
  "producer_shape = Named ''Producer'' (
    Obj [
       (''name'', Enum [jtext ''fv_evidence_run'']),
       (''schema_version'', Enum [jtext ''fv-evidence-run/v4'']),
       (''implementation_hash'', Base KHash),
       (''host_contract'', Enum [jtext ''fv-producer-host/v1''])])"

definition owned_process_shape :: shape where
  "owned_process_shape = Named ''OwnedProcess'' (
    Obj [
       (''pid'', Base KPos),
       (''process_start_id'', Base KText),
       (''process_group'', Base KPos),
       (''session_id'', Base KPos),
       (''parent_pid'', Base KPos)])"

definition spawn_window_shape :: shape where
  "spawn_window_shape = Named ''SpawnWindow'' (
    Obj [
       (''window_id'', Base KUuid),
       (''protocol'', Enum [jtext ''native-direct/v1'', jtext ''dossier-quint-private-pipes/v1'']),
       (''execution_key'', Nullable (Base KHash)),
       (''attempt_id'', Nullable (Base KUuid)),
       (''parent'', Nullable (owned_process_shape)),
       (''state'', Enum [jtext ''pending'', jtext ''active'', jtext ''closed'', jtext ''indeterminate''])])"

definition pending_result_shape :: shape where
  "pending_result_shape = Named ''PendingResult'' (
    Obj [
       (''kind'', Enum [jtext ''execution'', jtext ''observation'']),
       (''execution_key'', Base KHash),
       (''attempt_id'', Base KUuid),
       (''members'', Array (member_shape) 1),
       (''claim_id'', Nullable (Base KId)),
       (''slot_id'', Nullable (Base KId))])"

definition owner_shape :: shape where
  "owner_shape = Named ''Owner'' (
    Obj [
       (''schema_version'', Enum [jtext ''fv-evidence-owner/v1'']),
       (''owner_id'', Base KUuid),
       (''host_id'', Base KHash),
       (''boot_id'', Base KHash),
       (''pid'', Base KPos),
       (''process_start_id'', Base KText),
       (''run_id'', Base KUuid),
       (''created_at'', Base KUtc),
       (''children'', Array (owned_process_shape) 0),
       (''spawn_windows'', Array (spawn_window_shape) 0),
       (''pending_results'', Array (pending_result_shape) 0)])"

definition ownership_receipt_shape :: shape where
  "ownership_receipt_shape = Named ''OwnershipReceipt'' (
    Obj [
       (''schema_version'', Enum [jtext ''fv-execution-ownership/v1'']),
       (''owner_id'', Base KUuid),
       (''children'', Array (Obj [
             (''process'', owned_process_shape),
             (''window_id'', Base KUuid),
             (''registered_at'', Base KUtc),
             (''terminated_at'', Nullable (Base KUtc))]) 0),
       (''spawn_windows'', Array (spawn_window_shape) 0),
       (''protocol_log'', Nullable (file_ref_shape))])"

definition execution_artifact_shape :: shape where
  "execution_artifact_shape = Named ''ExecutionArtifact'' (
    Obj [
       (''schema_version'', Enum [jtext ''fv-execution-artifact/v1'']),
       (''artifact_id'', Base KHash),
       (''execution_key'', Base KHash),
       (''attempt_id'', Base KUuid),
       (''producer'', producer_shape),
       (''descriptor'', execution_descriptor_shape),
       (''started_at'', Base KUtc),
       (''finished_at'', Base KUtc),
       (''source_before'', input_state_shape),
       (''source_after'', Nullable (input_state_shape)),
       (''toolchain_after'', Nullable (Array (tool_identity_shape) 1)),
       (''environment_after'', Nullable (environment_identity_shape)),
       (''stdout'', file_ref_shape),
       (''stderr'', file_ref_shape),
       (''raw_output'', file_ref_shape),
       (''attachments'', Array (file_ref_shape) 0),
       (''ownership'', ownership_receipt_shape),
       (''build_cache_after'', build_cache_identity_shape),
       (''termination'', termination_shape),
       (''marker_matched'', Base KBool),
       (''result'', result_shape),
       (''reason'', Nullable (Base KStr))])"

definition execution_ref_shape :: shape where
  "execution_ref_shape = Named ''ExecutionRef'' (
    Obj [
       (''execution_key'', Base KHash),
       (''artifact_id'', Base KHash),
       (''path'', Base KPath),
       (''hash'', Base KHash)])"

definition history_ref_shape :: shape where
  "history_ref_shape = Named ''HistoryRef'' (
    Obj [
       (''sequence'', Base KPos),
       (''event_id'', Base KHash),
       (''path'', Base KPath),
       (''hash'', Base KHash)])"

definition history_view_shape :: shape where
  "history_view_shape = Named ''HistoryView'' (
    Obj [
       (''head'', Nullable (history_ref_shape)),
       (''events'', Array (history_ref_shape) 0)])"

definition history_event_shape :: shape where
  "history_event_shape = Named ''HistoryEvent'' (
    Obj [
       (''schema_version'', Enum [jtext ''fv-evidence-history/v1'']),
       (''event_id'', Base KHash),
       (''sequence'', Base KPos),
       (''previous'', Nullable (history_ref_shape)),
       (''kind'', Enum [jtext ''execution'', jtext ''observation'', jtext ''indeterminate'']),
       (''execution_key'', Base KHash),
       (''attempt_id'', Base KUuid),
       (''members'', Array (member_shape) 1),
       (''execution'', Nullable (execution_ref_shape)),
       (''claim_id'', Nullable (Base KId)),
       (''slot_id'', Nullable (Base KId)),
       (''observation'', Nullable (file_ref_shape)),
       (''indeterminate_owner'', Nullable (file_ref_shape)),
       (''result'', result_shape)])"

definition observation_shape :: shape where
  "observation_shape = Obj [
     (''check'', file_ref_shape),
     (''response'', Nullable (file_ref_shape)),
     (''result'', result_shape)]"

definition claim_record_shape :: shape where
  "claim_record_shape = Named ''ClaimRecord'' (
    Obj [
       (''schema_version'', Enum [jtext ''fv-evidence-run/v4'']),
       (''record_id'', Base KHash),
       (''run_id'', Base KUuid),
       (''claim_id'', Base KId),
       (''required'', Base KBool),
       (''evidence_class'', Enum evidence_classes),
       (''scope'', Base KNonempty),
       (''common'', common_bindings_shape),
       (''executions'', Array (Obj [
             (''slot_id'', Base KId),
             (''tool'', Base KTool),
             (''recipe_id'', Base KId),
             (''evidence_class'', Enum evidence_classes),
             (''execution'', Nullable (execution_ref_shape)),
             (''state'', state_shape),
             (''reason'', Nullable (Base KStr)),
             (''observation_binding'', binding_shape),
             (''blocking_events'', Array (history_ref_shape) 0),
             (''observation'', Nullable (observation_shape))]) 1),
       (''result'', Enum [jtext ''PASS'', jtext ''FAIL'', jtext ''INCOMPLETE'']),
       (''waiver'', Enum [JNull])])"

definition observation_request_shape :: shape where
  "observation_request_shape = Named ''ObservationRequest'' (
    Obj [
       (''schema_version'', Enum [jtext ''fv-claim-observation-request/v1'']),
       (''request_id'', Base KUuid),
       (''policy_path'', Base KPath),
       (''policy_hash'', Base KHash),
       (''common'', common_bindings_shape),
       (''claim_id'', Base KId),
       (''created_at'', Base KUtc),
       (''slots'', Array (Obj [
             (''slot_id'', Base KId),
             (''tool'', Base KTool),
             (''recipe_id'', Base KId),
             (''execution'', execution_ref_shape),
             (''observation_binding'', binding_shape)]) 1)])"

definition observation_response_shape :: shape where
  "observation_response_shape = Named ''ObservationResponse'' (
    Obj [
       (''schema_version'', Enum [jtext ''fv-claim-observations/v1'']),
       (''request_id'', Base KUuid),
       (''request_hash'', Base KHash),
       (''claim_id'', Base KId),
       (''started_at'', Base KUtc),
       (''finished_at'', Base KUtc),
       (''slots'', Array (Obj [
             (''slot_id'', Base KId),
             (''result'', Enum [jtext ''PASS'', jtext ''FAIL'', jtext ''ERROR'']),
             (''reason'', Nullable (Base KStr)),
             (''observations'', Base KObject)]) 1)])"

definition observation_check_shape :: shape where
  "observation_check_shape = Named ''ObservationCheck'' (
    Obj [
       (''schema_version'', Enum [jtext ''fv-observation-check/v1'']),
       (''request'', file_ref_shape),
       (''response'', Nullable (file_ref_shape)),
       (''started_at'', Base KUtc),
       (''finished_at'', Base KUtc),
       (''termination'', termination_shape),
       (''stdout'', file_ref_shape),
       (''stderr'', file_ref_shape),
       (''source_before'', input_state_shape),
       (''source_after'', Nullable (input_state_shape)),
       (''toolchain'', Array (tool_identity_shape) 1),
       (''result'', result_shape),
       (''reason'', Nullable (Base KStr))])"

definition run_manifest_shape :: shape where
  "run_manifest_shape = Named ''RunManifest'' (
    Obj [
       (''schema_version'', Enum [jtext ''fv-evidence-batch/v1'']),
       (''run_id'', Base KUuid),
       (''policy_path'', Base KPath),
       (''policy_hash'', Base KHash),
       (''common'', common_bindings_shape),
       (''producer'', producer_shape),
       (''trust_assumptions'', trust_assumptions_shape),
       (''history'', history_view_shape),
       (''started_at'', Base KUtc),
       (''finished_at'', Base KUtc),
       (''jobs'', Base KPos),
       (''selected_records'', Array (Base KId) 1),
       (''required_records'', Array (Base KId) 0),
       (''source_before'', Nullable (input_state_shape)),
       (''source_after'', Nullable (input_state_shape)),
       (''preflight'', Obj [
           (''result'', Enum [jtext ''PASS'', jtext ''ERROR'', jtext ''CANCELLED'']),
           (''reason'', Nullable (Base KStr)),
           (''checks'', Array (Obj [
                 (''id'', Base KId),
                 (''result'', Enum [jtext ''PASS'', jtext ''ERROR'', jtext ''CANCELLED'', jtext ''MISSING'']),
                 (''termination'', termination_shape),
                 (''stdout'', Nullable (file_ref_shape)),
                 (''stderr'', Nullable (file_ref_shape)),
                 (''reason'', Nullable (Base KStr))]) 0)]),
       (''work'', Array (Obj [
             (''recipe_id'', Base KId),
             (''distinct_slot'', Nullable (slot_shape)),
             (''execution_key'', Nullable (Base KHash)),
             (''execution'', Nullable (execution_ref_shape)),
             (''state'', state_shape),
             (''cache'', Enum [jtext ''hit'', jtext ''miss'', jtext ''not-checked'']),
             (''reason'', Nullable (Base KStr))]) 0),
       (''claims'', Array (Obj [(''claim_id'', Base KId), (''record'', file_ref_shape)]) 0),
       (''result'', Enum [jtext ''PASS'', jtext ''FAIL'', jtext ''INCOMPLETE'', jtext ''ERROR'', jtext ''CANCELLED'']),
       (''reason'', Nullable (Base KStr))])"

definition current_pointer_shape :: shape where
  "current_pointer_shape = Named ''CurrentPointer'' (
    Obj [
       (''schema_version'', Enum [jtext ''fv-evidence-current/v1'']),
       (''run_id'', Base KUuid),
       (''run'', file_ref_shape)])"

definition v4_call_shape :: shape where
  "v4_call_shape = Named ''V4Call'' (
    Obj [
       (''schema_version'', Enum [jtext ''fv-evidence-run/v4'']),
       (''policy'', Base KPath),
       (''mode'', Enum [jtext ''plan'', jtext ''run'']),
       (''records?'', Array (Base KId) 1),
       (''jobs?'', Base KPos),
       (''resume?'', Base KBool)])"

definition run_result_shape :: shape where
  "run_result_shape = Named ''RunResult'' (
    Obj [
       (''schema_version'', Enum [jtext ''fv-evidence-run-result/v1'']),
       (''result'', Enum [jtext ''PASS'', jtext ''FAIL'', jtext ''INCOMPLETE'', jtext ''ERROR'', jtext ''CANCELLED'']),
       (''run'', Nullable (file_ref_shape)),
       (''manifest'', Nullable (run_manifest_shape)),
       (''publication'', Obj [
           (''state'', Enum [jtext ''not-attempted'', jtext ''pre-replace-error'', jtext ''post-replace-error'', jtext ''durable'']),
           (''candidate'', Nullable (file_ref_shape))]),
       (''reason'', Nullable (Base KStr))])"

definition plan_result_shape :: shape where
  "plan_result_shape = Named ''PlanResult'' (
    Obj [
       (''schema_version'', Enum [jtext ''fv-evidence-plan/v1'']),
       (''policy_path'', Base KPath),
       (''policy_hash'', Base KHash),
       (''result'', Enum [jtext ''READY'', jtext ''ERROR'']),
       (''reason'', Nullable (Base KStr)),
       (''required_records'', Array (Base KId) 0),
       (''selected_records'', Array (Base KId) 0),
       (''canonical_required_targets'', Array (Base KId) 0),
       (''jobs'', Base KPos),
       (''physical_slots'', Array (Obj [
             (''recipe_id'', Base KId),
             (''distinct_slot'', Nullable (slot_shape)),
             (''members'', Array (member_shape) 1),
             (''execution_key'', Nullable (Base KHash)),
             (''resources'', Array (Base KResource) 0),
             (''exclusive'', Base KBool),
             (''cache'', Enum [jtext ''eligible'', jtext ''miss'', jtext ''corrupt'', jtext ''not-checked''])]) 0)])"

end
