(* ===== verification/Evidence_Sets.thy ===== *)
theory Evidence_Sets
  imports Evidence_Records
begin

text \<open>
  The part of \<^verbatim>\<open>scripts/fv_evidence_v4_schema.py\<close> that relates the fields of a value to one
  another: the identities of packages and tools (\<open>package_intrinsics\<close>, \<open>tool_intrinsics\<close> with
  its walk over symbolic links \<open>check_link\<close>), the set arrays and ordered ids (\<open>sets_check\<close>)
  and the entry points \<open>validate\<close> and \<open>validate_call\<close>.

  The script reads fields by subscript after \<^verbatim>\<open>_validate\<close> has accepted the value; the model
  reads with \<open>jsub\<close>, which agrees where the field is there.
\<close>

subsection \<open>Reading entries\<close>

definition text_of :: "json \<Rightarrow> pystr" where
  "text_of v = (case v of JStr s \<Rightarrow> s | _ \<Rightarrow> [])"

definition int_of :: "json \<Rightarrow> int" where
  "int_of v = (case v of JInt i \<Rightarrow> i | _ \<Rightarrow> 0)"

definition items_of :: "json \<Rightarrow> json list" where
  "items_of v = (case v of JArr xs \<Rightarrow> xs | _ \<Rightarrow> [])"

abbreviation field :: "json \<Rightarrow> string \<Rightarrow> pystr" where
  "field v k \<equiv> text_of (jsub v k)"

text \<open>\<^verbatim>\<open>item[k] if isinstance(item, dict) else item\<close>\<close>

definition key_or_self :: "string \<Rightarrow> json \<Rightarrow> pystr" where
  "key_or_self k v = (case v of JObj _ \<Rightarrow> field v k | _ \<Rightarrow> text_of v)"

definition sorted_by :: "(json \<Rightarrow> pystr list) \<Rightarrow> json list \<Rightarrow> v4_error + unit" where
  "sorted_by key xs = sorted_unique (map key xs)"

definition all_different :: "pystr list \<Rightarrow> bool" where
  "all_different ks \<longleftrightarrow> length (remdups ks) = length ks"

subsection \<open>Packages\<close>

text \<open>\<^verbatim>\<open>s.rsplit(c, 1)[-1]\<close> and \<^verbatim>\<open>s.rsplit(c, 1)[0]\<close>\<close>

definition after_last :: "codepoint \<Rightarrow> pystr \<Rightarrow> pystr" where
  "after_last c s = last (split_on c s)"

definition before_last :: "codepoint \<Rightarrow> pystr \<Rightarrow> pystr" where
  "before_last c s = join [c] (butlast (split_on c s))"

definition package_intrinsics :: "json \<Rightarrow> v4_error + unit" where
  "package_intrinsics v =
     (let source = jsub v ''source'' in
      if field source ''kind'' = str ''git'' then
        require_that (List.member (field source ''id'') 35 \<and>
            after_last 35 (field source ''id'') = field source ''revision'')
          (Inconsistent ''PackageIdentity git revision mismatch'')
      else Inr ())"

subsection \<open>Tool identities\<close>

definition entry_path :: "json \<Rightarrow> pystr" where
  "entry_path e = field e ''path''"

definition entry_kind :: "json \<Rightarrow> pystr" where
  "entry_kind e = field e ''kind''"

text \<open>\<^verbatim>\<open>{entry["path"]: entry for entry in files}\<close>: the last entry of a path stands.\<close>

definition by_path :: "json list \<Rightarrow> pystr \<Rightarrow> json option" where
  "by_path files = map_of (rev (map (\<lambda>e. (entry_path e, e)) files))"

definition is_directory :: "json list \<Rightarrow> pystr \<Rightarrow> bool" where
  "is_directory files p \<longleftrightarrow> (case by_path files p of None \<Rightarrow> False | Some e \<Rightarrow> entry_kind e = str ''directory'')"

text \<open>The parents of a path, nearest first.\<close>

fun dirs_of :: "pystr list \<Rightarrow> pystr list" where
  "dirs_of [] = []"
| "dirs_of [w] = []"
| "dirs_of (w # v # ws) = join [slash] (rev (v # ws)) # dirs_of (v # ws)"

definition parent_paths :: "pystr \<Rightarrow> pystr list" where
  "parent_paths p = dirs_of (rev (split_on slash p))"

definition check_parents :: "json list \<Rightarrow> json \<Rightarrow> v4_error + unit" where
  "check_parents files e =
     each (\<lambda>p. require_that (is_directory files p) (Inconsistent ''tool path has missing/non-directory parent''))
       (parent_paths (entry_path e))"

definition is_link :: "json \<Rightarrow> bool" where
  "is_link e \<longleftrightarrow> entry_kind e = str ''symlink-file'' \<or> entry_kind e = str ''symlink-directory''"

definition link_prefix :: "json \<Rightarrow> pystr" where
  "link_prefix e =
     (if field e ''resolved_path'' = str ''.'' then [] else field e ''resolved_path'' @ [slash])"

definition descendants :: "json list \<Rightarrow> json \<Rightarrow> json list" where
  "descendants files e =
     filter (\<lambda>c. entry_path c \<noteq> field e ''resolved_path'' \<and> starts_with (entry_path c) (link_prefix e)) files"

text \<open>\<^verbatim>\<open>{**child, "path": child["path"][len(prefix):]}\<close>\<close>

definition relative_entry :: "pystr \<Rightarrow> json \<Rightarrow> json" where
  "relative_entry prefix c = (case c of
       JObj fs \<Rightarrow> JObj (dset fs (str ''path'') (JStr (drop (length prefix) (entry_path c))))
     | _ \<Rightarrow> c)"

definition directory_listing :: "json list \<Rightarrow> json \<Rightarrow> json" where
  "directory_listing files e =
     obj [(''entries'', JArr (sort_key (\<lambda>c. utf8 (entry_path c))
        (map (relative_entry (link_prefix e)) (descendants files e))))]"

definition file_target_ok :: "json list \<Rightarrow> json \<Rightarrow> bool" where
  "file_target_ok files e \<longleftrightarrow> (case by_path files (field e ''resolved_path'') of
       None \<Rightarrow> False
     | Some t \<Rightarrow> entry_kind t = str ''file'' \<and>
         py_eq (jsub e ''resolved_hash'') (jsub t ''hash'') \<and>
         py_eq (jsub e ''resolved_size'') (jsub t ''size'') \<and>
         py_eq (jsub e ''executable'') (jsub t ''executable''))"

text \<open>A loop whose body may raise, over the set of finished names.\<close>

fun run_each :: "('a \<Rightarrow> 's \<Rightarrow> 'e + 's) \<Rightarrow> 'a list \<Rightarrow> 's \<Rightarrow> 'e + 's" where
  "run_each f [] s = Inr s"
| "run_each f (x # xs) s = rbind (f x s) (run_each f xs)"

text \<open>\<^verbatim>\<open>check_link\<close>: \<open>visiting\<close> holds the links of the calls in progress, the last argument the
  finished ones. The first argument bounds the depth of the calls.\<close>

fun check_link :: "nat \<Rightarrow> (int list \<Rightarrow> pystr) \<Rightarrow> json list \<Rightarrow> pystr list \<Rightarrow> json \<Rightarrow> pystr list \<Rightarrow> v4_error + pystr list"
where
  "check_link 0 sha files visiting e finished = Inl OutOfFuel"
| "check_link (Suc n) sha files visiting e finished =
     (if \<not> is_link e \<or> entry_path e \<in> set finished then Inr finished
      else if entry_path e \<in> set visiting then Inl (Inconsistent ''cyclic tool target-hash graph'')
      else if entry_kind e = str ''symlink-file'' then
        rbind (require_that (file_target_ok files e) (Inconsistent ''tool symlink-file target mismatch'')) (\<lambda>_.
        Inr (entry_path e # finished))
      else
        rbind (require_that (is_directory files (field e ''resolved_path''))
            (Inconsistent ''tool symlink-directory target missing'')) (\<lambda>_.
        rbind (run_each (\<lambda>c. check_link n sha files (entry_path e # visiting) c) (descendants files e) finished)
          (\<lambda>inner.
        rbind (domain_digest sha (str ''tool-directory'') (directory_listing files e)) (\<lambda>d.
        if jsub e ''resolved_hash'' \<noteq> JStr d then Inl (Inconsistent ''tool symlink-directory hash mismatch'')
        else Inr (entry_path e # inner)))))"

definition check_links :: "(int list \<Rightarrow> pystr) \<Rightarrow> json list \<Rightarrow> v4_error + pystr list" where
  "check_links sha files = run_each (check_link (Suc (length files)) sha files []) files []"

definition check_package_root :: "(int list \<Rightarrow> pystr) \<Rightarrow> json list \<Rightarrow> json \<Rightarrow> v4_error + unit" where
  "check_package_root sha files package =
     rbind (domain_digest sha (str ''cargo-package'') package) (\<lambda>d.
     require_that (is_directory files (str ''packages/'' @ drop 7 d))
       (Inconsistent ''source-qualified package root missing''))"

definition tool_intrinsics :: "(int list \<Rightarrow> pystr) \<Rightarrow> json \<Rightarrow> v4_error + unit" where
  "tool_intrinsics sha v =
     (let files = items_of (jsub v ''files'');
          content = obj (map (\<lambda>k. (k, jsub v k)) [''kind'', ''files'', ''packages'', ''system_dependencies'']) in
      rbind (require_that (field v ''kind'' = str ''tree'' \<or>
               (case files of [e] \<Rightarrow> entry_path e = str ''.'' \<and> entry_kind e = str ''file'' | _ \<Rightarrow> False))
             (Inconsistent ''non-tree tool must have one regular root file'')) (\<lambda>_.
      rbind (require_that (field v ''kind'' \<noteq> str ''executable'' \<or>
               (case files of [] \<Rightarrow> False | e # _ \<Rightarrow> truthy (jsub e ''executable'')))
             (Inconsistent ''tool executable bit absent'')) (\<lambda>_.
      rbind (each (check_parents files) files) (\<lambda>_.
      rbind (check_links sha files) (\<lambda>_.
      rbind (each (check_package_root sha files) (items_of (jsub v ''packages''))) (\<lambda>_.
      rbind (domain_digest sha (str ''tool-content'') content) (\<lambda>d.
      rbind (require_that (jsub v ''digest'' = JStr d) (Inconsistent ''tool content digest mismatch'')) (\<lambda>_.
      rbind (require_that (jsub v ''version'' = JNull \<or> jsub (jsub v ''version'') ''exit_code'' = JInt 0)
             (Inconsistent ''tool version probe did not complete successfully'')) (\<lambda>_.
      require_that (list_all (\<lambda>p. jsub p ''exit_code'' = JInt 0) (items_of (jsub v ''discovery'')))
        (Inconsistent ''tool discovery probe did not complete successfully''))))))))))"

subsection \<open>Arrays that stand for sets\<close>

definition set_keys :: "string list" where
  "set_keys = [''resources'', ''requires'', ''inherit'', ''identity'', ''prefixes'', ''basis'', ''sha256'',
     ''retained_environment'', ''configuration'', ''required_targets'', ''required_records'',
     ''selected_records'', ''canonical_required_targets'']"

definition ordered_ids :: "(string \<times> string) list" where
  "ordered_ids = [(''toolchains'', ''id''), (''recipes'', ''recipe_id''), (''records'', ''claim_id''),
     (''preflight'', ''id''), (''checks'', ''id''), (''executions'', ''slot_id''), (''slots'', ''slot_id''),
     (''claims'', ''claim_id'')]"

definition array_rule :: "string \<Rightarrow> json list \<Rightarrow> v4_error + unit" where
  "array_rule k xs =
     (if List.member set_keys k \<or> List.member [''files'', ''attachments'', ''definition_files''] k then
        sorted_by (\<lambda>e. [key_or_self ''path'' e]) xs
      else if k = ''toolchain'' then sorted_by (\<lambda>e. [key_or_self ''id'' e]) xs
      else if k = ''members'' then sorted_by (\<lambda>e. [field e ''claim_id'', field e ''slot_id'']) xs
      else if k = ''platforms'' then sorted_by (\<lambda>e. [field e ''os'', field e ''arch'']) xs
      else if k = ''variables'' then sorted_by (\<lambda>e. [field e ''name'']) xs
      else if k = ''namespaces'' then sorted_by (\<lambda>e. [field e ''role'']) xs
      else if k = ''blocking_events'' then
        (let seqs = map (\<lambda>e. int_of (jsub e ''sequence'')) xs in
         require_that (seqs = sorted_set seqs)
           (Inconsistent ''blocking history references are not unique ordered''))
      else (case map_of ordered_ids k of
          None \<Rightarrow> Inr ()
        | Some ident \<Rightarrow>
            (case xs of
               JObj _ # _ \<Rightarrow>
                 rbind (require_that (all_different (map (\<lambda>e. field e ident) xs))
                   (Inconsistent ''duplicate ordered entry ID'')) (\<lambda>_.
                 require_that (k \<noteq> ''executions'' \<or> all_different (map (\<lambda>e. field e ''tool'') xs))
                   (Inconsistent ''duplicate claim tool''))
             | _ \<Rightarrow> if k = ''records'' then sorted_by (\<lambda>e. [text_of e]) xs else Inr ())))"

definition history_view_ok :: "json \<Rightarrow> bool" where
  "history_view_ok v \<longleftrightarrow>
     (let events = items_of (jsub v ''events'') in
      map (\<lambda>e. jsub e ''sequence'') events = map (\<lambda>i. JInt (int i)) [1..<Suc (length events)] \<and>
      py_eq (jsub v ''head'') (if events = [] then JNull else last events))"

definition named_rule :: "(int list \<Rightarrow> pystr) \<Rightarrow> string \<Rightarrow> json \<Rightarrow> v4_error + unit" where
  "named_rule sha n v =
     (if n = ''Policy'' then
        require_that (2 \<le> int_of (jsub (jsub v ''jobs'') ''max'') \<and>
            jsub (jsub v ''claim_checker'') ''timeout_seconds'' \<noteq> JNull)
          (Inconsistent ''invalid policy job maximum/checker deadline'')
      else if n = ''ToolDeclaration'' then
        rbind (require_that ((jsub v ''version_command'' = JNull) = (jsub v ''version_cwd'' = JNull))
            (Inconsistent ''version command/cwd presence mismatch'')) (\<lambda>_.
        require_that (\<not> (jsub v ''version_command'' = JNull \<and> truthy (jsub (jsub v ''accept'') ''version_contains'')))
          (Inconsistent ''version pin without declared probe''))
      else if n = ''ToolIdentity'' then
        rbind (traverse (domain_digest sha (str ''cargo-package'')) (items_of (jsub v ''packages''))) (\<lambda>ds.
        rbind (sorted_unique (map (\<lambda>d. [d]) ds)) (\<lambda>_. tool_intrinsics sha v))
      else if n = ''PackageIdentity'' then package_intrinsics v
      else if n = ''HistoryView'' then
        require_that (history_view_ok v) (Inconsistent ''history view is not a complete contiguous prefix'')
      else Inr ())"

fun sets_check :: "(int list \<Rightarrow> pystr) \<Rightarrow> (codepoint \<Rightarrow> int option) \<Rightarrow> shape \<Rightarrow> json \<Rightarrow> v4_error + unit"
  and sets_union :: "(int list \<Rightarrow> pystr) \<Rightarrow> (codepoint \<Rightarrow> int option) \<Rightarrow> shape list \<Rightarrow> json \<Rightarrow> v4_error + unit"
where
  "sets_check sha ud (Base k) v = Inr ()"
| "sets_check sha ud (Enum entries) v = Inr ()"
| "sets_check sha ud (Named n sh) v = rbind (sets_check sha ud sh v) (\<lambda>_. named_rule sha n v)"
| "sets_check sha ud (Nullable sh) v = (if v \<noteq> JNull then sets_check sha ud sh v else Inr ())"
| "sets_check sha ud (Array sh least) v = each (\<lambda>x. sets_check sha ud sh x) (items_of v)"
| "sets_check sha ud (Union shapes) v = sets_union sha ud shapes v"
| "sets_check sha ud (Obj decls) v = (case v of
       JObj fs \<Rightarrow> each (\<lambda>(k, sh). case map_of fs (str (bare_key k)) of
           None \<Rightarrow> Inr ()
         | Some x \<Rightarrow> rbind (sets_check sha ud sh x) (\<lambda>_.
             case x of JArr xs \<Rightarrow> array_rule (bare_key k) xs | _ \<Rightarrow> Inr ())) decls
     | _ \<Rightarrow> Inr ())"
| "sets_union sha ud [] v = Inr ()"
| "sets_union sha ud (sh # shs) v =
     (if validate_shape ud sh v (str ''union'') = Inr () then sets_check sha ud sh v else sets_union sha ud shs v)"

subsection \<open>The entry points\<close>

definition shape_label :: "shape \<Rightarrow> pystr" where
  "shape_label sh = (case sh of Named n _ \<Rightarrow> str n | _ \<Rightarrow> str ''value'')"

definition validate :: "(int list \<Rightarrow> pystr) \<Rightarrow> (codepoint \<Rightarrow> int option) \<Rightarrow> shape \<Rightarrow> json \<Rightarrow> v4_error + json" where
  "validate sha ud sh v =
     rbind (grammar None v) (\<lambda>_.
     rbind (validate_shape ud sh v (shape_label sh)) (\<lambda>_.
     rbind (sets_check sha ud sh v) (\<lambda>_. Inr v)))"

definition validate_call :: "(int list \<Rightarrow> pystr) \<Rightarrow> (codepoint \<Rightarrow> int option) \<Rightarrow> json \<Rightarrow> v4_error + json" where
  "validate_call sha ud v =
     rbind (validate sha ud v4_call_shape v) (\<lambda>_.
     rbind (case jsub v ''records'' of JArr xs \<Rightarrow> sorted_by (\<lambda>e. [text_of e]) xs | _ \<Rightarrow> Inr ()) (\<lambda>_. Inr v))"

section \<open>The walk over the links ends\<close>

lemma encode_fuel: "encode v \<noteq> Inl OutOfFuel"
proof (induction v)
  case (JStr s)
  then show ?case using v4_scalar_Inl [of "JStr s"] by (auto simp: rbind_Inl_iff simp del: v4_scalar.simps)
next
  case (JArr xs)
  then have "traverse (\<lambda>x. encode x) ys \<noteq> Inl OutOfFuel" if "set ys \<subseteq> set xs" for ys
    using that by (induction ys) (auto simp: rbind_Inl_iff)
  then show ?case by (auto simp: rbind_Inl_iff)
next
  case (JObj fs)
  let ?f = "\<lambda>(k, x). rbind (v4_scalar (JStr k)) (\<lambda>t. rbind (encode x) (\<lambda>u. Inr (quoted t @ 58 # u)))"
  have key: "v4_scalar (JStr k) \<noteq> Inl OutOfFuel" for k using v4_scalar_Inl [of "JStr k"] by auto
  have "traverse ?f ys \<noteq> Inl OutOfFuel" if "set ys \<subseteq> set fs" for ys
    using that
  proof (induction ys)
    case (Cons kx ys)
    obtain k x where kx: "kx = (k, x)" by force
    then have "encode x \<noteq> Inl OutOfFuel" using JObj.IH [of "(k, x)" x] Cons.prems by simp
    then have "?f kx \<noteq> Inl OutOfFuel" using key [of k] kx by (simp add: rbind_Inl_iff del: v4_scalar.simps)
    with Cons show ?case by (simp add: rbind_Inl_iff del: v4_scalar.simps)
  qed simp
  moreover have "each (\<lambda>(k, x). rbind (v4_scalar (JStr k)) (\<lambda>_. Inr ())) fs \<noteq> Inl OutOfFuel"
    using each_Inl [of "\<lambda>(k, x). rbind (v4_scalar (JStr k)) (\<lambda>_. Inr ())" fs OutOfFuel] key
    by (auto simp: rbind_Inl_iff simp del: v4_scalar.simps)
  ultimately show ?case by (auto simp: rbind_Inl_iff simp del: v4_scalar.simps)
qed auto

lemma domain_digest_fuel: "domain_digest sha l v \<noteq> Inl OutOfFuel"
  by (simp add: domain_digest_def canonical_def rbind_Inl_iff grammar_fuel encode_fuel)

lemma require_that_Inl [simp]: "require_that b e = Inl d \<longleftrightarrow> \<not> b \<and> d = e"
  by (auto simp: require_that_def)

lemma run_each_Inl: "run_each f xs s = Inl e \<Longrightarrow> \<exists>x \<in> set xs. \<exists>t. f x t = Inl e"
  by (induction xs arbitrary: s) (auto simp: rbind_Inl_iff)

definition entry_paths :: "json list \<Rightarrow> pystr set" where
  "entry_paths files = entry_path ` set files"

lemma descendants_subset: "c \<in> set (descendants files e) \<Longrightarrow> c \<in> set files"
  by (simp add: descendants_def)

lemma check_link_fuel:
  "e \<in> set files \<Longrightarrow> card (entry_paths files - set visiting) < n \<Longrightarrow>
   check_link n sha files visiting e finished \<noteq> Inl OutOfFuel"
proof (induction n arbitrary: e visiting finished)
  case (Suc n)
  show ?case
  proof (cases "entry_path e \<in> set visiting")
    case False
    then have "entry_paths files - set (entry_path e # visiting) \<subset> entry_paths files - set visiting"
      using Suc.prems(1) by (auto simp: entry_paths_def)
    then have "card (entry_paths files - set (entry_path e # visiting)) < card (entry_paths files - set visiting)"
      by (intro psubset_card_mono) (simp_all add: entry_paths_def)
    then have "card (entry_paths files - set (entry_path e # visiting)) < n" using Suc.prems(2) by linarith
    then have "run_each (check_link n sha files (entry_path e # visiting)) (descendants files e) t \<noteq> Inl OutOfFuel" for t
      using Suc.IH descendants_subset by (blast dest: run_each_Inl)
    then show ?thesis using False by (simp add: rbind_Inl_iff domain_digest_fuel)
  qed auto
qed simp

lemma check_links_fuel: "check_links sha files \<noteq> Inl OutOfFuel"
proof
  assume "check_links sha files = Inl OutOfFuel"
  then have "run_each (check_link (Suc (length files)) sha files []) files [] = Inl OutOfFuel"
    by (simp only: check_links_def)
  from run_each_Inl [OF this]
  obtain e t where "e \<in> set files" "check_link (Suc (length files)) sha files [] e t = Inl OutOfFuel"
    by (elim bexE exE)
  moreover have "card (entry_paths files) < Suc (length files)"
    unfolding entry_paths_def by (meson card_image_le card_length finite_set le_imp_less_Suc le_trans)
  ultimately show False using check_link_fuel [of e files "[]" "Suc (length files)" sha t]
    by (simp del: check_link.simps)
qed

section \<open>What the walk over the links shows\<close>

text \<open>The links whose recorded hashes a link's own hash depends on.\<close>

definition depends_on :: "json list \<Rightarrow> (pystr \<times> pystr) set" where
  "depends_on files = {(entry_path e, entry_path c) | e c. e \<in> set files \<and>
     entry_kind e = str ''symlink-directory'' \<and> c \<in> set (descendants files e) \<and> is_link c}"

definition link_ok :: "(int list \<Rightarrow> pystr) \<Rightarrow> json list \<Rightarrow> json \<Rightarrow> bool" where
  "link_ok sha files e \<longleftrightarrow>
     (entry_kind e = str ''symlink-file'' \<longrightarrow> file_target_ok files e) \<and>
     (entry_kind e = str ''symlink-directory'' \<longrightarrow> is_directory files (field e ''resolved_path'') \<and>
        (\<exists>d. domain_digest sha (str ''tool-directory'') (directory_listing files e) = Inr d \<and>
             jsub e ''resolved_hash'' = JStr d))"

text \<open>The finished links, latest first: each is checked, and depends on earlier ones only.\<close>

fun finished_ok :: "(int list \<Rightarrow> pystr) \<Rightarrow> json list \<Rightarrow> pystr list \<Rightarrow> bool" where
  "finished_ok sha files [] \<longleftrightarrow> True"
| "finished_ok sha files (p # ps) \<longleftrightarrow> p \<notin> set ps \<and> finished_ok sha files ps \<and>
     (\<exists>e \<in> set files. entry_path e = p \<and> is_link e \<and> link_ok sha files e \<and>
        (entry_kind e = str ''symlink-directory'' \<longrightarrow>
           (\<forall>c \<in> set (descendants files e). is_link c \<longrightarrow> entry_path c \<in> set ps)))"

definition walk_step :: "(int list \<Rightarrow> pystr) \<Rightarrow> json list \<Rightarrow> pystr list \<Rightarrow> pystr list \<Rightarrow> pystr list \<Rightarrow> bool" where
  "walk_step sha files visiting s t \<longleftrightarrow>
     finished_ok sha files t \<and> (\<exists>xs. t = xs @ s \<and> set xs \<inter> set visiting = {})"

lemma walk_step_refl: "finished_ok sha files s \<Longrightarrow> walk_step sha files visiting s s"
  by (simp add: walk_step_def)

lemma walk_step_trans:
  "walk_step sha files visiting s t \<Longrightarrow> walk_step sha files visiting t u \<Longrightarrow> walk_step sha files visiting s u"
  unfolding walk_step_def by fastforce

lemma walk_step_mono: "walk_step sha files visiting s t \<Longrightarrow> set s \<subseteq> set t"
  by (auto simp: walk_step_def)

lemma run_each_walk:
  assumes "\<And>c s t. c \<in> set cs \<Longrightarrow> finished_ok sha files s \<Longrightarrow> f c s = Inr t \<Longrightarrow>
      walk_step sha files visiting s t \<and> (is_link c \<longrightarrow> entry_path c \<in> set t)"
    and "finished_ok sha files s" "run_each f cs s = Inr u"
  shows "walk_step sha files visiting s u \<and> (\<forall>c \<in> set cs. is_link c \<longrightarrow> entry_path c \<in> set u)"
  using assms
proof (induction cs arbitrary: s)
  case (Cons c cs)
  obtain t where t: "f c s = Inr t" "run_each f cs t = Inr u" using Cons.prems(3) by auto
  have first: "walk_step sha files visiting s t" "is_link c \<longrightarrow> entry_path c \<in> set t"
    using Cons.prems(1) [OF _ Cons.prems(2) t(1)] by auto
  have "walk_step sha files visiting t u \<and> (\<forall>c \<in> set cs. is_link c \<longrightarrow> entry_path c \<in> set u)"
    by (rule Cons.IH) (use Cons.prems(1) first t(2) in \<open>auto simp: walk_step_def\<close>)
  with first show ?case using walk_step_trans walk_step_mono by fastforce
qed (simp add: walk_step_refl)

lemma check_link_walk:
  "e \<in> set files \<Longrightarrow> finished_ok sha files s \<Longrightarrow> check_link n sha files visiting e s = Inr t \<Longrightarrow>
   walk_step sha files visiting s t \<and> (is_link e \<longrightarrow> entry_path e \<in> set t)"
proof (induction n arbitrary: e visiting s t)
  case (Suc n)
  show ?case
  proof (cases "\<not> is_link e \<or> entry_path e \<in> set s")
    case True
    then show ?thesis using Suc.prems walk_step_refl by auto
  next
    case False
    then have link: "is_link e" and new: "entry_path e \<notin> set s" by auto
    have free: "entry_path e \<notin> set visiting" using Suc.prems(3) False by (auto split: if_splits)
    show ?thesis
    proof (cases "entry_kind e = str ''symlink-file''")
      case True
      then have "file_target_ok files e" "t = entry_path e # s" using Suc.prems(3) False free by auto
      then show ?thesis using True link new free Suc.prems(1,2)
        by (auto simp: walk_step_def link_ok_def)
    next
      case dir: False
      then have kind: "entry_kind e = str ''symlink-directory''" using link by (auto simp: is_link_def)
      obtain inner d where inner: "is_directory files (field e ''resolved_path'')"
          "run_each (check_link n sha files (entry_path e # visiting)) (descendants files e) s = Inr inner"
          "domain_digest sha (str ''tool-directory'') (directory_listing files e) = Inr d"
          "jsub e ''resolved_hash'' = JStr d" "t = entry_path e # inner"
        using Suc.prems(3) False free dir by (auto split: if_splits)
      have walk: "walk_step sha files (entry_path e # visiting) s inner"
          "\<forall>c \<in> set (descendants files e). is_link c \<longrightarrow> entry_path c \<in> set inner"
        using run_each_walk [OF _ Suc.prems(2) inner(2), of "entry_path e # visiting"] Suc.IH descendants_subset
        by blast+
      then have "entry_path e \<notin> set inner" using new by (auto simp: walk_step_def)
      moreover have "link_ok sha files e" using inner kind dir by (auto simp: link_ok_def)
      ultimately have "finished_ok sha files t"
        using walk link Suc.prems(1) inner(5) by (auto simp: walk_step_def)
      then show ?thesis using walk(1) free inner(5) by (auto simp: walk_step_def)
    qed
  qed
qed simp

lemma finished_dependency_in:
  assumes "finished_ok sha files ps" "inj_on entry_path (set files)" "p \<in> set ps" "(p, q) \<in> depends_on files"
  shows "q \<in> set ps"
  using assms(1,3)
proof (induction ps)
  case (Cons r ps)
  obtain e where e: "e \<in> set files" "entry_path e = r" "entry_kind e = str ''symlink-directory'' \<longrightarrow>
      (\<forall>c \<in> set (descendants files e). is_link c \<longrightarrow> entry_path c \<in> set ps)"
    using Cons.prems(1) by auto
  have "p = r \<Longrightarrow> q \<in> set ps" using e assms(2,4) by (auto simp: depends_on_def inj_on_def)
  with Cons show ?case by auto
qed simp

lemma finished_depends:
  assumes "finished_ok sha files ps" "inj_on entry_path (set files)" "p \<in> set ps" "(p, q) \<in> depends_on files"
  shows "length (dropWhile (\<lambda>r. r \<noteq> q) ps) < length (dropWhile (\<lambda>r. r \<noteq> p) ps)"
  using assms(1,3)
proof (induction ps)
  case (Cons r ps)
  obtain e where e: "e \<in> set files" "entry_path e = r" "entry_kind e = str ''symlink-directory'' \<longrightarrow>
      (\<forall>c \<in> set (descendants files e). is_link c \<longrightarrow> entry_path c \<in> set ps)"
    using Cons.prems(1) by auto
  have down: "p' = r \<Longrightarrow> (p', q) \<in> depends_on files \<Longrightarrow> q \<in> set ps" for p'
    using e assms(2) by (auto simp: depends_on_def inj_on_def)
  show ?case
  proof (cases "p = r")
    case True
    then have "q \<in> set ps" using down assms(4) by blast
    moreover have "q \<noteq> r" using calculation Cons.prems(1) by auto
    ultimately have "length (dropWhile (\<lambda>r. r \<noteq> q) (r # ps)) \<le> length ps"
      by (simp add: length_dropWhile_le')
    then show ?thesis using True by simp
  next
    case False
    then have IH: "length (dropWhile (\<lambda>r. r \<noteq> q) ps) < length (dropWhile (\<lambda>r. r \<noteq> p) ps)"
      using Cons by simp
    have "q \<noteq> r"
    proof
      assume "q = r"
      then have "q \<notin> set ps" using Cons.prems(1) by simp
      moreover have "q \<in> set ps" using assms(4) Cons.prems False finished_dependency_in [OF _ assms(2)] by auto
      ultimately show False by blast
    qed
    with IH False show ?thesis by simp
  qed
qed simp

lemma check_links_sound:
  assumes "check_links sha files = Inr fin" "inj_on entry_path (set files)"
  shows "(\<forall>e \<in> set files. link_ok sha files e) \<and> acyclic (depends_on files)"
proof
  have fin: "finished_ok sha files fin" and all: "\<forall>e \<in> set files. is_link e \<longrightarrow> entry_path e \<in> set fin"
    using run_each_walk [of files sha files "check_link (Suc (length files)) sha files []" "[]" "[]" fin]
      check_link_walk assms(1) unfolding check_links_def walk_step_def
    by (metis finished_ok.simps(1), metis finished_ok.simps(1))
  show "\<forall>e \<in> set files. link_ok sha files e"
  proof
    fix e
    assume e: "e \<in> set files"
    show "link_ok sha files e"
    proof (cases "is_link e")
      case True
      have "p \<in> set ps \<Longrightarrow> finished_ok sha files ps \<Longrightarrow> \<exists>e' \<in> set files. entry_path e' = p \<and> link_ok sha files e'" for p ps
        by (induction ps) auto
      then obtain e' where "e' \<in> set files" "entry_path e' = entry_path e" "link_ok sha files e'"
        using True all e fin by blast
      then show ?thesis using e assms(2) by (auto simp: inj_on_def)
    qed (auto simp: is_link_def link_ok_def)
  qed
  have "(depends_on files)\<inverse> \<subseteq> measure (\<lambda>p. length (dropWhile (\<lambda>r. r \<noteq> p) fin))"
  proof
    fix z
    assume "z \<in> (depends_on files)\<inverse>"
    then obtain p q where z: "z = (q, p)" "(p, q) \<in> depends_on files" by auto
    then have "p \<in> set fin" using all by (auto simp: depends_on_def is_link_def)
    then show "z \<in> measure (\<lambda>p. length (dropWhile (\<lambda>r. r \<noteq> p) fin))"
      using finished_depends [OF fin assms(2)] z by simp
  qed
  then have "acyclic ((depends_on files)\<inverse>)" by (meson wf_acyclic wf_measure wf_subset)
  then show "acyclic (depends_on files)" by (simp add: acyclic_converse)
qed

section \<open>What an accepted record has been checked for\<close>

lemma validate_object:
  assumes "validate sha ud (Named n (Obj decls)) v = Inr w"
  shows "w = v \<and> grammar None v = Inr () \<and> named_rule sha n v = Inr () \<and> (\<exists>fs. v = JObj fs \<and>
     (\<forall>(k, sh) \<in> set decls. case map_of fs (str (bare_key k)) of
        None \<Rightarrow> optional_key k
      | Some x \<Rightarrow> conforms ud sh x \<and> sets_check sha ud sh x = Inr () \<and>
          (\<forall>xs. x = JArr xs \<longrightarrow> array_rule (bare_key k) xs = Inr ())))"
proof -
  have parts: "w = v" "grammar None v = Inr ()" "conforms ud (Obj decls) v" "sets_check sha ud (Obj decls) v = Inr ()"
      "named_rule sha n v = Inr ()"
    using assms conforms_shape by (auto simp: validate_def)
  obtain fs where fs: "v = JObj fs" using parts(3) by (auto elim: conforms_objE)
  have "case map_of fs (str (bare_key k)) of None \<Rightarrow> optional_key k
      | Some x \<Rightarrow> conforms ud sh x \<and> sets_check sha ud sh x = Inr () \<and>
          (\<forall>xs. x = JArr xs \<longrightarrow> array_rule (bare_key k) xs = Inr ())" if k: "(k, sh) \<in> set decls" for k sh
  proof (cases "map_of fs (str (bare_key k))")
    case None
    then show ?thesis using parts(3) fs k by (auto elim!: conforms_objE)
  next
    case (Some x)
    then have "conforms ud sh x" using parts(3) fs k by (auto elim!: conforms_objE)
    moreover have "(case map_of fs (str (bare_key k)) of None \<Rightarrow> Inr ()
         | Some x \<Rightarrow> rbind (sets_check sha ud sh x) (\<lambda>_.
             case x of JArr xs \<Rightarrow> array_rule (bare_key k) xs | _ \<Rightarrow> Inr ())) = Inr ()"
      using parts(4) fs k by (fastforce simp: each_Inr_iff)
    ultimately show ?thesis using Some by auto
  qed
  with parts fs show ?thesis by blast
qed

lemma validated_field:
  assumes "validate sha ud (Named n (Obj decls)) v = Inr w" "(k, sh) \<in> set decls" "bare_key k = k" "\<not> optional_key k"
  shows "conforms ud sh (jsub v k) \<and> sets_check sha ud sh (jsub v k) = Inr () \<and>
     (\<forall>xs. jsub v k = JArr xs \<longrightarrow> array_rule k xs = Inr ())"
proof -
  obtain fs where fs: "v = JObj fs" and all: "\<forall>(k, sh) \<in> set decls. case map_of fs (str (bare_key k)) of
        None \<Rightarrow> optional_key k
      | Some x \<Rightarrow> conforms ud sh x \<and> sets_check sha ud sh x = Inr () \<and>
          (\<forall>xs. x = JArr xs \<longrightarrow> array_rule (bare_key k) xs = Inr ())"
    using validate_object [OF assms(1)] by (elim conjE exE)
  have "case map_of fs (str k) of None \<Rightarrow> optional_key k
      | Some x \<Rightarrow> conforms ud sh x \<and> sets_check sha ud sh x = Inr () \<and> (\<forall>xs. x = JArr xs \<longrightarrow> array_rule k xs = Inr ())"
    using bspec [OF all assms(2)] unfolding prod.case assms(3) .
  then show ?thesis using assms(4) fs by (auto simp: jget_def split: option.splits)
qed

lemma key_plain: "k \<noteq> [] \<Longrightarrow> last k \<noteq> CHR ''?'' \<Longrightarrow> bare_key k = k \<and> \<not> optional_key k"
  using bare_key_required [of k] by (simp add: optional_key_def)

lemma sorted_unique_distinct: "sorted_unique keys = Inr () \<Longrightarrow> distinct keys"
  by (auto simp: sorted_unique_def Let_def split: if_splits)

lemma union_objects: "conforms ud (Union shapes) x \<Longrightarrow> \<forall>sh \<in> set shapes. \<exists>decls. sh = Obj decls \<Longrightarrow> \<exists>fs. x = JObj fs"
  by (fastforce elim: conforms_unionE conforms_objE)

lemma tool_file_object: "conforms ud tool_file_shape x \<Longrightarrow> \<exists>fs. x = JObj fs"
  unfolding tool_file_shape_def by (erule conforms_namedE) (rule union_objects, assumption, simp)

text \<open>C4. An accepted tool identity is consistent. Its entries have different paths, every directory
  on the way to one is recorded as such; a link to a file records the hash, size and mode of
  its target; a link to a directory records the digest of what the identity lists below it; the
  graph of links whose digests depend on one another has no cycle; and the recorded digest is
  that of the content.\<close>

theorem tool_identity_consistent:
  assumes "validate sha ud tool_identity_shape v = Inr w"
  shows "\<exists>files. jsub v ''files'' = JArr files \<and> distinct (map entry_path files) \<and>
     (\<forall>e \<in> set files. \<forall>p \<in> set (parent_paths (entry_path e)). is_directory files p) \<and>
     (\<forall>e \<in> set files. link_ok sha files e) \<and> acyclic (depends_on files) \<and>
     (\<exists>d. domain_digest sha (str ''tool-content'')
        (obj (map (\<lambda>k. (k, jsub v k)) [''kind'', ''files'', ''packages'', ''system_dependencies''])) = Inr d \<and>
        jsub v ''digest'' = JStr d)"
proof -
  let ?files = "items_of (jsub v ''files'')"
  obtain decls where decls: "tool_identity_shape = Named ''ToolIdentity'' (Obj decls)"
      "(''files'', Array tool_file_shape 1) \<in> set decls"
    by (simp add: tool_identity_shape_def)
  have valid: "validate sha ud (Named ''ToolIdentity'' (Obj decls)) v = Inr w" using assms decls(1) by simp
  have key: "bare_key ''files'' = ''files''" "\<not> optional_key ''files''" using key_plain [of "''files''"] by simp_all
  note files = validated_field [OF valid decls(2) key]
  obtain xs where xs: "jsub v ''files'' = JArr xs" using files by (auto elim: conforms_arrayE)
  then have each_file: "\<forall>x \<in> set xs. conforms ud tool_file_shape x" using files by (auto elim: conforms_arrayE)
  have "\<exists>fs. x = JObj fs" if "x \<in> set xs" for x using tool_file_object each_file that by blast
  then have "map (key_or_self ''path'') xs = map entry_path xs"
    by (intro map_cong refl) (force simp: key_or_self_def entry_path_def)
  moreover have "array_rule ''files'' xs = Inr ()" using files xs by blast
  then have "sorted_by (\<lambda>e. [key_or_self ''path'' e]) xs = Inr ()" by (simp add: array_rule_def set_keys_def)
  then have "distinct (map (\<lambda>e. [key_or_self ''path'' e]) xs)" unfolding sorted_by_def by (rule sorted_unique_distinct)
  then have "distinct (map (key_or_self ''path'') xs)" by (simp add: distinct_map inj_on_def)
  ultimately have distinct: "distinct (map entry_path xs)" by (simp only:)
  have "tool_intrinsics sha v = Inr ()"
    using validate_object [OF valid] by (auto simp: named_rule_def)
  then obtain fin d where tool: "each (check_parents xs) xs = Inr ()" "check_links sha xs = Inr fin"
      "domain_digest sha (str ''tool-content'')
        (obj (map (\<lambda>k. (k, jsub v k)) [''kind'', ''files'', ''packages'', ''system_dependencies''])) = Inr d"
      "jsub v ''digest'' = JStr d"
    unfolding tool_intrinsics_def Let_def by (auto simp: xs items_of_def)
  have "inj_on entry_path (set xs)" using distinct by (simp add: distinct_map)
  note links = check_links_sound [OF tool(2) this]
  have "\<forall>e \<in> set xs. \<forall>p \<in> set (parent_paths (entry_path e)). is_directory xs p"
    using tool(1) by (simp add: each_Inr_iff check_parents_def)
  with links distinct tool(3,4) xs show ?thesis by blast
qed

definition sample_digest :: json where
  "sample_digest = JStr (str ''sha256:'' @ replicate 64 48)"

definition sample_tool :: json where
  "sample_tool = obj [(''id'', jtext ''t''), (''kind'', jtext ''tree''),
     (''locator'', obj [(''mode'', jtext ''path''), (''value'', jtext ''r'')]),
     (''digest'', sample_digest),
     (''files'', JArr [
        obj [(''path'', jtext ''d''), (''kind'', jtext ''directory'')],
        obj [(''path'', jtext ''d/f''), (''kind'', jtext ''file''), (''hash'', sample_digest), (''size'', JInt 1),
             (''executable'', JBool True)],
        obj [(''path'', jtext ''l''), (''kind'', jtext ''symlink-directory''), (''target'', jtext ''d''),
             (''resolved_path'', jtext ''d''), (''resolved_hash'', sample_digest)]]),
     (''packages'', JArr []), (''version'', JNull), (''discovery'', JArr []),
     (''system_dependencies'', obj [(''os'', jtext ''o''), (''arch'', jtext ''a''), (''release'', jtext ''r''),
        (''sdk'', JNull)]),
     (''requires'', JArr [])]"

theorem tool_identity_consistent_witness:
  "\<exists>files. jsub sample_tool ''files'' = JArr files \<and> distinct (map entry_path files) \<and>
     (\<forall>e \<in> set files. \<forall>p \<in> set (parent_paths (entry_path e)). is_directory files p) \<and>
     (\<forall>e \<in> set files. link_ok (\<lambda>_. replicate 64 48) files e) \<and> acyclic (depends_on files) \<and>
     (\<exists>d. domain_digest (\<lambda>_. replicate 64 48) (str ''tool-content'')
        (obj (map (\<lambda>k. (k, jsub sample_tool k)) [''kind'', ''files'', ''packages'', ''system_dependencies''])) = Inr d \<and>
        jsub sample_tool ''digest'' = JStr d)"
proof (rule tool_identity_consistent)
  show "validate (\<lambda>_. replicate 64 48) (\<lambda>_. None) tool_identity_shape sample_tool = Inr sample_tool"
    by code_simp
qed

text \<open>The set arrays are strictly increasing in code-point order.\<close>

lemma set_keys_plain: "k \<in> set set_keys \<Longrightarrow> bare_key k = k \<and> \<not> optional_key k"
  by (rule key_plain) (auto simp: set_keys_def)

lemma text_code_ok: "py_value v \<Longrightarrow> list_all code_ok (text_of v)"
  by (cases v) (simp_all add: text_of_def)

lemma jsub_py_value: "py_value v \<Longrightarrow> py_value (jsub v k)"
proof (cases v)
  case (JObj fs)
  assume "py_value v"
  then show ?thesis using JObj py_value_obj(3) [of fs] by (auto simp: jget_def dest: map_of_SomeD split: option.split)
qed simp_all

lemma key_code_ok: "py_value v \<Longrightarrow> list_all code_ok (key_or_self k v)"
  unfolding key_or_self_def by (cases v) (simp_all only: json.case text_code_ok jsub_py_value)

lemma set_array_sorted:
  assumes "validate sha ud (Named n (Obj decls)) v = Inr w" "py_value v"
    "(k, sh) \<in> set decls" "k \<in> set set_keys" "jsub v k = JArr xs"
  shows "sorted_wrt (<) (map (key_or_self ''path'') xs)"
proof -
  have key: "bare_key k = k" "\<not> optional_key k" using set_keys_plain assms(4) by auto
  have "array_rule k xs = Inr ()" using validated_field [OF assms(1,3) key] assms(5) by blast
  then have su: "sorted_unique (map (\<lambda>e. [key_or_self ''path'' e]) xs) = Inr ()"
    using assms(4) by (simp add: array_rule_def sorted_by_def)
  have "py_value (JArr xs)" using jsub_py_value [OF assms(2), of k] assms(5) by simp
  then have "list_all (list_all (list_all code_ok)) (map (\<lambda>e. [key_or_self ''path'' e]) xs)"
    using key_code_ok by (auto simp: list_all_iff)
  from sorted_unique_iff [OF this] su
  have "sorted_wrt (\<lambda>x y. [key_or_self ''path'' x] < [key_or_self ''path'' y]) xs"
    by (simp add: sorted_wrt_map)
  then show ?thesis by (simp add: sorted_wrt_map)
qed

text \<open>C31. A set has one spelling. Where two accepted records of one shape hold, under the name of a
  set field, texts that are the same as sets, the fields are equal; so their contribution to
  the canonical bytes is too.\<close>

theorem sets_have_one_spelling:
  assumes "validate sha ud (Named n (Obj decls)) v = Inr v'" "validate sha ud (Named n (Obj decls)) w = Inr w'"
    "py_value v" "py_value w" "(k, sh) \<in> set decls" "k \<in> set set_keys"
    "jsub v k = JArr (map JStr ss)" "jsub w k = JArr (map JStr ts)" "set ss = set ts"
  shows "jsub v k = jsub w k"
proof -
  have texts: "map (key_or_self ''path'') (map JStr us) = us" for us
    by (simp add: key_or_self_def text_of_def comp_def)
  have "sorted_wrt (<) ss" "sorted_wrt (<) ts"
    using set_array_sorted [OF assms(1,3,5,6,7)] set_array_sorted [OF assms(2,4,5,6,8)] by (simp_all only: texts)
  then have "ss = ts" using assms(9) by (simp add: strict_sorted_equal [where f = "\<lambda>s. s"])
  with assms(7,8) show ?thesis by simp
qed

lemma history_events_array:
  "conforms ud history_view_shape h \<and> rest \<Longrightarrow> \<exists>events. jsub h ''events'' = JArr events"
proof -
  assume "conforms ud history_view_shape h \<and> rest"
  then have "conforms ud (Obj [(''head'', Nullable history_ref_shape), (''events'', Array history_ref_shape 0)]) h"
    by (auto simp: history_view_shape_def elim: conforms_namedE)
  then obtain fs where fs: "h = JObj fs" and
    field: "\<And>k sh x. (k, sh) \<in> set [(''head'', Nullable history_ref_shape), (''events'', Array history_ref_shape 0)] \<Longrightarrow>
      map_of fs (str (bare_key k)) = Some x \<Longrightarrow> conforms ud sh x" and
    there: "\<And>k sh. (k, sh) \<in> set [(''head'', Nullable history_ref_shape), (''events'', Array history_ref_shape 0)] \<Longrightarrow>
      map_of fs (str (bare_key k)) = None \<Longrightarrow> optional_key k"
    by (auto elim!: conforms_objE)
  have key: "bare_key ''events'' = ''events''" "\<not> optional_key ''events''" using key_plain [of "''events''"] by simp_all
  obtain x where x: "map_of fs (str ''events'') = Some x"
    using there [of "''events''" "Array history_ref_shape 0"] key by (cases "map_of fs (str ''events'')") auto
  then have "conforms ud (Array history_ref_shape 0) x"
    using field [of "''events''" "Array history_ref_shape 0" x] key by simp
  then show ?thesis using x fs by (auto simp: jget_def elim: conforms_arrayE)
qed

lemma all_different_iff: "all_different ks \<longleftrightarrow> distinct ks"
  unfolding all_different_def by (metis length_remdups_card_conv card_distinct distinct_card)

text \<open>C28. An accepted run manifest holds a complete history and names each claim once: the events it
  shows are numbered from 1 without a gap and the head is the last of them, the claims have
  different ids, and the selected records are strictly ordered.\<close>

theorem run_manifest_history:
  assumes "validate sha ud run_manifest_shape v = Inr w" "py_value v"
  shows "\<exists>events claims selected. jsub (jsub v ''history'') ''events'' = JArr events \<and>
     (\<forall>i < length events. jsub (events ! i) ''sequence'' = JInt (int i + 1)) \<and>
     py_eq (jsub (jsub v ''history'') ''head'') (if events = [] then JNull else last events) \<and>
     jsub v ''claims'' = JArr claims \<and> distinct (map (\<lambda>c. field c ''claim_id'') claims) \<and>
     jsub v ''selected_records'' = JArr selected \<and> sorted_wrt (<) (map (key_or_self ''path'') selected)"
proof -
  obtain decls where decls: "run_manifest_shape = Named ''RunManifest'' (Obj decls)"
      "(''history'', history_view_shape) \<in> set decls"
      "(''claims'', Array (Obj [(''claim_id'', Base KId), (''record'', file_ref_shape)]) 0) \<in> set decls"
      "(''selected_records'', Array (Base KId) 1) \<in> set decls"
    by (simp add: run_manifest_shape_def)
  have valid: "validate sha ud (Named ''RunManifest'' (Obj decls)) v = Inr w" using assms(1) decls(1) by simp
  have keys: "bare_key ''history'' = ''history''" "\<not> optional_key ''history''"
      "bare_key ''claims'' = ''claims''" "\<not> optional_key ''claims''"
      "bare_key ''selected_records'' = ''selected_records''" "\<not> optional_key ''selected_records''"
    using key_plain [of "''history''"] key_plain [of "''claims''"] key_plain [of "''selected_records''"] by simp_all
  note history = validated_field [OF valid decls(2) keys(1,2)]
  note claims = validated_field [OF valid decls(3) keys(3,4)]
  note selected = validated_field [OF valid decls(4) keys(5,6)]
  have view: "history_view_ok (jsub v ''history'')"
    using history by (auto simp: history_view_shape_def named_rule_def)
  obtain events where events: "jsub (jsub v ''history'') ''events'' = JArr events"
    using history history_events_array by blast
  have seqs: "map (\<lambda>e. jsub e ''sequence'') events = map (\<lambda>i. JInt (int i)) [1..<Suc (length events)]"
    and head: "py_eq (jsub (jsub v ''history'') ''head'') (if events = [] then JNull else last events)"
    using view events by (simp_all add: history_view_ok_def items_of_def Let_def)
  have numbered: "jsub (events ! i) ''sequence'' = JInt (int i + 1)" if "i < length events" for i
  proof -
    have "map (\<lambda>e. jsub e ''sequence'') events ! i = map (\<lambda>i. JInt (int i)) [1..<Suc (length events)] ! i"
      using seqs by simp
    then show ?thesis using that by (simp del: upt_Suc)
  qed
  obtain cs where cs: "jsub v ''claims'' = JArr cs" using claims by (auto elim: conforms_arrayE)
  have "distinct (map (\<lambda>c. field c ''claim_id'') cs)"
  proof (cases cs)
    case (Cons c rest)
    have "conforms ud (Obj [(''claim_id'', Base KId), (''record'', file_ref_shape)]) c"
      using claims cs Cons by (auto elim: conforms_arrayE)
    then obtain fs where "c = JObj fs" by (auto elim: conforms_objE)
    moreover have "array_rule ''claims'' cs = Inr ()" using claims cs by blast
    ultimately have "all_different (map (\<lambda>c. field c ''claim_id'') cs)" using Cons
      by (simp add: array_rule_def set_keys_def ordered_ids_def del: list.map)
    then show ?thesis by (simp only: all_different_iff)
  qed simp
  moreover obtain ss where ss: "jsub v ''selected_records'' = JArr ss" using selected by (auto elim: conforms_arrayE)
  moreover have "sorted_wrt (<) (map (key_or_self ''path'') ss)"
    by (rule set_array_sorted [OF valid assms(2) decls(4) _ ss]) (simp add: set_keys_def)
  ultimately show ?thesis using events numbered head cs by blast
qed

definition sample_check :: json where
  "sample_check = obj [(''id'', jtext ''lint''), (''command'', JArr [jtext ''ruff'']), (''cwd'', jtext ''.''),
     (''resources'', JArr (map JStr [str ''cpu'', str ''gpu''])), (''toolchain'', JArr []), (''timeout_seconds'', JNull)]"

definition other_check :: json where
  "other_check = obj [(''id'', jtext ''test''), (''command'', JArr [jtext ''cargo'', jtext ''test'']), (''cwd'', jtext ''.''),
     (''resources'', JArr (map JStr [str ''cpu'', str ''gpu''])), (''toolchain'', JArr []), (''timeout_seconds'', JInt 60)]"

theorem sets_have_one_spelling_witness:
  "jsub sample_check ''resources'' = jsub other_check ''resources''"
proof -
  obtain decls where decls: "check_shape = Named ''Check'' (Obj decls)"
      "(''resources'', Array (Base KResource) 0) \<in> set decls"
    by (simp add: check_shape_def)
  have valid: "validate (\<lambda>_. []) (\<lambda>_. None) (Named ''Check'' (Obj decls)) sample_check = Inr sample_check"
    unfolding decls(1) [symmetric] by code_simp
  have other: "validate (\<lambda>_. []) (\<lambda>_. None) (Named ''Check'' (Obj decls)) other_check = Inr other_check"
    unfolding decls(1) [symmetric] by code_simp
  have py: "py_value sample_check" "py_value other_check" by code_simp+
  have set_field: "''resources'' \<in> set set_keys" by (simp add: set_keys_def)
  have shown: "jsub sample_check ''resources'' = JArr (map JStr [str ''cpu'', str ''gpu''])"
    "jsub other_check ''resources'' = JArr (map JStr [str ''cpu'', str ''gpu''])" by code_simp+
  show ?thesis
    by (rule sets_have_one_spelling [OF valid other py decls(2) set_field shown refl])
qed

definition sample_event :: "int \<Rightarrow> json" where
  "sample_event i = obj [(''sequence'', JInt i), (''event_id'', sample_digest), (''path'', jtext ''h/1''),
     (''hash'', sample_digest)]"

definition sample_manifest :: json where
  "sample_manifest = (let run = jtext ''00000000-0000-4000-8000-000000000000''; clock = jtext ''2026-02-28T23:59:59.000Z'' in obj [
     (''schema_version'', jtext ''fv-evidence-batch/v1''), (''run_id'', run),
     (''policy_path'', jtext ''p''), (''policy_hash'', sample_digest),
     (''common'', obj [(''policy_path'', jtext ''p''), (''policy_hash'', sample_digest), (''intent_path'', jtext ''i''),
        (''intent_hash'', sample_digest), (''manifest_path'', jtext ''m''), (''manifest_hash'', sample_digest),
        (''definition_files'', JArr []), (''dispatch_hash'', JNull), (''required_targets'', JArr [])]),
     (''producer'', obj [(''name'', jtext ''fv_evidence_run''), (''schema_version'', jtext ''fv-evidence-run/v4''),
        (''implementation_hash'', sample_digest), (''host_contract'', jtext ''fv-producer-host/v1'')]),
     (''trust_assumptions'', obj [(''no_concurrent_mutation'', JBool True),
        (''build_cache_integrity'', jtext ''upstream-build-system''),
        (''retained_history_integrity'', jtext ''trusted-producer-store'')]),
     (''history'', obj [(''head'', sample_event 2), (''events'', JArr [sample_event 1, sample_event 2])]),
     (''started_at'', clock), (''finished_at'', clock), (''jobs'', JInt 2),
     (''selected_records'', JArr [jtext ''A'', jtext ''B'']), (''required_records'', JArr []),
     (''source_before'', JNull), (''source_after'', JNull),
     (''preflight'', obj [(''result'', jtext ''PASS''), (''reason'', JNull), (''checks'', JArr [])]),
     (''work'', JArr []), (''claims'', JArr []), (''result'', jtext ''INCOMPLETE''), (''reason'', JNull)])"

theorem run_manifest_history_witness:
  "\<exists>events claims selected. jsub (jsub sample_manifest ''history'') ''events'' = JArr events \<and>
     (\<forall>i < length events. jsub (events ! i) ''sequence'' = JInt (int i + 1)) \<and>
     py_eq (jsub (jsub sample_manifest ''history'') ''head'') (if events = [] then JNull else last events) \<and>
     jsub sample_manifest ''claims'' = JArr claims \<and> distinct (map (\<lambda>c. field c ''claim_id'') claims) \<and>
     jsub sample_manifest ''selected_records'' = JArr selected \<and>
     sorted_wrt (<) (map (key_or_self ''path'') selected)"
proof (rule run_manifest_history)
  show "validate (\<lambda>_. []) (\<lambda>_. None) run_manifest_shape sample_manifest = Inr sample_manifest"
    by code_simp
  show "py_value sample_manifest" by code_simp
qed

section \<open>Validation ends\<close>

lemma scalar_fuel: "v4_scalar v \<noteq> Inl OutOfFuel"
  using v4_scalar_Inl [of v] by auto

lemma each_fuel: "(\<And>x. x \<in> set xs \<Longrightarrow> f x \<noteq> Inl OutOfFuel) \<Longrightarrow> each f xs \<noteq> Inl OutOfFuel"
  using each_Inl [of f xs OutOfFuel] by blast

lemma validate_text_fuel: "validate_text ud k v lab \<noteq> Inl OutOfFuel"
proof -
  have "v4_path a b v \<noteq> Inl OutOfFuel" for a b
    by (auto simp: v4_path_def rbind_Inl_iff scalar_fuel Let_def simp del: v4_scalar.simps)
  moreover have "v4_utc ud v \<noteq> Inl OutOfFuel" by (simp add: v4_utc_def split: json.split)
  ultimately show ?thesis
    by (cases k) (simp_all add: validate_text_def rbind_Inl_iff scalar_fuel del: v4_scalar.simps)
qed

lemma validate_base_fuel: "validate_base ud k v lab \<noteq> Inl OutOfFuel"
proof -
  have "each (\<lambda>e. validate_text ud KText e lab) xs \<noteq> Inl OutOfFuel" for xs
    by (rule each_fuel) (rule validate_text_fuel)
  moreover have "each (\<lambda>(n, e). rbind (validate_text ud KEnvname (JStr n) lab) (\<lambda>_. validate_text ud KStr e lab)) fs
      \<noteq> Inl OutOfFuel" for fs
    by (rule each_fuel) (auto simp: rbind_Inl_iff validate_text_fuel split: prod.split)
  ultimately show ?thesis
    by (cases k) (simp_all add: validate_base_def validate_text_fuel rbind_Inl_iff
        del: each.simps split: json.split list.split)
qed

lemma validate_shape_fuel: "validate_shape ud sh v lab \<noteq> Inl OutOfFuel"
proof (induction ud sh v lab rule: validate_shape.induct)
  case (1 ud k v lab)
  then show ?case by (simp add: validate_base_fuel)
next
  case (3 ud decls v lab)
  show ?case
  proof (cases v)
    case (JObj fs)
    let ?bad = "\<not> list_all (\<lambda>k. map_of fs (str k) \<noteq> None) (filter (\<lambda>k. \<not> optional_key k) (map fst decls)) \<or>
      \<not> list_all (\<lambda>(k, x). List.member (map (\<lambda>k. str (bare_key k)) (map fst decls)) k) fs"
    let ?loop = "each (\<lambda>(k, sh). case map_of fs (str (bare_key k)) of None \<Rightarrow> Inr ()
        | Some x \<Rightarrow> validate_shape ud sh x (lab @ 46 # str (bare_key k))) decls"
    have step: "validate_shape ud (Obj decls) v lab = (if ?bad then Inl (BadShape lab) else ?loop)"
      unfolding JObj validate_shape.simps json.case Let_def ..
    show ?thesis
    proof (cases ?bad)
      case False
      have "?loop \<noteq> Inl OutOfFuel"
      proof (rule each_fuel)
        fix z
        assume z: "z \<in> set decls"
        obtain k sh where ksh: "z = (k, sh)" by force
        show "(case z of (k, sh) \<Rightarrow> case map_of fs (str (bare_key k)) of None \<Rightarrow> Inr ()
            | Some x \<Rightarrow> validate_shape ud sh x (lab @ 46 # str (bare_key k))) \<noteq> Inl OutOfFuel"
          using "3.IH" [OF JObj refl refl False z ksh [symmetric]] ksh by (auto split: option.split)
      qed
      then show ?thesis unfolding step if_not_P [OF False] .
    next
      case True
      show ?thesis unfolding step if_P [OF True] by simp
    qed
  qed simp_all
next
  case (5 ud sh least v lab)
  then show ?case by (cases v) (auto intro!: each_fuel)
qed (auto simp: rbind_Inl_iff)

lemma array_rule_fuel: "array_rule k xs \<noteq> Inl OutOfFuel"
proof -
  have "sorted_by f ys \<noteq> Inl OutOfFuel" for f ys by (simp add: sorted_by_def sorted_unique_def Let_def)
  then show ?thesis
    unfolding array_rule_def Let_def by (simp add: rbind_Inl_iff split: option.split list.split json.split)
qed

lemma traverse_fuel: "(\<And>x. x \<in> set xs \<Longrightarrow> f x \<noteq> Inl OutOfFuel) \<Longrightarrow> traverse f xs \<noteq> Inl OutOfFuel"
  by (induction xs) (auto simp: rbind_Inl_iff)

lemma tool_intrinsics_fuel: "tool_intrinsics sha v \<noteq> Inl OutOfFuel"
proof -
  have "each (check_parents files) files \<noteq> Inl OutOfFuel" for files
    by (intro each_fuel) (auto simp: check_parents_def intro!: each_fuel)
  moreover have "each (check_package_root sha files) ps \<noteq> Inl OutOfFuel" for files ps
    by (intro each_fuel) (simp add: check_package_root_def rbind_Inl_iff domain_digest_fuel)
  ultimately show ?thesis
    unfolding tool_intrinsics_def Let_def
    by (simp add: rbind_Inl_iff domain_digest_fuel check_links_fuel)
qed

lemma named_rule_fuel: "named_rule sha n v \<noteq> Inl OutOfFuel"
proof -
  have "traverse (domain_digest sha l) xs \<noteq> Inl OutOfFuel" for l xs
    by (rule traverse_fuel) (rule domain_digest_fuel)
  moreover have "sorted_unique ks \<noteq> Inl OutOfFuel" for ks by (simp add: sorted_unique_def Let_def)
  moreover have "package_intrinsics v \<noteq> Inl OutOfFuel" by (simp add: package_intrinsics_def Let_def)
  ultimately show ?thesis
    by (simp add: named_rule_def rbind_Inl_iff tool_intrinsics_fuel)
qed

lemma sets_fuel: "sets_check sha ud sh v \<noteq> Inl OutOfFuel" "sets_union sha ud shs v \<noteq> Inl OutOfFuel"
proof (induction sha ud sh v and sha ud shs v rule: sets_check_sets_union.induct)
  case (3 sha ud n sh v)
  then show ?case by (simp add: rbind_Inl_iff named_rule_fuel)
next
  case (5 sha ud sh least v)
  then show ?case by (auto intro!: each_fuel)
next
  case (7 sha ud decls v)
  show ?case
  proof (cases v)
    case (JObj fs)
    have "(case z of (k, sh) \<Rightarrow> case map_of fs (str (bare_key k)) of None \<Rightarrow> Inr ()
        | Some x \<Rightarrow> rbind (sets_check sha ud sh x) (\<lambda>_.
            case x of JArr xs \<Rightarrow> array_rule (bare_key k) xs | _ \<Rightarrow> Inr ())) \<noteq> Inl OutOfFuel"
      if "z \<in> set decls" for z
      using "7.IH" [OF JObj that] array_rule_fuel
      by (cases z) (auto simp: rbind_Inl_iff split: option.split json.split)
    then show ?thesis unfolding JObj sets_check.simps json.case by (rule each_fuel)
  qed simp_all
qed auto

text \<open>C30. Reading and validating a record ends. Whatever bytes, whatever shape and whatever tree of
  links a record describes, the reader and the validator return a value or one of their errors:
  the calls the models allow the scanner and the walk over the links are always enough.\<close>

theorem reading_and_validation_return:
  "parse_json cap stack data \<noteq> Inl OutOfFuel \<and> validate sha ud sh v \<noteq> Inl OutOfFuel"
  using parse_json_returns
  by (simp add: validate_def rbind_Inl_iff grammar_fuel validate_shape_fuel sets_fuel)

end
