(* ===== verification/Evidence_Checks.thy ===== *)
theory Evidence_Checks
  imports Evidence_Sets
begin

text \<open>
  The checks of \<^verbatim>\<open>scripts/fv_evidence_v4.py\<close> that look at one decoded value and at no file: the
  canonical identities, the recorded input state and source closure, the environment, the tool
  identities (\<open>tool_check\<close>, \<open>tools_check\<close> with its walk over declared dependencies \<open>visit_deps\<close>),
  the build cache and the execution descriptor, the raw log that two streams and a termination
  determine (\<open>raw_log\<close>) and JSON pointers (\<open>pointer_at\<close>).

  What the script calls and does not contain is in the record \<open>v4_host\<close>: SHA-256 and
  the digits of Unicode, and how deeply JSON may nest.
\<close>

record v4_host =
  sha256 :: "int list \<Rightarrow> pystr"
  unicode_digit :: "codepoint \<Rightarrow> int option"
  scan_depth :: nat
  check_depth :: nat

abbreviation valid :: "('z) v4_host_scheme \<Rightarrow> shape \<Rightarrow> json \<Rightarrow> v4_error + json" where
  "valid h sh v \<equiv> validate (sha256 h) (unicode_digit h) sh v"

abbreviation identity_of :: "('z) v4_host_scheme \<Rightarrow> string \<Rightarrow> json \<Rightarrow> v4_error + pystr" where
  "identity_of h lab v \<equiv> domain_digest (sha256 h) (str lab) v"

abbreviation byte_hash :: "('z) v4_host_scheme \<Rightarrow> int list \<Rightarrow> pystr" where
  "byte_hash h data \<equiv> digest (sha256 h) data"

abbreviation parsed :: "('z) v4_host_scheme \<Rightarrow> int list \<Rightarrow> v4_error + json" where
  "parsed h data \<equiv> parse_json (scan_depth h) (check_depth h) data"

definition check_that :: "bool \<Rightarrow> string \<Rightarrow> v4_error + unit" where
  "check_that b message = require_that b (Inconsistent message)"

lemma check_that_Inr [simp]: "check_that b m = Inr u \<longleftrightarrow> b"
  by (simp add: check_that_def)

abbreviation texts_of :: "json \<Rightarrow> pystr list" where
  "texts_of v \<equiv> map text_of (items_of v)"

subsection \<open>Identities\<close>

definition without :: "json \<Rightarrow> string \<Rightarrow> json" where
  "without v k = (case v of JObj fs \<Rightarrow> JObj (filter (\<lambda>(n, _). n \<noteq> str k) fs) | _ \<Rightarrow> v)"

definition identity_check :: "('z) v4_host_scheme \<Rightarrow> json \<Rightarrow> string \<Rightarrow> string \<Rightarrow> v4_error + unit" where
  "identity_check h v k lab =
     rbind (identity_of h lab (without v k)) (\<lambda>d.
     check_that (jsub v k = JStr d) (k @ '' canonical identity mismatch''))"

definition members_check :: "json \<Rightarrow> v4_error + unit" where
  "members_check v = sorted_by (\<lambda>e. [field e ''claim_id'', field e ''slot_id'']) (items_of v)"

subsection \<open>Inputs\<close>

definition default_policy :: json where
  "default_policy = obj [(''mode'', jtext ''exclude''), (''prefixes'', JArr []),
     (''structural'', JArr (map JStr default_exclusions))]"

definition policy_hash_of :: "('z) v4_host_scheme \<Rightarrow> json list \<Rightarrow> v4_error + pystr" where
  "policy_hash_of h files = (case by_path files verified_inputs_relative of
       Some e \<Rightarrow> Inr (field e ''hash'')
     | None \<Rightarrow> identity_of h ''verified-inputs-default'' default_policy)"

definition inventory_of :: "json list \<Rightarrow> json" where
  "inventory_of files =
     JArr (map (\<lambda>e. obj [(''path'', jsub e ''path''), (''executable'', jsub e ''executable'')]) files)"

definition snapshot_text :: "json list \<Rightarrow> int list" where
  "snapshot_text files = concat (map (\<lambda>e. utf8 (entry_path e) @ [0] @ drop 7 (field e ''hash'') @ [10]) files)"

definition input_state_check :: "('z) v4_host_scheme \<Rightarrow> json \<Rightarrow> v4_error + unit" where
  "input_state_check h v =
     rbind (valid h input_state_shape v) (\<lambda>_.
     (let files = items_of (jsub v ''files'') in
      rbind (sorted_by (\<lambda>e. [entry_path e]) files) (\<lambda>_.
      rbind (policy_hash_of h files) (\<lambda>expected.
      rbind (check_that (jsub v ''verified_inputs_policy_hash'' = JStr expected)
        ''input-policy byte identity mismatch'') (\<lambda>_.
      rbind (check_that (list_all (\<lambda>e. \<not> matches_prefixes (entry_path e) default_exclusions) files)
        ''structural output appears in source inventory'') (\<lambda>_.
      rbind (identity_of h ''inventory'' (inventory_of files)) (\<lambda>inventory.
      rbind (check_that (jsub v ''inventory_hash'' = JStr inventory) ''input inventory hash mismatch'') (\<lambda>_.
      check_that (jsub v ''source_snapshot'' = JStr (byte_hash h (snapshot_text files)))
        ''input source snapshot mismatch''))))))))"

definition closure_check :: "('z) v4_host_scheme \<Rightarrow> json \<Rightarrow> v4_error + unit" where
  "closure_check h v =
     rbind (valid h closure_shape v) (\<lambda>_.
     rbind (sorted_by (\<lambda>e. [text_of e]) (items_of (jsub v ''prefixes''))) (\<lambda>_.
     rbind (sorted_by (\<lambda>e. [text_of e]) (items_of (jsub v ''basis''))) (\<lambda>_.
     rbind (sorted_by (\<lambda>e. [entry_path e]) (items_of (jsub v ''files''))) (\<lambda>_.
     rbind (if jsub v ''mode'' = jtext ''verified-inputs''
            then check_that (\<not> truthy (jsub v ''prefixes'')) ''whole-input closure has prefixes''
            else check_that (truthy (jsub v ''basis'') \<and> truthy (jsub v ''prefixes''))
              ''prefix closure has no completeness basis'') (\<lambda>_.
     rbind (identity_of h ''source-closure'' (without v ''hash'')) (\<lambda>d.
     check_that (jsub v ''hash'' = JStr d) ''closure identity mismatch''))))))"

text \<open>\<^verbatim>\<open>_effective_closure\<close>: the files of a state that an execution of the recipe depends on.\<close>

definition closure_mode :: "json \<Rightarrow> json" where
  "closure_mode closure =
     (if truthy (jsub closure ''basis'') then jsub closure ''mode'' else jtext ''verified-inputs'')"

definition closure_prefixes :: "json \<Rightarrow> json" where
  "closure_prefixes closure =
     (if closure_mode closure = jtext ''prefixes'' then jsub closure ''prefixes'' else JArr [])"

definition dispatch_relative :: pystr where
  "dispatch_relative = str ''.fv/dispatch.json''"

definition closure_mandatory :: "json \<Rightarrow> json \<Rightarrow> pystr list" where
  "closure_mandatory recipe common =
     [field common ''policy_path'', field common ''intent_path'', field common ''manifest_path''] @
     map entry_path (items_of (jsub common ''definition_files'')) @
     texts_of (jsub (jsub recipe ''source_closure'') ''basis'') @
     (if jsub common ''dispatch_hash'' \<noteq> JNull then [dispatch_relative] else []) @
     (if jsub recipe ''build_cache'' \<noteq> JNull
      then texts_of (jsub (jsub recipe ''build_cache'') ''configuration'') else [])"

definition closure_files :: "json \<Rightarrow> json list \<Rightarrow> json \<Rightarrow> json list" where
  "closure_files recipe files common =
     (let closure = jsub recipe ''source_closure'' in
      if closure_mode closure = jtext ''verified-inputs'' then files
      else filter (\<lambda>e. List.member (closure_mandatory recipe common) (entry_path e) \<or>
             matches_prefixes (entry_path e) (texts_of (closure_prefixes closure))) files)"

definition effective_closure :: "('z) v4_host_scheme \<Rightarrow> json \<Rightarrow> json \<Rightarrow> json \<Rightarrow> v4_error + json" where
  "effective_closure h recipe state common =
     (let closure = jsub recipe ''source_closure'';
          files = closure_files recipe (items_of (jsub state ''files'')) common;
          body = [(''mode'', closure_mode closure), (''prefixes'', closure_prefixes closure),
            (''basis'', jsub closure ''basis''), (''files'', JArr files)] in
      rbind (check_that (list_all (\<lambda>p. List.member (map entry_path files) p) (closure_mandatory recipe common))
        ''missing original closure binding input'') (\<lambda>_.
      rbind (identity_of h ''source-closure'' (obj body)) (\<lambda>d.
      Inr (obj (body @ [(''hash'', JStr d)])))))"

subsection \<open>The environment\<close>

definition environment_in_policy :: "('z) v4_host_scheme \<Rightarrow> json \<Rightarrow> json \<Rightarrow> v4_error + unit" where
  "environment_in_policy h v policy =
     (let env = jsub policy ''environment''; variables = items_of (jsub v ''variables'');
          named = map_of (rev (map (\<lambda>e. (field e ''name'', e)) variables)) in
      rbind (check_that (list_ex (\<lambda>p. py_eq (obj [(''os'', jsub v ''os''), (''arch'', jsub v ''arch'')]) p)
          (items_of (jsub env ''platforms''))) ''producer platform outside policy'') (\<lambda>_.
      rbind (check_that (map (\<lambda>e. jsub e ''name'') variables = items_of (jsub env ''identity''))
        ''environment identity names differ from policy'') (\<lambda>_.
      case jsub env ''set'' of
        JObj fs \<Rightarrow> each (\<lambda>(name, t). case named name of
            None \<Rightarrow> Inl (PyError KeyError)
          | Some e \<Rightarrow> check_that (truthy (jsub e ''present'') \<and>
              jsub e ''value_hash'' = JStr (byte_hash h (utf8 (text_of t))))
              ''policy literal environment mismatch'') fs
      | _ \<Rightarrow> Inr ())))"

definition environment_check :: "('z) v4_host_scheme \<Rightarrow> json option \<Rightarrow> json \<Rightarrow> v4_error + unit" where
  "environment_check h policy v =
     rbind (valid h environment_identity_shape v) (\<lambda>_.
     rbind (sorted_by (\<lambda>e. [field e ''name'']) (items_of (jsub v ''variables''))) (\<lambda>_.
     rbind (each (\<lambda>e. check_that ((jsub e ''present'' = JBool True) = (jsub e ''value_hash'' \<noteq> JNull))
       ''environment presence/hash contradiction'') (items_of (jsub v ''variables''))) (\<lambda>_.
     case policy of None \<Rightarrow> Inr () | Some p \<Rightarrow> environment_in_policy h v p)))"

subsection \<open>Files with content\<close>

definition file_has_bytes :: "('z) v4_host_scheme \<Rightarrow> bool \<Rightarrow> json option \<Rightarrow> bool" where
  "file_has_bytes h executable entry = (case entry of None \<Rightarrow> False | Some e \<Rightarrow>
     (let plain = (entry_kind e = str ''file'') in
      (plain \<or> entry_kind e = str ''symlink-file'') \<and>
      0 < int_of (jsub e (if plain then ''size'' else ''resolved_size'')) \<and>
      jsub e (if plain then ''hash'' else ''resolved_hash'') \<noteq> JStr (byte_hash h []) \<and>
      (executable \<longrightarrow> truthy (jsub e ''executable''))))"

text \<open>\<^verbatim>\<open>by_path.items()\<close>\<close>

definition path_items :: "json list \<Rightarrow> json list" where
  "path_items files = List.map_filter (by_path files) (dedupe (map entry_path files))"

definition links_directory :: "json \<Rightarrow> bool" where
  "links_directory e \<longleftrightarrow> entry_kind e = str ''symlink-directory''"

text \<open>The loop over what lies below a directory; it stops at the first hit.\<close>

fun any_below :: "('z) v4_host_scheme \<Rightarrow> bool \<Rightarrow> (pystr \<Rightarrow> pystr list \<Rightarrow> v4_error + bool \<times> pystr list) \<Rightarrow>
    json list \<Rightarrow> pystr list \<Rightarrow> v4_error + bool \<times> pystr list" where
  "any_below h executable visit [] seen = Inr (False, seen)"
| "any_below h executable visit (e # es) seen =
     (if file_has_bytes h executable (Some e) then Inr (True, seen)
      else if links_directory e then
        rbind (visit (field e ''resolved_path'') seen) (\<lambda>(found, seen').
        if found then Inr (True, seen') else any_below h executable visit es seen')
      else any_below h executable visit es seen)"

definition below :: "json list \<Rightarrow> pystr \<Rightarrow> json list" where
  "below files name =
     filter (\<lambda>e. entry_path e \<noteq> name \<and>
         starts_with (entry_path e) (if name = str ''.'' then [] else name @ [slash]))
       (path_items files)"

fun root_visit :: "nat \<Rightarrow> ('z) v4_host_scheme \<Rightarrow> json list \<Rightarrow> bool \<Rightarrow> pystr \<Rightarrow> pystr list \<Rightarrow>
    v4_error + bool \<times> pystr list" where
  "root_visit 0 h files executable name seen = Inl OutOfFuel"
| "root_visit (Suc n) h files executable name seen =
     (if name \<in> set seen then Inr (False, seen)
      else (case by_path files name of
          None \<Rightarrow> Inr (False, name # seen)
        | Some e \<Rightarrow>
            if file_has_bytes h executable (Some e) then Inr (True, name # seen)
            else if links_directory e then
              root_visit n h files executable (field e ''resolved_path'') (name # seen)
            else if entry_kind e \<noteq> str ''directory'' then Inr (False, name # seen)
            else any_below h executable (\<lambda>r s. root_visit n h files executable r s)
                   (below files name) (name # seen)))"

definition root_has_bytes :: "('z) v4_host_scheme \<Rightarrow> bool \<Rightarrow> json list \<Rightarrow> pystr \<Rightarrow> v4_error + bool" where
  "root_has_bytes h executable files label =
     rbind (root_visit (Suc (length files)) h files executable label []) (\<lambda>(found, _). Inr found)"

subsection \<open>Percent encoding\<close>

text \<open>\<^verbatim>\<open>urllib.parse.unquote(s, errors="strict")\<close>: runs of ASCII are decoded, the rest stays;
  \<open>None\<close> is \<^verbatim>\<open>UnicodeDecodeError\<close>.\<close>

fun unquote_bytes :: "pystr \<Rightarrow> int list" where
  "unquote_bytes [] = []"
| "unquote_bytes (c # s) =
     (if c = 37 then
        (case s of
           a # b # r \<Rightarrow> (case (hex_value a, hex_value b) of
               (Some x, Some y) \<Rightarrow> (16 * x + y) # unquote_bytes r
             | _ \<Rightarrow> 37 # unquote_bytes s)
         | _ \<Rightarrow> 37 # unquote_bytes s)
      else c # unquote_bytes s)"

fun unquote_runs :: "pystr \<Rightarrow> pystr \<Rightarrow> pystr option" where
  "unquote_runs run [] = utf8_decode (unquote_bytes (rev run))"
| "unquote_runs run (c # s) =
     (if c < 128 then unquote_runs (c # run) s
      else (case (utf8_decode (unquote_bytes (rev run)), unquote_runs [] s) of
          (Some a, Some b) \<Rightarrow> Some (a @ c # b)
        | _ \<Rightarrow> None))"

definition unquote :: "pystr \<Rightarrow> pystr option" where
  "unquote s = (if \<not> List.member s 37 then Some s else unquote_runs [] s)"

text \<open>\<^verbatim>\<open>quote(s, safe="-_.!~*'()")\<close>\<close>

definition upper_hex :: "int \<Rightarrow> codepoint" where
  "upper_hex d = (if d < 10 then 48 + d else 55 + d)"

definition quote_byte :: "int \<Rightarrow> pystr" where
  "quote_byte b =
     (if ascii_alnum b \<or> List.member (str ''-_.!~*'') b \<or> b = 39 \<or> b = 40 \<or> b = 41 then [b]
      else [37, upper_hex (b div 16), upper_hex (b mod 16)])"

definition quote :: "pystr \<Rightarrow> pystr" where
  "quote s = concat (map quote_byte (utf8 s))"

subsection \<open>One tool\<close>

definition tool_source_ok :: "json \<Rightarrow> v4_error + unit" where
  "tool_source_ok package =
     (let source = jsub package ''source'' in
      if field source ''kind'' = str ''git'' then
        check_that (starts_with (field source ''id'') (str ''git+'')) ''Cargo git source is not exact lock source''
      else if field source ''kind'' = str ''registry'' then
        check_that (starts_with (field source ''id'') (str ''registry+''))
          ''Cargo registry source is not exact lock source''
      else Inr ())"

definition same_keys :: "string list \<Rightarrow> json \<Rightarrow> json \<Rightarrow> bool" where
  "same_keys ks v w \<longleftrightarrow> list_all (\<lambda>k. py_eq (jsub v k) (jsub w k)) ks"

definition library_prefix :: pystr where
  "library_prefix = str ''native/non-system-libraries/''"

definition driver_paths :: "pystr list" where
  "driver_paths = [str ''native/drivers/cargo-0'', str ''native/drivers/rustc-0'']"

text \<open>\<^verbatim>\<open>entry["path"].rsplit("/", 1)[-1][:-2]\<close>\<close>

definition driver_name :: "json \<Rightarrow> pystr" where
  "driver_name e = (let s = after_last slash (entry_path e) in take (length s - 2) s)"

text \<open>\<^verbatim>\<open>Path(s).name\<close>\<close>

definition name_of_path :: "pystr \<Rightarrow> pystr" where
  "name_of_path s = (if components s = [] then [] else last (components s))"

definition derived_tree :: "json \<Rightarrow> json \<Rightarrow> bool" where
  "derived_tree declaration v \<longleftrightarrow>
     (field declaration ''kind'' = str ''executable'' \<or> field declaration ''kind'' = str ''file'') \<and>
     field (jsub declaration ''locator'') ''mode'' \<noteq> str ''adapter'' \<and> field v ''kind'' = str ''tree''"

definition derived_entry :: "json \<Rightarrow> bool" where
  "derived_entry e \<longleftrightarrow>
     (if entry_path e = str ''native'' \<or> entry_path e = str ''native/non-system-libraries'' \<or>
         entry_path e = str ''native/drivers'' then entry_kind e = str ''directory''
      else (entry_path e = str ''selected-file'' \<or> List.member driver_paths (entry_path e) \<or>
            starts_with (entry_path e) library_prefix) \<and> entry_kind e = str ''file'')"

definition driver_check :: "('z) v4_host_scheme \<Rightarrow> json \<Rightarrow> json \<Rightarrow> v4_error + unit" where
  "driver_check h v e =
     rbind (check_that (file_has_bytes h True (Some e)) ''empty derived Rustup driver identity'') (\<lambda>_.
     check_that (list_ex (\<lambda>probe. (case texts_of (jsub probe ''command'') of
           [program, which, name] \<Rightarrow> name_of_path program = str ''rustup'' \<and> which = str ''which'' \<and>
             name = driver_name e \<and> jsub probe ''exit_code'' = JInt 0
         | _ \<Rightarrow> False)) (items_of (jsub v ''discovery'')))
       ''derived Rustup driver has no selection probe'')"

definition library_check :: "('z) v4_host_scheme \<Rightarrow> json \<Rightarrow> v4_error + unit" where
  "library_check h e =
     (let encoded = drop (length library_prefix) (entry_path e) in
      case unquote encoded of
        None \<Rightarrow> Inl (Inconsistent ''invalid derived native library root'')
      | Some decoded \<Rightarrow>
          check_that (\<not> List.member encoded slash \<and> decoded \<noteq> [] \<and> \<not> List.member decoded 0 \<and>
            quote decoded = encoded \<and> entry_kind e = str ''file'' \<and> file_has_bytes h False (Some e))
            ''invalid derived native library root'')"

definition derived_check :: "('z) v4_host_scheme \<Rightarrow> json \<Rightarrow> json \<Rightarrow> v4_error + unit" where
  "derived_check h declaration v =
     (let files = items_of (jsub v ''files'');
          libraries = filter (\<lambda>e. starts_with (entry_path e) library_prefix) files;
          drivers = List.map_filter (by_path files) driver_paths;
          selected = by_path files (str ''selected-file'') in
      rbind (check_that (field (jsub v ''system_dependencies'') ''os'' = str ''darwin'' \<and>
          (libraries \<noteq> [] \<or> drivers \<noteq> []) \<and>
          (case selected of None \<Rightarrow> False | Some e \<Rightarrow> entry_kind e = str ''file'') \<and>
          list_all derived_entry files) ''invalid derived native tool roots'') (\<lambda>_.
      rbind (if field declaration ''kind'' = str ''executable''
             then check_that (file_has_bytes h True selected) ''empty derived executable tool identity''
             else Inr ()) (\<lambda>_.
      rbind (if drivers = [] then Inr () else
               (let locator = jsub declaration ''locator'' in
                check_that ((field locator ''mode'' = str ''command'' \<or> field locator ''mode'' = str ''path'') \<and>
                  List.member (map driver_name drivers) (name_of_path (field locator ''value'')))
                  ''derived Rustup driver differs from locator'')) (\<lambda>_.
      rbind (each (driver_check h v) drivers) (\<lambda>_.
      each (library_check h) libraries)))))"

definition version_text :: "json \<Rightarrow> pystr" where
  "version_text version = (if truthy version then field version ''text'' else [])"

definition declared_check :: "('z) v4_host_scheme \<Rightarrow> json \<Rightarrow> json \<Rightarrow> v4_error + unit" where
  "declared_check h declaration v =
     (let derived = derived_tree declaration v; version = jsub v ''version''; accept = jsub declaration ''accept'' in
      rbind (check_that (same_keys [''id'', ''locator'', ''requires''] v declaration \<and>
          (py_eq (jsub v ''kind'') (jsub declaration ''kind'') \<or> derived)) ''tool declaration binding mismatch'') (\<lambda>_.
      rbind (if derived then derived_check h declaration v else Inr ()) (\<lambda>_.
      rbind (if jsub declaration ''version_command'' = JNull
             then check_that (version = JNull) ''undeclared version probe''
             else check_that (version \<noteq> JNull \<and>
               py_eq (jsub version ''command'') (jsub declaration ''version_command'') \<and>
               py_eq (jsub version ''cwd'') (jsub declaration ''version_cwd''))
               ''version command/cwd differs from declaration'') (\<lambda>_.
      rbind (check_that (\<not> truthy (jsub accept ''sha256'') \<or>
          List.member (texts_of (jsub accept ''sha256'')) (field v ''digest'')) ''tool digest outside allowlist'') (\<lambda>_.
      check_that (list_all (\<lambda>t. contains t (version_text version)) (texts_of (jsub accept ''version_contains'')))
        ''tool version pin mismatch'')))))"

subsection \<open>The roots an adapter must have captured\<close>

definition adapter_roots :: "pystr \<Rightarrow> pystr list \<Rightarrow> (string \<times> bool option) list option" where
  "adapter_roots family subject = map_of
     [(str ''producer-runtime'', [(''implementation'', Some False), (''runtime'', Some True)]),
      (str ''python-runtime'', [(''executable'', Some True), (''stdlib'', Some False),
         (''extension-modules'', Some False), (''startup'', None)]),
      (str ''quint-backends'', if List.member subject (str ''run'')
         then [(''cli'', Some False), (''node'', Some True), (''evaluator'', Some True)]
         else [(''cli'', Some False), (''node'', Some True), (''apalache'', Some False), (''java'', Some True)]),
      (str ''cargo-toolchain'', [(''cargo'', Some True), (''rustc'', Some True), (''sysroot'', Some False)]),
      (str ''kani-toolchain'', [(''distribution'', Some True), (''sysroot'', Some False),
         (''backend'', Some True), (''solver'', Some True)]),
      (str ''lean-toolchain'', [(''distribution'', Some True)]),
      (str ''darwin-native'', [(''sdk-settings'', Some False)]),
      (str ''node-toolchain'', [(''node'', Some True), (''corepack'', Some False), (''pnpm'', Some False)])] family"

definition root_check :: "('z) v4_host_scheme \<Rightarrow> json list \<Rightarrow> string \<times> bool option \<Rightarrow> v4_error + unit" where
  "root_check h files need = (case need of (label, executable) \<Rightarrow>
     rbind (check_that (by_path files (str label) \<noteq> None) ''incomplete adapter root'') (\<lambda>_.
     case executable of None \<Rightarrow> Inr ()
     | Some x \<Rightarrow> rbind (root_has_bytes h x files (str label)) (\<lambda>found.
         check_that found ''empty adapter verifier root'')))"

definition darwin_check :: "('z) v4_host_scheme \<Rightarrow> json \<Rightarrow> v4_error + unit" where
  "darwin_check h v =
     (let files = items_of (jsub v ''files''); sdk = jsub (jsub v ''system_dependencies'') ''sdk'' in
      rbind (root_has_bytes h True files (str ''drivers'')) (\<lambda>found.
      rbind (check_that found ''Darwin adapter has no selected driver bytes'') (\<lambda>_.
      rbind (check_that (sdk \<noteq> JNull) ''Darwin adapter missing SDK attestation'') (\<lambda>_.
      case by_path files (str ''sdk-settings'') of
        None \<Rightarrow> Inl (PyError KeyError)
      | Some e \<Rightarrow> check_that (entry_kind e = str ''file'' \<and> jsub e ''hash'' = jsub sdk ''settings_hash'')
          ''SDK settings identity contradicts recorded file''))))"

definition apalache_archive :: "('z) v4_host_scheme \<Rightarrow> json list \<Rightarrow> bool" where
  "apalache_archive h files \<longleftrightarrow>
     list_ex (\<lambda>e. starts_with (entry_path e) (str ''apalache/'') \<and> ends_with (entry_path e) (str ''.jar'') \<and>
       file_has_bytes h False (Some e)) (path_items files)"

definition node_package :: "json \<Rightarrow> bool" where
  "node_package e \<longleftrightarrow>
     (let ws = split_on slash (entry_path e); scoped = starts_with (ws ! 1) (str ''@'') in
      entry_kind e = str ''directory'' \<and> starts_with (entry_path e) (str ''packages/'') \<and>
      (length ws = 3 \<and> \<not> scoped \<or> length ws = 4 \<and> scoped))"

definition node_check :: "('z) v4_host_scheme \<Rightarrow> json list \<Rightarrow> v4_error + unit" where
  "node_check h files =
     (let roots = filter node_package (path_items files) in
      rbind (check_that (roots \<noteq> []) ''Node package closure missing'') (\<lambda>_.
      each (\<lambda>e. check_that (file_has_bytes h False (by_path files (entry_path e @ str ''/package.json'')))
        ''Node package manifest bytes missing'') roots))"

definition lean_package :: "json \<Rightarrow> bool" where
  "lean_package e \<longleftrightarrow> entry_kind e = str ''directory'' \<and> starts_with (entry_path e) (str ''packages/'') \<and>
     length (split_on slash (entry_path e)) = 2"

definition lean_check :: "('z) v4_host_scheme \<Rightarrow> json list \<Rightarrow> v4_error + unit" where
  "lean_check h files =
     each (\<lambda>e. rbind (root_has_bytes h False files (entry_path e)) (\<lambda>found.
       check_that found ''empty Lean package root'')) (filter lean_package (path_items files))"

definition family_in :: "pystr \<Rightarrow> string list \<Rightarrow> bool" where
  "family_in family names \<longleftrightarrow> List.member (map str names) family"

definition adapter_check :: "('z) v4_host_scheme \<Rightarrow> json \<Rightarrow> v4_error + unit" where
  "adapter_check h v =
     (let files = items_of (jsub v ''files''); locator = jsub v ''locator''; family = field locator ''value'';
          subject = texts_of (jsub locator ''subject'') in
      case adapter_roots family subject of None \<Rightarrow> Inl (PyError KeyError)
      | Some roots \<Rightarrow>
          rbind (each (root_check h files) roots) (\<lambda>_.
          rbind (if family_in family [''darwin-native''] then darwin_check h v else Inr ()) (\<lambda>_.
          rbind (if family_in family [''quint-backends''] \<and> List.member subject (str ''verify'')
                 then check_that (apalache_archive h files) ''Apalache verifier archive bytes missing''
                 else Inr ()) (\<lambda>_.
          rbind (if family_in family [''quint-backends'', ''node-toolchain''] then node_check h files else Inr ()) (\<lambda>_.
          rbind (if family_in family [''lean-toolchain''] then lean_check h files else Inr ()) (\<lambda>_.
          if family_in family [''cargo-toolchain'', ''kani-toolchain''] then Inr ()
          else check_that (\<not> truthy (jsub v ''packages'')) ''Cargo packages on unrelated adapter''))))))"

definition package_manifest_check :: "('z) v4_host_scheme \<Rightarrow> json list \<Rightarrow> json \<Rightarrow> v4_error + unit" where
  "package_manifest_check h files package =
     rbind (identity_of h ''cargo-package'' package) (\<lambda>d.
     check_that (file_has_bytes h False (by_path files (str ''packages/'' @ drop 7 d @ str ''/Cargo.toml'')))
       ''source-qualified package manifest bytes missing'')"

text \<open>\<^verbatim>\<open>_tool\<close>\<close>

definition tool_check :: "('z) v4_host_scheme \<Rightarrow> json option \<Rightarrow> json option \<Rightarrow> json \<Rightarrow> v4_error + unit" where
  "tool_check h declaration env v =
     rbind (valid h tool_identity_shape v) (\<lambda>_.
     (let files = items_of (jsub v ''files''); packages = items_of (jsub v ''packages'') in
      rbind (each tool_source_ok packages) (\<lambda>_.
      rbind (case env of None \<Rightarrow> Inr ()
             | Some e \<Rightarrow> check_that (same_keys [''os'', ''arch'', ''release''] (jsub v ''system_dependencies'') e)
                 ''tool system provenance contradicts producer platform'') (\<lambda>_.
      rbind (case declaration of None \<Rightarrow> Inr () | Some d \<Rightarrow> declared_check h d v) (\<lambda>_.
      rbind (if field (jsub v ''locator'') ''mode'' = str ''adapter'' then adapter_check h v
             else if packages \<noteq> [] then Inl (Inconsistent ''Cargo packages require selected Cargo/Kani adapter'')
             else if field v ''kind'' = str ''executable''
             then check_that (file_has_bytes h True (by_path files (str ''.''))) ''empty executable tool identity''
             else Inr ()) (\<lambda>_.
      each (package_manifest_check h files) packages))))))"

subsection \<open>Several tools\<close>

text \<open>\<^verbatim>\<open>visit\<close> of \<^verbatim>\<open>_tools\<close> and of \<^verbatim>\<open>_policy\<close>: \<open>visiting\<close> holds the tools of the calls in progress, the
  last argument the finished ones. The first argument bounds the depth of the calls.\<close>

fun visit_deps :: "nat \<Rightarrow> (pystr \<Rightarrow> pystr list option) \<Rightarrow> pystr list \<Rightarrow> pystr \<Rightarrow> pystr list \<Rightarrow> v4_error + pystr list"
where
  "visit_deps 0 requires visiting name finished = Inl OutOfFuel"
| "visit_deps (Suc n) requires visiting name finished = (case requires name of
       None \<Rightarrow> Inl (Inconsistent ''missing tool dependency'')
     | Some deps \<Rightarrow>
         if name \<in> set visiting then Inl (Inconsistent ''cyclic tool dependency graph'')
         else if name \<in> set finished then Inr finished
         else rbind (run_each (\<lambda>d. visit_deps n requires (name # visiting) d) deps finished) (\<lambda>inner.
              Inr (name # inner)))"

definition producer_id :: pystr where
  "producer_id = str ''fv-producer''"

definition producer_locator :: json where
  "producer_locator = obj [(''mode'', jtext ''adapter''), (''value'', jtext ''producer-runtime''),
     (''cwd'', jtext ''.''), (''subject'', JArr [jtext ''fv_evidence_run''])]"

definition requires_of :: "json list \<Rightarrow> pystr \<Rightarrow> pystr list option" where
  "requires_of tools name =
     map_option (\<lambda>t. texts_of (jsub t ''requires'')) (map_of (rev (map (\<lambda>t. (field t ''id'', t)) tools)) name)"

definition tool_in_set :: "('z) v4_host_scheme \<Rightarrow> (pystr \<Rightarrow> json option) option \<Rightarrow> json option \<Rightarrow> json \<Rightarrow>
    v4_error + unit" where
  "tool_in_set h declarations env t =
     (let declaration = (case declarations of None \<Rightarrow> None | Some d \<Rightarrow> d (field t ''id'')) in
      rbind (if declarations \<noteq> None \<and> field t ''id'' \<noteq> producer_id
             then check_that (declaration \<noteq> None) ''undeclared tool identity'' else Inr ()) (\<lambda>_.
      rbind (if field t ''id'' = producer_id
             then rbind (check_that (py_eq (jsub t ''locator'') producer_locator)
                 ''reserved producer tool identity mismatch'') (\<lambda>_.
               check_that (\<not> truthy (jsub t ''requires'')) ''reserved producer tool has declared dependencies'')
             else Inr ()) (\<lambda>_.
      tool_check h declaration env t)))"

definition tools_check :: "('z) v4_host_scheme \<Rightarrow> (pystr \<Rightarrow> json option) option \<Rightarrow> pystr list option \<Rightarrow>
    json option \<Rightarrow> json list \<Rightarrow> v4_error + unit" where
  "tools_check h declarations ids env tools =
     (let known = map (\<lambda>t. field t ''id'') tools;
          walk = run_each (visit_deps (Suc (length tools)) (requires_of tools) []) in
      rbind (sorted_by (\<lambda>t. [field t ''id'']) tools) (\<lambda>_.
      rbind (each (tool_in_set h declarations env) tools) (\<lambda>_.
      case ids of
        Some names \<Rightarrow> rbind (walk (names @ [producer_id]) []) (\<lambda>finished.
          check_that (set finished = set known)
            ''descriptor tool closure differs from reviewed transitive closure'')
      | None \<Rightarrow> rbind (walk (dedupe known) []) (\<lambda>_. Inr ()))))"

subsection \<open>The build cache\<close>

definition fresh_namespace_check :: "('z) v4_host_scheme \<Rightarrow> json \<Rightarrow> json \<Rightarrow> v4_error + unit" where
  "fresh_namespace_check h recipe namespace =
     rbind (check_that (jsub recipe ''attestation'' \<noteq> JNull)
       ''producer-fresh namespace lacks incorporated collector guarantee'') (\<lambda>_.
     rbind (identity_of h ''cache-namespace-fresh''
         (obj [(''recipe_id'', jsub recipe ''recipe_id''), (''role'', jsub namespace ''role'')])) (\<lambda>d.
     check_that (jsub namespace ''identity_hash'' = JStr d) ''fresh cache namespace identity mismatch''))"

definition cache_content_check :: "('z) v4_host_scheme \<Rightarrow> json option \<Rightarrow> json option \<Rightarrow> json \<Rightarrow> v4_error + unit"
where
  "cache_content_check h recipe source v =
     rbind (sorted_by (\<lambda>e. [entry_path e]) (items_of (jsub v ''configuration''))) (\<lambda>_.
     rbind (sorted_by (\<lambda>e. [field e ''role'']) (items_of (jsub v ''namespaces''))) (\<lambda>_.
     rbind (case source of None \<Rightarrow> Inr () | Some s \<Rightarrow>
         each (\<lambda>e. check_that (map_option (\<lambda>f. jsub f ''hash'') (by_path (items_of (jsub s ''files'')) (entry_path e))
               = Some (jsub e ''hash'')) ''build-cache configuration source hash mismatch'')
           (items_of (jsub v ''configuration''))) (\<lambda>_.
     case recipe of None \<Rightarrow> Inr () | Some r \<Rightarrow>
       each (\<lambda>n. if field n ''kind'' = str ''producer-fresh'' then fresh_namespace_check h r n else Inr ())
         (items_of (jsub v ''namespaces'')))))"

definition cache_check :: "('z) v4_host_scheme \<Rightarrow> json option \<Rightarrow> json option \<Rightarrow> json \<Rightarrow> v4_error + unit" where
  "cache_check h recipe source v =
     rbind (valid h build_cache_identity_shape v) (\<lambda>_.
     case recipe of
       None \<Rightarrow> if v \<noteq> JNull then cache_content_check h None source v else Inr ()
     | Some r \<Rightarrow>
         (let declared = jsub r ''build_cache'' in
          rbind (check_that ((declared = JNull) = (v = JNull)) ''build-cache presence differs from recipe'') (\<lambda>_.
          if declared = JNull then Inr () else
          rbind (check_that (py_eq (jsub v ''system'') (jsub declared ''system'')) ''build-cache system mismatch'') (\<lambda>_.
          rbind (check_that (py_eq (JArr (map (\<lambda>e. jsub e ''path'') (items_of (jsub v ''configuration''))))
              (jsub declared ''configuration'')) ''build-cache configuration coverage mismatch'') (\<lambda>_.
          cache_content_check h (Some r) source v)))))"

subsection \<open>The descriptor of an execution\<close>

definition common_check :: "('z) v4_host_scheme \<Rightarrow> json \<Rightarrow> v4_error + unit" where
  "common_check h v =
     rbind (valid h common_bindings_shape v) (\<lambda>_.
     rbind (sorted_by (\<lambda>e. [entry_path e]) (items_of (jsub v ''definition_files''))) (\<lambda>_.
     sorted_by (\<lambda>e. [text_of e]) (items_of (jsub v ''required_targets''))))"

definition distinct_slot_ok :: "json \<Rightarrow> bool" where
  "distinct_slot_ok v \<longleftrightarrow> (case (jsub v ''distinct_slot'', items_of (jsub v ''members'')) of
       (JObj fs, [m]) \<Rightarrow> list_all (\<lambda>(k, x). (case m of JObj ms \<Rightarrow>
           (case map_of ms k of None \<Rightarrow> False | Some y \<Rightarrow> py_eq y x) | _ \<Rightarrow> False)) fs
     | _ \<Rightarrow> False)"

definition descriptor_check :: "('z) v4_host_scheme \<Rightarrow> json \<Rightarrow> v4_error + unit" where
  "descriptor_check h v =
     rbind (valid h execution_descriptor_shape v) (\<lambda>_.
     rbind (common_check h (jsub v ''common'')) (\<lambda>_.
     rbind (members_check (jsub v ''members'')) (\<lambda>_.
     rbind (closure_check h (jsub v ''closure'')) (\<lambda>_.
     rbind (environment_check h None (jsub v ''environment'')) (\<lambda>_.
     rbind (tools_check h None None (Some (jsub v ''environment'')) (items_of (jsub v ''toolchain''))) (\<lambda>_.
     rbind (cache_check h (Some (jsub v ''recipe'')) None (jsub v ''build_cache'')) (\<lambda>_.
     if field (jsub (jsub v ''recipe'') ''determinism'') ''mode'' = str ''fixed''
     then check_that (jsub v ''distinct_slot'' = JNull) ''fixed descriptor has distinct slot''
     else check_that (distinct_slot_ok v) ''distinct descriptor member mismatch'')))))))"

subsection \<open>The raw log\<close>

definition normal_end :: "json \<Rightarrow> bool" where
  "normal_end t \<longleftrightarrow> jsub t ''exit_code'' \<noteq> JNull \<and> jsub t ''signal'' = JNull \<and>
     \<not> truthy (jsub t ''timed_out'') \<and> \<not> truthy (jsub t ''cancelled'')"

definition unfinished :: "pystr \<Rightarrow> bool" where
  "unfinished result \<longleftrightarrow> result = str ''ERROR'' \<or> result = str ''CANCELLED''"

definition stream_lines :: "int list \<Rightarrow> int list" where
  "stream_lines s = (if s = [] then [] else s @ (if ends_with s [10] then [] else [10]))"

definition raw_log :: "int list \<Rightarrow> int list \<Rightarrow> json \<Rightarrow> pystr \<Rightarrow> v4_error + int list" where
  "raw_log out err termination result =
     (let data = stream_lines out @ stream_lines err in
      if normal_end termination
      then Inr (data @ str ''--- fv-evidence: exit='' @ decimal (int_of (jsub termination ''exit_code'')) @
             str '' ---'' @ [10])
      else rbind (check_that (unfinished result) ''abnormal termination has normal result'') (\<lambda>_.
           Inr (data @ str ''--- fv-evidence-v4: result='' @ result @ str '' ---'' @ [10])))"

text \<open>\<^verbatim>\<open>re.fullmatch(r"--- fv-evidence(?:-v4)?: (?:exit=|result=).* ---", line)\<close> on a line of \<^verbatim>\<open>splitlines\<close>;
  a dot matches all but a line feed, which such a line has not.\<close>

definition reserved_line :: "pystr \<Rightarrow> bool" where
  "reserved_line s \<longleftrightarrow> list_ex (\<lambda>p. starts_with s p \<and> ends_with (drop (length p) s) (str '' ---''))
     [str ''--- fv-evidence: exit='', str ''--- fv-evidence: result='',
      str ''--- fv-evidence-v4: exit='', str ''--- fv-evidence-v4: result='']"

definition markers_of :: "pystr \<Rightarrow> pystr list" where
  "markers_of c =
     (if c = str ''code-enforced'' then [str ''--- fv-evidence: exit=0 ---'']
      else if c = str ''proof-discharged'' then [str ''VERIFICATION:- SUCCESSFUL'',
        str ''Build completed successfully'', str ''--- fv-evidence: exit=0 ---'']
      else if c = str ''bounded-checked'' then [str ''[ok]'', str ''VERIFICATION:- SUCCESSFUL'', str ''No violation found'']
      else if c = str ''test-witnessed'' then [str ''test result: ok.'']
      else if c = str ''conformance-tested'' then [str ''CONFORMANCE: PASS'', str ''CONFORMANCE_TESTED: PASS'',
        str ''test result: ok.'', str ''--- fv-evidence: exit=0 ---'']
      else [])"

text \<open>What the streams and the raw log say: whether the streams are UTF-8 free of reserved lines, and
  whether the log holds the marker of the recipe.\<close>

definition stream_text :: "int list \<Rightarrow> int list \<Rightarrow> int list \<Rightarrow> (bool \<times> pystr) option" where
  "stream_text out err raw = (case (utf8_decode out, utf8_decode err, utf8_decode raw) of
       (Some a, Some b, Some t) \<Rightarrow>
         Some (list_ex reserved_line (splitlines a) \<or> list_ex reserved_line (splitlines b), t)
     | _ \<Rightarrow> None)"

definition clean_streams :: "int list \<Rightarrow> int list \<Rightarrow> int list \<Rightarrow> bool" where
  "clean_streams out err raw \<longleftrightarrow> (case stream_text out err raw of Some (reserved, t) \<Rightarrow> \<not> reserved | None \<Rightarrow> False)"

definition marker_found :: "json \<Rightarrow> int list \<Rightarrow> int list \<Rightarrow> int list \<Rightarrow> bool" where
  "marker_found recipe out err raw \<longleftrightarrow> clean_streams out err raw \<and>
     (case stream_text out err raw of None \<Rightarrow> False | Some (_, t) \<Rightarrow>
        (case jsub recipe ''pass_marker'' of
           JStr m \<Rightarrow> contains m t
         | _ \<Rightarrow> list_ex (\<lambda>m. contains m t) (markers_of (field recipe ''evidence_class''))))"

subsection \<open>Pointers\<close>

text \<open>\<^verbatim>\<open>token.replace("~1", "/").replace("~0", "~")\<close>\<close>

fun unescape_with :: "codepoint \<Rightarrow> codepoint \<Rightarrow> pystr \<Rightarrow> pystr" where
  "unescape_with d c (a # b # s) = (if a = 126 \<and> b = d then c # unescape_with d c s else a # unescape_with d c (b # s))"
| "unescape_with d c s = s"

definition unescape_token :: "pystr \<Rightarrow> pystr" where
  "unescape_token s = unescape_with 48 126 (unescape_with 49 slash s)"

definition index_token :: "pystr \<Rightarrow> bool" where
  "index_token s \<longleftrightarrow> s = [48] \<or> s \<noteq> [] \<and> list_all ascii_digit s \<and> hd s \<noteq> 48"

fun walk_pointer :: "json \<Rightarrow> pystr list \<Rightarrow> v4_error + json" where
  "walk_pointer v [] = (case v of JObj _ \<Rightarrow> Inr v | JArr _ \<Rightarrow> Inr v
     | _ \<Rightarrow> Inl (Inconsistent ''observation pointer resolves to scalar''))"
| "walk_pointer v (t # ts) =
     (let token = unescape_token t in
      case v of
        JObj fs \<Rightarrow> (case map_of fs token of
            None \<Rightarrow> Inl (Inconsistent ''observation pointer missing object key'')
          | Some x \<Rightarrow> walk_pointer x ts)
      | JArr xs \<Rightarrow>
          if index_token token \<and> digits_value token < int (length xs)
          then walk_pointer (xs ! nat (digits_value token)) ts
          else Inl (Inconsistent ''observation pointer missing array index'')
      | _ \<Rightarrow> Inl (Inconsistent ''observation pointer traverses scalar''))"

definition pointer_at :: "json \<Rightarrow> pystr \<Rightarrow> v4_error + json" where
  "pointer_at v pointer =
     (if pointer = [] then Inr v else walk_pointer v (split_on slash (tl pointer)))"

text \<open>The bytes behind a recorded snapshot are the ones the project's own snapshot hashes.\<close>

lemma snapshot_text_bytes:
  "snapshot_text files = snapshot_bytes (map (\<lambda>e. (entry_path e, drop 7 (field e ''hash''))) files)"
  by (simp add: snapshot_text_def snapshot_bytes_def comp_def)

section \<open>The walk over declared dependencies\<close>

definition needs :: "(pystr \<Rightarrow> pystr list option) \<Rightarrow> (pystr \<times> pystr) set" where
  "needs req = {(a, b). \<exists>ds. req a = Some ds \<and> b \<in> set ds}"

text \<open>The finished tools, latest first: each needs earlier ones only.\<close>

fun built :: "(pystr \<Rightarrow> pystr list option) \<Rightarrow> pystr list \<Rightarrow> bool" where
  "built req [] \<longleftrightarrow> True"
| "built req (x # xs) \<longleftrightarrow> x \<notin> set xs \<and> (\<exists>ds. req x = Some ds \<and> set ds \<subseteq> set xs) \<and> built req xs"

definition build_step :: "(pystr \<Rightarrow> pystr list option) \<Rightarrow> pystr list \<Rightarrow> pystr set \<Rightarrow> pystr list \<Rightarrow> pystr list \<Rightarrow> bool"
where
  "build_step req visiting names s t \<longleftrightarrow> built req t \<and> names \<subseteq> set t \<and>
     (\<exists>xs. t = xs @ s \<and> set xs \<inter> set visiting = {} \<and> set xs \<subseteq> (needs req)\<^sup>* `` names)"

lemma run_each_build:
  assumes "\<And>c s t. c \<in> set cs \<Longrightarrow> built req s \<Longrightarrow> f c s = Inr t \<Longrightarrow> build_step req visiting {c} s t"
    and "built req s" "run_each f cs s = Inr u"
  shows "build_step req visiting (set cs) s u"
  using assms
proof (induction cs arbitrary: s)
  case (Cons c cs)
  obtain t where t: "f c s = Inr t" "run_each f cs t = Inr u" using Cons.prems(3) by auto
  have first: "build_step req visiting {c} s t" using Cons.prems(1) [OF _ Cons.prems(2) t(1)] by simp
  have "build_step req visiting (set cs) t u"
    by (rule Cons.IH) (use Cons.prems(1) first t(2) in \<open>auto simp: build_step_def\<close>)
  then obtain ys where ys: "u = ys @ t" "built req u" "set cs \<subseteq> set u" "set ys \<inter> set visiting = {}"
      "set ys \<subseteq> (needs req)\<^sup>* `` set cs"
    by (auto simp: build_step_def)
  obtain xs where xs: "t = xs @ s" "c \<in> set t" "set xs \<inter> set visiting = {}" "set xs \<subseteq> (needs req)\<^sup>* `` {c}"
    using first by (auto simp: build_step_def)
  have "set (ys @ xs) \<subseteq> (needs req)\<^sup>* `` set (c # cs)" using xs(4) ys(5) by auto
  moreover have "set (ys @ xs) \<inter> set visiting = {}" using xs(3) ys(4) by auto
  moreover have "set (c # cs) \<subseteq> set u" using xs(2) ys(1,3) by auto
  ultimately show ?case using xs(1) ys(1,2) unfolding build_step_def by (intro conjI exI [of _ "ys @ xs"]) simp_all
qed (simp add: build_step_def)

lemma visit_deps_build:
  "built req s \<Longrightarrow> visit_deps n req visiting name s = Inr t \<Longrightarrow> build_step req visiting {name} s t"
proof (induction n arbitrary: visiting name s t)
  case (Suc n)
  obtain ds where ds: "req name = Some ds" "name \<notin> set visiting"
    using Suc.prems(2) by (auto split: option.splits if_splits)
  show ?case
  proof (cases "name \<in> set s")
    case True
    then show ?thesis using Suc.prems ds by (auto simp: build_step_def)
  next
    case False
    obtain inner where inner: "run_each (visit_deps n req (name # visiting)) ds s = Inr inner" "t = name # inner"
      using Suc.prems(2) ds False by auto
    have step: "build_step req (name # visiting) (set ds) s inner"
      using run_each_build [OF Suc.IH Suc.prems(1) inner(1)] by blast
    then obtain xs where xs: "inner = xs @ s" "set xs \<inter> set (name # visiting) = {}"
        "set xs \<subseteq> (needs req)\<^sup>* `` set ds" "built req inner" "set ds \<subseteq> set inner"
      by (auto simp: build_step_def)
    have "(needs req)\<^sup>* `` set ds \<subseteq> (needs req)\<^sup>* `` {name}"
      using ds(1) by (auto simp: needs_def intro: converse_rtrancl_into_rtrancl)
    moreover have "name \<notin> set inner" using xs(1,2) False by auto
    moreover have "t = (name # xs) @ s" using inner(2) xs(1) by simp
    ultimately show ?thesis using xs ds inner(2) unfolding build_step_def
      by (intro conjI exI [of _ "name # xs"]) auto
  qed
qed simp

lemma built_closed: "built req xs \<Longrightarrow> a \<in> set xs \<Longrightarrow> (a, b) \<in> needs req \<Longrightarrow> b \<in> set xs"
  by (induction xs) (auto simp: needs_def)

lemma built_reach: "(a, b) \<in> (needs req)\<^sup>* \<Longrightarrow> built req xs \<Longrightarrow> a \<in> set xs \<Longrightarrow> b \<in> set xs"
  by (induction rule: rtrancl_induct) (auto dest: built_closed)

lemma built_later:
  "built req xs \<Longrightarrow> a \<in> set xs \<Longrightarrow> (a, b) \<in> needs req \<Longrightarrow>
   length (dropWhile (\<lambda>r. r \<noteq> b) xs) < length (dropWhile (\<lambda>r. r \<noteq> a) xs)"
proof (induction xs)
  case (Cons x xs)
  show ?case
  proof (cases "a = x")
    case True
    then have "b \<in> set xs" using Cons.prems by (auto simp: needs_def)
    moreover have "b \<noteq> x" using calculation Cons.prems(1) by auto
    ultimately have "length (dropWhile (\<lambda>r. r \<noteq> b) (x # xs)) \<le> length xs" by (simp add: length_dropWhile_le')
    then show ?thesis using True by simp
  next
    case False
    then have "a \<in> set xs" "b \<noteq> x" using Cons.prems built_closed [of req xs a b] by auto
    then show ?thesis using Cons False by simp
  qed
qed simp

lemma built_acyclic:
  assumes "built req xs" "\<And>a. req a \<noteq> None \<Longrightarrow> a \<in> set xs"
  shows "acyclic (needs req)"
proof -
  have "(needs req)\<inverse> \<subseteq> measure (\<lambda>r. length (dropWhile (\<lambda>q. q \<noteq> r) xs))"
    using built_later [OF assms(1)] assms(2) by (auto simp: needs_def)
  then have "wf ((needs req)\<inverse>)" by (rule wf_subset [OF wf_measure])
  then show ?thesis using wf_acyclic acyclic_converse by blast
qed

lemma visit_deps_fuel:
  "finite {a. req a \<noteq> None} \<Longrightarrow> card ({a. req a \<noteq> None} - set visiting) < n \<Longrightarrow>
   visit_deps n req visiting name finished \<noteq> Inl OutOfFuel"
proof (induction n arbitrary: name visiting finished)
  case (Suc n)
  show ?case
  proof (cases "req name = None \<or> name \<in> set visiting")
    case False
    then have "{a. req a \<noteq> None} - set (name # visiting) \<subset> {a. req a \<noteq> None} - set visiting" by auto
    then have "card ({a. req a \<noteq> None} - set (name # visiting)) < card ({a. req a \<noteq> None} - set visiting)"
      using Suc.prems(1) by (intro psubset_card_mono) auto
    then have "card ({a. req a \<noteq> None} - set (name # visiting)) < n" using Suc.prems(2) by linarith
    then have "run_each (visit_deps n req (name # visiting)) ds t \<noteq> Inl OutOfFuel" for ds t
      using Suc.IH Suc.prems(1) by (blast dest: run_each_Inl)
    then show ?thesis using False by (auto simp: rbind_Inl_iff split: option.splits)
  qed (auto split: option.splits)
qed simp

lemma requires_of_known: "requires_of tools a \<noteq> None \<longleftrightarrow> a \<in> set (map (\<lambda>t. field t ''id'') tools)"
  by (force simp: requires_of_def map_of_eq_None_iff)

lemma known_walk:
  "visit_deps (Suc (length tools)) (requires_of tools) [] name finished \<noteq> Inl OutOfFuel"
proof (rule visit_deps_fuel)
  have eq: "{a. requires_of tools a \<noteq> None} = set (map (\<lambda>t. field t ''id'') tools)"
    using requires_of_known by blast
  show "finite {a. requires_of tools a \<noteq> None}" by (simp only: eq finite_set)
  have "card (set (map (\<lambda>t. field t ''id'') tools)) \<le> length tools"
    using card_length [of "map (\<lambda>t. field t ''id'') tools"] by (simp only: length_map)
  then show "card ({a. requires_of tools a \<noteq> None} - set []) < Suc (length tools)"
    by (simp only: eq list.set Diff_empty less_Suc_eq_le)
qed

text \<open>The tools of a descriptor are exactly the ones the reviewed recipe names, the producer, and
  what these need in turn, and no tool needs itself through others: nothing beyond the
  declared closure takes part in an execution and nothing of it is missing.\<close>

theorem tool_closure_exact:
  assumes "tools_check h (Some declarations) (Some names) env tools = Inr ()"
  shows "set (map (\<lambda>t. field t ''id'') tools) = (needs (requires_of tools))\<^sup>* `` (set names \<union> {producer_id}) \<and>
    acyclic (needs (requires_of tools)) \<and>
    (\<forall>t \<in> set tools. field t ''id'' = producer_id \<or> declarations (field t ''id'') \<noteq> None)"
proof -
  let ?ids = "map (\<lambda>t. field t ''id'') tools"
  let ?req = "requires_of tools"
  let ?visit = "visit_deps (Suc (length tools)) ?req []"
  obtain fin where each: "each (tool_in_set h (Some declarations) env) tools = Inr ()"
    and run: "run_each ?visit (names @ [producer_id]) [] = Inr fin" and same: "set fin = set ?ids"
    using assms by (auto simp: tools_check_def Let_def simp del: run_each.simps visit_deps.simps)
  have "build_step ?req [] {c} s t" if "built ?req s" "?visit c s = Inr t" for c s t
    using visit_deps_build [OF that] .
  then have "build_step ?req [] (set (names @ [producer_id])) [] fin"
    using run_each_build [of "names @ [producer_id]" ?req ?visit "[]" "[]" fin] run by simp
  then have fin: "built ?req fin" "set names \<union> {producer_id} \<subseteq> set fin"
      "set fin \<subseteq> (needs ?req)\<^sup>* `` (set names \<union> {producer_id})"
    by (auto simp: build_step_def)
  then have "(needs ?req)\<^sup>* `` (set names \<union> {producer_id}) \<subseteq> set fin" by (auto dest: built_reach)
  with fin same have "set ?ids = (needs ?req)\<^sup>* `` (set names \<union> {producer_id})" by blast
  moreover have "acyclic (needs ?req)" using built_acyclic [OF fin(1)] requires_of_known same by blast
  moreover have "\<forall>t \<in> set tools. field t ''id'' = producer_id \<or> declarations (field t ''id'') \<noteq> None"
  proof
    fix t
    assume "t \<in> set tools"
    with each have "tool_in_set h (Some declarations) env t = Inr ()" by (simp add: each_Inr_iff)
    then show "field t ''id'' = producer_id \<or> declarations (field t ''id'') \<noteq> None"
      by (auto simp: tool_in_set_def Let_def split: if_splits)
  qed
  ultimately show ?thesis by blast
qed

definition sample_host :: v4_host where
  "sample_host = \<lparr>sha256 = \<lambda>_. replicate 64 48, unicode_digit = \<lambda>_. None, scan_depth = 100, check_depth = 100\<rparr>"

definition sample_hash :: json where
  "sample_hash = JStr (str ''sha256:'' @ replicate 64 49)"

definition sample_locator :: json where
  "sample_locator = obj [(''mode'', jtext ''path''), (''value'', jtext ''r'')]"

definition sample_file :: "string \<Rightarrow> json" where
  "sample_file p = obj [(''path'', jtext p), (''kind'', jtext ''file''), (''hash'', sample_hash), (''size'', JInt 1),
     (''executable'', JBool True)]"

definition tool_record :: "string \<Rightarrow> string \<Rightarrow> json \<Rightarrow> json list \<Rightarrow> json list \<Rightarrow> json" where
  "tool_record name kind locator files deps = obj [(''id'', jtext name), (''kind'', jtext kind), (''locator'', locator),
     (''digest'', sample_digest), (''files'', JArr files),
     (''packages'', JArr []), (''version'', JNull), (''discovery'', JArr []),
     (''system_dependencies'', obj [(''os'', jtext ''o''), (''arch'', jtext ''a''), (''release'', jtext ''r''),
        (''sdk'', JNull)]),
     (''requires'', JArr deps)]"

definition producer_tool :: json where
  "producer_tool = tool_record ''fv-producer'' ''tree'' producer_locator
     [obj [(''path'', jtext ''implementation''), (''kind'', jtext ''directory'')], sample_file ''implementation/m'',
      sample_file ''runtime''] []"

definition sample_tools :: "json list" where
  "sample_tools = [tool_record ''checker'' ''file'' sample_locator [sample_file ''.''] [jtext ''solver''],
     producer_tool, tool_record ''solver'' ''executable'' sample_locator [sample_file ''.''] []]"

definition declared_tool :: "string \<Rightarrow> json list \<Rightarrow> json" where
  "declared_tool kind deps = obj [(''id'', jtext (if deps = [] then ''solver'' else ''checker'')), (''kind'', jtext kind),
     (''locator'', sample_locator), (''version_command'', JNull), (''version_cwd'', JNull),
     (''requires'', JArr deps), (''accept'', obj [(''sha256'', JArr []), (''version_contains'', JArr [])])]"

definition sample_declarations :: "pystr \<Rightarrow> json option" where
  "sample_declarations = map_of [(str ''solver'', declared_tool ''executable'' []),
     (str ''checker'', declared_tool ''file'' [jtext ''solver''])]"

theorem tool_closure_exact_witness:
  "set (map (\<lambda>t. field t ''id'') sample_tools) =
      (needs (requires_of sample_tools))\<^sup>* `` (set [str ''checker''] \<union> {producer_id}) \<and>
    acyclic (needs (requires_of sample_tools)) \<and>
    (\<forall>t \<in> set sample_tools. field t ''id'' = producer_id \<or> sample_declarations (field t ''id'') \<noteq> None)"
proof (rule tool_closure_exact)
  show "tools_check sample_host (Some sample_declarations) (Some [str ''checker'']) None sample_tools = Inr ()"
    by code_simp
qed

section \<open>The search below a root\<close>

lemma any_below_mono:
  assumes "\<And>r s b s'. visit r s = Inr (b, s') \<Longrightarrow> set s \<subseteq> set s'"
  shows "any_below h x visit es seen = Inr (b, s') \<Longrightarrow> set seen \<subseteq> set s'"
proof (induction es arbitrary: seen)
  case (Cons e es)
  then show ?case using assms by (auto split: if_splits prod.splits) blast+
qed auto

text \<open>The outcomes of a visit.\<close>

lemma root_visit_cases:
  obtains "root_visit (Suc n) h files x name seen = Inr (False, seen)"
  | "root_visit (Suc n) h files x name seen = Inr (False, name # seen)"
  | e where "by_path files name = Some e" "file_has_bytes h x (Some e)"
      "root_visit (Suc n) h files x name seen = Inr (True, name # seen)"
  | r where "name \<notin> set seen" "by_path files name \<noteq> None"
      "root_visit (Suc n) h files x name seen = root_visit n h files x r (name # seen)"
  | "name \<notin> set seen" "by_path files name \<noteq> None" "root_visit (Suc n) h files x name seen =
      any_below h x (\<lambda>r s. root_visit n h files x r s) (below files name) (name # seen)"
proof (cases "name \<in> set seen")
  case new: False
  show ?thesis
  proof (cases "by_path files name")
    case None
    then show ?thesis using new by (intro that(2)) simp
  next
    case (Some e)
    consider "file_has_bytes h x (Some e)" | "\<not> file_has_bytes h x (Some e)" "links_directory e"
      | "\<not> file_has_bytes h x (Some e)" "\<not> links_directory e" "entry_kind e \<noteq> str ''directory''"
      | "\<not> file_has_bytes h x (Some e)" "\<not> links_directory e" "entry_kind e = str ''directory''" by blast
    then show ?thesis
    proof cases
      case 1
      then show ?thesis using new Some by (intro that(3)) simp_all
    next
      case 2
      then show ?thesis using new Some by (intro that(4)) simp_all
    next
      case 3
      then show ?thesis using new Some by (intro that(2)) simp
    next
      case 4
      then show ?thesis using new Some by (intro that(5)) simp_all
    qed
  qed
qed (simp add: that(1))

lemma root_visit_mono: "root_visit n h files x name seen = Inr (b, s') \<Longrightarrow> set seen \<subseteq> set s'"
proof (induction n arbitrary: name seen b s')
  case (Suc n)
  show ?case
  proof (cases rule: root_visit_cases [of n h files x name seen])
    case (4 r)
    then show ?thesis using Suc.IH [of r "name # seen" b s'] Suc.prems by auto
  next
    case 5
    then have "any_below h x (\<lambda>r s. root_visit n h files x r s) (below files name) (name # seen) = Inr (b, s')"
      using Suc.prems by simp
    from any_below_mono [where visit = "\<lambda>r s. root_visit n h files x r s", OF Suc.IH this] show ?thesis by auto
  qed (use Suc.prems in auto)
qed simp

lemma any_below_Inl:
  assumes "\<And>r s b s'. visit r s = Inr (b, s') \<Longrightarrow> set s \<subseteq> set s'"
  shows "any_below h x visit es seen = Inl e \<Longrightarrow> \<exists>r s. visit r s = Inl e \<and> set seen \<subseteq> set s"
proof (induction es arbitrary: seen)
  case (Cons f es)
  show ?case
  proof (cases "visit (field f ''resolved_path'') seen")
    case (Inl d)
    then show ?thesis using Cons by (auto split: if_splits)
  next
    case (Inr bs)
    obtain b s' where bs: "visit (field f ''resolved_path'') seen = Inr (b, s')" using Inr by (cases bs) auto
    have grew: "set seen \<subseteq> set s'" using assms bs .
    show ?thesis
    proof (cases "any_below h x visit es seen = Inl e")
      case False
      then have "any_below h x visit es s' = Inl e" using Cons.prems bs by (auto split: if_splits)
      from Cons.IH [OF this] grew show ?thesis by blast
    qed (rule Cons.IH)
  qed
qed simp

lemma by_path_in: "by_path files p = Some e \<Longrightarrow> e \<in> set files \<and> entry_path e = p"
  by (auto simp: by_path_def dest: map_of_SomeD)

lemma root_visit_fuel:
  "card (entry_paths files - set seen) < n \<Longrightarrow> root_visit n h files x name seen \<noteq> Inl OutOfFuel"
proof (induction n arbitrary: name seen)
  case (Suc n)
  have fin: "finite (entry_paths files - A)" for A by (simp add: entry_paths_def)
  {
    assume new: "name \<notin> set seen" "by_path files name \<noteq> None"
    then have "name \<in> entry_paths files"
      using by_path_in by (fastforce simp: entry_paths_def)
    with new have "entry_paths files - set (name # seen) \<subset> entry_paths files - set seen" by auto
    then have less: "card (entry_paths files - set (name # seen)) < n"
      using Suc.prems psubset_card_mono [OF fin [of "set seen"]] by (meson less_Suc_eq_le order_less_le_trans)
    have "root_visit n h files x r s \<noteq> Inl OutOfFuel" if sub: "set (name # seen) \<subseteq> set s" for r s
    proof -
      have "card (entry_paths files - set s) \<le> card (entry_paths files - set (name # seen))"
        using sub by (intro card_mono [OF fin]) auto
      with less show ?thesis using Suc.IH by simp
    qed
  }
  note ok = this
  show ?case
  proof (cases rule: root_visit_cases [of n h files x name seen])
    case 5
    have "any_below h x (\<lambda>r s. root_visit n h files x r s) (below files name) (name # seen) \<noteq> Inl OutOfFuel"
    proof
      assume stopped: "any_below h x (\<lambda>r s. root_visit n h files x r s) (below files name) (name # seen) = Inl OutOfFuel"
      have "\<exists>r s. root_visit n h files x r s = Inl OutOfFuel \<and> set (name # seen) \<subseteq> set s"
        by (rule any_below_Inl [OF _ stopped]) (rule root_visit_mono)
      with ok [OF 5(1,2)] show False by blast
    qed
    then show ?thesis using 5 by simp
  next
    case (4 r)
    then show ?thesis using ok [of "name # seen" r] by simp
  qed simp_all
qed simp

lemma root_has_bytes_returns: "root_has_bytes h x files label \<noteq> Inl OutOfFuel"
proof -
  have "card (entry_paths files) < Suc (length files)"
    unfolding entry_paths_def by (meson card_image_le card_length finite_set le_imp_less_Suc le_trans)
  then show ?thesis
    using root_visit_fuel [of files "[]" "Suc (length files)" h x label]
    by (auto simp: root_has_bytes_def rbind_Inl_iff simp del: root_visit.simps)
qed

text \<open>A search that succeeds has met a file with content.\<close>

lemma any_below_found:
  assumes "\<And>r s s'. visit r s = Inr (True, s') \<Longrightarrow> \<exists>e \<in> E. file_has_bytes h x (Some e)" "set es \<subseteq> E"
  shows "any_below h x visit es seen = Inr (True, s') \<Longrightarrow> \<exists>e \<in> E. file_has_bytes h x (Some e)"
  using assms(2)
proof (induction es arbitrary: seen)
  case (Cons e es)
  then show ?case using assms(1) by (auto split: if_splits prod.splits)
qed simp

lemma below_files: "set (below files name) \<subseteq> set files"
  by (auto simp: below_def path_items_def List.map_filter_def dest: by_path_in)

lemma root_visit_found:
  "root_visit n h files x name seen = Inr (True, s') \<Longrightarrow> \<exists>e \<in> set files. file_has_bytes h x (Some e)"
proof (induction n arbitrary: name seen s')
  case (Suc n)
  then show ?case
    using any_below_found [of "\<lambda>r s. root_visit n h files x r s" "set files" h x, OF _ below_files]
    by (auto split: if_splits option.splits dest: by_path_in)
qed simp

lemma root_has_bytes_found: "root_has_bytes h x files label = Inr True \<Longrightarrow> \<exists>e \<in> set files. file_has_bytes h x (Some e)"
  by (auto simp: root_has_bytes_def simp del: root_visit.simps dest: root_visit_found)


end
