(* ===== verification/Evidence_Reader.thy ===== *)
theory Evidence_Reader
  imports Evidence_Checks
begin

text \<open>
  The reader of the evidence store (\<^verbatim>\<open>Reader\<close> of \<^verbatim>\<open>scripts/fv_evidence_v4.py\<close>) and what the
  script reads with it: execution artifacts with their streams and ownership protocol
  (\<open>execution\<close>), observation receipts (\<open>observation\<close>), and the retained history with
  its chain of events (\<open>history\<close>).

  A reader remembers the inode and the digest of each file it has read and the artifacts it has accepted;
  an operation that raises leaves what it has remembered in place. The file system is a parameter that may
  answer differently at every access: the reader counts accesses in \<open>moment\<close>.
\<close>

subsection \<open>The file system\<close>

record file_stat =
  st_dev :: int
  st_ino :: int
  st_mode :: int
  st_nlink :: int
  st_size :: int
  st_mtime_ns :: int
  st_ctime_ns :: int

text \<open>A directory as \<^verbatim>\<open>exists\<close>, \<^verbatim>\<open>is_symlink\<close>, \<^verbatim>\<open>is_dir\<close> and \<^verbatim>\<open>iterdir\<close> show it, and what
  \<^verbatim>\<open>os.walk\<close> yields of one: whether each subdirectory is a link, and the paths of the files.\<close>

datatype listing = NoListing | LinkListing | NotListing | Listing "pystr list"

type_synonym walked = "(bool list \<times> pystr list) list"

record store_host = v4_host +
  disk_lstat :: "nat \<Rightarrow> pystr \<Rightarrow> file_stat option"
  disk_open :: "nat \<Rightarrow> pystr \<Rightarrow> (file_stat \<times> int list \<times> file_stat) option"
  disk_listing :: "nat \<Rightarrow> pystr \<Rightarrow> listing"
  disk_exists :: "nat \<Rightarrow> pystr \<Rightarrow> bool"
  disk_walk :: "nat \<Rightarrow> pystr \<Rightarrow> walked"

text \<open>\<^verbatim>\<open>stat.S_ISLNK\<close>, \<^verbatim>\<open>S_ISDIR\<close> and \<^verbatim>\<open>S_ISREG\<close>\<close>

definition mode_is :: "int \<Rightarrow> file_stat \<Rightarrow> bool" where
  "mode_is kind i \<longleftrightarrow> st_mode i div 4096 mod 16 = kind"

definition is_lnk :: "file_stat \<Rightarrow> bool" where "is_lnk i \<longleftrightarrow> mode_is 10 i"
definition is_dir_mode :: "file_stat \<Rightarrow> bool" where "is_dir_mode i \<longleftrightarrow> mode_is 4 i"
definition is_reg :: "file_stat \<Rightarrow> bool" where "is_reg i \<longleftrightarrow> mode_is 8 i"

definition inode_of :: "file_stat \<Rightarrow> int \<times> int" where
  "inode_of i = (st_dev i, st_ino i)"

definition signature :: "file_stat \<Rightarrow> int \<times> int \<times> int \<times> int \<times> int" where
  "signature i = (st_size i, st_mtime_ns i, st_ctime_ns i, st_mode i, st_nlink i)"

subsection \<open>Actions\<close>

record reader =
  moment :: nat
  known_inodes :: "(int \<times> int, pystr) dict"
  known_digests :: "(pystr, pystr) dict"
  known_artifacts :: "(pystr, json \<times> json) dict"
  known_checks :: "(pystr, json \<times> json \<times> json \<times> json option \<times> bool) dict"

definition new_reader :: reader where
  "new_reader = \<lparr>moment = 0, known_inodes = [], known_digests = [], known_artifacts = [], known_checks = []\<rparr>"

text \<open>A method call: what it raises or returns, and the reader it leaves behind.\<close>

type_synonym 'a action = "reader \<Rightarrow> (v4_error + 'a) \<times> reader"

definition ret :: "'a \<Rightarrow> 'a action" where
  "ret a r = (Inr a, r)"

definition lifted :: "v4_error + 'a \<Rightarrow> 'a action" where
  "lifted m r = (m, r)"

definition act :: "'a action \<Rightarrow> ('a \<Rightarrow> 'b action) \<Rightarrow> 'b action" where
  "act m f r = (case m r of (Inl e, r') \<Rightarrow> (Inl e, r') | (Inr a, r') \<Rightarrow> f a r')"

text \<open>\<^verbatim>\<open>try\<close>: what was raised becomes a value.\<close>

definition attempted :: "'a action \<Rightarrow> (v4_error + 'a) action" where
  "attempted m r = (case m r of (res, r') \<Rightarrow> (Inr res, r'))"

abbreviation ensure :: "bool \<Rightarrow> string \<Rightarrow> unit action" where
  "ensure b message \<equiv> lifted (check_that b message)"

fun each_act :: "('a \<Rightarrow> unit action) \<Rightarrow> 'a list \<Rightarrow> unit action" where
  "each_act f [] = ret ()"
| "each_act f (x # xs) = act (f x) (\<lambda>_. each_act f xs)"

fun map_act :: "('a \<Rightarrow> 'b action) \<Rightarrow> 'a list \<Rightarrow> 'b list action" where
  "map_act f [] = ret []"
| "map_act f (x # xs) = act (f x) (\<lambda>y. act (map_act f xs) (\<lambda>ys. ret (y # ys)))"

definition tick :: "reader \<Rightarrow> reader" where
  "tick r = r\<lparr>moment := Suc (moment r)\<rparr>"

definition looked :: "(nat \<Rightarrow> 'a option) \<Rightarrow> 'a action" where
  "looked f r = ((case f (moment r) of None \<Rightarrow> Inl (PyError OSError) | Some a \<Rightarrow> Inr a), tick r)"

definition answered :: "(nat \<Rightarrow> 'a) \<Rightarrow> 'a action" where
  "answered f r = (Inr (f (moment r)), tick r)"

subsection \<open>Reading\<close>

definition v4_base :: pystr where
  "v4_base = str ''.fv/evidence/v4''"

text \<open>The successive values of \<^verbatim>\<open>current\<close>.\<close>

definition path_prefixes :: "pystr \<Rightarrow> pystr list" where
  "path_prefixes p = (let ws = split_on slash p in map (\<lambda>i. join [slash] (take (Suc i) ws)) [0..<length ws])"

fun regular_walk :: "('z) store_host_scheme \<Rightarrow> pystr list \<Rightarrow> file_stat action" where
  "regular_walk h [] = lifted (Inl (PyError OSError))"
| "regular_walk h (p # ps) =
     act (looked (\<lambda>t. disk_lstat h t p)) (\<lambda>info.
     act (ensure (\<not> is_lnk info) ''symlink component'') (\<lambda>_.
     if ps = [] then ret info
     else act (ensure (is_dir_mode info) ''non-directory component'') (\<lambda>_. regular_walk h ps)))"

definition regular_file :: "('z) store_host_scheme \<Rightarrow> pystr \<Rightarrow> bool \<Rightarrow> file_stat action" where
  "regular_file h relative output =
     act (lifted (v4_path False False (JStr relative))) (\<lambda>_.
     act (regular_walk h (path_prefixes relative)) (\<lambda>info.
     act (ensure (is_reg info) ''not a regular file'') (\<lambda>_.
     act (ensure (output \<longrightarrow> st_nlink info = 1) ''output hardlink'') (\<lambda>_. ret info))))"

definition note_inode :: "int \<times> int \<Rightarrow> pystr \<Rightarrow> pystr action" where
  "note_inode i relative r =
     (case map_of (known_inodes r) i of
        Some p \<Rightarrow> (Inr p, r)
      | None \<Rightarrow> (Inr relative, r\<lparr>known_inodes := dset (known_inodes r) i relative\<rparr>))"

definition note_digest :: "pystr \<Rightarrow> pystr \<Rightarrow> unit action" where
  "note_digest relative d r =
     (case map_of (known_digests r) relative of
        Some e \<Rightarrow> if e = d then (Inr (), r\<lparr>known_digests := dset (known_digests r) relative d\<rparr>)
                  else (Inl (Inconsistent ''changed immutable file''), r)
      | None \<Rightarrow> (Inr (), r\<lparr>known_digests := dset (known_digests r) relative d\<rparr>))"

definition read_file :: "('z) store_host_scheme \<Rightarrow> pystr \<Rightarrow> bool \<Rightarrow> int list action" where
  "read_file h relative output =
     act (regular_file h relative output) (\<lambda>prior.
     act (note_inode (inode_of prior) relative) (\<lambda>previous.
     act (ensure (previous = relative) ''aliased paths'') (\<lambda>_.
     act (looked (\<lambda>t. disk_open h t relative)) (\<lambda>(opened, data, after).
     act (ensure (inode_of opened = inode_of prior) ''replaced file'') (\<lambda>_.
     act (ensure (signature prior = signature opened \<and> signature opened = signature after) ''mutated file'') (\<lambda>_.
     act (note_digest relative (byte_hash h data)) (\<lambda>_.
     ret data)))))))"

definition read_ref :: "('z) store_host_scheme \<Rightarrow> shape \<Rightarrow> json \<Rightarrow> int list action" where
  "read_ref h sh ref =
     act (lifted (valid h sh ref)) (\<lambda>_.
     act (ensure (starts_with (entry_path ref) (v4_base @ [slash])) ''artifact outside v4 store'') (\<lambda>_.
     act (read_file h (entry_path ref) True) (\<lambda>data.
     act (ensure (JStr (byte_hash h data) = jsub ref ''hash'') ''byte hash mismatch'') (\<lambda>_.
     act (ensure (jsub ref ''size'' \<noteq> JNull \<longrightarrow> jsub ref ''size'' = JInt (int (length data))) ''byte size mismatch'') (\<lambda>_.
     ret data)))))"

abbreviation read_bytes :: "('z) store_host_scheme \<Rightarrow> json \<Rightarrow> int list action" where
  "read_bytes h ref \<equiv> read_ref h file_ref_shape ref"

definition read_json :: "('z) store_host_scheme \<Rightarrow> shape \<Rightarrow> shape \<Rightarrow> json \<Rightarrow> json action" where
  "read_json h refshape sh ref =
     act (read_ref h refshape ref) (\<lambda>data.
     act (lifted (parsed h data)) (\<lambda>v.
     act (lifted (valid h sh v)) (\<lambda>_. ret v)))"

text \<open>\<^verbatim>\<open>_owned_tree\<close>\<close>

definition owned_tree :: "('z) store_host_scheme \<Rightarrow> pystr \<Rightarrow> pystr list \<Rightarrow> unit action" where
  "owned_tree h directory expected =
     act (answered (\<lambda>t. disk_walk h t directory)) (\<lambda>walk.
     act (each_act (\<lambda>(links, files).
         act (ensure (True \<notin> set links) ''symlink in immutable artifact directory'') (\<lambda>_.
         each_act (\<lambda>p. act (regular_file h p True) (\<lambda>_. ret ())) files)) walk) (\<lambda>_.
     ensure (set (concat (map snd walk)) = set expected)
       ''immutable execution file inventory incomplete or extra''))"

subsection \<open>Ownership of processes\<close>

definition process_key :: "json \<Rightarrow> int \<times> pystr" where
  "process_key p = (int_of (jsub p ''pid''), field p ''process_start_id'')"

definition windows_check :: "json \<Rightarrow> json list \<Rightarrow> json list \<Rightarrow> v4_error + unit" where
  "windows_check artifact windows processes =
     each (\<lambda>w.
       rbind (check_that (py_eq (jsub w ''execution_key'') (jsub artifact ''execution_key'') \<and>
           py_eq (jsub w ''attempt_id'') (jsub artifact ''attempt_id'')) ''ownership window has foreign attempt scope'') (\<lambda>_.
       check_that (jsub w ''parent'' \<noteq> JNull \<longrightarrow> list_ex (\<lambda>p. py_eq (jsub w ''parent'') p) processes)
         ''ownership window parent is not retained'')) windows"

text \<open>One retained child; the first argument are the identities of the earlier ones.\<close>

definition child_check :: "json \<Rightarrow> (pystr \<Rightarrow> json option) \<Rightarrow> (int \<times> pystr) list \<Rightarrow> json \<Rightarrow> v4_error + unit" where
  "child_check artifact window_of earlier child =
     (let process = jsub child ''process''; ended = jsub child ''terminated_at'' in
      rbind (check_that (\<not> List.member earlier (process_key process)) ''duplicate retained owned process'') (\<lambda>_.
      case window_of (field child ''window_id'') of
        None \<Rightarrow> Inl (Inconsistent ''owned child refers to missing window'')
      | Some window \<Rightarrow>
          rbind (check_that (jsub process ''pid'' = jsub process ''process_group'' \<and>
              jsub process ''process_group'' = jsub process ''session_id'')
            ''owned registration is not original session/group leader'') (\<lambda>_.
          rbind (check_that (jsub window ''parent'' \<noteq> JNull \<longrightarrow>
              jsub process ''parent_pid'' = jsub (jsub window ''parent'') ''pid'')
            ''hosted child parent binding mismatch'') (\<lambda>_.
          rbind (check_that (field artifact ''started_at'' \<le> field child ''registered_at'')
            ''ownership registration before execution'') (\<lambda>_.
          rbind (check_that (ended \<noteq> JNull \<longrightarrow> field child ''registered_at'' \<le> text_of ended \<and>
              text_of ended \<le> field artifact ''finished_at'') ''invalid ownership termination interval'') (\<lambda>_.
          check_that (field artifact ''result'' = str ''PASS'' \<longrightarrow> ended \<noteq> JNull)
            ''PASS has unterminated owned child''))))))"

fun children_check :: "json \<Rightarrow> (pystr \<Rightarrow> json option) \<Rightarrow> (int \<times> pystr) list \<Rightarrow> json list \<Rightarrow> v4_error + unit" where
  "children_check artifact window_of earlier [] = Inr ()"
| "children_check artifact window_of earlier (c # cs) =
     rbind (child_check artifact window_of earlier c) (\<lambda>_.
     children_check artifact window_of (process_key (jsub c ''process'') # earlier) cs)"

definition hosted_pids :: "(pystr \<Rightarrow> json option) \<Rightarrow> json list \<Rightarrow> int list" where
  "hosted_pids window_of children =
     map (\<lambda>c. int_of (jsub (jsub c ''process'') ''pid''))
       (filter (\<lambda>c. case window_of (field c ''window_id'') of None \<Rightarrow> False | Some w \<Rightarrow> jsub w ''parent'' \<noteq> JNull)
         children)"

text \<open>The log of the private protocol: each line registers a process group or releases it.\<close>

definition protocol_shape :: shape where
  "protocol_shape = Obj [(''event'', Enum [jtext ''owned'', jtext ''released'']), (''pgid'', Base KPos)]"

datatype protocol_event = Owned int | Released int

definition protocol_message :: "('z) v4_host_scheme \<Rightarrow> int list \<Rightarrow> v4_error + protocol_event" where
  "protocol_message h line =
     rbind (check_that (0 < length line \<and> length line \<le> 4096) ''invalid ownership control message length'') (\<lambda>_.
     rbind (parsed h line) (\<lambda>message.
     rbind (valid h protocol_shape message) (\<lambda>_.
     Inr ((if jsub message ''event'' = jtext ''owned'' then Owned else Released) (int_of (jsub message ''pgid''))))))"

fun protocol_step :: "protocol_event \<Rightarrow> int list \<times> int list \<Rightarrow> v4_error + int list \<times> int list" where
  "protocol_step (Owned g) (owned, released) =
     (if g \<in> set owned then Inl (Inconsistent ''duplicate private ownership registration'')
      else Inr (g # owned, released))"
| "protocol_step (Released g) (owned, released) =
     (if g \<in> set owned \<and> g \<notin> set released then Inr (owned, g # released)
      else Inl (Inconsistent ''out-of-order private ownership release''))"

fun protocol_run :: "('z) v4_host_scheme \<Rightarrow> int list list \<Rightarrow> int list \<times> int list \<Rightarrow> v4_error + int list \<times> int list"
where
  "protocol_run h [] s = Inr s"
| "protocol_run h (line # ls) s =
     rbind (protocol_message h line) (\<lambda>e. rbind (protocol_step e s) (protocol_run h ls))"

definition protocol_check :: "('z) v4_host_scheme \<Rightarrow> int list \<Rightarrow> int list \<Rightarrow> v4_error + unit" where
  "protocol_check h bytes hosted =
     rbind (check_that (bytes = [] \<or> ends_with bytes [10]) ''partial ownership control message'') (\<lambda>_.
     rbind (protocol_run h (butlast (split_on 10 bytes)) ([], [])) (\<lambda>(owned, released).
     check_that (set owned = set released \<and> set released = set hosted)
       ''private protocol/retained process accounting mismatch''))"

definition ownership_check :: "('z) store_host_scheme \<Rightarrow> json \<Rightarrow> unit action" where
  "ownership_check h artifact =
     (let receipt = jsub artifact ''ownership''; windows = items_of (jsub receipt ''spawn_windows'');
          children = items_of (jsub receipt ''children''); protocol = jsub receipt ''protocol_log'';
          processes = map (\<lambda>c. jsub c ''process'') children;
          window_of = map_of (rev (map (\<lambda>w. (field w ''window_id'', w)) windows)) in
      act (ensure (all_different (map (\<lambda>w. field w ''window_id'') windows)) ''duplicate ownership window'') (\<lambda>_.
      act (lifted (windows_check artifact windows processes)) (\<lambda>_.
      act (lifted (children_check artifact window_of [] children)) (\<lambda>_.
      act (if protocol = JNull then ret None else act (read_bytes h protocol) (\<lambda>data. ret (Some data))) (\<lambda>log.
      if field artifact ''result'' \<noteq> str ''PASS'' then ret ()
      else
        act (ensure (windows \<noteq> [] \<and> children \<noteq> [] \<and> list_all (\<lambda>w. field w ''state'' = str ''closed'') windows)
          ''PASS lacks complete closed native ownership'') (\<lambda>_.
        if jsub (jsub (jsub artifact ''descriptor'') ''recipe'') ''ownership_protocol'' = JNull then ret ()
        else (case log of
            Some bytes \<Rightarrow>
              act (ensure (list_ex (\<lambda>w. field w ''protocol'' = str ''dossier-quint-private-pipes/v1'') windows)
                ''collector lacks private ownership protocol'') (\<lambda>_.
              lifted (protocol_check h bytes (hosted_pids window_of children)))
          | None \<Rightarrow> lifted (Inl (Inconsistent ''collector lacks private ownership protocol'')))))))))"

subsection \<open>Executions\<close>

definition execution_directory :: "json \<Rightarrow> pystr" where
  "execution_directory artifact =
     v4_base @ str ''/executions/'' @ drop 7 (field artifact ''execution_key'') @ [slash] @ field artifact ''attempt_id''"

definition execution_identity_check :: "('z) v4_host_scheme \<Rightarrow> json \<Rightarrow> json \<Rightarrow> v4_error + unit" where
  "execution_identity_check h ref artifact =
     (let descriptor = jsub artifact ''descriptor'' in
      rbind (identity_check h artifact ''artifact_id'' ''execution-artifact'') (\<lambda>_.
      rbind (descriptor_check h descriptor) (\<lambda>_.
      rbind (identity_of h ''execution-key'' descriptor) (\<lambda>k.
      rbind (check_that (jsub artifact ''execution_key'' = JStr k) ''execution key mismatch'') (\<lambda>_.
      rbind (check_that (jsub ref ''execution_key'' = jsub artifact ''execution_key'' \<and>
          jsub ref ''artifact_id'' = jsub artifact ''artifact_id'')
        ''execution reference canonical identities mismatch'') (\<lambda>_.
      rbind (check_that (entry_path ref = execution_directory artifact @ str ''/execution.json'')
        ''execution artifact owner path mismatch'') (\<lambda>_.
      check_that (field artifact ''started_at'' \<le> field artifact ''finished_at'') ''reversed execution interval'')))))))"

definition common_files :: "json \<Rightarrow> json list" where
  "common_files common = items_of (jsub common ''definition_files'') @
     [obj [(''path'', jsub common ''intent_path''), (''hash'', jsub common ''intent_hash'')],
      obj [(''path'', jsub common ''manifest_path''), (''hash'', jsub common ''manifest_hash'')]]"

definition execution_source_check :: "('z) v4_host_scheme \<Rightarrow> json \<Rightarrow> v4_error + unit" where
  "execution_source_check h artifact =
     (let descriptor = jsub artifact ''descriptor''; prior = jsub artifact ''source_before'';
          after = jsub artifact ''source_after''; common = jsub descriptor ''common''; closure = jsub descriptor ''closure'';
          source = by_path (items_of (jsub prior ''files'')) in
      rbind (input_state_check h prior) (\<lambda>_.
      rbind (if after \<noteq> JNull then input_state_check h after else Inr ()) (\<lambda>_.
      rbind (check_that (same_keys [''verified_inputs_policy_hash'', ''inventory_hash''] descriptor prior)
        ''execution source descriptor binding mismatch'') (\<lambda>_.
      rbind (check_that (list_all (\<lambda>e. case source (entry_path e) of None \<Rightarrow> False | Some f \<Rightarrow> py_eq f e)
          (items_of (jsub closure ''files''))) ''closure not contained in original source scan'') (\<lambda>_.
      rbind (effective_closure h (jsub descriptor ''recipe'') prior common) (\<lambda>expected.
      rbind (check_that (py_eq closure expected) ''original execution source closure is incomplete'') (\<lambda>_.
      rbind (each (\<lambda>e. check_that (case source (entry_path e) of None \<Rightarrow> False | Some f \<Rightarrow> jsub f ''hash'' = jsub e ''hash'')
          ''common binding differs from original input inventory'') (common_files common)) (\<lambda>_.
      rbind (check_that (jsub common ''dispatch_hash'' \<noteq> JNull \<longrightarrow>
          (case source dispatch_relative of None \<Rightarrow> False | Some f \<Rightarrow> jsub f ''hash'' = jsub common ''dispatch_hash''))
        ''dispatch binding differs from original source inventory'') (\<lambda>_.
      cache_check h (Some (jsub descriptor ''recipe'')) (Some prior) (jsub descriptor ''build_cache''))))))))))"

definition execution_stream :: "('z) store_host_scheme \<Rightarrow> json \<Rightarrow> string \<Rightarrow> string \<Rightarrow> int list action" where
  "execution_stream h artifact name filename =
     act (ensure (field (jsub artifact name) ''path'' = execution_directory artifact @ [slash] @ str filename)
       ''execution stream owner path mismatch'') (\<lambda>_. read_bytes h (jsub artifact name))"

definition log_check :: "json \<Rightarrow> int list \<Rightarrow> int list \<Rightarrow> int list \<Rightarrow> v4_error + unit" where
  "log_check artifact out err raw =
     rbind (raw_log out err (jsub artifact ''termination'') (field artifact ''result'')) (\<lambda>expected.
     rbind (check_that (raw = expected) ''raw output differs from exact captured streams/termination'') (\<lambda>_.
     rbind (check_that (clean_streams out err raw \<or> unfinished (field artifact ''result''))
       ''invalid stream grammar with normal result'') (\<lambda>_.
     check_that (jsub artifact ''marker_matched'' =
         JBool (marker_found (jsub (jsub artifact ''descriptor'') ''recipe'') out err raw))
       ''recorded marker result differs from raw bytes'')))"

definition attachments_check :: "('z) store_host_scheme \<Rightarrow> json \<Rightarrow> unit action" where
  "attachments_check h artifact =
     (let attachments = items_of (jsub artifact ''attachments'') in
      act (lifted (sorted_by (\<lambda>e. [entry_path e]) attachments)) (\<lambda>_.
      each_act (\<lambda>e.
        act (ensure (starts_with (entry_path e) (execution_directory artifact @ str ''/attachments/''))
          ''attachment has foreign execution owner'') (\<lambda>_.
        act (read_bytes h e) (\<lambda>_. ret ()))) attachments))"

definition implementation_files :: "json \<Rightarrow> json list" where
  "implementation_files producer =
     map (\<lambda>e. obj [(''path'', JStr (drop 15 (entry_path e))), (''hash'', jsub e ''hash'')])
       (filter (\<lambda>e. entry_kind e = str ''file'' \<and> starts_with (entry_path e) (str ''implementation/''))
         (items_of (jsub producer ''files'')))"

definition find_tool :: "json \<Rightarrow> pystr \<Rightarrow> json option" where
  "find_tool tools name = find (\<lambda>t. field t ''id'' = name) (items_of tools)"

definition producer_check :: "('z) v4_host_scheme \<Rightarrow> json \<Rightarrow> v4_error + unit" where
  "producer_check h artifact = (case find_tool (jsub (jsub artifact ''descriptor'') ''toolchain'') producer_id of
       None \<Rightarrow> Inl (Inconsistent ''execution has no producer identity'')
     | Some producer \<Rightarrow>
         (let files = implementation_files producer in
          rbind (check_that (files \<noteq> []) ''producer implementation binding mismatch'') (\<lambda>_.
          rbind (identity_of h ''producer-implementation'' (JArr files)) (\<lambda>d.
          check_that (jsub (jsub artifact ''producer'') ''implementation_hash'' = JStr d)
            ''producer implementation binding mismatch''))))"

definition clean_exit :: json where
  "clean_exit = obj [(''exit_code'', JInt 0), (''signal'', JNull), (''timed_out'', JBool False), (''cancelled'', JBool False)]"

definition result_check :: "json \<Rightarrow> int list \<Rightarrow> int list \<Rightarrow> int list \<Rightarrow> v4_error + unit" where
  "result_check artifact out err raw =
     (let descriptor = jsub artifact ''descriptor''; termination = jsub artifact ''termination'';
          text_ok = (stream_text out err raw \<noteq> None); matched = marker_found (jsub descriptor ''recipe'') out err raw in
      if field artifact ''result'' = str ''PASS'' then
        rbind (check_that (text_ok \<and> matched) ''PASS invalid UTF-8 or absent marker'') (\<lambda>_.
        rbind (check_that (py_eq termination clean_exit) ''PASS did not actually terminate normally with exit zero'') (\<lambda>_.
        rbind (check_that (truthy (jsub (jsub artifact ''source_before'') ''clean'') \<and>
            py_eq (jsub artifact ''source_after'') (jsub artifact ''source_before''))
          ''PASS unstable or dirty execution inputs'') (\<lambda>_.
        check_that (py_eq (jsub artifact ''toolchain_after'') (jsub descriptor ''toolchain'') \<and>
            py_eq (jsub artifact ''environment_after'') (jsub descriptor ''environment'') \<and>
            py_eq (jsub artifact ''build_cache_after'') (jsub descriptor ''build_cache''))
          ''PASS missing or changed tool/environment/cache endpoint'')))
      else if field artifact ''result'' = str ''FAIL'' then
        rbind (check_that (text_ok \<and> normal_end termination) ''FAIL without actual normal command result'') (\<lambda>_.
        check_that (jsub termination ''exit_code'' \<noteq> JInt 0 \<or> \<not> matched) ''FAIL contradicts zero exit and marker'')
      else Inr ())"

definition endpoint_check :: "('z) v4_host_scheme \<Rightarrow> json \<Rightarrow> v4_error + unit" where
  "endpoint_check h artifact =
     rbind (if jsub artifact ''toolchain_after'' \<noteq> JNull
            then tools_check h None None None (items_of (jsub artifact ''toolchain_after'')) else Inr ()) (\<lambda>_.
     rbind (if jsub artifact ''environment_after'' \<noteq> JNull
            then environment_check h None (jsub artifact ''environment_after'') else Inr ()) (\<lambda>_.
     cache_check h None None (jsub artifact ''build_cache_after'')))"

definition owned_paths :: "json \<Rightarrow> json \<Rightarrow> pystr list" where
  "owned_paths ref artifact =
     [entry_path ref, field (jsub artifact ''stdout'') ''path'', field (jsub artifact ''stderr'') ''path'',
      field (jsub artifact ''raw_output'') ''path''] @ map entry_path (items_of (jsub artifact ''attachments''))"

definition ownership_inventory :: "('z) store_host_scheme \<Rightarrow> json \<Rightarrow> json \<Rightarrow> unit action" where
  "ownership_inventory h ref artifact =
     (let protocol = jsub (jsub artifact ''ownership'') ''protocol_log'' in
      if protocol = JNull then owned_tree h (execution_directory artifact) (owned_paths ref artifact)
      else act (ensure (starts_with (entry_path protocol) (execution_directory artifact @ str ''/attachments/''))
             ''ownership protocol log has foreign execution owner'') (\<lambda>_.
           owned_tree h (execution_directory artifact) (owned_paths ref artifact @ [entry_path protocol])))"

definition note_artifact :: "json \<Rightarrow> json \<Rightarrow> json action" where
  "note_artifact ref artifact r =
     (Inr artifact, r\<lparr>known_artifacts := dset (known_artifacts r) (entry_path ref) (ref, artifact)\<rparr>)"

definition execution_checks :: "('z) store_host_scheme \<Rightarrow> json \<Rightarrow> json \<Rightarrow> json action" where
  "execution_checks h ref artifact =
     act (lifted (execution_identity_check h ref artifact)) (\<lambda>_.
     act (lifted (execution_source_check h artifact)) (\<lambda>_.
     act (execution_stream h artifact ''stdout'' ''stdout.bin'') (\<lambda>out.
     act (execution_stream h artifact ''stderr'' ''stderr.bin'') (\<lambda>err.
     act (execution_stream h artifact ''raw_output'' ''raw.log'') (\<lambda>raw.
     act (lifted (log_check artifact out err raw)) (\<lambda>_.
     act (attachments_check h artifact) (\<lambda>_.
     act (ownership_check h artifact) (\<lambda>_.
     act (lifted (producer_check h artifact)) (\<lambda>_.
     act (lifted (result_check artifact out err raw)) (\<lambda>_.
     act (lifted (endpoint_check h artifact)) (\<lambda>_.
     act (ownership_inventory h ref artifact) (\<lambda>_.
     ret artifact))))))))))))"

definition checked_execution :: "('z) store_host_scheme \<Rightarrow> json \<Rightarrow> json action" where
  "checked_execution h ref =
     act (read_json h execution_ref_shape execution_artifact_shape ref) (execution_checks h ref)"

definition fresh_execution :: "('z) store_host_scheme \<Rightarrow> json \<Rightarrow> json action" where
  "fresh_execution h ref = act (checked_execution h ref) (note_artifact ref)"

definition execution :: "('z) store_host_scheme \<Rightarrow> json \<Rightarrow> json action" where
  "execution h ref r = (case map_of (known_artifacts r) (entry_path ref) of
       Some (saved, artifact) \<Rightarrow>
         if py_eq saved ref then (Inr artifact, r) else (Inl (Inconsistent ''conflicting execution reference''), r)
     | None \<Rightarrow> fresh_execution h ref r)"

subsection \<open>Observations\<close>

text \<open>The owner path of a receipt; the dot of the regular expression in \<^verbatim>\<open>check.json\<close> stands for any
  character but a line feed.\<close>

definition receipt_name :: "pystr \<Rightarrow> bool" where
  "receipt_name s \<longleftrightarrow> length s = 10 \<and> take 5 s = str ''check'' \<and> s ! 5 \<noteq> 10 \<and> drop 6 s = str ''json''"

definition receipt_owner :: "pystr \<Rightarrow> (pystr \<times> pystr \<times> pystr) option" where
  "receipt_owner p = (case split_on slash p of
       [a, b, c, runs, run, observations, claim, request, name] \<Rightarrow>
         if join [slash] [a, b, c] = v4_base \<and> runs = str ''runs'' \<and> observations = str ''observations'' \<and>
            run \<noteq> [] \<and> list_all (\<lambda>x. hex_digit x \<or> x = 45) run \<and> claim \<noteq> [] \<and> request \<noteq> [] \<and> receipt_name name
         then Some (run, claim, request) else None
     | _ \<Rightarrow> None)"

definition uuid_shape :: shape where
  "uuid_shape = Obj [(''run_id'', Base KUuid)]"

definition observation_binding_check :: "('z) v4_host_scheme \<Rightarrow> json \<Rightarrow> json \<Rightarrow> json \<Rightarrow> v4_error + unit" where
  "observation_binding_check h ref receipt request =
     (let directory = before_last slash (entry_path ref) in
      case receipt_owner (entry_path ref) of
        None \<Rightarrow> Inl (Inconsistent ''observation check owner path mismatch'')
      | Some (run, claim, identifier) \<Rightarrow>
          rbind (valid h uuid_shape (obj [(''run_id'', JStr run)])) (\<lambda>_.
          rbind (check_that (claim = field request ''claim_id'' \<and> identifier = field request ''request_id'')
            ''observation request owner mismatch'') (\<lambda>_.
          rbind (check_that (entry_path (jsub receipt ''request'') = directory @ str ''/request.json'')
            ''observation request path mismatch'') (\<lambda>_.
          rbind (check_that (same_keys [''policy_path'', ''policy_hash''] request (jsub request ''common''))
            ''observation common policy mismatch'') (\<lambda>_.
          rbind (check_that (all_different (map (\<lambda>s. field s ''slot_id'') (items_of (jsub request ''slots''))))
            ''duplicate observation request slot'') (\<lambda>_.
          rbind (check_that (field request ''created_at'' \<le> field receipt ''started_at'' \<and>
              field receipt ''started_at'' \<le> field receipt ''finished_at'') ''observation checker interval contradiction'') (\<lambda>_.
          rbind (input_state_check h (jsub receipt ''source_before'')) (\<lambda>_.
          rbind (if jsub receipt ''source_after'' \<noteq> JNull then input_state_check h (jsub receipt ''source_after'')
                 else Inr ()) (\<lambda>_.
          tools_check h None None None (items_of (jsub receipt ''toolchain'')))))))))))"

definition checker_stream :: "('z) store_host_scheme \<Rightarrow> pystr \<Rightarrow> json \<Rightarrow> string \<Rightarrow> bool action" where
  "checker_stream h directory receipt name =
     act (ensure (entry_path (jsub receipt name) = directory @ [slash] @ str (name @ ''.bin''))
       ''checker output has foreign owner/name'') (\<lambda>_.
     act (read_bytes h (jsub receipt name)) (\<lambda>data. ret (utf8_decode data \<noteq> None)))"

definition member_of :: "pystr \<Rightarrow> json \<Rightarrow> json" where
  "member_of claim slot = obj [(''claim_id'', JStr claim), (''slot_id'', jsub slot ''slot_id''), (''tool'', jsub slot ''tool'')]"

definition has_member :: "json \<Rightarrow> json \<Rightarrow> bool" where
  "has_member artifact m \<longleftrightarrow>
     list_ex (\<lambda>x. py_eq m x) (items_of (jsub (jsub artifact ''descriptor'') ''members''))"

definition requested_slot :: "('z) store_host_scheme \<Rightarrow> json \<Rightarrow> json \<Rightarrow> unit action" where
  "requested_slot h request slot =
     act (execution h (jsub slot ''execution'')) (\<lambda>artifact.
     act (ensure (field artifact ''result'' = str ''PASS'') ''observation requested nonpassing physical execution'') (\<lambda>_.
     act (ensure (py_eq (jsub (jsub artifact ''descriptor'') ''common'') (jsub request ''common'') \<and>
         jsub (jsub (jsub artifact ''descriptor'') ''recipe'') ''recipe_id'' = jsub slot ''recipe_id'')
       ''observation request execution definition mismatch'') (\<lambda>_.
     ensure (has_member artifact (member_of (field request ''claim_id'') slot))
       ''observation request member outside original descriptor'')))"

definition response_check :: "('z) v4_host_scheme \<Rightarrow> json \<Rightarrow> json \<Rightarrow> json \<Rightarrow> v4_error + unit" where
  "response_check h request request_hash response =
     rbind (valid h observation_response_shape response) (\<lambda>_.
     rbind (check_that (same_keys [''request_id''] response request \<and>
         py_eq (jsub response ''request_hash'') request_hash \<and> same_keys [''claim_id''] response request)
       ''observation response request identity mismatch'') (\<lambda>_.
     rbind (check_that (map (\<lambda>s. jsub s ''slot_id'') (items_of (jsub response ''slots'')) =
         map (\<lambda>s. jsub s ''slot_id'') (items_of (jsub request ''slots'')))
       ''observation response missing/extra/reordered slots'') (\<lambda>_.
     check_that (field request ''created_at'' \<le> field response ''started_at'' \<and>
         field response ''started_at'' \<le> field response ''finished_at'') ''observation response interval invalid'')))"

definition retained_response :: "('z) v4_host_scheme \<Rightarrow> json \<Rightarrow> json \<Rightarrow> int list \<Rightarrow> v4_error + json" where
  "retained_response h receipt request data =
     rbind (parsed h data) (\<lambda>response.
     rbind (response_check h request (jsub (jsub receipt ''request'') ''hash'') response) (\<lambda>_.
     rbind (check_that (field receipt ''started_at'' \<le> field response ''started_at'' \<and>
         field response ''started_at'' \<le> field response ''finished_at'' \<and>
         field response ''finished_at'' \<le> field receipt ''finished_at'') ''response/check interval contradiction'') (\<lambda>_.
     Inr response)))"

definition read_response :: "('z) store_host_scheme \<Rightarrow> pystr \<Rightarrow> json \<Rightarrow> json \<Rightarrow> json option action" where
  "read_response h directory receipt request =
     (let ref = jsub receipt ''response'' in
      if ref = JNull then ret None
      else
        act (ensure (entry_path ref = directory @ str ''/response.json'') ''observation response owner mismatch'') (\<lambda>_.
        act (read_bytes h ref) (\<lambda>data.
        case retained_response h receipt request data of
          Inr response \<Rightarrow> ret (Some response)
        | Inl e \<Rightarrow> if unfinished (field receipt ''result'') then ret None else lifted (Inl e))))"

definition slot_results :: "json \<Rightarrow> pystr list" where
  "slot_results response = map (\<lambda>s. field s ''result'') (items_of (jsub response ''slots''))"

definition aggregate_result :: "json option \<Rightarrow> pystr option" where
  "aggregate_result response = (case response of None \<Rightarrow> None | Some v \<Rightarrow> Some (
       if List.member (slot_results v) (str ''FAIL'') then str ''FAIL''
       else if List.member (slot_results v) (str ''ERROR'') then str ''ERROR'' else str ''PASS''))"

definition usable_receipt :: "json \<Rightarrow> json option \<Rightarrow> bool \<Rightarrow> bool" where
  "usable_receipt receipt response streams_ok \<longleftrightarrow> streams_ok \<and> response \<noteq> None \<and>
     Some (field receipt ''result'') = aggregate_result response \<and>
     py_eq (jsub receipt ''termination'') clean_exit \<and>
     truthy (jsub (jsub receipt ''source_before'') ''clean'') \<and> jsub receipt ''source_after'' \<noteq> JNull \<and>
     truthy (jsub (jsub receipt ''source_after'') ''clean'') \<and>
     py_eq (jsub receipt ''source_before'') (jsub receipt ''source_after'')"

type_synonym observed = "json \<times> json \<times> json option \<times> bool"

definition note_check :: "json \<Rightarrow> observed \<Rightarrow> observed action" where
  "note_check ref o' r = (Inr o', r\<lparr>known_checks := dset (known_checks r) (entry_path ref) (ref, o')\<rparr>)"

definition checked_observation :: "('z) store_host_scheme \<Rightarrow> json \<Rightarrow> observed action" where
  "checked_observation h ref =
     (let directory = before_last slash (entry_path ref) in
      act (read_json h file_ref_shape observation_check_shape ref) (\<lambda>receipt.
      act (read_json h file_ref_shape observation_request_shape (jsub receipt ''request'')) (\<lambda>request.
      act (lifted (observation_binding_check h ref receipt request)) (\<lambda>_.
      act (checker_stream h directory receipt ''stdout'') (\<lambda>out_ok.
      act (checker_stream h directory receipt ''stderr'') (\<lambda>err_ok.
      act (each_act (requested_slot h request) (items_of (jsub request ''slots''))) (\<lambda>_.
      act (read_response h directory receipt request) (\<lambda>response.
      let usable = usable_receipt receipt response (out_ok \<and> err_ok) in
      act (ensure (field receipt ''result'' = str ''PASS'' \<or> field receipt ''result'' = str ''FAIL'' \<longrightarrow> usable)
        ''assessed observation has invalid transport, endpoints or response aggregate'') (\<lambda>_.
      ret (receipt, request, response, usable))))))))))"

definition fresh_observation :: "('z) store_host_scheme \<Rightarrow> json \<Rightarrow> observed action" where
  "fresh_observation h ref = act (checked_observation h ref) (note_check ref)"

definition observation :: "('z) store_host_scheme \<Rightarrow> json \<Rightarrow> observed action" where
  "observation h ref r = (case map_of (known_checks r) (entry_path ref) of
       Some (saved, known) \<Rightarrow>
         if py_eq saved ref then (Inr known, r)
         else (Inl (Inconsistent ''conflicting observation receipt reference''), r)
     | None \<Rightarrow> fresh_observation h ref r)"

definition response_slot :: "json option \<Rightarrow> pystr \<Rightarrow> json option" where
  "response_slot response slot_id = (case response of None \<Rightarrow> None | Some v \<Rightarrow>
     find (\<lambda>s. field s ''slot_id'' = slot_id) (items_of (jsub v ''slots'')))"

definition same_source_check :: "json \<Rightarrow> json \<Rightarrow> v4_error + unit" where
  "same_source_check receipt artifact =
     (let descriptor = jsub artifact ''descriptor''; source = jsub receipt ''source_before'';
          files = by_path (items_of (jsub source ''files''));
          producer = find_tool (jsub descriptor ''toolchain'') producer_id;
          checker_producer = find_tool (jsub receipt ''toolchain'') producer_id in
      rbind (check_that (same_keys [''inventory_hash'', ''verified_inputs_policy_hash''] source descriptor)
        ''observation source inventory differs from actual execution'') (\<lambda>_.
      rbind (check_that (list_all (\<lambda>e. case files (entry_path e) of None \<Rightarrow> False | Some f \<Rightarrow> py_eq f e)
          (items_of (jsub (jsub descriptor ''closure'') ''files'')))
        ''observation source closure differs from actual execution'') (\<lambda>_.
      check_that (case (producer, checker_producer) of (Some p, Some q) \<Rightarrow> py_eq p q | _ \<Rightarrow> False)
        ''observation producer differs from actual execution'')))"

definition observation_outcome :: "json \<Rightarrow> json option \<Rightarrow> pystr \<Rightarrow> bool \<Rightarrow> json \<Rightarrow> v4_error + pystr \<times> json option"
where
  "observation_outcome receipt response slot_id usable artifact = (case response_slot response slot_id of
       Some slot \<Rightarrow>
         if usable then
           rbind (if field slot ''result'' = str ''PASS'' \<or> field slot ''result'' = str ''FAIL''
                  then same_source_check receipt artifact else Inr ()) (\<lambda>_.
           Inr (field slot ''result'', Some slot))
         else rbind (check_that (unfinished (field receipt ''result''))
                ''observation receipt has no valid member assessment'') (\<lambda>_.
              Inr (field receipt ''result'', Some slot))
     | None \<Rightarrow> rbind (check_that (unfinished (field receipt ''result''))
           ''observation receipt has no valid member assessment'') (\<lambda>_. Inr (field receipt ''result'', None)))"

subsection \<open>The retained history\<close>

text \<open>What the history reports without raising.\<close>

datatype remark = HistoryError nat v4_error | UnaccountedAttempt pystr pystr

definition selected_members :: "json \<Rightarrow> json list" where
  "selected_members event = filter (\<lambda>m. jsub m ''claim_id'' = jsub event ''claim_id'' \<and>
     jsub m ''slot_id'' = jsub event ''slot_id'') (items_of (jsub event ''members''))"

definition execution_event :: "json \<Rightarrow> json option \<Rightarrow> v4_error + unit" where
  "execution_event event artifact =
     rbind (check_that (jsub event ''claim_id'' = JNull \<and> jsub event ''slot_id'' = JNull \<and>
         jsub event ''observation'' = JNull \<and> jsub event ''indeterminate_owner'' = JNull)
       ''execution event carries observation/owner fields'') (\<lambda>_.
     rbind (check_that (jsub event ''execution'' \<noteq> JNull \<or> field event ''result'' \<noteq> str ''PASS'')
       ''PASS history has no physical receipt'') (\<lambda>_.
     check_that (case artifact of None \<Rightarrow> True | Some a \<Rightarrow> field a ''result'' = field event ''result'')
       ''history physical result contradiction''))"

definition observation_event :: "('z) store_host_scheme \<Rightarrow> json \<Rightarrow> json option \<Rightarrow> unit action" where
  "observation_event h event artifact =
     act (ensure (length (selected_members event) = 1 \<and> jsub event ''indeterminate_owner'' = JNull)
       ''observation history selected member mismatch'') (\<lambda>_.
     act (ensure (jsub event ''observation'' \<noteq> JNull \<or> field event ''result'' \<noteq> str ''PASS'')
       ''PASS history has no observation receipt'') (\<lambda>_.
     if jsub event ''observation'' = JNull then ret ()
     else
       act (observation h (jsub event ''observation'')) (\<lambda>(receipt, request, response, usable).
       act (ensure (jsub request ''claim_id'' = jsub event ''claim_id'' \<and>
           (case filter (\<lambda>s. jsub s ''slot_id'' = jsub event ''slot_id'') (items_of (jsub request ''slots'')) of
              [s] \<Rightarrow> py_eq (jsub s ''execution'') (jsub event ''execution'') \<and>
                jsub s ''tool'' = jsub (hd (selected_members event)) ''tool''
            | _ \<Rightarrow> False)) ''history observation original request mismatch'') (\<lambda>_.
       act (lifted (observation_outcome receipt response (field event ''slot_id'') usable
           (case artifact of Some a \<Rightarrow> a | None \<Rightarrow> JNull))) (\<lambda>(result, _).
       ensure (result = field event ''result'') ''history observation member result contradiction'')))))"

definition pending_match :: "json \<Rightarrow> json \<Rightarrow> bool" where
  "pending_match event item \<longleftrightarrow>
     same_keys [''execution_key'', ''attempt_id'', ''members'', ''claim_id'', ''slot_id''] item event"

definition indeterminate_event :: "('z) store_host_scheme \<Rightarrow> json \<Rightarrow> unit action" where
  "indeterminate_event h event =
     (let owner_ref = jsub event ''indeterminate_owner'' in
      act (ensure (unfinished (field event ''result'') \<and> owner_ref \<noteq> JNull \<and> jsub event ''observation'' = JNull)
        ''indeterminate history shape contradiction'') (\<lambda>_.
      act (read_json h file_ref_shape owner_shape owner_ref) (\<lambda>owner.
      act (ensure (entry_path owner_ref =
          v4_base @ str ''/recovered-owners/'' @ field owner ''owner_id'' @ str ''.json'')
        ''recovered owner immutable path mismatch'') (\<lambda>_.
      ensure (length (filter (pending_match event) (items_of (jsub owner ''pending_results''))) = 1)
        ''indeterminate history lacks original PendingResult''))))"

definition history_event :: "('z) store_host_scheme \<Rightarrow> json \<Rightarrow> unit action" where
  "history_event h event =
     act (if jsub event ''execution'' = JNull then ret None
          else act (execution h (jsub event ''execution'')) (\<lambda>artifact.
            act (ensure (jsub artifact ''execution_key'' = jsub event ''execution_key'' \<and>
                jsub artifact ''attempt_id'' = jsub event ''attempt_id'' \<and>
                py_eq (jsub (jsub artifact ''descriptor'') ''members'') (jsub event ''members''))
              ''history execution original membership mismatch'') (\<lambda>_. ret (Some artifact)))) (\<lambda>artifact.
     if jsub event ''kind'' = jtext ''execution'' then lifted (execution_event event artifact)
     else if jsub event ''kind'' = jtext ''observation'' then observation_event h event artifact
     else indeterminate_event h event)"

definition prior_pass :: "json list \<Rightarrow> json \<Rightarrow> bool" where
  "prior_pass events event \<longleftrightarrow>
     (let prior = filter (\<lambda>e. jsub e ''kind'' = jtext ''execution'' \<and>
        py_eq (jsub e ''execution'') (jsub event ''execution'') \<and>
        jsub e ''execution_key'' = jsub event ''execution_key'' \<and> jsub e ''attempt_id'' = jsub event ''attempt_id'') events
      in prior \<noteq> [] \<and> field (last prior) ''result'' = str ''PASS'')"

definition sequence_name :: "nat \<Rightarrow> pystr" where
  "sequence_name i = (let d = decimal (int i) in replicate (20 - length d) 48 @ d @ str ''.json'')"

definition history_dir :: pystr where
  "history_dir = v4_base @ str ''/history''"

definition last_or_null :: "json list \<Rightarrow> json" where
  "last_or_null refs = (if refs = [] then JNull else last refs)"

text \<open>One file of the history: its event and the reference that later events and runs hold to it.\<close>

definition chain_entry :: "('z) store_host_scheme \<Rightarrow> nat \<Rightarrow> pystr \<Rightarrow> json list \<Rightarrow> (json \<times> json) action" where
  "chain_entry h i name refs =
     act (ensure (name = sequence_name i) ''unknown entry or noncontiguous retained history'') (\<lambda>_.
     act (read_file h (history_dir @ [slash] @ name) True) (\<lambda>data.
     act (lifted (parsed h data)) (\<lambda>event.
     act (lifted (valid h history_event_shape event)) (\<lambda>_.
     act (lifted (identity_check h event ''event_id'' ''history-event'')) (\<lambda>_.
     act (lifted (members_check (jsub event ''members''))) (\<lambda>_.
     act (ensure (jsub event ''sequence'' = JInt (int i) \<and> py_eq (jsub event ''previous'') (last_or_null refs))
       ''history chain sequence/previous contradiction'') (\<lambda>_.
     ret (event, obj [(''sequence'', JInt (int i)), (''event_id'', jsub event ''event_id''),
       (''path'', JStr (history_dir @ [slash] @ name)), (''hash'', JStr (byte_hash h data))]))))))))"

definition judged_event :: "('z) store_host_scheme \<Rightarrow> json list \<Rightarrow> json \<Rightarrow> unit action" where
  "judged_event h events event =
     act (history_event h event) (\<lambda>_.
     ensure (jsub event ''kind'' = jtext ''observation'' \<longrightarrow> prior_pass events event)
       ''observation history precedes actual physical PASS'')"

fun history_loop :: "('z) store_host_scheme \<Rightarrow> nat \<Rightarrow> pystr list \<Rightarrow> json list \<times> json list \<times> remark list \<Rightarrow>
    (json list \<times> json list \<times> remark list) action" where
  "history_loop h i [] s = ret s"
| "history_loop h i (name # names) (refs, events, errors) =
     act (chain_entry h i name refs) (\<lambda>(event, ref).
     act (attempted (judged_event h events event)) (\<lambda>verdict.
     history_loop h (Suc i) names
       (refs @ [ref],
        (case verdict of Inr _ \<Rightarrow> events @ [event] | Inl _ \<Rightarrow> events),
        (case verdict of Inr _ \<Rightarrow> errors | Inl e \<Rightarrow> errors @ [HistoryError i e]))))"

definition accounted :: "json list \<Rightarrow> (pystr \<times> pystr) list" where
  "accounted events = map (\<lambda>e. (drop 7 (field e ''execution_key''), field e ''attempt_id''))
     (filter (\<lambda>e. jsub e ''execution'' \<noteq> JNull \<or> jsub e ''kind'' = jtext ''indeterminate'') events)"

definition attempts_dir :: pystr where
  "attempts_dir = v4_base @ str ''/executions''"

fun attempts_of_key :: "('z) store_host_scheme \<Rightarrow> json list \<Rightarrow> pystr \<Rightarrow> pystr list \<Rightarrow> remark list action" where
  "attempts_of_key h events key [] = ret []"
| "attempts_of_key h events key (name # names) =
     (let directory = attempts_dir @ [slash] @ key @ [slash] @ name in
      act (answered (\<lambda>t. disk_listing h t directory)) (\<lambda>found.
      act (ensure (case found of Listing _ \<Rightarrow> True | _ \<Rightarrow> False) ''unsafe committed attempt directory'') (\<lambda>_.
      act (answered (\<lambda>t. disk_exists h t (directory @ str ''/execution.json''))) (\<lambda>committed.
      act (attempts_of_key h events key names) (\<lambda>rest.
      ret ((if committed \<and> \<not> List.member (accounted events) (key, name) then [UnaccountedAttempt key name] else [])
           @ rest))))))"

fun attempts_of :: "('z) store_host_scheme \<Rightarrow> json list \<Rightarrow> pystr list \<Rightarrow> remark list action" where
  "attempts_of h events [] = ret []"
| "attempts_of h events (key # keys) =
     act (answered (\<lambda>t. disk_listing h t (attempts_dir @ [slash] @ key))) (\<lambda>found.
     case found of
       Listing names \<Rightarrow>
         act (ensure (hex64 key) ''unknown execution-key entry'') (\<lambda>_.
         act (attempts_of_key h events key names) (\<lambda>here.
         act (attempts_of h events keys) (\<lambda>rest. ret (here @ rest))))
     | _ \<Rightarrow> lifted (Inl (Inconsistent ''unknown execution-key entry'')))"

definition unaccounted_attempts :: "('z) store_host_scheme \<Rightarrow> json list \<Rightarrow> remark list action" where
  "unaccounted_attempts h events =
     act (answered (\<lambda>t. disk_listing h t attempts_dir)) (\<lambda>found. case found of
       NoListing \<Rightarrow> ret []
     | LinkListing \<Rightarrow> lifted (Inl (Inconsistent ''execution index is symlink''))
     | NotListing \<Rightarrow> lifted (Inl (PyError OSError))
     | Listing keys \<Rightarrow> attempts_of h events keys)"

definition history_files :: "('z) store_host_scheme \<Rightarrow> pystr list action" where
  "history_files h =
     act (answered (\<lambda>t. disk_listing h t history_dir)) (\<lambda>found. case found of
       NoListing \<Rightarrow> ret []
     | Listing names \<Rightarrow> ret (sort names)
     | _ \<Rightarrow> lifted (Inl (Inconsistent ''history directory unsafe'')))"

text \<open>\<^verbatim>\<open>_history\<close>: the references of the whole chain, the events that hold, and what is wrong.\<close>

definition history :: "('z) store_host_scheme \<Rightarrow> json \<Rightarrow> (json list \<times> json list \<times> remark list) action" where
  "history h captured =
     (let held = items_of (jsub captured ''events'') in
      act (lifted (valid h history_view_shape captured)) (\<lambda>_.
      act (history_files h) (\<lambda>names.
      act (history_loop h 1 names ([], [], [])) (\<lambda>(refs, events, errors).
      act (ensure (py_eq (JArr held) (JArr (take (length held) refs)) \<and>
          py_eq (jsub captured ''head'') (last_or_null held))
        ''captured history is not consistent prefix of supplied full store'') (\<lambda>_.
      act (unaccounted_attempts h events) (\<lambda>lost.
      ret (refs, events, errors @ lost)))))))"

section \<open>Actions that return\<close>

lemma act_Inr [simp]: "act m f r = (Inr b, s) \<longleftrightarrow> (\<exists>a q. m r = (Inr a, q) \<and> f a q = (Inr b, s))"
  by (auto simp: act_def split: prod.splits sum.splits)

lemma ret_iff [simp]: "ret a r = (v, s) \<longleftrightarrow> v = Inr a \<and> s = r"
  by (auto simp: ret_def)

lemma lifted_iff [simp]: "lifted m r = (v, s) \<longleftrightarrow> m = v \<and> s = r"
  by (auto simp: lifted_def)

lemma attempted_iff [simp]: "attempted m r = (v, s) \<longleftrightarrow> (\<exists>u. m r = (u, s) \<and> v = Inr u)"
  by (auto simp: attempted_def split: prod.splits)

text \<open>What an action does to the reader, whether it returns or raises.\<close>

definition keeps :: "(reader \<Rightarrow> reader \<Rightarrow> bool) \<Rightarrow> 'a action \<Rightarrow> bool" where
  "keeps R m \<longleftrightarrow> (\<forall>r. R r (snd (m r)))"

lemma keepsD: "keeps R m \<Longrightarrow> m r = (v, s) \<Longrightarrow> R r s"
  by (metis keeps_def snd_conv)

locale reader_order =
  fixes R :: "reader \<Rightarrow> reader \<Rightarrow> bool"
  assumes same: "R r r"
    and steps: "R r q \<Longrightarrow> R q s \<Longrightarrow> R r s"
    and ticked: "R r (tick r)"
    and inode_noted: "R r (snd (note_inode i p r))"
    and digest_noted: "R r (snd (note_digest p d r))"
begin

lemma keeps_act:
  assumes "keeps R m" "\<And>a r q. m r = (Inr a, q) \<Longrightarrow> R q (snd (f a q))"
  shows "keeps R (act m f)"
  unfolding keeps_def
proof
  fix r
  obtain v q where m: "m r = (v, q)" by force
  then have "R r q" using assms(1) keepsD by blast
  then show "R r (snd (act m f r))"
    using m assms(2) by (cases v) (auto simp: act_def intro: steps)
qed

lemma keeps_bind: "keeps R m \<Longrightarrow> (\<And>a. keeps R (f a)) \<Longrightarrow> keeps R (act m f)"
  by (rule keeps_act) (auto simp: keeps_def)

lemma keeps_ret: "keeps R (ret a)"
  by (simp add: keeps_def ret_def same)

lemma keeps_lifted: "keeps R (lifted m)"
  by (simp add: keeps_def lifted_def same)

lemma keeps_attempted: "keeps R m \<Longrightarrow> keeps R (attempted m)"
  by (simp add: keeps_def attempted_def split: prod.split) (metis snd_conv)

lemma keeps_looked: "keeps R (looked f)"
  by (simp add: keeps_def looked_def ticked)

lemma keeps_answered: "keeps R (answered f)"
  by (simp add: keeps_def answered_def ticked)

lemma keeps_note_inode: "keeps R (note_inode i p)"
  by (simp add: keeps_def inode_noted)

lemma keeps_note_digest: "keeps R (note_digest p d)"
  by (simp add: keeps_def digest_noted)

lemmas keeps_basic = keeps_ret keeps_lifted keeps_attempted keeps_looked keeps_answered keeps_note_inode
  keeps_note_digest

lemma keeps_each: "(\<And>x. keeps R (f x)) \<Longrightarrow> keeps R (each_act f xs)"
  by (induction xs) (auto intro!: keeps_bind keeps_basic)

lemma keeps_if: "keeps R m \<Longrightarrow> keeps R n \<Longrightarrow> keeps R (if b then m else n)"
  by simp

lemma keeps_regular_walk: "keeps R (regular_walk h ps)"
  by (induction ps) (auto intro!: keeps_bind keeps_basic)

lemma keeps_regular_file: "keeps R (regular_file h p b)"
  unfolding regular_file_def by (intro keeps_bind keeps_basic keeps_regular_walk)

lemma keeps_read_file: "keeps R (read_file h p b)"
  unfolding read_file_def by (auto intro!: keeps_bind keeps_basic keeps_regular_file split: prod.split)

lemma keeps_read_ref: "keeps R (read_ref h sh ref)"
  unfolding read_ref_def by (intro keeps_bind keeps_basic keeps_read_file)

lemma keeps_read_json: "keeps R (read_json h refshape sh ref)"
  unfolding read_json_def by (intro keeps_bind keeps_basic keeps_read_ref)

lemma keeps_owned_tree: "keeps R (owned_tree h directory expected)"
  unfolding owned_tree_def
  by (auto intro!: keeps_bind keeps_basic keeps_each keeps_regular_file split: prod.split)

lemma keeps_ownership: "keeps R (ownership_check h artifact)"
  unfolding ownership_check_def Let_def
  by (auto intro!: keeps_bind keeps_basic keeps_read_ref split: option.split)

lemma keeps_checked_execution: "keeps R (checked_execution h ref)"
  unfolding checked_execution_def execution_checks_def execution_stream_def attachments_check_def ownership_inventory_def Let_def
  by (intro keeps_bind keeps_basic keeps_if keeps_each keeps_read_json keeps_read_ref keeps_ownership keeps_owned_tree)

end

text \<open>Beyond the files, what is remembered of artifacts and receipts.\<close>

definition execution_facts :: "('z) store_host_scheme \<Rightarrow> json \<Rightarrow> json \<Rightarrow> bool" where
  "execution_facts h ref artifact \<longleftrightarrow>
     valid h execution_artifact_shape artifact = Inr artifact \<and>
     execution_identity_check h ref artifact = Inr () \<and> execution_source_check h artifact = Inr () \<and>
     producer_check h artifact = Inr () \<and> endpoint_check h artifact = Inr () \<and>
     (\<exists>out err raw.
        jsub (jsub artifact ''stdout'') ''hash'' = JStr (byte_hash h out) \<and>
        jsub (jsub artifact ''stderr'') ''hash'' = JStr (byte_hash h err) \<and>
        jsub (jsub artifact ''raw_output'') ''hash'' = JStr (byte_hash h raw) \<and>
        log_check artifact out err raw = Inr () \<and> result_check artifact out err raw = Inr ())"

lemma read_ref_hash:
  "read_ref h sh ref r = (Inr data, s) \<Longrightarrow> jsub ref ''hash'' = JStr (byte_hash h data)"
  by (auto simp: read_ref_def)

lemma read_json_valid: "read_json h refshape sh ref r = (Inr v, s) \<Longrightarrow> valid h sh v = Inr v"
  by (auto simp: read_json_def) (auto simp: validate_def)

lemma execution_stream_hash:
  "execution_stream h artifact name filename r = (Inr data, s) \<Longrightarrow>
   jsub (jsub artifact name) ''hash'' = JStr (byte_hash h data)"
  by (auto simp: execution_stream_def dest: read_ref_hash)

lemma checked_execution_facts: "checked_execution h ref r = (Inr a, s) \<Longrightarrow> execution_facts h ref a"
  unfolding checked_execution_def execution_checks_def execution_facts_def
  by (auto dest!: execution_stream_hash read_json_valid)

locale store_order = reader_order R for R :: "reader \<Rightarrow> reader \<Rightarrow> bool" +
  fixes h :: "('z) store_host_scheme"
  assumes artifact_noted: "execution_facts h ref a \<Longrightarrow> R r (snd (note_artifact ref a r))"
    and check_noted: "R r (snd (note_check ref ob r))"
begin

lemma keeps_note_check: "keeps R (note_check ref ob)"
  by (simp add: keeps_def check_noted)

lemma keeps_fresh_execution: "keeps R (fresh_execution h ref)"
  unfolding fresh_execution_def
  by (intro keeps_act keeps_checked_execution artifact_noted) (rule checked_execution_facts)

lemma keeps_execution: "keeps R (execution h ref)"
  unfolding keeps_def execution_def
  using keeps_fresh_execution by (auto simp: keeps_def same split: option.split)

lemma keeps_requested_slot: "keeps R (requested_slot h request slot)"
  unfolding requested_slot_def by (intro keeps_bind keeps_basic keeps_execution)

lemma keeps_read_response: "keeps R (read_response h directory receipt request)"
  unfolding read_response_def Let_def
  by (auto intro!: keeps_bind keeps_basic keeps_read_ref split: sum.split)

lemma keeps_checked_observation: "keeps R (checked_observation h ref)"
  unfolding checked_observation_def checker_stream_def Let_def
  by (intro keeps_bind keeps_basic keeps_read_json keeps_read_ref keeps_each keeps_requested_slot keeps_read_response)

lemma keeps_fresh_observation: "keeps R (fresh_observation h ref)"
  unfolding fresh_observation_def by (intro keeps_bind keeps_checked_observation keeps_note_check)

lemma keeps_observation: "keeps R (observation h ref)"
  unfolding keeps_def observation_def
  using keeps_fresh_observation by (auto simp: keeps_def same split: option.split)

lemma keeps_history_event: "keeps R (history_event h event)"
  unfolding history_event_def observation_event_def indeterminate_event_def Let_def
  by (auto intro!: keeps_bind keeps_basic keeps_if keeps_execution keeps_observation keeps_read_json split: prod.split)

lemma keeps_chain_entry: "keeps R (chain_entry h i name refs)"
  unfolding chain_entry_def by (intro keeps_bind keeps_basic keeps_read_file)

lemma keeps_history_loop: "keeps R (history_loop h i names s)"
proof (induction names arbitrary: i s)
  case (Cons name names)
  obtain refs events errors where s: "s = (refs, events, errors)" using prod_cases3 by blast
  show ?case unfolding s history_loop.simps judged_event_def
    by (auto intro!: keeps_bind keeps_basic keeps_chain_entry keeps_history_event Cons.IH split: prod.split)
qed (cases s, simp add: keeps_ret)

lemma keeps_attempts_of_key: "keeps R (attempts_of_key h events key names)"
  by (induction names) (auto simp: Let_def intro!: keeps_bind keeps_basic)

lemma keeps_attempts_of: "keeps R (attempts_of h events keys)"
  by (induction keys) (auto intro!: keeps_bind keeps_basic keeps_attempts_of_key split: listing.split)

lemma keeps_history: "keeps R (history h captured)"
  unfolding history_def history_files_def unaccounted_attempts_def Let_def
  by (auto intro!: keeps_bind keeps_basic keeps_history_loop keeps_attempts_of split: prod.split listing.split)

end

section \<open>A session with one reader\<close>

text \<open>What a reader has seen stays: no digest and no inode it knows is ever replaced.\<close>

definition extends :: "reader \<Rightarrow> reader \<Rightarrow> bool" where
  "extends r s \<longleftrightarrow> map_of (known_digests r) \<subseteq>\<^sub>m map_of (known_digests s) \<and>
     map_of (known_inodes r) \<subseteq>\<^sub>m map_of (known_inodes s)"

definition sound_reader :: "('z) store_host_scheme \<Rightarrow> reader \<Rightarrow> bool" where
  "sound_reader h r \<longleftrightarrow>
     (\<forall>p ref a. map_of (known_artifacts r) p = Some (ref, a) \<longrightarrow> execution_facts h ref a)"

definition stays_sound :: "('z) store_host_scheme \<Rightarrow> reader \<Rightarrow> reader \<Rightarrow> bool" where
  "stays_sound h r s \<longleftrightarrow> (sound_reader h r \<longrightarrow> sound_reader h s)"

lemma noted_simps [simp]:
  "known_digests (tick r) = known_digests r" "known_inodes (tick r) = known_inodes r"
  "known_artifacts (tick r) = known_artifacts r"
  by (simp_all add: tick_def)

interpretation stable: store_order extends h for h :: "('z) store_host_scheme"
proof
  fix r q s :: reader and i p d ref a ob
  show "extends r r" by (simp add: extends_def)
  show "extends r q \<Longrightarrow> extends q s \<Longrightarrow> extends r s" by (auto simp: extends_def intro: map_le_trans)
  show "extends r (tick r)" by (simp add: extends_def)
  show "extends r (snd (note_inode i p r))"
    by (auto simp: extends_def note_inode_def map_of_dset map_le_def split: option.split)
  show "extends r (snd (note_digest p d r))"
    by (auto simp: extends_def note_digest_def map_of_dset map_le_def split: option.split)
  show "extends r (snd (note_artifact ref a r))" by (simp add: extends_def note_artifact_def)
  show "extends r (snd (note_check ref ob r))" by (simp add: extends_def note_check_def)
qed

interpretation sound: store_order "stays_sound h" h for h :: "('z) store_host_scheme"
proof
  fix r q s :: reader and i p d ref a ob
  show "stays_sound h r r" by (simp add: stays_sound_def)
  show "stays_sound h r q \<Longrightarrow> stays_sound h q s \<Longrightarrow> stays_sound h r s" by (simp add: stays_sound_def)
  show "stays_sound h r (tick r)" by (simp add: stays_sound_def sound_reader_def)
  show "stays_sound h r (snd (note_inode i p r))"
    by (auto simp: stays_sound_def sound_reader_def note_inode_def split: option.split)
  show "stays_sound h r (snd (note_digest p d r))"
    by (auto simp: stays_sound_def sound_reader_def note_digest_def split: option.split)
  show "stays_sound h r (snd (note_artifact ref a r))" if "execution_facts h ref a"
    using that by (auto simp: stays_sound_def sound_reader_def note_artifact_def map_of_dset split: if_splits)
  show "stays_sound h r (snd (note_check ref ob r))"
    by (simp add: stays_sound_def sound_reader_def note_check_def)
qed

text \<open>The calls an assessment makes of a reader, whatever comes of them.\<close>

inductive session :: "('z) store_host_scheme \<Rightarrow> reader \<Rightarrow> reader \<Rightarrow> bool" for h where
  start: "session h r r"
| reading: "session h r s \<Longrightarrow> session h r (snd (read_file h p output s))"
| referring: "session h r s \<Longrightarrow> session h r (snd (read_ref h sh ref s))"
| executing: "session h r s \<Longrightarrow> session h r (snd (execution h ref s))"
| observing: "session h r s \<Longrightarrow> session h r (snd (observation h ref s))"
| recalling: "session h r s \<Longrightarrow> session h r (snd (history h captured s))"

lemma session_extends: "session h r s \<Longrightarrow> extends r s"
proof (induction rule: session.induct)
  case (start r) then show ?case by (rule stable.same)
next
  case (reading r s p b)
  then show ?case using stable.keeps_read_file [of h p b] stable.steps by (auto simp: keeps_def)
next
  case (referring r s sh ref)
  then show ?case using stable.keeps_read_ref [of h sh ref] stable.steps by (auto simp: keeps_def)
next
  case (executing r s ref)
  then show ?case using stable.keeps_execution [of h ref] stable.steps by (auto simp: keeps_def)
next
  case (observing r s ref)
  then show ?case using stable.keeps_observation [of h ref] stable.steps by (auto simp: keeps_def)
next
  case (recalling r s captured)
  then show ?case using stable.keeps_history [of h captured] stable.steps by (auto simp: keeps_def)
qed

lemma session_sound: "session h r s \<Longrightarrow> stays_sound h r s"
proof (induction rule: session.induct)
  case (start r) then show ?case by (rule sound.same)
next
  case (reading r s p b)
  then show ?case using sound.keeps_read_file [of h h p b] sound.steps [of h] by (auto simp: keeps_def)
next
  case (referring r s sh ref)
  then show ?case using sound.keeps_read_ref [of h h sh ref] sound.steps [of h] by (auto simp: keeps_def)
next
  case (executing r s ref)
  then show ?case using sound.keeps_execution [of h ref] sound.steps [of h] by (auto simp: keeps_def)
next
  case (observing r s ref)
  then show ?case using sound.keeps_observation [of h ref] sound.steps [of h] by (auto simp: keeps_def)
next
  case (recalling r s captured)
  then show ?case using sound.keeps_history [of h captured] sound.steps [of h] by (auto simp: keeps_def)
qed

lemma extends_digest:
  "extends r s \<Longrightarrow> map_of (known_digests r) p = Some d \<Longrightarrow> map_of (known_digests s) p = Some d"
  unfolding extends_def map_le_def by (metis domI)

lemma extends_inode:
  "extends r s \<Longrightarrow> map_of (known_inodes r) i = Some p \<Longrightarrow> map_of (known_inodes s) i = Some p"
  unfolding extends_def map_le_def by (metis domI)

text \<open>What a read that returns has noted.\<close>

definition opened_as :: "('z) store_host_scheme \<Rightarrow> pystr \<Rightarrow> int list \<Rightarrow> int \<times> int \<Rightarrow> bool" where
  "opened_as h p data i \<longleftrightarrow> (\<exists>m prior after. disk_open h m p = Some (prior, data, after) \<and> inode_of prior = i)"

lemma note_inode_Inr: "note_inode i p r = (Inr p, s) \<Longrightarrow> map_of (known_inodes s) i = Some p"
  by (auto simp: note_inode_def map_of_dset split: option.splits)

lemma note_digest_Inr:
  "note_digest p d r = (Inr u, s) \<Longrightarrow> map_of (known_digests s) p = Some d \<and>
     (\<forall>e. map_of (known_digests r) p = Some e \<longrightarrow> e = d) \<and> known_inodes s = known_inodes r"
  by (auto simp: note_digest_def map_of_dset split: option.splits if_splits)

lemma looked_Inr: "looked f r = (Inr a, s) \<longleftrightarrow> f (moment r) = Some a \<and> s = tick r"
  by (auto simp: looked_def split: option.splits)

lemma read_file_known:
  assumes "read_file h p b r = (Inr data, s)"
  shows "map_of (known_digests s) p = Some (byte_hash h data) \<and>
    (\<forall>d. map_of (known_digests r) p = Some d \<longrightarrow> d = byte_hash h data) \<and>
    (\<exists>i. opened_as h p data i \<and> map_of (known_inodes s) i = Some p)"
proof -
  obtain prior q1 q2 opened after q4 where steps: "regular_file h p b r = (Inr prior, q1)"
      "note_inode (inode_of prior) p q1 = (Inr p, q2)"
      "disk_open h (moment q2) p = Some (opened, data, after)" "inode_of opened = inode_of prior"
      "note_digest p (byte_hash h data) (tick q2) = (Inr (), s)"
    using assms by (auto simp: read_file_def looked_Inr)
  have grown: "extends r (tick q2)"
    using keepsD [OF stable.keeps_regular_file steps(1)] keepsD [OF stable.keeps_note_inode steps(2)]
      stable.ticked stable.steps by blast
  have noted: "map_of (known_digests s) p = Some (byte_hash h data)"
      "\<And>d. map_of (known_digests (tick q2)) p = Some d \<Longrightarrow> d = byte_hash h data"
      "map_of (known_inodes s) (inode_of prior) = Some p"
    using note_digest_Inr [OF steps(5)] note_inode_Inr [OF steps(2)] by auto
  have "opened_as h p data (inode_of prior)" using steps(3,4) by (auto simp: opened_as_def)
  then show ?thesis using noted extends_digest [OF grown] by blast
qed

text \<open>Within one assessment the store is read consistently, whatever it is made to answer from one
  access to the next: a path that is read twice gives contents of the same digest, and two paths never
  share an inode, so that no file stands in for another and none changes between the checks
  that rest on it.\<close>

theorem session_reads_consistent:
  assumes "read_file h p b r = (Inr x, s)" "session h s t" "read_file h q c t = (Inr y, u)"
  shows "\<exists>i j. opened_as h p x i \<and> opened_as h q y j \<and>
    (p = q \<longrightarrow> byte_hash h x = byte_hash h y) \<and> (p \<noteq> q \<longrightarrow> i \<noteq> j)"
proof -
  obtain i where i: "opened_as h p x i" "map_of (known_inodes s) i = Some p"
    and x: "map_of (known_digests s) p = Some (byte_hash h x)"
    using read_file_known [OF assms(1)] by blast
  obtain j where j: "opened_as h q y j" "map_of (known_inodes u) j = Some q"
    and y: "\<forall>d. map_of (known_digests t) q = Some d \<longrightarrow> d = byte_hash h y"
    using read_file_known [OF assms(3)] by blast
  have st: "extends s t" using session_extends [OF assms(2)] .
  have "extends s u" using st keepsD [OF stable.keeps_read_file assms(3)] stable.steps by blast
  then have "map_of (known_inodes u) i = Some p" using i(2) by (rule extends_inode)
  then have apart: "p \<noteq> q \<longrightarrow> i \<noteq> j" using j(2) by auto
  have "map_of (known_digests t) p = Some (byte_hash h x)"
    using st x by (rule extends_digest)
  then have same: "p = q \<longrightarrow> byte_hash h x = byte_hash h y" using y by auto
  show ?thesis by (intro exI [of _ i] exI [of _ j] conjI i(1) j(1) same apart)
qed

definition plain_stat :: "int \<Rightarrow> file_stat" where
  "plain_stat i = \<lparr>st_dev = 1, st_ino = i, st_mode = 33188, st_nlink = 1, st_size = 1, st_mtime_ns = 0, st_ctime_ns = 0\<rparr>"

definition dir_stat :: file_stat where
  "dir_stat = (plain_stat 0)\<lparr>st_mode := 16877\<rparr>"

text \<open>A quiet file system that holds the given files and the directories on their paths.\<close>

definition quiet_stat :: "(pystr \<times> int list) list \<Rightarrow> pystr \<Rightarrow> file_stat" where
  "quiet_stat files p = plain_stat (int (length (takeWhile (\<lambda>(q, _). q \<noteq> p) files)) + 1)"

definition below_dir :: "(pystr \<times> int list) list \<Rightarrow> pystr \<Rightarrow> pystr list" where
  "below_dir files p = filter (\<lambda>q. starts_with q (p @ [slash])) (map fst files)"

definition quiet_store :: "(int list \<Rightarrow> pystr) \<Rightarrow> (pystr \<times> int list) list \<Rightarrow> store_host" where
  "quiet_store sha files =
     \<lparr>sha256 = sha, unicode_digit = \<lambda>_. None, scan_depth = 100, check_depth = 100,
      disk_lstat = \<lambda>_ p. if map_of files p \<noteq> None then Some (quiet_stat files p)
        else if below_dir files p \<noteq> [] then Some dir_stat else None,
      disk_open = \<lambda>_ p. map_option (\<lambda>data. (quiet_stat files p, data, quiet_stat files p)) (map_of files p),
      disk_listing = \<lambda>_ p. if below_dir files p = [] then NoListing
        else Listing (dedupe (map (\<lambda>q. hd (split_on slash (drop (length p + 1) q))) (below_dir files p))),
      disk_exists = \<lambda>_ p. map_of files p \<noteq> None,
      disk_walk = \<lambda>_ p. [([], below_dir files p)]\<rparr>"

definition two_files :: store_host where
  "two_files = quiet_store (\<lambda>_. replicate 64 48) [(str ''d/a'', [1]), (str ''d/b'', [2])]"

theorem session_reads_consistent_witness:
  "\<exists>i j. opened_as two_files (str ''d/a'') [1] i \<and> opened_as two_files (str ''d/b'') [2] j \<and>
    (str ''d/a'' = str ''d/b'' \<longrightarrow> byte_hash two_files [1] = byte_hash two_files [2]) \<and>
    (str ''d/a'' \<noteq> str ''d/b'' \<longrightarrow> i \<noteq> j)"
proof -
  let ?one = "read_file two_files (str ''d/a'') True new_reader"
  have "fst ?one = Inr [1]" by code_simp
  then have one: "?one = (Inr [1], snd ?one)" by (simp add: prod_eq_iff)
  let ?two = "read_file two_files (str ''d/b'') True (snd ?one)"
  have "fst ?two = Inr [2]" by code_simp
  then have two: "?two = (Inr [2], snd ?two)" by (simp add: prod_eq_iff)
  show ?thesis by (rule session_reads_consistent [OF one session.start two])
qed

section \<open>The protocol log\<close>

fun about :: "int \<Rightarrow> protocol_event \<Rightarrow> bool" where
  "about g (Owned k) \<longleftrightarrow> k = g"
| "about g (Released k) \<longleftrightarrow> k = g"

text \<open>What the log has said of each process group so far.\<close>

definition log_state :: "protocol_event list \<Rightarrow> int list \<times> int list \<Rightarrow> bool" where
  "log_state es s \<longleftrightarrow> set (snd s) \<subseteq> set (fst s) \<and> (\<forall>g. filter (about g) es =
     (if g \<in> set (snd s) then [Owned g, Released g] else if g \<in> set (fst s) then [Owned g] else []))"

lemma log_state_step:
  assumes "log_state es s" "protocol_step e s = Inr t"
  shows "log_state (es @ [e]) t"
proof (cases e)
  case (Owned g)
  then have "t = (g # fst s, snd s)" "g \<notin> set (fst s)" using assms(2) by (cases s; auto split: if_splits)+
  then show ?thesis using assms(1) Owned by (auto simp: log_state_def)
next
  case (Released g)
  then have "t = (fst s, g # snd s)" "g \<in> set (fst s)" "g \<notin> set (snd s)"
    using assms(2) by (cases s; auto split: if_splits)+
  then show ?thesis using assms(1) Released by (auto simp: log_state_def)
qed

lemma protocol_run_state:
  "log_state es s \<Longrightarrow> protocol_run h ls s = Inr t \<Longrightarrow>
   \<exists>es'. traverse (protocol_message h) ls = Inr es' \<and> log_state (es @ es') t"
proof (induction ls arbitrary: es s)
  case (Cons l ls)
  then obtain e q where e: "protocol_message h l = Inr e" "protocol_step e s = Inr q" "protocol_run h ls q = Inr t"
    by auto
  from Cons.IH [OF log_state_step [OF Cons.prems(1) e(2)] e(3)] e(1) show ?case by auto
qed simp

text \<open>The log of the private ownership protocol that a passing execution rests on accounts for every process
  group: each group hosted on behalf of the recipe is registered once and later released once, in
  this order, no group is left registered, and no group is mentioned that is not a retained child.\<close>

theorem protocol_log_balanced:
  assumes "protocol_check h bytes hosted = Inr ()"
  shows "\<exists>events. traverse (protocol_message h) (butlast (split_on 10 bytes)) = Inr events \<and>
    (\<forall>g. filter (about g) events = (if g \<in> set hosted then [Owned g, Released g] else []))"
proof -
  obtain owned released where run: "protocol_run h (butlast (split_on 10 bytes)) ([], []) = Inr (owned, released)"
    and same: "set owned = set released" "set released = set hosted"
    using assms by (auto simp: protocol_check_def)
  have "log_state [] ([], [])" by (simp add: log_state_def)
  from protocol_run_state [OF this run] obtain events
    where "traverse (protocol_message h) (butlast (split_on 10 bytes)) = Inr events" "log_state events (owned, released)"
    by auto
  then show ?thesis using same by (auto simp: log_state_def)
qed

definition protocol_line :: "string \<Rightarrow> int \<Rightarrow> int list" where
  "protocol_line event g =
     (case canonical (obj [(''event'', jtext event), (''pgid'', JInt g)]) of Inr bs \<Rightarrow> bs @ [10] | Inl _ \<Rightarrow> [])"

definition sample_log :: "int list" where
  "sample_log = protocol_line ''owned'' 7 @ protocol_line ''owned'' 12 @ protocol_line ''released'' 7 @
     protocol_line ''released'' 12"

theorem protocol_log_balanced_witness:
  "\<exists>events. traverse (protocol_message sample_host) (butlast (split_on 10 sample_log)) = Inr events \<and>
    (\<forall>g. filter (about g) events = (if g \<in> set [12, 7] then [Owned g, Released g] else []))"
proof (rule protocol_log_balanced)
  show "protocol_check sample_host sample_log [12, 7] = Inr ()" by code_simp
qed

section \<open>Executions that passed\<close>

lemma py_eq_fields_member:
  "py_eq_fields fs gs \<Longrightarrow> (k, v) \<in> set fs \<Longrightarrow> \<exists>w. map_of gs k = Some w \<and> py_eq v w"
  by (induction fs) (auto split: option.splits)

lemma py_eq_field:
  assumes "py_eq v (JObj gs)" "jsub v k \<noteq> JNull \<or> (\<exists>fs. v = JObj fs \<and> map_of fs (str k) \<noteq> None)"
  shows "\<exists>w. map_of gs (str k) = Some w \<and> py_eq (jsub v k) w"
proof -
  obtain fs where fs: "v = JObj fs" "py_eq_fields fs gs" using assms(1) by (auto simp: py_eq.simps [of v] split: json.splits)
  then obtain x where "map_of fs (str k) = Some x" using assms(2) by (auto simp: jget_def split: option.splits)
  then show ?thesis using py_eq_fields_member [OF fs(2), of "str k" x] fs(1) by (auto simp: jget_def dest: map_of_SomeD)
qed

lemma conforms_member:
  assumes "conforms ud (Obj decls) v" "(k, sh) \<in> set decls" "\<not> optional_key k"
  shows "\<exists>fs x. v = JObj fs \<and> map_of fs (str k) = Some x \<and> jsub v k = x \<and> conforms ud sh x"
proof -
  have key: "bare_key k = k" using assms(3) by (rule bare_key_required)
  obtain fs where fs: "v = JObj fs"
      "\<And>k sh x. (k, sh) \<in> set decls \<Longrightarrow> map_of fs (str (bare_key k)) = Some x \<Longrightarrow> conforms ud sh x"
      "\<And>k sh. (k, sh) \<in> set decls \<Longrightarrow> map_of fs (str (bare_key k)) = None \<Longrightarrow> optional_key k"
    using assms(1) by (blast elim: conforms_objE)
  obtain x where "map_of fs (str k) = Some x" using fs(3) [OF assms(2)] assms(3) key by (cases "map_of fs (str k)") auto
  then show ?thesis using fs(1) fs(2) [OF assms(2)] key by (auto simp: jget_def)
qed

lemma falsy: "py_eq v (JBool False) \<Longrightarrow> \<not> truthy v"
  by (cases v) (auto simp: py_eq.simps split: if_splits)

lemma clean_exit_ends:
  assumes "conforms ud termination_shape t" "py_eq t clean_exit"
  shows "normal_end t \<and> jsub t ''exit_code'' = JInt 0"
proof -
  have present: "\<exists>fs. t = JObj fs \<and> map_of fs (str k) \<noteq> None"
    if "k \<in> {''exit_code'', ''signal'', ''timed_out'', ''cancelled''}" for k
    using that conforms_member [OF assms(1) [unfolded termination_shape_def], of k]
    by (fastforce simp: optional_key_def)
  note same = py_eq_field [OF assms(2) [unfolded clean_exit_def obj_def] disjI2 [OF present]]
  have code: "py_eq (jsub t ''exit_code'') (JInt 0)" using same [of "''exit_code''"] by simp
  have "conforms ud (Nullable (Base KExit)) (jsub t ''exit_code'')"
    using conforms_member [OF assms(1) [unfolded termination_shape_def], of "''exit_code''" "Nullable (Base KExit)"]
    by (auto simp: optional_key_def)
  then have "jsub t ''exit_code'' = JNull \<or> (\<exists>i. jsub t ''exit_code'' = JInt i)"
    by (auto elim!: conforms_nullableE conforms_baseE simp: validate_base_def int_within_def split: json.splits)
  then have zero: "jsub t ''exit_code'' = JInt 0" using code by (auto simp: py_eq.simps)
  have "jsub t ''signal'' = JNull" using same [of "''signal''"] by simp
  moreover have "py_eq (jsub t ''timed_out'') (JBool False)" "py_eq (jsub t ''cancelled'') (JBool False)"
    using same [of "''timed_out''"] same [of "''cancelled''"] by simp_all
  then have "\<not> truthy (jsub t ''timed_out'')" "\<not> truthy (jsub t ''cancelled'')" by (simp_all add: falsy)
  ultimately show ?thesis using zero by (simp add: normal_end_def)
qed

lemma artifact_termination:
  assumes "valid h execution_artifact_shape a = Inr a"
  shows "conforms (unicode_digit h) termination_shape (jsub a ''termination'')"
proof -
  obtain decls where decls: "execution_artifact_shape = Named ''ExecutionArtifact'' (Obj decls)"
      "(''termination'', termination_shape) \<in> set decls"
    by (simp add: execution_artifact_shape_def)
  have plain: "bare_key ''termination'' = ''termination''" "\<not> optional_key ''termination''"
    using key_plain [of "''termination''"] by simp_all
  show ?thesis using validated_field [OF assms [unfolded decls(1)] decls(2) plain] by blast
qed

lemma new_reader_sound: "sound_reader h new_reader"
  by (simp add: sound_reader_def new_reader_def)

lemma execution_returned:
  assumes "sound_reader h r" "execution h ref r = (Inr a, s)"
  shows "\<exists>ref'. execution_facts h ref' a"
proof (cases "map_of (known_artifacts r) (entry_path ref)")
  case None
  then obtain q where "checked_execution h ref r = (Inr a, q)"
    using assms(2) by (auto simp: execution_def fresh_execution_def note_artifact_def)
  then show ?thesis using checked_execution_facts by blast
next
  case (Some entry)
  then show ?thesis using assms by (cases entry) (auto simp: execution_def sound_reader_def split: if_splits)
qed

lemma zero_trailer: "str ''--- fv-evidence: exit='' @ decimal 0 @ str '' ---'' @ [10] = str ''--- fv-evidence: exit=0 ---'' @ [10]"
  by code_simp

text \<open>An execution that an assessment accepts as PASS, in whatever order and through whatever other
  calls it came to it, did pass: the bytes behind the recorded hashes are two UTF-8 streams without a line that
  imitates a trailer, followed by the trailer of exit status zero; the marker of the recipe is in
  them; the inputs were clean, and inputs and tools the same before and after; and the execution
  key is the identity of the descriptor.\<close>

theorem passed_execution_earned:
  assumes "session h new_reader r" "execution h ref r = (Inr a, s)" "field a ''result'' = str ''PASS''"
  shows "\<exists>out err raw k.
    jsub (jsub a ''stdout'') ''hash'' = JStr (byte_hash h out) \<and>
    jsub (jsub a ''stderr'') ''hash'' = JStr (byte_hash h err) \<and>
    jsub (jsub a ''raw_output'') ''hash'' = JStr (byte_hash h raw) \<and>
    raw = stream_lines out @ stream_lines err @ str ''--- fv-evidence: exit=0 ---'' @ [10] \<and>
    clean_streams out err raw \<and> marker_found (jsub (jsub a ''descriptor'') ''recipe'') out err raw \<and>
    truthy (jsub (jsub a ''source_before'') ''clean'') \<and> py_eq (jsub a ''source_after'') (jsub a ''source_before'') \<and>
    py_eq (jsub a ''toolchain_after'') (jsub (jsub a ''descriptor'') ''toolchain'') \<and>
    identity_of h ''execution-key'' (jsub a ''descriptor'') = Inr k \<and> jsub a ''execution_key'' = JStr k"
proof -
  have "sound_reader h r" using session_sound [OF assms(1)] new_reader_sound [of h] by (simp add: stays_sound_def)
  then obtain ref' where facts: "execution_facts h ref' a" using execution_returned [OF _ assms(2)] by blast
  then obtain out err raw where streams: "jsub (jsub a ''stdout'') ''hash'' = JStr (byte_hash h out)"
      "jsub (jsub a ''stderr'') ''hash'' = JStr (byte_hash h err)"
      "jsub (jsub a ''raw_output'') ''hash'' = JStr (byte_hash h raw)"
      "log_check a out err raw = Inr ()" "result_check a out err raw = Inr ()"
    by (auto simp: execution_facts_def)
  obtain k where k: "identity_of h ''execution-key'' (jsub a ''descriptor'') = Inr k" "jsub a ''execution_key'' = JStr k"
    using facts by (auto simp: execution_facts_def execution_identity_check_def Let_def)
  have passed: "marker_found (jsub (jsub a ''descriptor'') ''recipe'') out err raw"
      "py_eq (jsub a ''termination'') clean_exit" "truthy (jsub (jsub a ''source_before'') ''clean'')"
      "py_eq (jsub a ''source_after'') (jsub a ''source_before'')"
      "py_eq (jsub a ''toolchain_after'') (jsub (jsub a ''descriptor'') ''toolchain'')"
    using streams(5) assms(3) by (auto simp: result_check_def Let_def)
  have "conforms (unicode_digit h) termination_shape (jsub a ''termination'')"
    using facts artifact_termination by (auto simp: execution_facts_def)
  from clean_exit_ends [OF this passed(2)]
  have "raw = stream_lines out @ stream_lines err @ str ''--- fv-evidence: exit=0 ---'' @ [10]"
    using streams(4) by (auto simp: log_check_def raw_log_def Let_def int_of_def zero_trailer)
  moreover have "clean_streams out err raw" using passed(1) by (simp add: marker_found_def)
  ultimately show ?thesis using streams(1-3) passed k by blast
qed

end
