(* ===== verification/Spec2Isabelle.thy ===== *)
theory Spec2Isabelle
  imports Coverage Pyramid Run_Report Panel_Evidence Lean_Gate Obligation_Check Evidence_Reader
begin

text \<open>
  \<^bold>\<open>What is modelled.\<close> The repository is a toolkit for formal verification by several harnesses and
  models: producers run tools and write evidence records, gates judge what was written, and panels of
  models propose and adjudicate. The development models the deciding parts, which are Python
  scripts that read files and the output of processes and return a verdict:

  \<^item> the inputs a project declares as verified and the snapshot that stands for them
    (\<^verbatim>\<open>scripts/fv_project.py\<close>; \<open>Input_Policy\<close>, \<open>Project\<close>), with the parser of the same file in the
    TypeScript producer (\<^verbatim>\<open>tools/evidence-run.ts\<close>);
  \<^item> Gate B, which judges evidence records against the obligation manifest
    (\<^verbatim>\<open>scripts/check_evidence_records.py\<close>; \<open>Gate_Records\<close> for one record, \<open>Gate_B\<close> for a run), and the
    dashboard that reads the same records (\<^verbatim>\<open>scripts/coverage_dashboard.py\<close>; \<open>Coverage\<close>);
  \<^item> the pyramid runner and its verification plan (\<^verbatim>\<open>scripts/pyramid_run.py\<close>; \<open>Pyramid_Plan\<close>,
    \<open>Pyramid\<close>);
  \<^item> the dispatch manifest several harnesses update at once, and the synthesis input built from it
    (\<^verbatim>\<open>scripts/fv_run.py\<close>; \<open>Run_Manifest\<close>, \<open>Run_Report\<close>);
  \<^item> the contract of the deliberation panel (\<^verbatim>\<open>skills/fv-panel/panel_contract.py\<close>;
    \<open>Panel_Contract\<close>), whose milestone guard consumes Gate B's statuses, and the archiving of
    Gate B's inputs for it with the run of the gate on the archive (\<open>Panel_Evidence\<close>);
  \<^item> the v4 evidence schema (\<^verbatim>\<open>scripts/fv_evidence_v4_schema.py\<close>): the strict JSON reader, canonical bytes
    and digests (\<open>Evidence_Wire\<close>), the interpreter of shapes (\<open>Evidence_Shape\<close>), the table of shapes
    (\<open>Evidence_Records\<close>) and the checks that relate the fields of a value (\<open>Evidence_Sets\<close>);
  \<^item> of the validator of v4 records (\<^verbatim>\<open>scripts/fv_evidence_v4.py\<close>), the checks of one value
    (\<open>Evidence_Checks\<close>) and the reader of the store, with executions, observations and the retained
    history (\<open>Evidence_Reader\<close>);
  \<^item> the axiom audit of Lean projects (\<^verbatim>\<open>scripts/lean_axiom_gate.py\<close>; \<open>Lean_Gate\<close>) and the checker of
    frozen obligations on Quint specifications (\<^verbatim>\<open>scripts/obligation_check.py\<close>;
    \<open>Obligation_Check\<close>).

  \<^bold>\<open>How the code is represented.\<close> Text is a list of code points (\<open>pystr\<close>), a Python call that may
  raise is a sum with the exception on the left (\<open>py_exn + 'a\<close>), \<^verbatim>\<open>json.loads\<close> gives a value of
  \<open>json\<close>, a dictionary the code builds is an association list in insertion order, and each
  message of the code is a constructor that carries what the message quotes. Operations of the
  source are definitions of the same name; a loop is a recursion over what it iterates. Whatever the
  scripts call and do not contain is a parameter: processes (which may depend on the calls before),
  files, git, \<^verbatim>\<open>Path.resolve\<close>, SHA-256, and what Unicode says of code points above ASCII. Where a
  theorem needs a documented fact about one of them, such as that two inputs do not collide under the
  digest, it is a named hypothesis and the witness of the theorem shows an instance.

  \<^bold>\<open>The library.\<close> \<open>FV_Prelude\<close> holds text, results and list idioms, \<open>Py_Json\<close> the JSON values and
  Python's operations on them, \<open>Utf8\<close> the encoding that orders and frames the snapshot. Interfaces are
  locales, each interpreted on the definitions of the code:

  \<^item> \<open>py_dict\<close>: look-up after store, on association lists;
  \<^item> \<open>verified_inputs\<close>: what a selection of input files promises the snapshot, on the policy;
  \<^item> \<open>g2_rule\<close>, \<open>g2_table\<close>, \<open>g2_reader\<close> (theory \<open>Verdicts\<close>): the truth table all gates share (one failure
    fails, every row covered verifies, anything else is incomplete), on Gate B, the dashboard,
    the pyramid and the milestone guard, and the simulation of one reader by another;
  \<^item> \<open>run_invariant\<close>: what every serial step of a run keeps holds of every interleaving, on the record
    of each voice's last command and on the freshness of accepted reports;
  \<^item> \<open>obligation_step\<close>: a check that notes its result and keeps what earlier checks have shown, on
    invariants, witnesses and transitions;
  \<^item> \<open>reader_order\<close> and its extension \<open>store_order\<close>: a relation between the reader of the v4 store before
    and after a call that every primitive access keeps, and so every operation built from them, on
    the files remembered (\<open>stable\<close>) and on the artifacts accepted (\<open>sound\<close>).

  \<^bold>\<open>What the theorems show.\<close>
  \<^item> Gates: a VERIFIED verdict is earned. \<open>Gate_B\<close> and \<open>Gate_Records\<close> prove that every judged claim has
    exactly one record, sound down to the bytes of its artifacts and bound to the stated snapshot,
    intent and manifest; that the verdict does not depend on the order of records, survives
    narrowing and, when it is VERIFIED, names the binding it was made under. \<open>Coverage\<close> proves that the
    dashboard refines the gate's reading of the same inputs. \<open>Pyramid\<close> proves the like for layers
    and commands, the floors down to the commands and sources behind them, and that a failing types
    layer stops everything else. \<open>Lean_Gate\<close> and \<open>Obligation_Check\<close> prove what their zero
    exit status means, and that a pinned definition cannot be exchanged.
  \<^item> Inputs: producer and gate parse every policy alike; the snapshot determines the selected
    files and contents and nothing generated enters it; a target stays inside the project.
  \<^item> Runs: under the lock every interleaving of commands is a serial run, no update is lost, an accepted
    report belongs to the present attempt, and waiting ends.
  \<^item> Panels: untrusted text cannot leave its fence in any prompt, and a milestone passes exactly on
    Gate B's evidence as far as the panel does not dispute it; that evidence is of a stable archive.
  \<^item> The v4 schema: canonical bytes read back and identify a JSON value, domain digests separate labels and
    values, the interpreter decides a declarative notion of shape, and an accepted tool identity or
    run manifest is consistent in what its fields say of one another.
  \<^item> The v4 store: in one session no file changes under a reader and no two paths name one file,
    the tools of a descriptor are exactly the closure of what the recipe names, the ownership log of
    a passing execution balances, and an execution read as PASS rests on the bytes of its streams.

  Where the code falls short of what it says, a theorem states what it does instead, beside the
  component it concerns.

  \<^bold>\<open>Bounds.\<close> Recursions are structural except for \<open>wait_from\<close> (\<open>partial_function\<close>: it need not return when
  the clock stands still, and \<open>wait_returns\<close> proves that it does otherwise) and for these with fuel:
  \<open>digits_of\<close>, given one unit more than the number itself; \<open>walk_up\<close>, given the length of the path;
  \<open>verdict_after\<close>, given the length of the separators it may give back; \<open>scan_value\<close>, given
  one unit more than twice the length of the text (\<open>reading_and_validation_return\<close>); and \<open>check_link\<close>,
  \<open>visit_deps\<close> and \<open>root_visit\<close>, given one unit more than the number of entries or tools, since each
  deeper call visits a new one (\<open>reading_and_validation_return\<close>, \<open>known_walk\<close>, \<open>root_has_bytes_returns\<close>).
  How deeply JSON may nest is a parameter of reading; the recursion limit of the interpreter is
  not modelled elsewhere, so a value that reading accepts near that limit may raise \<^verbatim>\<open>RecursionError\<close>
  in the encoder or in the checks where the model goes on. Python's integers are unbounded and modelled as \<open>int\<close>; the floats of the code (durations, elapsed times) are rationals.

  \<^bold>\<open>Assumptions of the run model.\<close> A harness that writes a file stamps it with the clock the commands
  read; the manifest on disk is one the script wrote, time stamps in it are whole seconds, and files are
  identified by the name the manifest has for them. \<^verbatim>\<open>init\<close> takes no lock and precedes the
  concurrent system; the crash of a process inside the critical section is not a step.

  \<^bold>\<open>Assumptions of the store model.\<close> Every access of the reader may be answered differently: the file system
  is a function of the count of accesses. The listing of a directory tree is one access, although
  \<^verbatim>\<open>os.walk\<close> reads it step by step.

  \<^bold>\<open>Not modelled.\<close> Of the v4 validator, the policy, the assessment that combines executions, observations
  and history into a verdict, the rechecking of observations, the scan of the current sources and
  the dispatch to the schema from Gate B and the dashboard; the guard's mode without an archive;
  the engines that talk to live models (\<^verbatim>\<open>omp_panel.py\<close>, \<^verbatim>\<open>omp_fanout.py\<close>), the migration of old
  project trees, set-up, diagnosis, benchmarks, tool servers and the linters of the repository's own
  documents: most of them are file-system, process and network operations with little logic between.
  Argument parsing, printing and the text of messages are left out throughout.
\<close>

end
